(* ===== verification/Prelude.thy ===== *)
theory Prelude
  imports
    Complex_Main
    "HOL-Library.Char_ord"
    "HOL-Library.List_Lexorder"
    "HOL-Library.Product_Lexorder"
    "HOL-Library.Multiset"
    "HOL-Library.AList"
    "HOL-Library.Sublist"
begin

text \<open>
  The vocabulary shared by every component: Go strings and the functions of package strings
  that the sources call, Go maps with their unspecified iteration order, and sorting.

  A Go \<^verbatim>\<open>string\<close> is its byte sequence, a \<^typ>\<open>string\<close>; the order \<^verbatim>\<open><\<close> on it is the bytewise
  lexicographic order of Go. A Go map is an association list with distinct keys; a range
  loop over it visits the keys in an order chosen by the runtime, which the model takes from
  an argument of type \<open>range_order\<close>.
\<close>

section \<open>Fact collections\<close>

named_theorems range_canon
  "a definition that ranges over Go maps computes the same under every iteration order"

named_theorems string_defs
  "unfolding of the string primitives, for evaluation on literals"

section \<open>Strings\<close>

type_synonym bytes = string

definition has_prefix :: "string \<Rightarrow> string \<Rightarrow> bool" where
  "has_prefix s p = (take (length p) s = p)"

definition has_suffix :: "string \<Rightarrow> string \<Rightarrow> bool" where
  "has_suffix s p = (length p \<le> length s \<and> drop (length s - length p) s = p)"

definition trim_prefix :: "string \<Rightarrow> string \<Rightarrow> string" where
  "trim_prefix s p = (if has_prefix s p then drop (length p) s else s)"

text \<open>strings.IndexByte: \<open>None\<close> is the Go result \<open>-1\<close>.\<close>

fun index_byte :: "string \<Rightarrow> char \<Rightarrow> nat option" where
  "index_byte [] c = None"
| "index_byte (x # xs) c = (if x = c then Some 0 else map_option Suc (index_byte xs c))"

text \<open>strings.Index and strings.Contains.\<close>

fun index_sub :: "string \<Rightarrow> string \<Rightarrow> nat option" where
  "index_sub [] p = (if p = [] then Some 0 else None)"
| "index_sub (x # xs) p =
     (if has_prefix (x # xs) p then Some 0 else map_option Suc (index_sub xs p))"

definition contains_sub :: "string \<Rightarrow> string \<Rightarrow> bool" where
  "contains_sub s p = (index_sub s p \<noteq> None)"

text \<open>strings.LastIndex: the greatest index at which \<open>p\<close> starts.\<close>

fun last_index_sub :: "string \<Rightarrow> string \<Rightarrow> nat option" where
  "last_index_sub [] p = (if p = [] then Some 0 else None)"
| "last_index_sub (x # xs) p =
     (case last_index_sub xs p of
        Some i \<Rightarrow> Some (Suc i)
      | None \<Rightarrow> if has_prefix (x # xs) p then Some 0 else None)"

text \<open>strings.Split by a one-byte separator: always at least one part.\<close>

fun split_byte :: "string \<Rightarrow> char \<Rightarrow> string list" where
  "split_byte [] c = [[]]"
| "split_byte (x # xs) c =
     (if x = c then [] # split_byte xs c
      else (case split_byte xs c of [] \<Rightarrow> [[x]] | p # ps \<Rightarrow> (x # p) # ps))"

text \<open>strings.TrimRight by one byte.\<close>

definition trim_right_byte :: "string \<Rightarrow> char \<Rightarrow> string" where
  "trim_right_byte s c = rev (dropWhile (\<lambda>x. x = c) (rev s))"

definition trim_left_byte :: "string \<Rightarrow> char \<Rightarrow> string" where
  "trim_left_byte s c = dropWhile (\<lambda>x. x = c) s"

text \<open>
  The UTF-8 encodings of the code points with unicode.IsSpace, which strings.TrimSpace
  removes at both ends.
\<close>

definition space_seqs :: "string list" where
  "space_seqs =
     [[CHR 0x20], [CHR 0x09], [CHR 0x0A], [CHR 0x0B], [CHR 0x0C], [CHR 0x0D],
      [CHR 0xC2, CHR 0x85], [CHR 0xC2, CHR 0xA0], [CHR 0xE1, CHR 0x9A, CHR 0x80],
      [CHR 0xE2, CHR 0x80, CHR 0x80], [CHR 0xE2, CHR 0x80, CHR 0x81], [CHR 0xE2, CHR 0x80, CHR 0x82],
      [CHR 0xE2, CHR 0x80, CHR 0x83], [CHR 0xE2, CHR 0x80, CHR 0x84], [CHR 0xE2, CHR 0x80, CHR 0x85],
      [CHR 0xE2, CHR 0x80, CHR 0x86], [CHR 0xE2, CHR 0x80, CHR 0x87], [CHR 0xE2, CHR 0x80, CHR 0x88],
      [CHR 0xE2, CHR 0x80, CHR 0x89], [CHR 0xE2, CHR 0x80, CHR 0x8A], [CHR 0xE2, CHR 0x80, CHR 0xA8],
      [CHR 0xE2, CHR 0x80, CHR 0xA9], [CHR 0xE2, CHR 0x80, CHR 0xAF], [CHR 0xE2, CHR 0x81, CHR 0x9F],
      [CHR 0xE3, CHR 0x80, CHR 0x80]]"

function trim_seqs :: "string list \<Rightarrow> string \<Rightarrow> string" where
  "trim_seqs ps s =
     (case find (\<lambda>p. p \<noteq> [] \<and> has_prefix s p) ps of
        None \<Rightarrow> s
      | Some p \<Rightarrow> trim_seqs ps (drop (length p) s))"
  by pat_completeness auto
termination
proof (relation "measure (\<lambda>(ps, s). length s)")
  fix ps :: "string list" and s p :: string
  assume "find (\<lambda>p. p \<noteq> [] \<and> has_prefix s p) ps = Some p"
  then have "p \<noteq> []" and "has_prefix s p"
    by (auto simp: find_Some_iff)
  then show "((ps, drop (length p) s), (ps, s)) \<in> measure (\<lambda>(ps, s). length s)"
    by (cases s) (auto simp: has_prefix_def)
qed simp

declare trim_seqs.simps [simp del]

definition trim_space :: "string \<Rightarrow> string" where
  "trim_space s = rev (trim_seqs (map rev space_seqs) (rev (trim_seqs space_seqs s)))"

text \<open>strings.ToLower on the ASCII letters, the ones host names and scheme tokens use.\<close>

definition lower_char :: "char \<Rightarrow> char" where
  "lower_char c =
     (let n = of_char c :: nat in if 65 \<le> n \<and> n \<le> 90 then char_of (n + 32) else c)"

definition to_lower :: "string \<Rightarrow> string" where
  "to_lower s = map lower_char s"

lemmas string_evals [string_defs] =
  has_prefix_def has_suffix_def trim_prefix_def contains_sub_def trim_right_byte_def
  trim_left_byte_def

lemma has_prefix_append [simp]: "has_prefix (p @ s) p"
  by (simp add: has_prefix_def)

lemma has_prefix_iff: "has_prefix s p \<longleftrightarrow> (\<exists>t. s = p @ t)"
  by (auto simp: has_prefix_def) (metis append_take_drop_id)

lemma has_suffix_iff: "has_suffix s p \<longleftrightarrow> (\<exists>t. s = t @ p)"
  by (auto simp: has_suffix_def) (metis append_take_drop_id)

lemma index_byte_None [simp]: "index_byte s c = None \<longleftrightarrow> c \<notin> set s"
  by (induction s) auto

lemma index_byte_Some:
  "index_byte s c = Some i \<longleftrightarrow> i < length s \<and> s ! i = c \<and> c \<notin> set (take i s)"
proof (induction s arbitrary: i)
  case Nil
  then show ?case by simp
next
  case (Cons x s)
  then show ?case by (cases i) auto
qed

lemma index_byte_append: "c \<notin> set p \<Longrightarrow> index_byte (p @ c # s) c = Some (length p)"
  by (induction p) auto

lemma split_byte_not_Nil [simp]: "split_byte s c \<noteq> []"
  by (induction s) (auto split: list.splits)

lemma split_byte_no_sep: "c \<notin> set s \<Longrightarrow> split_byte s c = [s]"
  by (induction s) auto

lemma split_byte_append:
  "c \<notin> set p \<Longrightarrow> split_byte (p @ c # s) c = p # split_byte s c"
  by (induction p) (auto split: list.splits)

lemma split_byte_parts: "p \<in> set (split_byte s c) \<Longrightarrow> c \<notin> set p"
  by (induction s arbitrary: p) (auto split: if_splits list.splits)

lemma split_byte_join: "concat (map (\<lambda>p. c # p) (split_byte s c)) = c # s"
  by (induction s) (auto split: list.splits)

lemma length_to_lower [simp]: "length (to_lower s) = length s"
  by (simp add: to_lower_def)

lemma to_lower_append [simp]: "to_lower (s @ t) = to_lower s @ to_lower t"
  by (simp add: to_lower_def)

lemma lower_char_idem [simp]: "lower_char (lower_char c) = lower_char c"
proof -
  have "(of_char (char_of (of_char c + 32 :: nat)) :: nat) = of_char c + 32"
    if "(of_char c :: nat) \<le> 90"
    using that by (simp add: take_bit_eq_mod)
  then show ?thesis by (auto simp: lower_char_def Let_def)
qed

lemma to_lower_idem [simp]: "to_lower (to_lower s) = to_lower s"
  by (simp add: to_lower_def)

section \<open>Go maps and their iteration order\<close>

type_synonym 'v gomap = "(string \<times> 'v) list"

type_synonym range_order = "string list \<Rightarrow> string list \<Rightarrow> string list"

text \<open>
  \<open>\<pi> site ks\<close> is the order in which the range statement at dynamic position \<open>site\<close> visits the
  keys \<open>ks\<close>; the language only promises that every key is visited once.
\<close>

definition range_ok :: "range_order \<Rightarrow> bool" where
  "range_ok \<pi> \<longleftrightarrow> (\<forall>site ks. mset (\<pi> site ks) = mset ks)"

definition canon :: range_order where
  "canon site ks = ks"

definition range_map :: "range_order \<Rightarrow> string list \<Rightarrow> 'v gomap \<Rightarrow> 'v gomap" where
  "range_map \<pi> site m = map (\<lambda>k. (k, the (map_of m k))) (\<pi> site (map fst m))"

text \<open>The loop \<^verbatim>\<open>for _, x := range xs { m[key(x)] = val(x) }\<close> from the empty map.\<close>

definition index_by :: "('a \<Rightarrow> string) \<Rightarrow> ('a \<Rightarrow> 'v) \<Rightarrow> 'a list \<Rightarrow> 'v gomap" where
  "index_by key val xs = fold (\<lambda>x m. AList.update (key x) (val x) m) xs []"

definition has_key :: "'v gomap \<Rightarrow> string \<Rightarrow> bool" where
  "has_key m k = (map_of m k \<noteq> None)"

text \<open>The last element with a given key: what a map filled by a loop holds for that key.\<close>

definition last_with :: "('a \<Rightarrow> string) \<Rightarrow> 'a list \<Rightarrow> string \<Rightarrow> 'a option" where
  "last_with key xs k = find (\<lambda>x. key x = k) (rev xs)"

text \<open>Reading a \<^verbatim>\<open>map[string]bool\<close>: a missing key reads as false.\<close>

definition lookup_bool :: "bool gomap \<Rightarrow> string \<Rightarrow> bool" where
  "lookup_bool m k = (map_of m k = Some True)"

lemma lookup_eqI:
  assumes "\<And>k v. m k = Some v \<longleftrightarrow> m' k = Some v"
  shows "m = m'"
proof
  fix k show "m k = m' k"
    using assms [of k "the (m k)"] assms [of k "the (m' k)"] by (cases "m k"; cases "m' k") auto
qed

lemma range_ok_canon [simp, intro]: "range_ok canon"
  by (simp add: range_ok_def canon_def)

lemma range_ok_mset: "range_ok \<pi> \<Longrightarrow> mset (\<pi> site ks) = mset ks"
  by (simp add: range_ok_def)

lemma find_append_iff: "find P (xs @ ys) = (case find P xs of None \<Rightarrow> find P ys | Some x \<Rightarrow> Some x)"
  by (induction xs) auto

lemma map_of_fold_update:
  "map_of (fold (\<lambda>x m. AList.update (key x) (val x) m) xs m) k =
     (case last_with key xs k of None \<Rightarrow> map_of m k | Some x \<Rightarrow> Some (val x))"
  by (induction xs arbitrary: m)
    (auto simp: last_with_def update_conv' find_append_iff split: option.splits)

lemma distinct_fold_update:
  "distinct (map fst m) \<Longrightarrow>
   distinct (map fst (fold (\<lambda>x m. AList.update (key x) (val x) m) xs m))"
  by (induction xs arbitrary: m) (auto intro: distinct_update)

lemma map_of_index_by: "map_of (index_by key val xs) k = map_option val (last_with key xs k)"
  by (simp add: index_by_def map_of_fold_update split: option.splits)

lemma distinct_index_by [simp, intro]: "distinct (map fst (index_by key val xs))"
  unfolding index_by_def by (rule distinct_fold_update) simp

lemma last_with_Some_D: "last_with key xs k = Some x \<Longrightarrow> x \<in> set xs \<and> key x = k"
  by (auto simp: last_with_def find_Some_iff in_set_conv_nth rev_nth intro: exI [where x = "length xs - Suc _"])

lemma last_with_None_iff: "last_with key xs k = None \<longleftrightarrow> k \<notin> key ` set xs"
  by (auto simp: last_with_def find_None_iff)

lemma has_key_index_by [simp]: "has_key (index_by key val xs) k \<longleftrightarrow> k \<in> key ` set xs"
  by (simp add: has_key_def map_of_index_by last_with_None_iff)

lemma lookup_bool_index_by [simp]:
  "lookup_bool (index_by key (\<lambda>_. True) xs) k \<longleftrightarrow> k \<in> key ` set xs"
proof -
  have "lookup_bool (index_by key (\<lambda>_. True) xs) k \<longleftrightarrow> last_with key xs k \<noteq> None"
    by (auto simp: lookup_bool_def map_of_index_by)
  then show ?thesis by (simp only: last_with_None_iff not_not)
qed

lemma keys_index_by [simp]: "fst ` set (index_by key val xs) = key ` set xs"
proof -
  have "k \<in> fst ` set (index_by key val xs) \<longleftrightarrow> k \<in> key ` set xs" for k
    using has_key_index_by [of key val xs k]
    by (metis has_key_def map_of_eq_None_iff)
  then show ?thesis by blast
qed

lemma in_index_by_iff:
  "(k, v) \<in> set (index_by key val xs) \<longleftrightarrow> (\<exists>x. last_with key xs k = Some x \<and> v = val x)"
  using map_of_eq_Some_iff [OF distinct_index_by [of key val xs], of k v]
  by (auto simp: map_of_index_by)

lemma mset_range_map:
  assumes "range_ok \<pi>" and "distinct (map fst m)"
  shows "mset (range_map \<pi> site m) = mset m"
proof -
  have "mset (range_map \<pi> site m) = image_mset (\<lambda>k. (k, the (map_of m k))) (mset (map fst m))"
    by (simp only: range_map_def mset_map range_ok_mset [OF assms(1)])
  also have "\<dots> = mset (map (\<lambda>kv. (fst kv, the (map_of m (fst kv)))) m)"
    by (simp add: comp_def image_mset.compositionality)
  also have "map (\<lambda>kv. (fst kv, the (map_of m (fst kv)))) m = m"
    by (rule map_idI) (auto simp: assms(2))
  finally show ?thesis .
qed

lemma set_range_map [simp]:
  "range_ok \<pi> \<Longrightarrow> distinct (map fst m) \<Longrightarrow> set (range_map \<pi> site m) = set m"
  using mset_range_map [of \<pi> m site] by (metis set_mset_mset)

lemma distinct_fst_range_map:
  assumes "range_ok \<pi>" and "distinct (map fst m)"
  shows "distinct (map fst (range_map \<pi> site m))"
proof -
  have "mset (map fst (range_map \<pi> site m)) = mset (map fst m)"
    using mset_range_map [OF assms] by simp
  then show ?thesis using assms(2) mset_eq_imp_distinct_iff by blast
qed

section \<open>Sorting\<close>

text \<open>
  sort.Strings and sort.Slice leave a permutation of their argument that is sorted by the
  key. Where the keys are distinct this determines the result, whatever the algorithm.
\<close>

lemma sort_key_Nil_iff [simp]: "sort_key f xs = [] \<longleftrightarrow> xs = []"
  by (metis length_0_conv length_sort)

lemma filter_eq_singleton: "distinct zs \<Longrightarrow> k \<in> set zs \<Longrightarrow> filter (\<lambda>x. x = k) zs = [k]"
  by (induction zs) (auto simp: filter_empty_conv)

lemma sort_key_unique:
  assumes "mset xs = mset ys" and "distinct (map f xs)"
  shows "sort_key f xs = sort_key f ys"
proof (rule properties_for_sort_key)
  show "mset (sort_key f ys) = mset xs" using assms(1) by simp
  show "sorted (map f (sort_key f ys))" by simp
  fix k assume "k \<in> set (sort_key f ys)"
  then have "k \<in> set xs" using mset_eq_setD [OF assms(1)] by simp
  have inj: "inj_on f (set xs)" and dx: "distinct xs" using assms(2) by (auto simp: distinct_map)
  have dy: "distinct ys" and sy: "set ys = set xs"
    using assms(1) dx mset_eq_imp_distinct_iff mset_eq_setD by blast+
  have one: "filter (\<lambda>x. f k = f x) zs = [k]" if "distinct zs" "set zs = set xs" for zs
  proof -
    have "filter (\<lambda>x. f k = f x) zs = filter (\<lambda>x. x = k) zs"
      using that(2) \<open>k \<in> set xs\<close> inj by (intro filter_cong) (auto dest: inj_onD)
    moreover have "filter (\<lambda>x. x = k) zs = [k]"
      using that \<open>k \<in> set xs\<close> by (simp add: filter_eq_singleton)
    ultimately show ?thesis by simp
  qed
  show "filter (\<lambda>x. f k = f x) (sort_key f ys) = filter (\<lambda>x. f k = f x) xs"
    using one [of "sort_key f ys"] one [of xs] dx dy sy by simp
qed

text \<open>
  A loop over a map that appends at most one item per key, followed by a sort of the items by
  a name that is the key: the result is the items in key order, whatever order the loop took.
\<close>

lemma map_filter_Cons_split:
  "List.map_filter h (x # xs) =
     (case h x of None \<Rightarrow> List.map_filter h xs | Some y \<Rightarrow> y # List.map_filter h xs)"
  by (simp add: map_filter_simps)

lemma set_map_filter_iff: "y \<in> set (List.map_filter h xs) \<longleftrightarrow> (\<exists>x \<in> set xs. h x = Some y)"
  by (induction xs) (auto simp: map_filter_simps split: option.splits)

lemma mset_map_filter_eq:
  "mset xs = mset ys \<Longrightarrow> mset (List.map_filter h xs) = mset (List.map_filter h ys)"
  unfolding List.map_filter_def by (simp only: mset_map mset_filter)

lemma sorted_map_filter:
  assumes "sorted (map g xs)" and "\<And>x y. h x = Some y \<Longrightarrow> f y = g x"
  shows "sorted (map f (List.map_filter h xs))"
  using assms(1)
proof (induction xs)
  case Nil
  then show ?case by (simp add: map_filter_simps)
next
  case (Cons x xs)
  then show ?case
    by (auto simp: map_filter_Cons_split set_map_filter_iff assms(2) split: option.splits)
qed

lemma distinct_map_filter:
  assumes "distinct (map g xs)" and "\<And>x y. h x = Some y \<Longrightarrow> f y = g x"
  shows "distinct (map f (List.map_filter h xs))"
  using assms(1)
proof (induction xs)
  case Nil
  then show ?case by (simp add: map_filter_simps)
next
  case (Cons x xs)
  then show ?case
    by (fastforce simp: map_filter_Cons_split set_map_filter_iff assms(2) split: option.splits)
qed

lemma mset_by_keys:
  fixes m :: "'v gomap"
  assumes "distinct (map fst m)"
  shows "mset (map (\<lambda>k. (k, the (map_of m k))) (sorted_list_of_set (fst ` set m))) = mset m"
proof -
  have "mset (sorted_list_of_set (fst ` set m)) = mset (map fst m)"
    using assms by (intro set_eq_iff_mset_eq_distinct [THEN iffD1]) auto
  then have "mset (map (\<lambda>k. (k, the (map_of m k))) (sorted_list_of_set (fst ` set m))) =
      mset (range_map canon [] m)"
    by (simp only: range_map_def canon_def mset_map)
  then show ?thesis using mset_range_map [OF range_ok_canon assms] by simp
qed

lemma sort_collected:
  fixes h :: "string \<times> 'v \<Rightarrow> 'c option"
  assumes "range_ok \<pi>" and "distinct (map fst m)" and "\<And>k v c. h (k, v) = Some c \<Longrightarrow> f c = k"
  shows "sort_key f (List.map_filter h (range_map \<pi> site m)) =
     List.map_filter (\<lambda>k. h (k, the (map_of m k))) (sorted_list_of_set (fst ` set m))"
    (is "?l = ?r")
proof -
  have key: "\<And>x y. h x = Some y \<Longrightarrow> f y = fst x"
    using assms(3) by (metis prod.collapse)
  let ?ks = "map (\<lambda>k. (k, the (map_of m k))) (sorted_list_of_set (fst ` set m))"
  have r: "?r = List.map_filter h ?ks"
    by (simp add: List.map_filter_def filter_map comp_def)
  have "mset (range_map \<pi> site m) = mset ?ks"
    by (simp only: mset_range_map [OF assms(1,2)] mset_by_keys [OF assms(2)])
  then have "mset (List.map_filter h (range_map \<pi> site m)) = mset ?r"
    unfolding r by (rule mset_map_filter_eq)
  moreover have "distinct (map f (List.map_filter h (range_map \<pi> site m)))"
    by (rule distinct_map_filter [where g = fst])
      (use key distinct_fst_range_map [OF assms(1,2)] in auto)
  ultimately have "?l = sort_key f ?r" by (rule sort_key_unique)
  moreover have "sorted (map f ?r)"
    by (rule sorted_map_filter [where g = "\<lambda>k. k"]) (use assms(3) in auto)
  ultimately show ?thesis by (simp add: sorted_sort_id sort_key_id_if_sorted)
qed

lemma distinct_map_filterI: "distinct (map f xs) \<Longrightarrow> distinct (map f (filter P xs))"
  by (induction xs) auto

lemma sort_collected_keys:
  assumes "range_ok \<pi>" and "distinct (map fst m)"
  shows "sort (map fst (filter P (range_map \<pi> site m))) =
     sorted_list_of_set {k \<in> fst ` set m. P (k, the (map_of m k))}"
proof (rule sorted_distinct_set_unique)
  show "distinct (sort (map fst (filter P (range_map \<pi> site m))))"
    using distinct_fst_range_map [OF assms, of site] by (simp add: distinct_map_filterI)
  have "set (range_map \<pi> site m) = set m" using assms by simp
  then show "set (sort (map fst (filter P (range_map \<pi> site m)))) =
      set (sorted_list_of_set {k \<in> fst ` set m. P (k, the (map_of m k))})"
    using assms(2) by (force simp: image_iff)
qed simp_all

end
