(* ===== verification/ModuleDiff.thy ===== *)
theory ModuleDiff
  imports Prelude
begin

text \<open>
  The structural diff of two module reports (src/internal/modulediff): the wire types, the
  per-domain diffs and their comparison helpers. Every range loop over a Go map takes its
  iteration order from the argument \<open>\<pi>\<close>; the refinement lemmas show that the result is the
  order-free specification, so the report is a function of the two inputs.
\<close>

section \<open>The module report the diff reads\<close>

record attr_spec =
  at_Name :: string
  at_Type :: string
  at_Doc :: string
  at_Default :: string
  at_Mandatory :: bool
  at_ProviderGroups :: "string list list"

record rule_spec =
  ru_Name :: string
  ru_Attrs :: "attr_spec list"
  ru_Private :: bool

record provider_spec =
  pr_Name :: string
  pr_Fields :: "string list"
  pr_Private :: bool

record macro_spec =
  ma_Name :: string

record aspect_spec =
  as_Name :: string
  as_Private :: bool

record toolchain_spec =
  tc_Name :: string

record repo_rule_spec =
  rr_Name :: string
  rr_Attrs :: "attr_spec list"
  rr_Private :: bool

record tag_class_spec =
  tg_Name :: string

record mod_ext_spec =
  me_Name :: string
  me_TagClasses :: "tag_class_spec list"
  me_Private :: bool

record module_key =
  mk_Name :: string
  mk_Version :: string
  mk_DevDependency :: bool
  mk_RepoName :: string

record module_report =
  mr_Name :: string
  mr_Version :: string
  mr_CompatibilityLevel :: int
  mr_HermeticityClasses :: "string list"
  mr_BazelDeps :: "module_key list"
  mr_Rules :: "rule_spec list"
  mr_Providers :: "provider_spec list"
  mr_Macros :: "macro_spec list"
  mr_Aspects :: "aspect_spec list"
  mr_Toolchains :: "toolchain_spec list"
  mr_RepositoryRules :: "repo_rule_spec list"
  mr_ModuleExtensions :: "mod_ext_spec list"

section \<open>The wire types of the diff\<close>

record compat_change =
  cc_From :: int
  cc_To :: int

record herm_diff =
  hd_Added :: "string list"
  hd_Removed :: "string list"

record changed_dep =
  cd_Name :: string
  cd_FromVersion :: string
  cd_ToVersion :: string

record deps_diff =
  dd_Added :: "module_key list"
  dd_Removed :: "module_key list"
  dd_Changed :: "changed_dep list"

record attr_change =
  ac_Name :: string
  ac_FromType :: string
  ac_ToType :: string
  ac_FromDefault :: string
  ac_ToDefault :: string
  ac_FromMandatory :: bool
  ac_ToMandatory :: bool
  ac_MandatoryFlip :: bool

record changed_rule =
  cr_Name :: string
  cr_AttrsAdd :: "attr_spec list"
  cr_AttrsRem :: "attr_spec list"
  cr_AttrsChg :: "attr_change list"

record rules_diff =
  rd_Added :: "string list"
  rd_Removed :: "string list"
  rd_Changed :: "changed_rule list"

record changed_provider =
  cp_Name :: string
  cp_FieldsAdded :: "string list"
  cp_FieldsRemoved :: "string list"

record providers_diff =
  pd_Added :: "string list"
  pd_Removed :: "string list"
  pd_Changed :: "changed_provider list"

record names_diff =
  nd_Added :: "string list"
  nd_Removed :: "string list"

record changed_mod_ext =
  ce_Name :: string
  ce_TagClassesAdded :: "string list"
  ce_TagClassesRemoved :: "string list"

record mod_exts_diff =
  md_Added :: "string list"
  md_Removed :: "string list"
  md_Changed :: "changed_mod_ext list"

section \<open>The per-domain diffs\<close>

definition hermDiff :: "range_order \<Rightarrow> string list \<Rightarrow> string list \<Rightarrow> herm_diff option" where
  "hermDiff \<pi> a b =
     (let setA = index_by id (\<lambda>_. True) a;
          setB = index_by id (\<lambda>_. True) b;
          added = map fst (filter (\<lambda>(c, _). \<not> lookup_bool setA c) (range_map \<pi> [''herm'', ''b''] setB));
          removed = map fst (filter (\<lambda>(c, _). \<not> lookup_bool setB c) (range_map \<pi> [''herm'', ''a''] setA));
          added = sort added;
          removed = sort removed
      in if added = [] \<and> removed = [] then None
         else Some \<lparr>hd_Added = added, hd_Removed = removed\<rparr>)"

definition depsDiff :: "range_order \<Rightarrow> module_key list \<Rightarrow> module_key list \<Rightarrow> deps_diff" where
  "depsDiff \<pi> a b =
     (let aByName = index_by mk_Name mk_Version a;
          bByName = index_by mk_Name mk_Version b;
          bs = range_map \<pi> [''deps'', ''b''] bByName;
          changed = List.map_filter (\<lambda>(name, bver).
              case map_of aByName name of
                Some aver \<Rightarrow> if aver \<noteq> bver
                  then Some \<lparr>cd_Name = name, cd_FromVersion = aver, cd_ToVersion = bver\<rparr> else None
              | None \<Rightarrow> None) bs;
          added = List.map_filter (\<lambda>(name, bver).
              case map_of aByName name of
                Some aver \<Rightarrow> None
              | None \<Rightarrow> Some \<lparr>mk_Name = name, mk_Version = bver,
                              mk_DevDependency = False, mk_RepoName = []\<rparr>) bs;
          removed = List.map_filter (\<lambda>(name, aver).
              if has_key bByName name then None
              else Some \<lparr>mk_Name = name, mk_Version = aver,
                         mk_DevDependency = False, mk_RepoName = []\<rparr>)
            (range_map \<pi> [''deps'', ''a''] aByName)
      in \<lparr>dd_Added = sort_key mk_Name added, dd_Removed = sort_key mk_Name removed,
          dd_Changed = sort_key cd_Name changed\<rparr>)"

definition namesDiff :: "range_order \<Rightarrow> string list \<Rightarrow> string list \<Rightarrow> string list \<Rightarrow> names_diff" where
  "namesDiff \<pi> site a b =
     (let aSet = index_by id (\<lambda>_. True) a;
          bSet = index_by id (\<lambda>_. True) b;
          added = map fst (filter (\<lambda>(s, _). \<not> lookup_bool aSet s) (range_map \<pi> (site @ [''b'']) bSet));
          removed = map fst (filter (\<lambda>(s, _). \<not> lookup_bool bSet s) (range_map \<pi> (site @ [''a'']) aSet))
      in \<lparr>nd_Added = sort added, nd_Removed = sort removed\<rparr>)"

definition compareAttr :: "attr_spec \<Rightarrow> attr_spec \<Rightarrow> attr_change option" where
  "compareAttr a b =
     (let c = \<lparr>ac_Name = at_Name a, ac_FromType = [], ac_ToType = [], ac_FromDefault = [],
               ac_ToDefault = [], ac_FromMandatory = False, ac_ToMandatory = False,
               ac_MandatoryFlip = False\<rparr>;
          (c, changed) = (if at_Type a \<noteq> at_Type b
             then (c\<lparr>ac_FromType := at_Type a, ac_ToType := at_Type b\<rparr>, True) else (c, False));
          (c, changed) = (if at_Default a \<noteq> at_Default b
             then (c\<lparr>ac_FromDefault := at_Default a, ac_ToDefault := at_Default b\<rparr>, True)
             else (c, changed));
          (c, changed) = (if at_Mandatory a \<noteq> at_Mandatory b
             then (c\<lparr>ac_FromMandatory := at_Mandatory a, ac_ToMandatory := at_Mandatory b,
                     ac_MandatoryFlip := True\<rparr>, True)
             else (c, changed))
      in if \<not> changed then None else Some c)"

definition compareRule ::
  "range_order \<Rightarrow> string list \<Rightarrow> rule_spec \<Rightarrow> rule_spec \<Rightarrow> changed_rule option" where
  "compareRule \<pi> site a b =
     (let aByAttr = index_by at_Name id (ru_Attrs a);
          bByAttr = index_by at_Name id (ru_Attrs b);
          bs = range_map \<pi> (site @ [''b'']) bByAttr;
          chg = List.map_filter (\<lambda>(n, ba). case map_of aByAttr n of
                   Some aa \<Rightarrow> compareAttr aa ba | None \<Rightarrow> None) bs;
          add = List.map_filter (\<lambda>(n, ba). case map_of aByAttr n of
                   Some aa \<Rightarrow> None | None \<Rightarrow> Some ba) bs;
          rem = List.map_filter (\<lambda>(n, aa). if has_key bByAttr n then None else Some aa)
                  (range_map \<pi> (site @ [''a'']) aByAttr)
      in if add = [] \<and> rem = [] \<and> chg = [] then None
         else Some \<lparr>cr_Name = ru_Name a, cr_AttrsAdd = sort_key at_Name add,
                    cr_AttrsRem = sort_key at_Name rem, cr_AttrsChg = sort_key ac_Name chg\<rparr>)"

definition rulesDiff ::
  "range_order \<Rightarrow> string list \<Rightarrow> rule_spec list \<Rightarrow> rule_spec list \<Rightarrow> rules_diff" where
  "rulesDiff \<pi> site a b =
     (let aByName = index_by ru_Name id a;
          bByName = index_by ru_Name id b;
          bs = range_map \<pi> (site @ [''b'']) bByName;
          changed = List.map_filter (\<lambda>(name, bRule). case map_of aByName name of
                       Some aRule \<Rightarrow> compareRule \<pi> (site @ [''rule'', name]) aRule bRule
                     | None \<Rightarrow> None) bs;
          added = map fst (filter (\<lambda>(name, _). \<not> has_key aByName name) bs);
          removed = map fst (filter (\<lambda>(name, _). \<not> has_key bByName name)
                      (range_map \<pi> (site @ [''a'']) aByName))
      in \<lparr>rd_Added = sort added, rd_Removed = sort removed, rd_Changed = sort_key cr_Name changed\<rparr>)"

definition compareProvider ::
  "range_order \<Rightarrow> string list \<Rightarrow> provider_spec \<Rightarrow> provider_spec \<Rightarrow> changed_provider option" where
  "compareProvider \<pi> site a b =
     (let aSet = index_by id (\<lambda>_. True) (pr_Fields a);
          bSet = index_by id (\<lambda>_. True) (pr_Fields b);
          added = map fst (filter (\<lambda>(f, _). \<not> lookup_bool aSet f) (range_map \<pi> (site @ [''b'']) bSet));
          removed = map fst (filter (\<lambda>(f, _). \<not> lookup_bool bSet f) (range_map \<pi> (site @ [''a'']) aSet))
      in if added = [] \<and> removed = [] then None
         else Some \<lparr>cp_Name = pr_Name a, cp_FieldsAdded = sort added, cp_FieldsRemoved = sort removed\<rparr>)"

definition providersDiff ::
  "range_order \<Rightarrow> provider_spec list \<Rightarrow> provider_spec list \<Rightarrow> providers_diff" where
  "providersDiff \<pi> a b =
     (let aByName = index_by pr_Name id a;
          bByName = index_by pr_Name id b;
          bs = range_map \<pi> [''providers'', ''b''] bByName;
          changed = List.map_filter (\<lambda>(name, bp). case map_of aByName name of
                       Some ap \<Rightarrow> compareProvider \<pi> [''provider'', name] ap bp
                     | None \<Rightarrow> None) bs;
          added = map fst (filter (\<lambda>(name, _). \<not> has_key aByName name) bs);
          removed = map fst (filter (\<lambda>(name, _). \<not> has_key bByName name)
                      (range_map \<pi> [''providers'', ''a''] aByName))
      in \<lparr>pd_Added = sort added, pd_Removed = sort removed, pd_Changed = sort_key cp_Name changed\<rparr>)"

definition compareModExt ::
  "range_order \<Rightarrow> string list \<Rightarrow> mod_ext_spec \<Rightarrow> mod_ext_spec \<Rightarrow> changed_mod_ext option" where
  "compareModExt \<pi> site a b =
     (let aSet = index_by tg_Name (\<lambda>_. True) (me_TagClasses a);
          bSet = index_by tg_Name (\<lambda>_. True) (me_TagClasses b);
          added = map fst (filter (\<lambda>(t, _). \<not> lookup_bool aSet t) (range_map \<pi> (site @ [''b'']) bSet));
          removed = map fst (filter (\<lambda>(t, _). \<not> lookup_bool bSet t) (range_map \<pi> (site @ [''a'']) aSet))
      in if added = [] \<and> removed = [] then None
         else Some \<lparr>ce_Name = me_Name a, ce_TagClassesAdded = sort added,
                    ce_TagClassesRemoved = sort removed\<rparr>)"

definition modExtsDiff ::
  "range_order \<Rightarrow> mod_ext_spec list \<Rightarrow> mod_ext_spec list \<Rightarrow> mod_exts_diff" where
  "modExtsDiff \<pi> a b =
     (let aByName = index_by me_Name id a;
          bByName = index_by me_Name id b;
          bs = range_map \<pi> [''modexts'', ''b''] bByName;
          changed = List.map_filter (\<lambda>(name, be). case map_of aByName name of
                       Some ae \<Rightarrow> compareModExt \<pi> [''modext'', name] ae be
                     | None \<Rightarrow> None) bs;
          added = map fst (filter (\<lambda>(name, _). \<not> has_key aByName name) bs);
          removed = map fst (filter (\<lambda>(name, _). \<not> has_key bByName name)
                      (range_map \<pi> [''modexts'', ''a''] aByName))
      in \<lparr>md_Added = sort added, md_Removed = sort removed, md_Changed = sort_key ce_Name changed\<rparr>)"

section \<open>Filters: what module consumers see\<close>

text \<open>The test \<^verbatim>\<open>len(n) > 0 && n[0] != '_'\<close>.\<close>

definition public_name :: "string \<Rightarrow> bool" where
  "public_name n = (case n of [] \<Rightarrow> False | c # _ \<Rightarrow> c \<noteq> CHR ''_'')"

definition filterPublicRules :: "rule_spec list \<Rightarrow> rule_spec list" where
  "filterPublicRules rs = filter (\<lambda>r. \<not> ru_Private r \<and> public_name (ru_Name r)) rs"

definition filterPublicProviders :: "provider_spec list \<Rightarrow> provider_spec list" where
  "filterPublicProviders ps = filter (\<lambda>p. \<not> pr_Private p \<and> public_name (pr_Name p)) ps"

definition macroNames :: "macro_spec list \<Rightarrow> string list" where
  "macroNames ms = map ma_Name (filter (\<lambda>m. public_name (ma_Name m)) ms)"

definition aspectNames :: "aspect_spec list \<Rightarrow> string list" where
  "aspectNames as' = map as_Name (filter (\<lambda>a. \<not> as_Private a \<and> public_name (as_Name a)) as')"

definition toolchainNames :: "toolchain_spec list \<Rightarrow> string list" where
  "toolchainNames ts = map tc_Name (filter (\<lambda>t. public_name (tc_Name t)) ts)"

definition repoRulesAsRules :: "repo_rule_spec list \<Rightarrow> rule_spec list" where
  "repoRulesAsRules rs =
     map (\<lambda>r. \<lparr>ru_Name = rr_Name r, ru_Attrs = rr_Attrs r, ru_Private = False\<rparr>)
       (filter (\<lambda>r. \<not> rr_Private r \<and> public_name (rr_Name r)) rs)"

definition filterPublicModExts :: "mod_ext_spec list \<Rightarrow> mod_ext_spec list" where
  "filterPublicModExts es = filter (\<lambda>e. \<not> me_Private e \<and> public_name (me_Name e)) es"


section \<open>Order-free specification of the per-domain diffs\<close>

text \<open>
  \<open>names_minus key a b\<close> is the ascending list of the names that \<open>a\<close> has and \<open>b\<close> has not,
  \<open>keyed_minus\<close> the items of \<open>a\<close> behind them, and \<open>keyed_changes key cmp a b\<close> what \<open>cmp\<close> reports
  for the names both sides have, in ascending order. Of items with the same name the last one
  counts, as in a map that a loop fills.
\<close>

definition names_minus :: "('a \<Rightarrow> string) \<Rightarrow> 'a list \<Rightarrow> 'a list \<Rightarrow> string list" where
  "names_minus key a b = sorted_list_of_set (key ` set a - key ` set b)"

definition keyed_minus :: "('a \<Rightarrow> string) \<Rightarrow> 'a list \<Rightarrow> 'a list \<Rightarrow> 'a list" where
  "keyed_minus key a b = List.map_filter (last_with key a) (names_minus key a b)"

definition keyed_changes ::
  "('a \<Rightarrow> string) \<Rightarrow> ('a \<Rightarrow> 'a \<Rightarrow> 'c option) \<Rightarrow> 'a list \<Rightarrow> 'a list \<Rightarrow> 'c list" where
  "keyed_changes key cmp a b =
     List.map_filter (\<lambda>k. case (last_with key a k, last_with key b k) of
         (Some x, Some y) \<Rightarrow> cmp x y | _ \<Rightarrow> None) (sorted_list_of_set (key ` set b))"

definition compare_rule_spec :: "rule_spec \<Rightarrow> rule_spec \<Rightarrow> changed_rule option" where
  "compare_rule_spec a b =
     (let add = keyed_minus at_Name (ru_Attrs b) (ru_Attrs a);
          rem = keyed_minus at_Name (ru_Attrs a) (ru_Attrs b);
          chg = keyed_changes at_Name compareAttr (ru_Attrs a) (ru_Attrs b)
      in if add = [] \<and> rem = [] \<and> chg = [] then None
         else Some \<lparr>cr_Name = ru_Name a, cr_AttrsAdd = add, cr_AttrsRem = rem, cr_AttrsChg = chg\<rparr>)"

definition compare_provider_spec :: "provider_spec \<Rightarrow> provider_spec \<Rightarrow> changed_provider option" where
  "compare_provider_spec a b =
     (let add = names_minus id (pr_Fields b) (pr_Fields a);
          rem = names_minus id (pr_Fields a) (pr_Fields b)
      in if add = [] \<and> rem = [] then None
         else Some \<lparr>cp_Name = pr_Name a, cp_FieldsAdded = add, cp_FieldsRemoved = rem\<rparr>)"

definition compare_mod_ext_spec :: "mod_ext_spec \<Rightarrow> mod_ext_spec \<Rightarrow> changed_mod_ext option" where
  "compare_mod_ext_spec a b =
     (let add = names_minus tg_Name (me_TagClasses b) (me_TagClasses a);
          rem = names_minus tg_Name (me_TagClasses a) (me_TagClasses b)
      in if add = [] \<and> rem = [] then None
         else Some \<lparr>ce_Name = me_Name a, ce_TagClassesAdded = add, ce_TagClassesRemoved = rem\<rparr>)"

definition bare_key :: "module_key \<Rightarrow> module_key" where
  "bare_key k = \<lparr>mk_Name = mk_Name k, mk_Version = mk_Version k,
                 mk_DevDependency = False, mk_RepoName = []\<rparr>"

definition compare_dep_spec :: "module_key \<Rightarrow> module_key \<Rightarrow> changed_dep option" where
  "compare_dep_spec x y =
     (if mk_Version x \<noteq> mk_Version y
      then Some \<lparr>cd_Name = mk_Name x, cd_FromVersion = mk_Version x, cd_ToVersion = mk_Version y\<rparr>
      else None)"

definition rules_diff_spec :: "rule_spec list \<Rightarrow> rule_spec list \<Rightarrow> rules_diff" where
  "rules_diff_spec a b =
     \<lparr>rd_Added = names_minus ru_Name b a, rd_Removed = names_minus ru_Name a b,
      rd_Changed = keyed_changes ru_Name compare_rule_spec a b\<rparr>"

definition providers_diff_spec :: "provider_spec list \<Rightarrow> provider_spec list \<Rightarrow> providers_diff" where
  "providers_diff_spec a b =
     \<lparr>pd_Added = names_minus pr_Name b a, pd_Removed = names_minus pr_Name a b,
      pd_Changed = keyed_changes pr_Name compare_provider_spec a b\<rparr>"

definition mod_exts_diff_spec :: "mod_ext_spec list \<Rightarrow> mod_ext_spec list \<Rightarrow> mod_exts_diff" where
  "mod_exts_diff_spec a b =
     \<lparr>md_Added = names_minus me_Name b a, md_Removed = names_minus me_Name a b,
      md_Changed = keyed_changes me_Name compare_mod_ext_spec a b\<rparr>"

definition names_diff_spec :: "string list \<Rightarrow> string list \<Rightarrow> names_diff" where
  "names_diff_spec a b = \<lparr>nd_Added = names_minus id b a, nd_Removed = names_minus id a b\<rparr>"

definition herm_diff_spec :: "string list \<Rightarrow> string list \<Rightarrow> herm_diff option" where
  "herm_diff_spec a b =
     (if set a = set b then None
      else Some \<lparr>hd_Added = names_minus id b a, hd_Removed = names_minus id a b\<rparr>)"

definition deps_diff_spec :: "module_key list \<Rightarrow> module_key list \<Rightarrow> deps_diff" where
  "deps_diff_spec a b =
     \<lparr>dd_Added = map bare_key (keyed_minus mk_Name b a),
      dd_Removed = map bare_key (keyed_minus mk_Name a b),
      dd_Changed = keyed_changes mk_Name compare_dep_spec a b\<rparr>"

subsection \<open>The loops implement the specification\<close>

lemma names_minus_loop:
  assumes "range_ok \<pi>" and "\<And>n v. P (n, v) \<longleftrightarrow> n \<notin> key ` set b"
  shows "sort (map fst (filter P (range_map \<pi> site (index_by key val a)))) = names_minus key a b"
  using assms(2) by (auto simp: sort_collected_keys [OF assms(1)] names_minus_def intro!: arg_cong [where f = sorted_list_of_set])

lemma map_filter_cong:
  "(\<And>x. x \<in> set xs \<Longrightarrow> h x = h' x) \<Longrightarrow> List.map_filter h xs = List.map_filter h' xs"
  by (simp add: List.map_filter_def cong: filter_cong map_cong)

lemma map_filter_restrict:
  "List.map_filter h (filter P xs) = List.map_filter (\<lambda>x. if P x then h x else None) xs"
  by (induction xs) (simp_all add: map_filter_simps split: option.splits)

lemma sorted_list_of_set_Diff:
  fixes A :: "'a :: linorder set"
  assumes "finite A"
  shows "sorted_list_of_set (A - B) = filter (\<lambda>x. x \<notin> B) (sorted_list_of_set A)"
  using assms by (intro sorted_distinct_set_unique) (auto intro: sorted_filter [of "\<lambda>x. x", simplified])

lemma sort_collected_in:
  fixes h :: "string \<times> 'v \<Rightarrow> 'c option"
  assumes "range_ok \<pi>" and "distinct (map fst m)"
    and "\<And>k v c. (k, v) \<in> set m \<Longrightarrow> h (k, v) = Some c \<Longrightarrow> f c = k"
  shows "sort_key f (List.map_filter h (range_map \<pi> site m)) =
     List.map_filter (\<lambda>k. h (k, the (map_of m k))) (sorted_list_of_set (fst ` set m))"
proof -
  let ?h = "\<lambda>x. if x \<in> set m then h x else None"
  have "List.map_filter h (range_map \<pi> site m) = List.map_filter ?h (range_map \<pi> site m)"
    using assms by (intro map_filter_cong) simp
  moreover have "List.map_filter (\<lambda>k. h (k, the (map_of m k))) (sorted_list_of_set (fst ` set m)) =
      List.map_filter (\<lambda>k. ?h (k, the (map_of m k))) (sorted_list_of_set (fst ` set m))"
  proof (rule map_filter_cong)
    fix k assume "k \<in> set (sorted_list_of_set (fst ` set m))"
    then obtain v where "(k, v) \<in> set m" by auto
    moreover from this have "map_of m k = Some v" using assms(2) by simp
    ultimately show "h (k, the (map_of m k)) = ?h (k, the (map_of m k))" by simp
  qed
  moreover have "sort_key f (List.map_filter ?h (range_map \<pi> site m)) =
      List.map_filter (\<lambda>k. ?h (k, the (map_of m k))) (sorted_list_of_set (fst ` set m))"
  proof (rule sort_collected [OF assms(1,2)])
    fix k v c assume "?h (k, v) = Some c"
    then show "f c = k" using assms(3) [of k v c] by (simp split: if_splits)
  qed
  ultimately show ?thesis by simp
qed

lemma keyed_changes_loop:
  assumes ok: "range_ok \<pi>"
    and same: "\<And>x y. key x = key y \<Longrightarrow> cmp (key x) (val x) (val y) = cmp' x y"
    and name: "\<And>x y c. cmp' x y = Some c \<Longrightarrow> f c = key x"
  shows "sort_key f (List.map_filter (\<lambda>(n, y). case map_of (index_by key val a) n of
             Some x \<Rightarrow> cmp n x y | None \<Rightarrow> None) (range_map \<pi> site (index_by key val b))) =
         keyed_changes key cmp' a b"
proof -
  let ?h = "\<lambda>(n, y). case map_of (index_by key val a) n of Some x \<Rightarrow> cmp n x y | None \<Rightarrow> None"
  have "sort_key f (List.map_filter ?h (range_map \<pi> site (index_by key val b))) =
      List.map_filter (\<lambda>k. ?h (k, the (map_of (index_by key val b) k))) (sorted_list_of_set (key ` set b))"
  proof (subst sort_collected_in [OF ok])
    fix n v c assume "(n, v) \<in> set (index_by key val b)" and "?h (n, v) = Some c"
    then obtain x y where "last_with key a n = Some x" "last_with key b n = Some y"
      and c: "cmp n (val x) (val y) = Some c"
      by (auto simp: in_index_by_iff map_of_index_by split: option.splits)
    then have "key x = n" "key y = n" using last_with_Some_D by fastforce+
    then show "f c = n" using c same [of x y] name by metis
  qed simp_all
  also have "\<dots> = keyed_changes key cmp' a b"
    unfolding keyed_changes_def
  proof (rule map_filter_cong)
    fix k assume "k \<in> set (sorted_list_of_set (key ` set b))"
    then obtain y where y: "last_with key b k = Some y" using last_with_None_iff by fastforce
    show "?h (k, the (map_of (index_by key val b) k)) =
        (case (last_with key a k, last_with key b k) of (Some x, Some y) \<Rightarrow> cmp' x y | _ \<Rightarrow> None)"
    proof (cases "last_with key a k")
      case None
      then show ?thesis by (simp add: map_of_index_by y)
    next
      case (Some x)
      then have "key x = k" and "key y = k" using y last_with_Some_D by fastforce+
      then show ?thesis using same [of x y] Some y by (simp add: map_of_index_by)
    qed
  qed
  finally show ?thesis .
qed

lemma keyed_minus_loop:
  assumes ok: "range_ok \<pi>"
    and h: "\<And>x. h (key x, val x) = (if key x \<in> key ` set b then None else Some (g x))"
    and name: "\<And>x. f (g x) = key x"
  shows "sort_key f (List.map_filter h (range_map \<pi> site (index_by key val a))) =
         map g (keyed_minus key a b)"
proof -
  have "sort_key f (List.map_filter h (range_map \<pi> site (index_by key val a))) =
      List.map_filter (\<lambda>k. h (k, the (map_of (index_by key val a) k))) (sorted_list_of_set (key ` set a))"
    by (subst sort_collected_in [OF ok])
      (auto simp: in_index_by_iff h name dest!: last_with_Some_D split: if_splits)
  also have "\<dots> = List.map_filter (\<lambda>k. if k \<notin> key ` set b then map_option g (last_with key a k) else None)
      (sorted_list_of_set (key ` set a))"
  proof (rule map_filter_cong)
    fix k assume "k \<in> set (sorted_list_of_set (key ` set a))"
    then obtain x where x: "last_with key a k = Some x" using last_with_None_iff by fastforce
    then have "key x = k" using last_with_Some_D by fastforce
    then show "h (k, the (map_of (index_by key val a) k)) =
        (if k \<notin> key ` set b then map_option g (last_with key a k) else None)"
      using h [of x] by (simp add: map_of_index_by x)
  qed
  also have "\<dots> = List.map_filter (\<lambda>k. map_option g (last_with key a k)) (names_minus key a b)"
    unfolding names_minus_def by (simp add: sorted_list_of_set_Diff map_filter_restrict)
  also have "\<dots> = map g (keyed_minus key a b)"
    unfolding keyed_minus_def List.map_filter_def by (auto simp: comp_def)
  finally show ?thesis .
qed

lemma last_with_in_keys: "last_with key xs k = Some x \<Longrightarrow> k \<in> key ` set xs"
  using last_with_None_iff [of key xs k] by auto

lemma absent_case:
  "(case map_of (index_by key val a) n of Some x \<Rightarrow> None | None \<Rightarrow> Some z) =
   (if n \<in> key ` set a then None else Some z)"
  using last_with_None_iff [of key a n] by (auto simp: map_of_index_by split: option.splits)

lemma compareAttr_name: "compareAttr x y = Some c \<Longrightarrow> ac_Name c = at_Name x"
  by (auto simp: compareAttr_def Let_def split: if_splits)

lemma compare_rule_spec_name: "compare_rule_spec x y = Some c \<Longrightarrow> cr_Name c = ru_Name x"
  by (auto simp: compare_rule_spec_def Let_def split: if_splits)

lemma compare_provider_spec_name: "compare_provider_spec x y = Some c \<Longrightarrow> cp_Name c = pr_Name x"
  by (auto simp: compare_provider_spec_def Let_def split: if_splits)

lemma compare_mod_ext_spec_name: "compare_mod_ext_spec x y = Some c \<Longrightarrow> ce_Name c = me_Name x"
  by (auto simp: compare_mod_ext_spec_def Let_def split: if_splits)

lemma compare_dep_spec_name: "compare_dep_spec x y = Some c \<Longrightarrow> cd_Name c = mk_Name x"
  by (auto simp: compare_dep_spec_def split: if_splits)

lemma compareRule_refines:
  assumes "range_ok \<pi>"
  shows "compareRule \<pi> site a b = compare_rule_spec a b"
proof -
  have add: "sort_key at_Name (List.map_filter (\<lambda>(n, ba).
        case map_of (index_by at_Name id (ru_Attrs a)) n of Some aa \<Rightarrow> None | None \<Rightarrow> Some ba)
        (range_map \<pi> (site @ [''b'']) (index_by at_Name id (ru_Attrs b)))) =
      map id (keyed_minus at_Name (ru_Attrs b) (ru_Attrs a))"
    by (rule keyed_minus_loop [OF assms]) (simp_all add: absent_case)
  have rem: "sort_key at_Name (List.map_filter (\<lambda>(n, aa).
        if has_key (index_by at_Name id (ru_Attrs b)) n then None else Some aa)
        (range_map \<pi> (site @ [''a'']) (index_by at_Name id (ru_Attrs a)))) =
      map id (keyed_minus at_Name (ru_Attrs a) (ru_Attrs b))"
    by (rule keyed_minus_loop [OF assms]) auto
  have chg: "sort_key ac_Name (List.map_filter (\<lambda>(n, ba).
        case map_of (index_by at_Name id (ru_Attrs a)) n of Some aa \<Rightarrow> compareAttr aa ba | None \<Rightarrow> None)
        (range_map \<pi> (site @ [''b'']) (index_by at_Name id (ru_Attrs b)))) =
      keyed_changes at_Name compareAttr (ru_Attrs a) (ru_Attrs b)"
    by (rule keyed_changes_loop [OF assms]) (auto dest: compareAttr_name)
  note [simp] = add [simplified, THEN arg_cong [where f = "\<lambda>xs. xs = []"], simplified]
    rem [simplified, THEN arg_cong [where f = "\<lambda>xs. xs = []"], simplified]
    chg [THEN arg_cong [where f = "\<lambda>xs. xs = []"], simplified]
  show ?thesis
    using add rem chg by (simp add: compareRule_def compare_rule_spec_def Let_def)
qed

lemma names_minus_pair:
  assumes "range_ok \<pi>"
  shows "sort (map fst (filter (\<lambda>(n, _). \<not> has_key (index_by key val b) n)
            (range_map \<pi> site (index_by key val a)))) = names_minus key a b"
    and "sort (map fst (filter (\<lambda>(n, _). \<not> lookup_bool (index_by key (\<lambda>_. True) b) n)
            (range_map \<pi> site (index_by key val a)))) = names_minus key a b"
  by (rule names_minus_loop [OF assms], simp)+

lemma names_minus_pair_Nil:
  assumes "range_ok \<pi>"
  shows "map fst (filter (\<lambda>(n, _). \<not> lookup_bool (index_by key (\<lambda>_. True) b) n)
            (range_map \<pi> site (index_by key val a))) = [] \<longleftrightarrow> names_minus key a b = []"
  using names_minus_pair(2) [OF assms, of key b site val a] by (metis sort_key_Nil_iff)

lemma compareProvider_refines:
  "range_ok \<pi> \<Longrightarrow> compareProvider \<pi> site a b = compare_provider_spec a b"
  unfolding compareProvider_def compare_provider_spec_def Let_def
  by (simp only: names_minus_pair names_minus_pair_Nil)

lemma compareModExt_refines:
  "range_ok \<pi> \<Longrightarrow> compareModExt \<pi> site a b = compare_mod_ext_spec a b"
  unfolding compareModExt_def compare_mod_ext_spec_def Let_def
  by (simp only: names_minus_pair names_minus_pair_Nil)

lemma namesDiff_refines [range_canon]: "range_ok \<pi> \<Longrightarrow> namesDiff \<pi> site a b = names_diff_spec a b"
  unfolding namesDiff_def names_diff_spec_def Let_def by (simp only: names_minus_pair)

lemma names_minus_Nil_iff: "names_minus key a b = [] \<longleftrightarrow> key ` set a \<subseteq> key ` set b"
  by (simp add: names_minus_def)

lemma hermDiff_refines [range_canon]: "range_ok \<pi> \<Longrightarrow> hermDiff \<pi> a b = herm_diff_spec a b"
  unfolding hermDiff_def herm_diff_spec_def Let_def
  by (simp only: names_minus_pair names_minus_Nil_iff) (auto simp: image_id)

lemma rulesDiff_refines [range_canon]:
  assumes "range_ok \<pi>"
  shows "rulesDiff \<pi> site a b = rules_diff_spec a b"
proof -
  have "sort_key cr_Name (List.map_filter (\<lambda>(name, bRule).
      case map_of (index_by ru_Name id a) name of
        Some aRule \<Rightarrow> compareRule \<pi> (site @ [''rule'', name]) aRule bRule | None \<Rightarrow> None)
      (range_map \<pi> (site @ [''b'']) (index_by ru_Name id b))) = keyed_changes ru_Name compare_rule_spec a b"
    by (rule keyed_changes_loop [OF assms])
      (simp_all add: compareRule_refines [OF assms] compare_rule_spec_name)
  then show ?thesis
    unfolding rulesDiff_def rules_diff_spec_def Let_def
    by (simp only: names_minus_pair [OF assms])
qed

lemma providersDiff_refines [range_canon]:
  assumes "range_ok \<pi>"
  shows "providersDiff \<pi> a b = providers_diff_spec a b"
proof -
  have "sort_key cp_Name (List.map_filter (\<lambda>(name, bp).
      case map_of (index_by pr_Name id a) name of
        Some ap \<Rightarrow> compareProvider \<pi> [''provider'', name] ap bp | None \<Rightarrow> None)
      (range_map \<pi> [''providers'', ''b''] (index_by pr_Name id b))) =
      keyed_changes pr_Name compare_provider_spec a b"
    by (rule keyed_changes_loop [OF assms])
      (simp_all add: compareProvider_refines [OF assms] compare_provider_spec_name)
  then show ?thesis
    unfolding providersDiff_def providers_diff_spec_def Let_def
    by (simp only: names_minus_pair [OF assms])
qed

lemma modExtsDiff_refines [range_canon]:
  assumes "range_ok \<pi>"
  shows "modExtsDiff \<pi> a b = mod_exts_diff_spec a b"
proof -
  have "sort_key ce_Name (List.map_filter (\<lambda>(name, be).
      case map_of (index_by me_Name id a) name of
        Some ae \<Rightarrow> compareModExt \<pi> [''modext'', name] ae be | None \<Rightarrow> None)
      (range_map \<pi> [''modexts'', ''b''] (index_by me_Name id b))) =
      keyed_changes me_Name compare_mod_ext_spec a b"
    by (rule keyed_changes_loop [OF assms])
      (simp_all add: compareModExt_refines [OF assms] compare_mod_ext_spec_name)
  then show ?thesis
    unfolding modExtsDiff_def mod_exts_diff_spec_def Let_def
    by (simp only: names_minus_pair [OF assms])
qed

lemma depsDiff_refines [range_canon]:
  assumes "range_ok \<pi>"
  shows "depsDiff \<pi> a b = deps_diff_spec a b"
proof -
  have add: "sort_key mk_Name (List.map_filter (\<lambda>(name, bver).
      case map_of (index_by mk_Name mk_Version a) name of Some aver \<Rightarrow> None
      | None \<Rightarrow> Some \<lparr>mk_Name = name, mk_Version = bver, mk_DevDependency = False, mk_RepoName = []\<rparr>)
      (range_map \<pi> [''deps'', ''b''] (index_by mk_Name mk_Version b))) =
      map bare_key (keyed_minus mk_Name b a)"
    by (rule keyed_minus_loop [OF assms]) (simp_all add: absent_case bare_key_def)
  have rem: "sort_key mk_Name (List.map_filter (\<lambda>(name, aver).
      if has_key (index_by mk_Name mk_Version b) name then None
      else Some \<lparr>mk_Name = name, mk_Version = aver, mk_DevDependency = False, mk_RepoName = []\<rparr>)
      (range_map \<pi> [''deps'', ''a''] (index_by mk_Name mk_Version a))) =
      map bare_key (keyed_minus mk_Name a b)"
    by (rule keyed_minus_loop [OF assms]) (simp_all add: bare_key_def)
  have chg: "sort_key cd_Name (List.map_filter (\<lambda>(name, bver).
      case map_of (index_by mk_Name mk_Version a) name of
        Some aver \<Rightarrow> if aver \<noteq> bver
          then Some \<lparr>cd_Name = name, cd_FromVersion = aver, cd_ToVersion = bver\<rparr> else None
      | None \<Rightarrow> None) (range_map \<pi> [''deps'', ''b''] (index_by mk_Name mk_Version b))) =
      keyed_changes mk_Name compare_dep_spec a b"
    by (rule keyed_changes_loop [OF assms]) (auto simp: compare_dep_spec_def split: if_splits)
  show ?thesis unfolding depsDiff_def deps_diff_spec_def Let_def by (simp only: add rem chg)
qed

section \<open>The contract of a keyed diff\<close>

text \<open>
  What every per-domain diff promises its readers: the names that came and went, ascending,
  and one entry per name that both sides have and on which they differ.
\<close>

locale keyed_diff =
  fixes key :: "'a \<Rightarrow> string"
    and diff :: "range_order \<Rightarrow> 'a list \<Rightarrow> 'a list \<Rightarrow> 'd"
    and added :: "'d \<Rightarrow> string list"
    and removed :: "'d \<Rightarrow> string list"
  assumes added_law: "range_ok \<pi> \<Longrightarrow> added (diff \<pi> a b) = names_minus key b a"
    and removed_law: "range_ok \<pi> \<Longrightarrow> removed (diff \<pi> a b) = names_minus key a b"
begin

lemma added_set: "range_ok \<pi> \<Longrightarrow> set (added (diff \<pi> a b)) = key ` set b - key ` set a"
  by (simp add: added_law names_minus_def)

lemma removed_set: "range_ok \<pi> \<Longrightarrow> set (removed (diff \<pi> a b)) = key ` set a - key ` set b"
  by (simp add: removed_law names_minus_def)

lemma ascending:
  "range_ok \<pi> \<Longrightarrow> sorted_wrt (<) (added (diff \<pi> a b)) \<and> sorted_wrt (<) (removed (diff \<pi> a b))"
  by (simp add: added_law removed_law names_minus_def)

lemma swap:
  "range_ok \<pi> \<Longrightarrow> range_ok \<pi>' \<Longrightarrow> added (diff \<pi> a b) = removed (diff \<pi>' b a)"
  by (simp add: added_law removed_law)

lemma disjoint: "range_ok \<pi> \<Longrightarrow> set (added (diff \<pi> a b)) \<inter> set (removed (diff \<pi> a b)) = {}"
  by (auto simp: added_set removed_set)

lemma patch:
  "range_ok \<pi> \<Longrightarrow>
   key ` set b = (key ` set a - set (removed (diff \<pi> a b))) \<union> set (added (diff \<pi> a b))"
  by (auto simp: added_set removed_set)

lemma same_names:
  "range_ok \<pi> \<Longrightarrow>
   added (diff \<pi> a b) = [] \<and> removed (diff \<pi> a b) = [] \<longleftrightarrow> key ` set a = key ` set b"
  by (auto simp: added_law removed_law names_minus_Nil_iff)

end

locale keyed_diff_changes = keyed_diff key diff added removed
  for key :: "'a \<Rightarrow> string" and diff :: "range_order \<Rightarrow> 'a list \<Rightarrow> 'a list \<Rightarrow> 'd"
    and added :: "'d \<Rightarrow> string list" and removed :: "'d \<Rightarrow> string list" +
  fixes cmp :: "'a \<Rightarrow> 'a \<Rightarrow> 'c option"
    and changed :: "'d \<Rightarrow> 'c list"
    and name :: "'c \<Rightarrow> string"
  assumes changed_law: "range_ok \<pi> \<Longrightarrow> changed (diff \<pi> a b) = keyed_changes key cmp a b"
    and cmp_name: "cmp x y = Some c \<Longrightarrow> name c = key x"
    and cmp_refl: "cmp x x = None"
begin

lemma in_changed_iff:
  assumes "range_ok \<pi>"
  shows "c \<in> set (changed (diff \<pi> a b)) \<longleftrightarrow>
     (\<exists>x y. last_with key a (name c) = Some x \<and> last_with key b (name c) = Some y \<and> cmp x y = Some c)"
    (is "?l \<longleftrightarrow> ?r")
proof
  assume ?l
  then obtain k x y where kxy: "last_with key a k = Some x" "last_with key b k = Some y" "cmp x y = Some c"
    by (auto simp: changed_law [OF assms] keyed_changes_def set_map_filter_iff split: option.splits)
  then have "k = name c" using cmp_name last_with_Some_D by fastforce
  with kxy show ?r by blast
next
  assume ?r
  then obtain x y where xy: "last_with key a (name c) = Some x" "last_with key b (name c) = Some y"
    "cmp x y = Some c" by blast
  then have "name c \<in> key ` set b" by (simp add: last_with_in_keys)
  with xy show ?l
    unfolding changed_law [OF assms] keyed_changes_def set_map_filter_iff
    by (intro bexI [of _ "name c"]) simp_all
qed

lemma changed_both:
  assumes "range_ok \<pi>" and "c \<in> set (changed (diff \<pi> a b))"
  shows "name c \<in> key ` set a \<inter> key ` set b"
  using assms(2) unfolding in_changed_iff [OF assms(1)] by (auto intro: last_with_in_keys)

lemma self_unchanged: "range_ok \<pi> \<Longrightarrow> changed (diff \<pi> a a) = []"
  by (auto simp: changed_law keyed_changes_def List.map_filter_def filter_empty_conv cmp_refl
      split: option.splits)

lemma changed_ascending:
  assumes "range_ok \<pi>"
  shows "sorted_wrt (<) (map name (changed (diff \<pi> a b)))"
proof -
  let ?h = "\<lambda>k. case (last_with key a k, last_with key b k) of (Some x, Some y) \<Rightarrow> cmp x y | _ \<Rightarrow> None"
  have nm: "name y = k" if "?h k = Some y" for k y
    using that by (auto split: option.splits dest!: cmp_name last_with_Some_D)
  have "sorted (map name (changed (diff \<pi> a b)))"
    unfolding changed_law [OF assms] keyed_changes_def
    by (rule sorted_map_filter [where g = "\<lambda>k. k"]) (simp_all add: nm)
  moreover have "distinct (map name (changed (diff \<pi> a b)))"
    unfolding changed_law [OF assms] keyed_changes_def
    by (rule distinct_map_filter [where g = "\<lambda>k. k"]) (simp_all add: nm)
  ultimately show ?thesis by (simp add: strict_sorted_iff)
qed

end

lemma compareAttr_refl [simp]: "compareAttr x x = None"
  by (simp add: compareAttr_def)

lemma names_minus_self [simp]: "names_minus key a a = []"
  by (simp add: names_minus_def)

lemma keyed_minus_self [simp]: "keyed_minus key a a = []"
  by (simp add: keyed_minus_def map_filter_simps)

lemma keyed_changes_self:
  "(\<And>x. cmp x x = None) \<Longrightarrow> keyed_changes key cmp a a = []"
  by (auto simp: keyed_changes_def List.map_filter_def filter_empty_conv split: option.splits)

lemma compare_spec_refl [simp]:
  "compare_rule_spec r r = None" "compare_provider_spec p p = None"
  "compare_mod_ext_spec e e = None" "compare_dep_spec d d = None"
  by (simp_all add: compare_rule_spec_def compare_provider_spec_def compare_mod_ext_spec_def
      compare_dep_spec_def keyed_changes_self)

lemma keyed_minus_names: "map key (keyed_minus key a b) = names_minus key a b"
proof -
  have *: "map key (List.map_filter (last_with key a) ks) = ks" if "set ks \<subseteq> key ` set a" for ks
    using that
  proof (induction ks)
    case (Cons k ks)
    then obtain x where x: "last_with key a k = Some x" using last_with_None_iff [of key a k] by auto
    then have "key x = k" using last_with_Some_D by fastforce
    with Cons x show ?case by (simp add: map_filter_simps)
  qed (simp add: map_filter_simps)
  show ?thesis unfolding keyed_minus_def by (rule *) (auto simp: names_minus_def)
qed

lemma bare_key_name [simp]: "mk_Name (bare_key k) = mk_Name k"
  by (simp add: bare_key_def)

interpretation names: keyed_diff id "\<lambda>\<pi>. namesDiff \<pi> site" nd_Added nd_Removed
  for site
  by unfold_locales (simp_all add: namesDiff_refines names_diff_spec_def)

interpretation rules: keyed_diff_changes ru_Name "\<lambda>\<pi>. rulesDiff \<pi> site" rd_Added rd_Removed
    compare_rule_spec rd_Changed cr_Name
  for site
  by unfold_locales (simp_all add: rulesDiff_refines rules_diff_spec_def compare_rule_spec_name)

interpretation provs: keyed_diff_changes pr_Name providersDiff pd_Added pd_Removed
    compare_provider_spec pd_Changed cp_Name
  by unfold_locales (simp_all add: providersDiff_refines providers_diff_spec_def compare_provider_spec_name)

interpretation exts: keyed_diff_changes me_Name modExtsDiff md_Added md_Removed
    compare_mod_ext_spec md_Changed ce_Name
  by unfold_locales (simp_all add: modExtsDiff_refines mod_exts_diff_spec_def compare_mod_ext_spec_name)

interpretation deps: keyed_diff_changes mk_Name depsDiff
    "\<lambda>d. map mk_Name (dd_Added d)" "\<lambda>d. map mk_Name (dd_Removed d)"
    compare_dep_spec dd_Changed cd_Name
  by unfold_locales
    (simp_all add: depsDiff_refines deps_diff_spec_def compare_dep_spec_name keyed_minus_names comp_def)

end
