(* ===== verification/Breaking.thy ===== *)
theory Breaking
  imports ModuleDiff
begin

text \<open>
  The report of src/internal/modulediff, its orchestrator \<open>Compute\<close>, and the classification of
  breaking changes (breaking.go): one finding per structural break, annotated with a hint and
  a codemod and sorted by kind, symbol and detail.
\<close>

section \<open>Findings\<close>

datatype breaking_kind =
    BreakingCompatLevelShift
  | BreakingRuleRemoved
  | BreakingRuleAttrRemoved
  | BreakingRuleAttrNowMandatory
  | BreakingProviderRemoved
  | BreakingProviderFieldRemoved
  | BreakingModuleExtensionRemoved
  | BreakingModuleExtensionTagRemoved
  | BreakingRepoRuleRemoved
  | BreakingRepoRuleAttrRemoved
  | BreakingRepoRuleAttrNowMandatory

fun kind_string :: "breaking_kind \<Rightarrow> string" where
  "kind_string BreakingCompatLevelShift = ''compat_level_shift''"
| "kind_string BreakingRuleRemoved = ''rule_removed''"
| "kind_string BreakingRuleAttrRemoved = ''rule_attr_removed''"
| "kind_string BreakingRuleAttrNowMandatory = ''rule_attr_now_mandatory''"
| "kind_string BreakingProviderRemoved = ''provider_removed''"
| "kind_string BreakingProviderFieldRemoved = ''provider_field_removed''"
| "kind_string BreakingModuleExtensionRemoved = ''module_extension_removed''"
| "kind_string BreakingModuleExtensionTagRemoved = ''module_extension_tag_class_removed''"
| "kind_string BreakingRepoRuleRemoved = ''repo_rule_removed''"
| "kind_string BreakingRepoRuleAttrRemoved = ''repo_rule_attr_removed''"
| "kind_string BreakingRepoRuleAttrNowMandatory = ''repo_rule_attr_now_mandatory''"

record breaking_finding =
  bf_Kind :: breaking_kind
  bf_Symbol :: string
  bf_Detail :: string
  bf_Reason :: string
  bf_Hint :: string
  bf_Codemod :: string

record diff_report =
  dr_Module :: string
  dr_From :: string
  dr_To :: string
  dr_CompatibilityLevel :: "compat_change option"
  dr_Hermeticity :: "herm_diff option"
  dr_BazelDeps :: deps_diff
  dr_Rules :: rules_diff
  dr_Providers :: providers_diff
  dr_Macros :: names_diff
  dr_Aspects :: names_diff
  dr_Toolchains :: names_diff
  dr_RepositoryRules :: rules_diff
  dr_ModuleExtensions :: mod_exts_diff
  dr_Breaking :: "breaking_finding list"

abbreviation finding :: "breaking_kind \<Rightarrow> string \<Rightarrow> string \<Rightarrow> string \<Rightarrow> breaking_finding" where
  "finding k s det reason \<equiv>
     \<lparr>bf_Kind = k, bf_Symbol = s, bf_Detail = det, bf_Reason = reason, bf_Hint = [], bf_Codemod = []\<rparr>"

section \<open>Hints and codemods\<close>

text \<open>The bytes of a double quote, a single quote, a backslash and the em dash of the sources.\<close>

definition dquote :: string where
  "dquote = [CHR 0x22]"

definition squote :: string where
  "squote = [CHR 0x27]"

definition bslash :: string where
  "bslash = [CHR 0x5C]"

definition em_dash :: string where
  "em_dash = [CHR 0xE2, CHR 0x80, CHR 0x94]"

definition migrationHint :: "breaking_finding \<Rightarrow> string" where
  "migrationHint f = (case bf_Kind f of
     BreakingCompatLevelShift \<Rightarrow>
       ''Bump every project on the old level to a release that supports the new compatibility_level, or pin to the previous version.''
   | BreakingRuleRemoved \<Rightarrow>
       ''Remove all calls to `'' @ bf_Symbol f @ ''(...)` from your BUILD files (or pick the replacement rule from the module'' @ squote @ ''s CHANGELOG).''
   | BreakingRuleAttrRemoved \<Rightarrow>
       ''Remove `'' @ bf_Detail f @ '' = ...` from every call to `'' @ bf_Symbol f @ ''(...)`.''
   | BreakingRuleAttrNowMandatory \<Rightarrow>
       ''Add `'' @ bf_Detail f @ '' = ...` to every call to `'' @ bf_Symbol f @ ''(...)`; the attribute is no longer optional.''
   | BreakingProviderRemoved \<Rightarrow>
       ''Find every read of the `'' @ bf_Symbol f @ ''` provider (typically `target['' @ bf_Symbol f @ '']` in a rule'' @ squote @ ''s implementation) and migrate to the replacement, or guard with `'' @ bf_Symbol f @ '' in target`.''
   | BreakingProviderFieldRemoved \<Rightarrow>
       ''Remove reads of `.'' @ bf_Detail f @ ''` on the `'' @ bf_Symbol f @ ''` provider; the field no longer exists.''
   | BreakingModuleExtensionRemoved \<Rightarrow>
       ''Remove `use_extension('' @ dquote @ ''...'' @ dquote @ '', '' @ dquote @ bf_Symbol f @ dquote @ '')` from MODULE.bazel; the extension no longer exists.''
   | BreakingModuleExtensionTagRemoved \<Rightarrow>
       ''Remove every `'' @ bf_Symbol f @ ''.'' @ bf_Detail f @ ''(...)` tag call from MODULE.bazel.''
   | BreakingRepoRuleRemoved \<Rightarrow>
       ''Remove uses of `'' @ bf_Symbol f @ ''(...)` from WORKSPACE/repo-rule setup; the repository rule no longer exists.''
   | BreakingRepoRuleAttrRemoved \<Rightarrow>
       ''Remove `'' @ bf_Detail f @ '' = ...` from every `'' @ bf_Symbol f @ ''(...)` invocation.''
   | BreakingRepoRuleAttrNowMandatory \<Rightarrow>
       ''Add `'' @ bf_Detail f @ '' = ...` to every `'' @ bf_Symbol f @ ''(...)` invocation; the attribute is no longer optional.'')"

definition buildozerCodemod :: "breaking_finding \<Rightarrow> string" where
  "buildozerCodemod f = (case bf_Kind f of
     BreakingRuleAttrRemoved \<Rightarrow>
       ''buildozer '' @ squote @ ''remove '' @ bf_Detail f @ squote @ '' '' @ squote @ ''//...:%'' @ bf_Symbol f @ squote
   | BreakingRepoRuleAttrRemoved \<Rightarrow>
       ''buildozer '' @ squote @ ''remove '' @ bf_Detail f @ squote @ '' '' @ squote @ ''//MODULE.bazel:%'' @ bf_Symbol f @ squote
   | BreakingModuleExtensionRemoved \<Rightarrow>
       ''# review: buildozer '' @ squote @ ''delete'' @ squote @ '' '' @ squote @ ''//MODULE.bazel:%use_extension'' @ squote @ '' (consumers may rename '' @ em_dash @ '' find by RHS, not lhs)''
   | BreakingModuleExtensionTagRemoved \<Rightarrow>
       ''# review: grep -rn '' @ squote @ bslash @ ''.'' @ bf_Detail f @ ''('' @ squote @ '' MODULE.bazel  # tag calls of '' @ bf_Symbol f @ ''.'' @ bf_Detail f
   | BreakingRuleRemoved \<Rightarrow>
       ''# review: grep -rn '' @ squote @ bf_Symbol f @ ''('' @ squote @ '' . --include=BUILD --include=BUILD.bazel --include='' @ squote @ ''*.bzl'' @ squote
   | BreakingRepoRuleRemoved \<Rightarrow>
       ''# review: grep -rn '' @ squote @ bf_Symbol f @ ''('' @ squote @ '' MODULE.bazel WORKSPACE WORKSPACE.bazel''
   | BreakingProviderRemoved \<Rightarrow>
       ''# review: grep -rn '' @ squote @ bf_Symbol f @ squote @ '' . --include='' @ squote @ ''*.bzl'' @ squote
   | BreakingProviderFieldRemoved \<Rightarrow>
       ''# review: grep -rn '' @ squote @ bf_Symbol f @ squote @ '' . --include='' @ squote @ ''*.bzl'' @ squote
   | _ \<Rightarrow> [])"

section \<open>Classification\<close>

definition now_mandatory :: "attr_change \<Rightarrow> bool" where
  "now_mandatory a \<longleftrightarrow> ac_MandatoryFlip a \<and> \<not> ac_FromMandatory a \<and> ac_ToMandatory a"

definition finding_less_key :: "breaking_finding \<Rightarrow> string \<times> string \<times> string" where
  "finding_less_key f = (kind_string (bf_Kind f), bf_Symbol f, bf_Detail f)"

definition detect_breaking :: "diff_report \<Rightarrow> breaking_finding list" where
  "detect_breaking r =
     (case dr_CompatibilityLevel r of None \<Rightarrow> [] | Some _ \<Rightarrow>
        [finding BreakingCompatLevelShift (dr_Module r) []
           ''Bazel treats different compatibility_levels as hard-incompatible; the version is unusable from any project still on the old level.'']) @
     map (\<lambda>name. finding BreakingRuleRemoved name []
           ''BUILD files that target this rule will fail at load time.'') (rd_Removed (dr_Rules r)) @
     concat (map (\<lambda>ch.
        map (\<lambda>a. finding BreakingRuleAttrRemoved (cr_Name ch) (at_Name a)
           ''Consumers passing this attribute will get an unknown-keyword error.'') (cr_AttrsRem ch) @
        map (\<lambda>a. finding BreakingRuleAttrNowMandatory (cr_Name ch) (ac_Name a)
           ''Consumers not passing this attribute will now fail; the attribute was previously optional.'')
          (filter now_mandatory (cr_AttrsChg ch))) (rd_Changed (dr_Rules r))) @
     map (\<lambda>name. finding BreakingProviderRemoved name []
           ''Consumers that read this provider type from a target will lose access to it.'') (pd_Removed (dr_Providers r)) @
     concat (map (\<lambda>ch.
        map (\<lambda>f. finding BreakingProviderFieldRemoved (cp_Name ch) f
           ''Consumers reading this field on the provider will get an attribute error.'') (cp_FieldsRemoved ch))
        (pd_Changed (dr_Providers r))) @
     map (\<lambda>name. finding BreakingModuleExtensionRemoved name []
           ''MODULE.bazel files calling use_extension(...) for this extension will fail to resolve.'')
        (md_Removed (dr_ModuleExtensions r)) @
     concat (map (\<lambda>ch.
        map (\<lambda>t. finding BreakingModuleExtensionTagRemoved (ce_Name ch) t
           ''MODULE.bazel files invoking this tag class on the extension will fail to load.'')
          (ce_TagClassesRemoved ch)) (md_Changed (dr_ModuleExtensions r))) @
     map (\<lambda>name. finding BreakingRepoRuleRemoved name []
           ''Consumers calling this repository rule (typically via load(...) + WORKSPACE-era setup) will fail.'')
        (rd_Removed (dr_RepositoryRules r)) @
     concat (map (\<lambda>ch.
        map (\<lambda>a. finding BreakingRepoRuleAttrRemoved (cr_Name ch) (at_Name a)
           ''Consumers passing this attribute to the repository rule will get an unknown-keyword error.'') (cr_AttrsRem ch) @
        map (\<lambda>a. finding BreakingRepoRuleAttrNowMandatory (cr_Name ch) (ac_Name a)
           ''Consumers not passing this attribute to the repository rule will now fail.'')
          (filter now_mandatory (cr_AttrsChg ch))) (rd_Changed (dr_RepositoryRules r)))"

definition annotate :: "breaking_finding \<Rightarrow> breaking_finding" where
  "annotate f = (let f = f\<lparr>bf_Hint := migrationHint f\<rparr> in f\<lparr>bf_Codemod := buildozerCodemod f\<rparr>)"

definition ClassifyBreaking :: "diff_report \<Rightarrow> breaking_finding list" where
  "ClassifyBreaking r = sort_key finding_less_key (map annotate (detect_breaking r))"

definition Compute :: "range_order \<Rightarrow> module_report \<Rightarrow> module_report \<Rightarrow> diff_report" where
  "Compute \<pi> f t =
     (let d = \<lparr>dr_Module = mr_Name t, dr_From = mr_Version f, dr_To = mr_Version t,
          dr_CompatibilityLevel = (if mr_CompatibilityLevel f \<noteq> mr_CompatibilityLevel t
             then Some \<lparr>cc_From = mr_CompatibilityLevel f, cc_To = mr_CompatibilityLevel t\<rparr> else None),
          dr_Hermeticity = hermDiff \<pi> (mr_HermeticityClasses f) (mr_HermeticityClasses t),
          dr_BazelDeps = depsDiff \<pi> (mr_BazelDeps f) (mr_BazelDeps t),
          dr_Rules = rulesDiff \<pi> [''rules''] (filterPublicRules (mr_Rules f)) (filterPublicRules (mr_Rules t)),
          dr_Providers = providersDiff \<pi> (filterPublicProviders (mr_Providers f)) (filterPublicProviders (mr_Providers t)),
          dr_Macros = namesDiff \<pi> [''macros''] (macroNames (mr_Macros f)) (macroNames (mr_Macros t)),
          dr_Aspects = namesDiff \<pi> [''aspects''] (aspectNames (mr_Aspects f)) (aspectNames (mr_Aspects t)),
          dr_Toolchains = namesDiff \<pi> [''toolchains''] (toolchainNames (mr_Toolchains f)) (toolchainNames (mr_Toolchains t)),
          dr_RepositoryRules = rulesDiff \<pi> [''reporules''] (repoRulesAsRules (mr_RepositoryRules f)) (repoRulesAsRules (mr_RepositoryRules t)),
          dr_ModuleExtensions = modExtsDiff \<pi> (filterPublicModExts (mr_ModuleExtensions f)) (filterPublicModExts (mr_ModuleExtensions t)),
          dr_Breaking = []\<rparr>
      in d\<lparr>dr_Breaking := ClassifyBreaking d\<rparr>)"

section \<open>What breaks a consumer\<close>

text \<open>
  The reference notion, stated on the two reports and not on the diff: a public symbol the old
  version offers and the new one lacks, or an attribute that has become mandatory. Where a
  report lists a name twice the last entry counts.
\<close>

abbreviation pub_rule :: "module_report \<Rightarrow> string \<Rightarrow> rule_spec option" where
  "pub_rule r \<equiv> last_with ru_Name (filterPublicRules (mr_Rules r))"

abbreviation pub_repo_rule :: "module_report \<Rightarrow> string \<Rightarrow> rule_spec option" where
  "pub_repo_rule r \<equiv> last_with ru_Name (repoRulesAsRules (mr_RepositoryRules r))"

abbreviation pub_provider :: "module_report \<Rightarrow> string \<Rightarrow> provider_spec option" where
  "pub_provider r \<equiv> last_with pr_Name (filterPublicProviders (mr_Providers r))"

abbreviation pub_ext :: "module_report \<Rightarrow> string \<Rightarrow> mod_ext_spec option" where
  "pub_ext r \<equiv> last_with me_Name (filterPublicModExts (mr_ModuleExtensions r))"

definition attr_removed :: "rule_spec \<Rightarrow> rule_spec \<Rightarrow> string \<Rightarrow> bool" where
  "attr_removed x y a \<longleftrightarrow> a \<in> at_Name ` set (ru_Attrs x) \<and> a \<notin> at_Name ` set (ru_Attrs y)"

definition attr_now_mandatory :: "rule_spec \<Rightarrow> rule_spec \<Rightarrow> string \<Rightarrow> bool" where
  "attr_now_mandatory x y a \<longleftrightarrow>
     (\<exists>p q. last_with at_Name (ru_Attrs x) a = Some p \<and> last_with at_Name (ru_Attrs y) a = Some q \<and>
        \<not> at_Mandatory p \<and> at_Mandatory q)"

inductive breaks ::
  "module_report \<Rightarrow> module_report \<Rightarrow> breaking_kind \<Rightarrow> string \<Rightarrow> string \<Rightarrow> bool"
  for f t :: module_report where
  compat: "mr_CompatibilityLevel f \<noteq> mr_CompatibilityLevel t \<Longrightarrow>
     breaks f t BreakingCompatLevelShift (mr_Name t) []"
| rule_gone: "pub_rule f n \<noteq> None \<Longrightarrow> pub_rule t n = None \<Longrightarrow> breaks f t BreakingRuleRemoved n []"
| rule_attr_gone: "pub_rule f n = Some x \<Longrightarrow> pub_rule t n = Some y \<Longrightarrow> attr_removed x y a \<Longrightarrow>
     breaks f t BreakingRuleAttrRemoved n a"
| rule_attr_mand: "pub_rule f n = Some x \<Longrightarrow> pub_rule t n = Some y \<Longrightarrow> attr_now_mandatory x y a \<Longrightarrow>
     breaks f t BreakingRuleAttrNowMandatory n a"
| provider_gone: "pub_provider f n \<noteq> None \<Longrightarrow> pub_provider t n = None \<Longrightarrow>
     breaks f t BreakingProviderRemoved n []"
| field_gone: "pub_provider f n = Some p \<Longrightarrow> pub_provider t n = Some q \<Longrightarrow>
     a \<in> set (pr_Fields p) \<Longrightarrow> a \<notin> set (pr_Fields q) \<Longrightarrow> breaks f t BreakingProviderFieldRemoved n a"
| ext_gone: "pub_ext f n \<noteq> None \<Longrightarrow> pub_ext t n = None \<Longrightarrow>
     breaks f t BreakingModuleExtensionRemoved n []"
| tag_gone: "pub_ext f n = Some p \<Longrightarrow> pub_ext t n = Some q \<Longrightarrow>
     a \<in> tg_Name ` set (me_TagClasses p) \<Longrightarrow> a \<notin> tg_Name ` set (me_TagClasses q) \<Longrightarrow>
     breaks f t BreakingModuleExtensionTagRemoved n a"
| repo_rule_gone: "pub_repo_rule f n \<noteq> None \<Longrightarrow> pub_repo_rule t n = None \<Longrightarrow>
     breaks f t BreakingRepoRuleRemoved n []"
| repo_attr_gone: "pub_repo_rule f n = Some x \<Longrightarrow> pub_repo_rule t n = Some y \<Longrightarrow> attr_removed x y a \<Longrightarrow>
     breaks f t BreakingRepoRuleAttrRemoved n a"
| repo_attr_mand: "pub_repo_rule f n = Some x \<Longrightarrow> pub_repo_rule t n = Some y \<Longrightarrow>
     attr_now_mandatory x y a \<Longrightarrow> breaks f t BreakingRepoRuleAttrNowMandatory n a"

inductive_simps breaks_kind_simps:
  "breaks f t BreakingCompatLevelShift n a"
  "breaks f t BreakingRuleRemoved n a"
  "breaks f t BreakingRuleAttrRemoved n a"
  "breaks f t BreakingRuleAttrNowMandatory n a"
  "breaks f t BreakingProviderRemoved n a"
  "breaks f t BreakingProviderFieldRemoved n a"
  "breaks f t BreakingModuleExtensionRemoved n a"
  "breaks f t BreakingModuleExtensionTagRemoved n a"
  "breaks f t BreakingRepoRuleRemoved n a"
  "breaks f t BreakingRepoRuleAttrRemoved n a"
  "breaks f t BreakingRepoRuleAttrNowMandatory n a"

definition signature :: "breaking_finding \<Rightarrow> breaking_kind \<times> string \<times> string" where
  "signature f = (bf_Kind f, bf_Symbol f, bf_Detail f)"

subsection \<open>The diffs report exactly the losses\<close>

lemma in_names_minus: "n \<in> set (names_minus key a b) \<longleftrightarrow> last_with key a n \<noteq> None \<and> last_with key b n = None"
  unfolding names_minus_def by (simp only: set_sorted_list_of_set finite_set finite_imageI finite_Diff
      last_with_None_iff Diff_iff not_not)

lemma in_keyed_changes:
  "c \<in> set (keyed_changes key cmp a b) \<longleftrightarrow>
     (\<exists>k x y. last_with key a k = Some x \<and> last_with key b k = Some y \<and> cmp x y = Some c)"
proof -
  have "k \<in> key ` set b" if "last_with key b k = Some y" for k y
    using that by (rule last_with_in_keys)
  then show ?thesis
    unfolding keyed_changes_def set_map_filter_iff set_sorted_list_of_set [OF finite_imageI [OF finite_set]]
    by (fastforce split: option.splits)
qed

lemma attrs_rem_iff:
  "a \<in> at_Name ` set (keyed_minus at_Name (ru_Attrs x) (ru_Attrs y)) \<longleftrightarrow> attr_removed x y a"
  by (metis (no_types, lifting) attr_removed_def in_names_minus keyed_minus_names last_with_None_iff list.set_map)

lemma compareAttr_now_mandatory:
  "(\<exists>c. compareAttr p q = Some c \<and> now_mandatory c) \<longleftrightarrow> \<not> at_Mandatory p \<and> at_Mandatory q"
  by (auto simp: compareAttr_def Let_def now_mandatory_def)

lemma attrs_chg_iff:
  "a \<in> ac_Name ` set (filter now_mandatory (keyed_changes at_Name compareAttr (ru_Attrs x) (ru_Attrs y)))
   \<longleftrightarrow> attr_now_mandatory x y a" (is "?l \<longleftrightarrow> ?r")
proof
  assume ?l
  then obtain c k p q where c: "a = ac_Name c" "now_mandatory c" "compareAttr p q = Some c"
    and kp: "last_with at_Name (ru_Attrs x) k = Some p" "last_with at_Name (ru_Attrs y) k = Some q"
    by (auto simp: in_keyed_changes)
  moreover from c kp have "a = k" using compareAttr_name last_with_Some_D by fastforce
  ultimately show ?r using compareAttr_now_mandatory unfolding attr_now_mandatory_def by blast
next
  assume ?r
  then obtain p q where pq: "last_with at_Name (ru_Attrs x) a = Some p"
    "last_with at_Name (ru_Attrs y) a = Some q" "\<not> at_Mandatory p \<and> at_Mandatory q"
    unfolding attr_now_mandatory_def by blast
  then obtain c where c: "compareAttr p q = Some c" "now_mandatory c"
    using compareAttr_now_mandatory by blast
  moreover from c pq have "ac_Name c = a" using compareAttr_name last_with_Some_D by fastforce
  ultimately show ?l using pq by (force simp: in_keyed_changes)
qed

subsection \<open>Soundness and completeness of the classification\<close>

lemma signature_annotate [simp]: "signature (annotate f) = signature f"
  by (simp add: annotate_def signature_def Let_def)

lemma signature_ClassifyBreaking: "signature ` set (ClassifyBreaking r) = signature ` set (detect_breaking r)"
  by (simp add: ClassifyBreaking_def image_image)

lemma signature_finding [simp]: "signature (finding k s d r) = (k, s, d)"
  by (simp add: signature_def)

lemma changes_ex:
  assumes nm: "\<And>x y c. cmp x y = Some c \<Longrightarrow> nm c = key x"
  shows "(\<exists>ch \<in> set (keyed_changes key cmp xs ys). n = nm ch \<and> P ch) \<longleftrightarrow>
     (\<exists>x y. last_with key xs n = Some x \<and> last_with key ys n = Some y \<and> (\<exists>ch. cmp x y = Some ch \<and> P ch))"
    (is "?l \<longleftrightarrow> ?r")
proof
  assume ?l
  then obtain ch k x y where ch: "n = nm ch" "P ch" and
    k: "last_with key xs k = Some x" "last_with key ys k = Some y" "cmp x y = Some ch"
    by (auto simp: in_keyed_changes)
  then have "k = n" using nm last_with_Some_D by fastforce
  with ch k show ?r by blast
next
  assume ?r
  then obtain x y ch where k: "last_with key xs n = Some x" "last_with key ys n = Some y" "cmp x y = Some ch" "P ch"
    by blast
  then have "n = nm ch" using nm last_with_Some_D by fastforce
  moreover have "ch \<in> set (keyed_changes key cmp xs ys)" using k by (auto simp: in_keyed_changes)
  ultimately show ?l using k(4) by blast
qed

lemma rule_changes_iff:
  "(\<exists>ch \<in> set (keyed_changes ru_Name compare_rule_spec xs ys). n = cr_Name ch \<and> a \<in> at_Name ` set (cr_AttrsRem ch))
   \<longleftrightarrow> (\<exists>x y. last_with ru_Name xs n = Some x \<and> last_with ru_Name ys n = Some y \<and> attr_removed x y a)"
  "(\<exists>ch \<in> set (keyed_changes ru_Name compare_rule_spec xs ys). n = cr_Name ch \<and>
      a \<in> ac_Name ` set (filter now_mandatory (cr_AttrsChg ch)))
   \<longleftrightarrow> (\<exists>x y. last_with ru_Name xs n = Some x \<and> last_with ru_Name ys n = Some y \<and> attr_now_mandatory x y a)"
proof -
  have rem: "(\<exists>ch. compare_rule_spec x y = Some ch \<and> a \<in> at_Name ` set (cr_AttrsRem ch)) \<longleftrightarrow> attr_removed x y a" for x y
    unfolding attrs_rem_iff [symmetric] by (auto simp: compare_rule_spec_def Let_def)
  have chg: "(\<exists>ch. compare_rule_spec x y = Some ch \<and> a \<in> ac_Name ` set (filter now_mandatory (cr_AttrsChg ch)))
      \<longleftrightarrow> attr_now_mandatory x y a" for x y
    unfolding attrs_chg_iff [symmetric] by (auto simp: compare_rule_spec_def Let_def)
  note ex = changes_ex [of compare_rule_spec cr_Name ru_Name, OF compare_rule_spec_name]
  show "(\<exists>ch \<in> set (keyed_changes ru_Name compare_rule_spec xs ys). n = cr_Name ch \<and> a \<in> at_Name ` set (cr_AttrsRem ch))
      \<longleftrightarrow> (\<exists>x y. last_with ru_Name xs n = Some x \<and> last_with ru_Name ys n = Some y \<and> attr_removed x y a)"
    by (simp only: ex rem)
  show "(\<exists>ch \<in> set (keyed_changes ru_Name compare_rule_spec xs ys). n = cr_Name ch \<and>
      a \<in> ac_Name ` set (filter now_mandatory (cr_AttrsChg ch)))
      \<longleftrightarrow> (\<exists>x y. last_with ru_Name xs n = Some x \<and> last_with ru_Name ys n = Some y \<and> attr_now_mandatory x y a)"
    by (simp only: ex chg)
qed

lemma provider_changes_iff:
  "(\<exists>ch \<in> set (keyed_changes pr_Name compare_provider_spec xs ys). n = cp_Name ch \<and> a \<in> set (cp_FieldsRemoved ch))
   \<longleftrightarrow> (\<exists>x y. last_with pr_Name xs n = Some x \<and> last_with pr_Name ys n = Some y \<and>
          a \<in> set (pr_Fields x) \<and> a \<notin> set (pr_Fields y))"
proof -
  have rem: "(\<exists>ch. compare_provider_spec x y = Some ch \<and> a \<in> set (cp_FieldsRemoved ch)) \<longleftrightarrow>
      a \<in> set (pr_Fields x) \<and> a \<notin> set (pr_Fields y)" for x y
    by (auto simp: compare_provider_spec_def Let_def names_minus_def)
  show ?thesis
    by (simp only: changes_ex [of compare_provider_spec cp_Name pr_Name, OF compare_provider_spec_name] rem)
qed

lemma ext_changes_iff:
  "(\<exists>ch \<in> set (keyed_changes me_Name compare_mod_ext_spec xs ys). n = ce_Name ch \<and> a \<in> set (ce_TagClassesRemoved ch))
   \<longleftrightarrow> (\<exists>x y. last_with me_Name xs n = Some x \<and> last_with me_Name ys n = Some y \<and>
          a \<in> tg_Name ` set (me_TagClasses x) \<and> a \<notin> tg_Name ` set (me_TagClasses y))"
proof -
  have rem: "(\<exists>ch. compare_mod_ext_spec x y = Some ch \<and> a \<in> set (ce_TagClassesRemoved ch)) \<longleftrightarrow>
      a \<in> tg_Name ` set (me_TagClasses x) \<and> a \<notin> tg_Name ` set (me_TagClasses y)" for x y
    by (auto simp: compare_mod_ext_spec_def Let_def names_minus_def)
  show ?thesis
    by (simp only: changes_ex [of compare_mod_ext_spec ce_Name me_Name, OF compare_mod_ext_spec_name] rem)
qed

lemma in_sig:
  "s \<in> signature ` set (xs @ ys) \<longleftrightarrow> s \<in> signature ` set xs \<or> s \<in> signature ` set ys"
  "s \<in> signature ` set (map g zs) \<longleftrightarrow> (\<exists>z \<in> set zs. s = signature (g z))"
  "s \<in> signature ` set (concat (map h ws)) \<longleftrightarrow> (\<exists>w \<in> set ws. s \<in> signature ` set (h w))"
  "s \<in> signature ` set (case c of None \<Rightarrow> [] | Some v \<Rightarrow> [f]) \<longleftrightarrow> c \<noteq> None \<and> s = signature f"
  by (auto split: option.splits)

lemma sig_detect:
  "(BreakingCompatLevelShift, n, a) \<in> signature ` set (detect_breaking r) \<longleftrightarrow>
     dr_CompatibilityLevel r \<noteq> None \<and> n = dr_Module r \<and> a = []"
  "(BreakingRuleRemoved, n, a) \<in> signature ` set (detect_breaking r) \<longleftrightarrow>
     n \<in> set (rd_Removed (dr_Rules r)) \<and> a = []"
  "(BreakingRuleAttrRemoved, n, a) \<in> signature ` set (detect_breaking r) \<longleftrightarrow>
     (\<exists>ch \<in> set (rd_Changed (dr_Rules r)). n = cr_Name ch \<and> a \<in> at_Name ` set (cr_AttrsRem ch))"
  "(BreakingRuleAttrNowMandatory, n, a) \<in> signature ` set (detect_breaking r) \<longleftrightarrow>
     (\<exists>ch \<in> set (rd_Changed (dr_Rules r)). n = cr_Name ch \<and>
        a \<in> ac_Name ` set (filter now_mandatory (cr_AttrsChg ch)))"
  "(BreakingProviderRemoved, n, a) \<in> signature ` set (detect_breaking r) \<longleftrightarrow>
     n \<in> set (pd_Removed (dr_Providers r)) \<and> a = []"
  "(BreakingProviderFieldRemoved, n, a) \<in> signature ` set (detect_breaking r) \<longleftrightarrow>
     (\<exists>ch \<in> set (pd_Changed (dr_Providers r)). n = cp_Name ch \<and> a \<in> set (cp_FieldsRemoved ch))"
  "(BreakingModuleExtensionRemoved, n, a) \<in> signature ` set (detect_breaking r) \<longleftrightarrow>
     n \<in> set (md_Removed (dr_ModuleExtensions r)) \<and> a = []"
  "(BreakingModuleExtensionTagRemoved, n, a) \<in> signature ` set (detect_breaking r) \<longleftrightarrow>
     (\<exists>ch \<in> set (md_Changed (dr_ModuleExtensions r)). n = ce_Name ch \<and> a \<in> set (ce_TagClassesRemoved ch))"
  "(BreakingRepoRuleRemoved, n, a) \<in> signature ` set (detect_breaking r) \<longleftrightarrow>
     n \<in> set (rd_Removed (dr_RepositoryRules r)) \<and> a = []"
  "(BreakingRepoRuleAttrRemoved, n, a) \<in> signature ` set (detect_breaking r) \<longleftrightarrow>
     (\<exists>ch \<in> set (rd_Changed (dr_RepositoryRules r)). n = cr_Name ch \<and> a \<in> at_Name ` set (cr_AttrsRem ch))"
  "(BreakingRepoRuleAttrNowMandatory, n, a) \<in> signature ` set (detect_breaking r) \<longleftrightarrow>
     (\<exists>ch \<in> set (rd_Changed (dr_RepositoryRules r)). n = cr_Name ch \<and>
        a \<in> ac_Name ` set (filter now_mandatory (cr_AttrsChg ch)))"
  unfolding detect_breaking_def in_sig signature_finding prod.inject
  by (simp_all add: image_iff) (blast+)?

lemma Compute_fields [simp]:
  "dr_CompatibilityLevel (Compute \<pi> f t) = (if mr_CompatibilityLevel f \<noteq> mr_CompatibilityLevel t
     then Some \<lparr>cc_From = mr_CompatibilityLevel f, cc_To = mr_CompatibilityLevel t\<rparr> else None)"
  "dr_Module (Compute \<pi> f t) = mr_Name t"
  "dr_Rules (Compute \<pi> f t) = rulesDiff \<pi> [''rules''] (filterPublicRules (mr_Rules f)) (filterPublicRules (mr_Rules t))"
  "dr_Providers (Compute \<pi> f t) = providersDiff \<pi> (filterPublicProviders (mr_Providers f)) (filterPublicProviders (mr_Providers t))"
  "dr_RepositoryRules (Compute \<pi> f t) =
     rulesDiff \<pi> [''reporules''] (repoRulesAsRules (mr_RepositoryRules f)) (repoRulesAsRules (mr_RepositoryRules t))"
  "dr_ModuleExtensions (Compute \<pi> f t) =
     modExtsDiff \<pi> (filterPublicModExts (mr_ModuleExtensions f)) (filterPublicModExts (mr_ModuleExtensions t))"
  by (simp_all add: Compute_def Let_def)

lemma detect_breaking_ignores [simp]: "detect_breaking (d\<lparr>dr_Breaking := b\<rparr>) = detect_breaking d"
  by (simp add: detect_breaking_def split: option.splits)

lemma Compute_Breaking: "dr_Breaking (Compute \<pi> f t) = ClassifyBreaking (Compute \<pi> f t)"
proof -
  have "dr_Breaking (d\<lparr>dr_Breaking := ClassifyBreaking d\<rparr>) = ClassifyBreaking (d\<lparr>dr_Breaking := ClassifyBreaking d\<rparr>)"
    for d :: diff_report
    by (simp add: ClassifyBreaking_def)
  then show ?thesis unfolding Compute_def Let_def .
qed

lemmas spec_fields = rules_diff_spec_def providers_diff_spec_def mod_exts_diff_spec_def

lemma signature_Compute:
  assumes "range_ok \<pi>"
  shows "signature ` set (dr_Breaking (Compute \<pi> f t)) = {(k, n, a). breaks f t k n a}"
proof -
  have "(k, n, a) \<in> signature ` set (dr_Breaking (Compute \<pi> f t)) \<longleftrightarrow> breaks f t k n a" for k n a
    unfolding Compute_Breaking signature_ClassifyBreaking
    by (cases k; simp only: sig_detect Compute_fields rulesDiff_refines [OF assms]
        providersDiff_refines [OF assms] modExtsDiff_refines [OF assms] spec_fields
        rules_diff.simps providers_diff.simps mod_exts_diff.simps in_names_minus rule_changes_iff
        provider_changes_iff ext_changes_iff breaks_kind_simps; auto)
  then show ?thesis by auto
qed


definition no_rules :: module_report where
  "no_rules = \<lparr>mr_Name = ''rules_cc'', mr_Version = ''1.0'', mr_CompatibilityLevel = 0,
     mr_HermeticityClasses = [], mr_BazelDeps = [], mr_Rules = [], mr_Providers = [], mr_Macros = [],
     mr_Aspects = [], mr_Toolchains = [], mr_RepositoryRules = [], mr_ModuleExtensions = []\<rparr>"

definition one_rule :: module_report where
  "one_rule = no_rules\<lparr>mr_Rules := [\<lparr>ru_Name = ''cc_binary'', ru_Attrs = [], ru_Private = False\<rparr>]\<rparr>"


subsection \<open>Each break once, in order\<close>

lemma kind_string_inject: "kind_string k = kind_string k' \<longleftrightarrow> k = k'"
  by (cases k; cases k') simp_all

lemma distinct_concat_named:
  assumes "distinct (map nm cs)"
    and "\<And>c. c \<in> set cs \<Longrightarrow> distinct (map signature (g c))"
    and "\<And>c f. c \<in> set cs \<Longrightarrow> f \<in> set (g c) \<Longrightarrow> bf_Symbol f = nm c"
  shows "distinct (map signature (concat (map g cs)))"
  using assms
proof (induction cs)
  case (Cons c cs)
  have "signature x \<noteq> signature y" if "x \<in> set (g c)" "d \<in> set cs" "y \<in> set (g d)" for x d y
    using that Cons.prems(1) Cons.prems(3) [of c x] Cons.prems(3) [of d y] by (auto simp: signature_def)
  then show ?case using Cons by (fastforce simp: image_iff)
qed simp

lemma distinct_findings:
  "distinct xs \<Longrightarrow> distinct (map signature (map (\<lambda>n. finding k n [] r) xs))"
  "distinct (map h ys) \<Longrightarrow> distinct (map signature (map (\<lambda>y. finding k m (h y) r) ys))"
  by (simp_all add: comp_def distinct_map inj_on_def)

definition diff_wf :: "diff_report \<Rightarrow> bool" where
  "diff_wf r \<longleftrightarrow>
     distinct (rd_Removed (dr_Rules r)) \<and> distinct (map cr_Name (rd_Changed (dr_Rules r))) \<and>
     distinct (rd_Removed (dr_RepositoryRules r)) \<and> distinct (map cr_Name (rd_Changed (dr_RepositoryRules r))) \<and>
     distinct (pd_Removed (dr_Providers r)) \<and> distinct (map cp_Name (pd_Changed (dr_Providers r))) \<and>
     distinct (md_Removed (dr_ModuleExtensions r)) \<and> distinct (map ce_Name (md_Changed (dr_ModuleExtensions r))) \<and>
     (\<forall>ch \<in> set (rd_Changed (dr_Rules r)) \<union> set (rd_Changed (dr_RepositoryRules r)).
        distinct (map at_Name (cr_AttrsRem ch)) \<and> distinct (map ac_Name (cr_AttrsChg ch))) \<and>
     (\<forall>ch \<in> set (pd_Changed (dr_Providers r)). distinct (cp_FieldsRemoved ch)) \<and>
     (\<forall>ch \<in> set (md_Changed (dr_ModuleExtensions r)). distinct (ce_TagClassesRemoved ch))"

lemma distinct_rule_group:
  assumes "distinct (map cr_Name cs)" and "k \<noteq> k'"
    and "\<And>ch. ch \<in> set cs \<Longrightarrow> distinct (map at_Name (cr_AttrsRem ch)) \<and> distinct (map ac_Name (cr_AttrsChg ch))"
  shows "distinct (map signature (concat (map (\<lambda>ch.
      map (\<lambda>a. finding k (cr_Name ch) (at_Name a) r) (cr_AttrsRem ch) @
      map (\<lambda>a. finding k' (cr_Name ch) (ac_Name a) r') (filter now_mandatory (cr_AttrsChg ch))) cs)))"
proof (rule distinct_concat_named [OF assms(1)])
  fix ch assume "ch \<in> set cs"
  then show "distinct (map signature (map (\<lambda>a. finding k (cr_Name ch) (at_Name a) r) (cr_AttrsRem ch) @
      map (\<lambda>a. finding k' (cr_Name ch) (ac_Name a) r') (filter now_mandatory (cr_AttrsChg ch))))"
    unfolding map_append distinct_append
    using assms(2) assms(3) [of ch] by (intro conjI distinct_findings distinct_map_filterI) auto
qed auto

lemma distinct_map_append_kinds:
  "distinct (map signature xs) \<Longrightarrow> distinct (map signature ys) \<Longrightarrow>
   bf_Kind ` set xs \<inter> bf_Kind ` set ys = {} \<Longrightarrow> distinct (map signature (xs @ ys))"
  by (fastforce simp: signature_def)

lemma distinct_detail_group:
  assumes "distinct (map nm cs)" and "\<And>ch. ch \<in> set cs \<Longrightarrow> distinct (items ch)"
  shows "distinct (map signature (concat (map (\<lambda>ch. map (\<lambda>x. finding k (nm ch) x r) (items ch)) cs)))"
  by (rule distinct_concat_named [OF assms(1)])
    (use assms(2) distinct_findings(2) [where h = "\<lambda>x. x"] in auto)

lemma distinct_detect:
  assumes "diff_wf r"
  shows "distinct (map signature (detect_breaking r))"
  unfolding detect_breaking_def
  by (intro distinct_map_append_kinds distinct_findings(1) distinct_rule_group distinct_detail_group;
      (use assms in \<open>simp add: diff_wf_def image_Un image_UN image_image split: option.splits\<close>)?;
      auto)

lemma diff_wf_Compute:
  assumes "range_ok \<pi>"
  shows "diff_wf (Compute \<pi> f t)"
proof -
  have chg: "distinct (map at_Name (cr_AttrsRem ch)) \<and> distinct (map ac_Name (cr_AttrsChg ch))"
    if "compare_rule_spec x y = Some ch" for x y ch
  proof -
    have "distinct (map ac_Name (keyed_changes at_Name compareAttr u v))" for u v
      unfolding keyed_changes_def
      by (rule distinct_map_filter [where g = "\<lambda>k. k"])
        (auto split: option.splits dest!: compareAttr_name last_with_Some_D)
    then show ?thesis
      using that by (auto simp: compare_rule_spec_def Let_def keyed_minus_names names_minus_def split: if_splits)
  qed
  have flds: "distinct (cp_FieldsRemoved ch)" if "compare_provider_spec x y = Some ch" for x y ch
    using that by (auto simp: compare_provider_spec_def Let_def names_minus_def split: if_splits)
  have tags: "distinct (ce_TagClassesRemoved ch)" if "compare_mod_ext_spec x y = Some ch" for x y ch
    using that by (auto simp: compare_mod_ext_spec_def Let_def names_minus_def split: if_splits)
  note asc = rules.changed_ascending [OF assms] provs.changed_ascending [OF assms]
    exts.changed_ascending [OF assms]
  show ?thesis
    unfolding diff_wf_def Compute_fields
    using asc rules.ascending [OF assms] provs.ascending [OF assms] exts.ascending [OF assms]
    by (auto simp: rules.in_changed_iff [OF assms] provs.in_changed_iff [OF assms]
        exts.in_changed_iff [OF assms] strict_sorted_iff dest: chg flds tags)
qed

lemma distinct_annotated:
  "range_ok \<pi> \<Longrightarrow> distinct (map signature (map annotate (detect_breaking (Compute \<pi> f t))))"
  using distinct_detect [OF diff_wf_Compute] by (simp add: comp_def)

lemma length_Breaking:
  assumes "range_ok \<pi>"
  shows "length (dr_Breaking (Compute \<pi> f t)) = card {(k, n, a). breaks f t k n a}"
proof -
  have "mset (map signature (dr_Breaking (Compute \<pi> f t))) =
      mset (map signature (map annotate (detect_breaking (Compute \<pi> f t))))"
    by (simp add: Compute_Breaking ClassifyBreaking_def image_mset.compositionality)
  then have "distinct (map signature (dr_Breaking (Compute \<pi> f t)))"
    using distinct_annotated [OF assms] mset_eq_imp_distinct_iff by blast
  from distinct_card [OF this] show ?thesis
    by (simp add: signature_Compute [OF assms])
qed

text \<open>
  The findings of a diff come in strictly ascending (kind, symbol, detail) order, so the
  list is deterministic and names each break exactly once.
\<close>

theorem breaking_findings_sorted:
  assumes "range_ok \<pi>"
  shows "sorted_wrt (<) (map finding_less_key (dr_Breaking (Compute \<pi> f t)))"
proof -
  let ?fs = "map annotate (detect_breaking (Compute \<pi> f t))"
  have "distinct (map signature ?fs)" by (rule distinct_annotated [OF assms])
  then have "distinct (map finding_less_key ?fs)"
    by (auto simp: distinct_map inj_on_def finding_less_key_def signature_def kind_string_inject)
  then show ?thesis
    unfolding Compute_Breaking ClassifyBreaking_def strict_sorted_iff
    by (metis distinct_map distinct_sort set_sort sorted_sort_key)
qed

lemma breaking_findings_sorted_witness:
  "sorted_wrt (<) (map finding_less_key (dr_Breaking (Compute canon one_rule no_rules)))"
  by (rule breaking_findings_sorted) simp

lemma Compute_order_free: "range_ok \<pi> \<Longrightarrow> range_ok \<pi>' \<Longrightarrow> Compute \<pi> f t = Compute \<pi>' f t"
  unfolding Compute_def by (simp only: range_canon)

text \<open>
  The whole report is a function of the two module reports: two runs that range over their
  maps in different orders return the same report, field by field.
\<close>

theorem Compute_deterministic:
  "range_ok \<pi> \<Longrightarrow> range_ok \<pi>' \<Longrightarrow> Compute \<pi> f t = Compute \<pi>' f t"
  by (rule Compute_order_free)

lemma Compute_deterministic_witness:
  "Compute (\<lambda>_. rev) one_rule no_rules = Compute canon one_rule no_rules"
  by (rule Compute_deterministic) (simp_all add: range_ok_def canon_def)

definition empty_rules :: rules_diff where
  "empty_rules = \<lparr>rd_Added = [], rd_Removed = [], rd_Changed = []\<rparr>"

text \<open>
  Comparing a report with itself reports no change in any domain and no break.
\<close>

theorem Compute_self:
  assumes "range_ok \<pi>"
  shows "Compute \<pi> r r =
    \<lparr>dr_Module = mr_Name r, dr_From = mr_Version r, dr_To = mr_Version r,
     dr_CompatibilityLevel = None, dr_Hermeticity = None,
     dr_BazelDeps = \<lparr>dd_Added = [], dd_Removed = [], dd_Changed = []\<rparr>,
     dr_Rules = empty_rules, dr_Providers = \<lparr>pd_Added = [], pd_Removed = [], pd_Changed = []\<rparr>,
     dr_Macros = \<lparr>nd_Added = [], nd_Removed = []\<rparr>, dr_Aspects = \<lparr>nd_Added = [], nd_Removed = []\<rparr>,
     dr_Toolchains = \<lparr>nd_Added = [], nd_Removed = []\<rparr>, dr_RepositoryRules = empty_rules,
     dr_ModuleExtensions = \<lparr>md_Added = [], md_Removed = [], md_Changed = []\<rparr>, dr_Breaking = []\<rparr>"
  by (simp add: Compute_def Let_def range_canon assms herm_diff_spec_def deps_diff_spec_def
      rules_diff_spec_def providers_diff_spec_def names_diff_spec_def mod_exts_diff_spec_def
      keyed_changes_self empty_rules_def ClassifyBreaking_def detect_breaking_def)

lemma Compute_self_witness: "dr_Breaking (Compute canon one_rule one_rule) = []"
  using Compute_self [of canon one_rule] by simp

lemma in_keyed_minus:
  "x \<in> set (keyed_minus key a b) \<longleftrightarrow> last_with key a (key x) = Some x \<and> last_with key b (key x) = None"
  unfolding keyed_minus_def set_map_filter_iff Bex_def in_names_minus
  using last_with_Some_D by fastforce

lemma Compute_BazelDeps: "range_ok \<pi> \<Longrightarrow> dr_BazelDeps (Compute \<pi> f t) = deps_diff_spec (mr_BazelDeps f) (mr_BazelDeps t)"
  by (simp add: Compute_def Let_def depsDiff_refines)

lemma deps_changed_set:
  "set (dd_Changed (deps_diff_spec a b)) =
     {\<lparr>cd_Name = n, cd_FromVersion = mk_Version x, cd_ToVersion = mk_Version y\<rparr> | n x y.
        last_with mk_Name a n = Some x \<and> last_with mk_Name b n = Some y \<and> mk_Version x \<noteq> mk_Version y}"
  using last_with_Some_D [of mk_Name a]
  by (fastforce simp: deps_diff_spec_def in_keyed_changes compare_dep_spec_def split: if_splits)

lemma deps_minus_set:
  "bare_key ` set (keyed_minus mk_Name a b) =
     {\<lparr>mk_Name = n, mk_Version = mk_Version d, mk_DevDependency = False, mk_RepoName = []\<rparr> | n d.
        last_with mk_Name a n = Some d \<and> last_with mk_Name b n = None}"
  using last_with_Some_D [of mk_Name a]
  by (fastforce simp: in_keyed_minus bare_key_def)

text \<open>
  The bazel_dep section of the report is a patch on dependency names and versions: every
  added or removed entry carries the version its side declares, an entry is in the changed list
  exactly when both sides declare the name with different versions, and nothing else is listed.
\<close>

theorem deps_section_exact:
  assumes "range_ok \<pi>"
  shows "set (dd_Added (dr_BazelDeps (Compute \<pi> f t))) =
      {\<lparr>mk_Name = n, mk_Version = mk_Version d, mk_DevDependency = False, mk_RepoName = []\<rparr> | n d.
         last_with mk_Name (mr_BazelDeps t) n = Some d \<and> last_with mk_Name (mr_BazelDeps f) n = None} \<and>
    set (dd_Removed (dr_BazelDeps (Compute \<pi> f t))) =
      {\<lparr>mk_Name = n, mk_Version = mk_Version d, mk_DevDependency = False, mk_RepoName = []\<rparr> | n d.
         last_with mk_Name (mr_BazelDeps f) n = Some d \<and> last_with mk_Name (mr_BazelDeps t) n = None} \<and>
    set (dd_Changed (dr_BazelDeps (Compute \<pi> f t))) =
      {\<lparr>cd_Name = n, cd_FromVersion = mk_Version x, cd_ToVersion = mk_Version y\<rparr> | n x y.
         last_with mk_Name (mr_BazelDeps f) n = Some x \<and> last_with mk_Name (mr_BazelDeps t) n = Some y \<and>
         mk_Version x \<noteq> mk_Version y}"
  unfolding Compute_BazelDeps [OF assms] deps_changed_set deps_minus_set [symmetric]
  by (simp add: deps_diff_spec_def)

lemma deps_section_exact_witness:
  "\<lparr>cd_Name = ''zlib'', cd_FromVersion = ''1.2'', cd_ToVersion = ''1.3''\<rparr> \<in>
     set (dd_Changed (dr_BazelDeps (Compute canon
       (no_rules\<lparr>mr_BazelDeps := [\<lparr>mk_Name = ''zlib'', mk_Version = ''1.2'', mk_DevDependency = False, mk_RepoName = []\<rparr>]\<rparr>)
       (no_rules\<lparr>mr_BazelDeps := [\<lparr>mk_Name = ''zlib'', mk_Version = ''1.3'', mk_DevDependency = True, mk_RepoName = []\<rparr>]\<rparr>))))"
  unfolding deps_section_exact [OF range_ok_canon, THEN conjunct2, THEN conjunct2]
  by (auto simp: no_rules_def last_with_def)

text \<open>
  Every finding carries a hint, and its codemod has one of three shapes that depend on the
  kind alone: a bare buildozer command for the two attribute removals, a commented review
  command for the six symbol removals, and nothing for the other three kinds.
\<close>

theorem finding_annotations:
  assumes "f \<in> set (ClassifyBreaking r)"
  shows "bf_Hint f \<noteq> [] \<and>
    (has_prefix (bf_Codemod f) ''buildozer '' \<longleftrightarrow>
       bf_Kind f \<in> {BreakingRuleAttrRemoved, BreakingRepoRuleAttrRemoved}) \<and>
    (bf_Codemod f = [] \<longleftrightarrow>
       bf_Kind f \<in> {BreakingCompatLevelShift, BreakingRuleAttrNowMandatory, BreakingRepoRuleAttrNowMandatory}) \<and>
    (has_prefix (bf_Codemod f) ''# review: '' \<longleftrightarrow>
       bf_Kind f \<in> {BreakingRuleRemoved, BreakingProviderRemoved, BreakingProviderFieldRemoved,
         BreakingModuleExtensionRemoved, BreakingModuleExtensionTagRemoved, BreakingRepoRuleRemoved})"
proof -
  obtain g where f: "f = annotate g" using assms by (auto simp: ClassifyBreaking_def)
  show ?thesis
    by (cases "bf_Kind g")
      (simp_all add: f annotate_def Let_def migrationHint_def buildozerCodemod_def has_prefix_def)
qed

lemma finding_annotations_witness:
  "bf_Codemod (hd (ClassifyBreaking (Compute canon one_rule no_rules))) \<noteq> []"
proof -
  let ?r = "Compute canon one_rule no_rules"
  have "ClassifyBreaking ?r = [annotate (finding BreakingRuleRemoved ''cc_binary'' []
      ''BUILD files that target this rule will fail at load time.'')]"
    by code_simp
  then show ?thesis
    using finding_annotations [of "hd (ClassifyBreaking ?r)" ?r]
    by (simp add: annotate_def Let_def)
qed

end
