(* ===== verification/ClosureDiff.thy ===== *)
theory ClosureDiff
  imports Breaking
begin

text \<open>
  The closure-wide diff (src/internal/closurediff/closurediff.go): two MVS closures, the shape
  diff between them, one module diff per moved module, and the roll-up of breaking findings.

  The MVS resolution (package go-bzlmod) and the analyzer handed in by the caller are
  parameters. The worker pool is a schedule: the order in which the workers' critical sections
  run, and whether the sender loop saw the context cancelled.
\<close>

section \<open>State\<close>

record closure_options =
  co_Module :: string
  co_FromVersion :: string
  co_ToVersion :: string
  co_Upstream :: string
  co_Workers :: int
  co_AnalyzeFunc :: "(string \<Rightarrow> string \<Rightarrow> string + module_report) option"

record changed_closure_dep =
  xd_Name :: string
  xd_FromVersion :: string
  xd_ToVersion :: string

record closure_deps_diff =
  xs_Added :: "module_key list"
  xs_Removed :: "module_key list"
  xs_Changed :: "changed_closure_dep list"

record closure_report =
  xr_Module :: string
  xr_From :: string
  xr_To :: string
  xr_FromClosureSize :: nat
  xr_ToClosureSize :: nat
  xr_ClosureDeps :: closure_deps_diff
  xr_ModuleDiffs :: "diff_report gomap"
  xr_ErrorByModule :: "string gomap"
  xr_ClosureBreakingTotal :: nat
  xr_ClosureBreakingByModule :: "nat gomap"

text \<open>
  One run of the worker pool: \<open>completion jobs\<close> is the order in which the jobs enter the
  critical section, \<open>cancelled\<close> the context error if the sender loop took the
  \<^verbatim>\<open>ctx.Done()\<close> branch. A nil map and an empty one read the same and are both \<^term>\<open>[]\<close>.
\<close>

record 'j schedule =
  completion :: "'j list \<Rightarrow> 'j list"
  cancelled :: "string option"

section \<open>Operations\<close>

definition collapse_module :: "string \<times> string \<Rightarrow> string gomap \<Rightarrow> string gomap" where
  "collapse_module m out =
     (case m of (name, version) \<Rightarrow>
        case map_of out name of
          Some existing \<Rightarrow>
            if existing \<noteq> version
            then (if version > existing then AList.update name version out else out)
            else AList.update name version out
        | None \<Rightarrow> AList.update name version out)"

definition walkClosure ::
  "(string \<Rightarrow> string \<Rightarrow> string \<Rightarrow> string + (string \<times> string) list) \<Rightarrow>
   string \<Rightarrow> string \<Rightarrow> string \<Rightarrow> string + string gomap" where
  "walkClosure resolve name version upstream =
     (case resolve name version upstream of
        Inl err \<Rightarrow> Inl err
      | Inr modules \<Rightarrow> Inr (fold collapse_module modules []))"

definition shapeClosureDeps :: "range_order \<Rightarrow> string gomap \<Rightarrow> string gomap \<Rightarrow> closure_deps_diff" where
  "shapeClosureDeps \<pi> fm tm =
     (let ts = range_map \<pi> [''closure'', ''to''] tm;
          added = List.map_filter (\<lambda>(name, ver). case map_of fm name of
              None \<Rightarrow> Some \<lparr>mk_Name = name, mk_Version = ver, mk_DevDependency = False, mk_RepoName = []\<rparr>
            | Some fv \<Rightarrow> None) ts;
          changed = List.map_filter (\<lambda>(name, ver). case map_of fm name of
              None \<Rightarrow> None
            | Some fv \<Rightarrow> if fv \<noteq> ver
                then Some \<lparr>xd_Name = name, xd_FromVersion = fv, xd_ToVersion = ver\<rparr> else None) ts;
          removed = List.map_filter (\<lambda>(name, ver). if has_key tm name then None
              else Some \<lparr>mk_Name = name, mk_Version = ver, mk_DevDependency = False, mk_RepoName = []\<rparr>)
            (range_map \<pi> [''closure'', ''from''] fm)
      in \<lparr>xs_Added = sort_key mk_Name added, xs_Removed = sort_key mk_Name removed,
          xs_Changed = sort_key xd_Name changed\<rparr>)"

definition perModuleDiff ::
  "range_order \<Rightarrow> string \<Rightarrow> string \<Rightarrow> string \<Rightarrow> (string \<Rightarrow> string \<Rightarrow> string + module_report) \<Rightarrow>
   string + diff_report" where
  "perModuleDiff \<pi> name f t analyze =
     (case analyze name f of
        Inl err \<Rightarrow> Inl (''analyze '' @ name @ ''@'' @ f @ '': '' @ err)
      | Inr fr \<Rightarrow>
        (case analyze name t of
           Inl err \<Rightarrow> Inl (''analyze '' @ name @ ''@'' @ t @ '': '' @ err)
         | Inr tr \<Rightarrow> Inr (Compute \<pi> fr tr)))"

text \<open>The critical section of a worker: the body between \<^verbatim>\<open>mu.Lock()\<close> and \<^verbatim>\<open>mu.Unlock()\<close>.\<close>

definition finish_job ::
  "range_order \<Rightarrow> (string \<Rightarrow> string \<Rightarrow> string + module_report) \<Rightarrow> changed_closure_dep \<Rightarrow>
   closure_report \<Rightarrow> closure_report" where
  "finish_job \<pi> analyze j r =
     (case perModuleDiff \<pi> (xd_Name j) (xd_FromVersion j) (xd_ToVersion j) analyze of
        Inl err \<Rightarrow> r\<lparr>xr_ErrorByModule := AList.update (xd_Name j) err (xr_ErrorByModule r)\<rparr>
      | Inr diff \<Rightarrow>
          (let r = r\<lparr>xr_ModuleDiffs := AList.update (xd_Name j) diff (xr_ModuleDiffs r)\<rparr>;
               n = length (dr_Breaking diff)
           in if n > 0
              then r\<lparr>xr_ClosureBreakingByModule := AList.update (xd_Name j) n (xr_ClosureBreakingByModule r),
                     xr_ClosureBreakingTotal := xr_ClosureBreakingTotal r + n\<rparr>
              else r))"

text \<open>The report before the workers start.\<close>

definition fresh_report ::
  "range_order \<Rightarrow> closure_options \<Rightarrow> string gomap \<Rightarrow> string gomap \<Rightarrow> closure_report" where
  "fresh_report \<pi> opts fromClosure toClosure =
     \<lparr>xr_Module = co_Module opts, xr_From = co_FromVersion opts, xr_To = co_ToVersion opts,
      xr_FromClosureSize = length fromClosure, xr_ToClosureSize = length toClosure,
      xr_ClosureDeps = shapeClosureDeps \<pi> fromClosure toClosure,
      xr_ModuleDiffs = [], xr_ErrorByModule = [], xr_ClosureBreakingTotal = 0,
      xr_ClosureBreakingByModule = []\<rparr>"

definition ComputeClosure ::
  "range_order \<Rightarrow> (string \<Rightarrow> string \<Rightarrow> string \<Rightarrow> string + (string \<times> string) list) \<Rightarrow>
   changed_closure_dep schedule \<Rightarrow> closure_options \<Rightarrow> string + closure_report" where
  "ComputeClosure \<pi> resolve sch opts =
     (if co_Module opts = [] \<or> co_FromVersion opts = [] \<or> co_ToVersion opts = []
      then Inl ''closurediff: module, from, and to are required''
      else if co_Upstream opts = []
      then Inl ''closurediff: upstream registry URL is required (MVS needs one)''
      else (case co_AnalyzeFunc opts of
        None \<Rightarrow> Inl ''closurediff: AnalyzeFunc is required''
      | Some analyze \<Rightarrow>
        (case walkClosure resolve (co_Module opts) (co_FromVersion opts) (co_Upstream opts) of
           Inl err \<Rightarrow> Inl (''walk from-closure '' @ co_Module opts @ ''@'' @ co_FromVersion opts @ '': '' @ err)
         | Inr fromClosure \<Rightarrow>
           (case walkClosure resolve (co_Module opts) (co_ToVersion opts) (co_Upstream opts) of
              Inl err \<Rightarrow> Inl (''walk to-closure '' @ co_Module opts @ ''@'' @ co_ToVersion opts @ '': '' @ err)
            | Inr toClosure \<Rightarrow>
              (let r = fresh_report \<pi> opts fromClosure toClosure;
                   jobs = xs_Changed (xr_ClosureDeps r)
               in case (if jobs = [] then None else cancelled sch) of
                    Some err \<Rightarrow> Inl err
                  | None \<Rightarrow> Inr (fold (finish_job \<pi> analyze) (completion sch jobs) r))))))"

section \<open>The walk of one closure\<close>

lemma distinct_collapse: "distinct (map fst out) \<Longrightarrow> distinct (map fst (collapse_module m out))"
  by (auto simp: collapse_module_def split: prod.splits option.splits intro: distinct_update)

lemma distinct_walk:
  "distinct (map fst out) \<Longrightarrow> distinct (map fst (fold collapse_module ms out))"
  by (induction ms arbitrary: out) (simp_all add: distinct_collapse)

lemma collapse_lookup:
  "map_of (collapse_module (name, version) out) n =
     (if n = name then Some (case map_of out name of None \<Rightarrow> version | Some v \<Rightarrow> max v version)
      else map_of out n)"
  by (auto simp: collapse_module_def update_conv' max_def split: option.splits)

lemma walk_lookup:
  "map_of (fold collapse_module ms out) n =
     (let vs = map snd (filter (\<lambda>m. fst m = n) ms) in
      case map_of out n of
        None \<Rightarrow> (if vs = [] then None else Some (fold max (tl vs) (hd vs)))
      | Some v \<Rightarrow> Some (fold max vs v))"
proof (induction ms arbitrary: out)
  case Nil
  then show ?case by (simp split: option.splits)
next
  case (Cons m ms)
  obtain name version where m: "m = (name, version)" by fastforce
  show ?case
    by (auto simp: Cons m collapse_lookup Let_def max.commute split: option.splits)
qed

text \<open>
  A closure walk keeps for each module name the greatest of the versions the resolver
  selected for it, in the order of Go strings, and it has exactly the names the resolver gave.
\<close>

theorem walkClosure_selects_greatest:
  assumes "walkClosure resolve name version upstream = Inr out"
    and "resolve name version upstream = Inr ms"
  shows "map_of out n =
     (let vs = {v. (n, v) \<in> set ms} in if vs = {} then None else Some (Max vs))"
proof -
  let ?vs = "map snd (filter (\<lambda>m. fst m = n) ms)"
  have out: "out = fold collapse_module ms []" using assms by (simp add: walkClosure_def)
  have vs: "{v. (n, v) \<in> set ms} = set ?vs" by (force simp: image_iff)
  have mx: "fold max (tl vs) (hd vs) = Max (set vs)" if "vs \<noteq> []" for vs :: "string list"
    using that by (metis Max.set_eq_fold list.collapse)
  show ?thesis
    unfolding out walk_lookup Let_def vs set_empty using mx [of ?vs] by (simp del: set_map)
qed

definition two_versions :: "string \<Rightarrow> string \<Rightarrow> string \<Rightarrow> string + (string \<times> string) list" where
  "two_versions name version upstream =
     Inr [(name, version), (''zlib'', ''1.2''), (''zlib'', ''1.3'')]"

lemma walkClosure_selects_greatest_witness:
  "\<exists>out. walkClosure two_versions ''a'' ''1'' ''u'' = Inr out \<and> map_of out ''zlib'' = Some ''1.3''"
proof -
  have w: "walkClosure two_versions ''a'' ''1'' ''u'' =
      Inr (fold collapse_module [(''a'', ''1''), (''zlib'', ''1.2''), (''zlib'', ''1.3'')] [])"
    by (simp add: walkClosure_def two_versions_def)
  have v: "{v. (''zlib'', v) \<in> set [(''a'', ''1''), (''zlib'', ''1.2''), (''zlib'', ''1.3'')]} = {''1.2'', ''1.3''}"
    by auto
  have "max ''1.2'' ''1.3'' = ''1.3''" by code_simp
  then show ?thesis
    using walkClosure_selects_greatest [OF w two_versions_def, of "''zlib''"] w
    unfolding v Let_def by auto
qed

section \<open>The shape diff\<close>

lemma shape_changed_eq:
  assumes "range_ok \<pi>" and "distinct (map fst tm)"
  shows "xs_Changed (shapeClosureDeps \<pi> fm tm) =
     List.map_filter (\<lambda>n. case (map_of fm n, map_of tm n) of
         (Some v, Some w) \<Rightarrow> if v \<noteq> w then Some \<lparr>xd_Name = n, xd_FromVersion = v, xd_ToVersion = w\<rparr> else None
       | _ \<Rightarrow> None) (sorted_list_of_set (fst ` set tm))"
proof -
  let ?h = "\<lambda>(name, ver). case map_of fm name of None \<Rightarrow> None
      | Some fv \<Rightarrow> if fv \<noteq> ver then Some \<lparr>xd_Name = name, xd_FromVersion = fv, xd_ToVersion = ver\<rparr> else None"
  have "xs_Changed (shapeClosureDeps \<pi> fm tm) =
      sort_key xd_Name (List.map_filter ?h (range_map \<pi> [''closure'', ''to''] tm))"
    by (simp add: shapeClosureDeps_def Let_def)
  also have "\<dots> = List.map_filter (\<lambda>n. ?h (n, the (map_of tm n))) (sorted_list_of_set (fst ` set tm))"
    by (rule sort_collected [OF assms]) (auto split: option.splits if_splits)
  also have "\<dots> = List.map_filter (\<lambda>n. case (map_of fm n, map_of tm n) of
         (Some v, Some w) \<Rightarrow> if v \<noteq> w then Some \<lparr>xd_Name = n, xd_FromVersion = v, xd_ToVersion = w\<rparr> else None
       | _ \<Rightarrow> None) (sorted_list_of_set (fst ` set tm))"
  proof (rule map_filter_cong)
    fix n assume "n \<in> set (sorted_list_of_set (fst ` set tm))"
    then obtain w where "map_of tm n = Some w" by (metis List.finite_set finite_imageI map_of_eq_None_iff not_None_eq set_sorted_list_of_set)
    then show "?h (n, the (map_of tm n)) = (case (map_of fm n, map_of tm n) of
         (Some v, Some w) \<Rightarrow> if v \<noteq> w then Some \<lparr>xd_Name = n, xd_FromVersion = v, xd_ToVersion = w\<rparr> else None
       | _ \<Rightarrow> None)" by (simp split: option.splits)
  qed
  finally show ?thesis .
qed

lemma in_shape_changed:
  assumes "range_ok \<pi>" and "distinct (map fst tm)"
  shows "j \<in> set (xs_Changed (shapeClosureDeps \<pi> fm tm)) \<longleftrightarrow>
     map_of fm (xd_Name j) = Some (xd_FromVersion j) \<and> map_of tm (xd_Name j) = Some (xd_ToVersion j) \<and>
     xd_FromVersion j \<noteq> xd_ToVersion j" (is "?l \<longleftrightarrow> ?r")
proof -
  have mem: "n \<in> fst ` set tm" if "map_of tm n = Some w" for n w
    using that map_of_SomeD by force
  have "?l \<longleftrightarrow> (\<exists>n v w. map_of fm n = Some v \<and> map_of tm n = Some w \<and> v \<noteq> w \<and>
      j = \<lparr>xd_Name = n, xd_FromVersion = v, xd_ToVersion = w\<rparr>)"
    unfolding shape_changed_eq [OF assms] set_map_filter_iff
      set_sorted_list_of_set [OF finite_imageI [OF finite_set]]
    by (fastforce split: option.splits if_splits dest: mem)
  also have "\<dots> \<longleftrightarrow> ?r" by (cases j) auto
  finally show ?thesis .
qed

lemma distinct_shape_changed:
  assumes "range_ok \<pi>" and "distinct (map fst tm)"
  shows "distinct (map xd_Name (xs_Changed (shapeClosureDeps \<pi> fm tm)))"
  unfolding shape_changed_eq [OF assms]
  by (rule distinct_map_filter [where g = "\<lambda>n. n"]) (auto split: option.splits if_splits)

lemma shape_order_free:
  assumes "range_ok \<pi>" and "range_ok \<pi>'" and "distinct (map fst fm)" and "distinct (map fst tm)"
  shows "shapeClosureDeps \<pi> fm tm = shapeClosureDeps \<pi>' fm tm"
proof -
  have sc: "sort_key f (List.map_filter h (range_map \<pi> site m)) = sort_key f (List.map_filter h (range_map \<pi>' site m))"
    if "distinct (map fst m)" and "\<And>k v c. h (k, v) = Some c \<Longrightarrow> f c = k" for f :: "'c \<Rightarrow> string" and h site and m :: "string gomap"
    using sort_collected [where f = f and h = h, OF assms(1) that] sort_collected [where f = f and h = h, OF assms(2) that]
    by simp
  show ?thesis
    unfolding shapeClosureDeps_def Let_def
    by (simp, intro conjI; rule sc) (use assms(3,4) in \<open>auto split: option.splits if_splits\<close>)
qed

section \<open>The roll-up\<close>

definition schedule_ok :: "'j schedule \<Rightarrow> bool" where
  "schedule_ok sch \<longleftrightarrow> (\<forall>jobs. mset (completion sch jobs) = mset jobs)"

abbreviation job_diff ::
  "range_order \<Rightarrow> (string \<Rightarrow> string \<Rightarrow> string + module_report) \<Rightarrow> changed_closure_dep \<Rightarrow> string + diff_report" where
  "job_diff \<pi> analyze j \<equiv> perModuleDiff \<pi> (xd_Name j) (xd_FromVersion j) (xd_ToVersion j) analyze"

definition job_breaks ::
  "range_order \<Rightarrow> (string \<Rightarrow> string \<Rightarrow> string + module_report) \<Rightarrow> changed_closure_dep \<Rightarrow> nat" where
  "job_breaks \<pi> analyze j = (case job_diff \<pi> analyze j of Inl _ \<Rightarrow> 0 | Inr d \<Rightarrow> length (dr_Breaking d))"

lemma finish_job_lookup:
  "map_of (xr_ModuleDiffs (finish_job \<pi> an j r)) n =
     (if n = xd_Name j \<and> (\<exists>d. job_diff \<pi> an j = Inr d) then Some (projr (job_diff \<pi> an j)) else map_of (xr_ModuleDiffs r) n)"
  "map_of (xr_ErrorByModule (finish_job \<pi> an j r)) n =
     (if n = xd_Name j \<and> (\<exists>e. job_diff \<pi> an j = Inl e) then Some (projl (job_diff \<pi> an j)) else map_of (xr_ErrorByModule r) n)"
  "map_of (xr_ClosureBreakingByModule (finish_job \<pi> an j r)) n =
     (if n = xd_Name j \<and> job_breaks \<pi> an j > 0 then Some (job_breaks \<pi> an j) else map_of (xr_ClosureBreakingByModule r) n)"
  "xr_ClosureBreakingTotal (finish_job \<pi> an j r) = xr_ClosureBreakingTotal r + job_breaks \<pi> an j"
  "xr_ClosureDeps (finish_job \<pi> an j r) = xr_ClosureDeps r"
  by (auto simp: finish_job_def job_breaks_def Let_def update_conv' split: sum.splits)

lemma rollup_total:
  "xr_ClosureBreakingTotal (fold (finish_job \<pi> an) js r) =
     xr_ClosureBreakingTotal r + sum_list (map (job_breaks \<pi> an) js)"
  by (induction js arbitrary: r) (simp_all add: finish_job_lookup)

lemma rollup_deps: "xr_ClosureDeps (fold (finish_job \<pi> an) js r) = xr_ClosureDeps r"
  by (induction js arbitrary: r) (simp_all add: finish_job_lookup)

lemma rollup_lookup:
  assumes "distinct (map xd_Name js)" and "xr_ModuleDiffs r = []" "xr_ErrorByModule r = []"
    "xr_ClosureBreakingByModule r = []"
  shows "map_of (xr_ModuleDiffs (fold (finish_job \<pi> an) js r)) n = Some d \<longleftrightarrow>
      (\<exists>j \<in> set js. xd_Name j = n \<and> job_diff \<pi> an j = Inr d)"
    and "map_of (xr_ErrorByModule (fold (finish_job \<pi> an) js r)) n = Some e \<longleftrightarrow>
      (\<exists>j \<in> set js. xd_Name j = n \<and> job_diff \<pi> an j = Inl e)"
    and "map_of (xr_ClosureBreakingByModule (fold (finish_job \<pi> an) js r)) n = Some c \<longleftrightarrow>
      (\<exists>j \<in> set js. xd_Name j = n \<and> job_breaks \<pi> an j = c \<and> c > 0)"
  using assms
proof (induction js rule: rev_induct)
  case (snoc j js)
  {
    case 1
    then show ?case using snoc(1) by (auto simp: finish_job_lookup image_iff)
  next
    case 2
    then show ?case using snoc(2) by (auto simp: finish_job_lookup image_iff)
  next
    case 3
    then show ?case using snoc(3) by (auto simp: finish_job_lookup image_iff)
  }
qed simp_all

lemma set_schedule:
  "schedule_ok sch \<Longrightarrow> set (completion sch jobs) = set jobs"
  by (metis mset_eq_setD schedule_ok_def)

lemma distinct_schedule:
  assumes "schedule_ok sch" and "distinct (map f jobs)"
  shows "distinct (map f (completion sch jobs))"
proof -
  have "mset (map f (completion sch jobs)) = mset (map f jobs)"
    using assms(1) by (simp add: schedule_ok_def)
  then show ?thesis using assms(2) mset_eq_imp_distinct_iff by blast
qed

lemma sum_schedule:
  fixes g :: "'j \<Rightarrow> nat"
  assumes "schedule_ok sch"
  shows "sum_list (map g (completion sch jobs)) = sum_list (map g jobs)"
  using assms unfolding schedule_ok_def by (metis mset_map sum_mset_sum_list)

text \<open>A successful run: both closures resolved, and the report is the roll-up of the moved modules.\<close>

lemma fresh_report_fields [simp]:
  "xr_ModuleDiffs (fresh_report \<pi> opts fm tm) = []" "xr_ErrorByModule (fresh_report \<pi> opts fm tm) = []"
  "xr_ClosureBreakingByModule (fresh_report \<pi> opts fm tm) = []"
  "xr_ClosureBreakingTotal (fresh_report \<pi> opts fm tm) = 0"
  "xr_ClosureDeps (fresh_report \<pi> opts fm tm) = shapeClosureDeps \<pi> fm tm"
  by (simp_all add: fresh_report_def)

lemma ComputeClosure_InrE:
  assumes "ComputeClosure \<pi> resolve sch opts = Inr r"
  obtains an fm tm where
    "co_AnalyzeFunc opts = Some an"
    "walkClosure resolve (co_Module opts) (co_FromVersion opts) (co_Upstream opts) = Inr fm"
    "walkClosure resolve (co_Module opts) (co_ToVersion opts) (co_Upstream opts) = Inr tm"
    "r = fold (finish_job \<pi> an) (completion sch (xs_Changed (shapeClosureDeps \<pi> fm tm)))
           (fresh_report \<pi> opts fm tm)"
  using assms by (auto simp: ComputeClosure_def Let_def split: if_splits option.splits sum.splits)

lemma distinct_walkClosure:
  "walkClosure resolve name version upstream = Inr out \<Longrightarrow> distinct (map fst out)"
  by (auto simp: walkClosure_def distinct_walk split: sum.splits)

lemma closure_rollup:
  assumes "range_ok \<pi>" and "schedule_ok sch" and "ComputeClosure \<pi> resolve sch opts = Inr r"
    and "co_AnalyzeFunc opts = Some an"
  shows "map_of (xr_ModuleDiffs r) n = Some d \<longleftrightarrow>
      (\<exists>j \<in> set (xs_Changed (xr_ClosureDeps r)). xd_Name j = n \<and> job_diff \<pi> an j = Inr d)"
    and "map_of (xr_ErrorByModule r) n = Some e \<longleftrightarrow>
      (\<exists>j \<in> set (xs_Changed (xr_ClosureDeps r)). xd_Name j = n \<and> job_diff \<pi> an j = Inl e)"
    and "map_of (xr_ClosureBreakingByModule r) n = Some c \<longleftrightarrow>
      (\<exists>j \<in> set (xs_Changed (xr_ClosureDeps r)). xd_Name j = n \<and> job_breaks \<pi> an j = c \<and> c > 0)"
    and "xr_ClosureBreakingTotal r = sum_list (map (job_breaks \<pi> an) (xs_Changed (xr_ClosureDeps r)))"
    and "distinct (map xd_Name (xs_Changed (xr_ClosureDeps r)))"
proof -
  from assms(3) obtain fm tm where tm: "walkClosure resolve (co_Module opts) (co_ToVersion opts) (co_Upstream opts) = Inr tm"
    and r: "r = fold (finish_job \<pi> an) (completion sch (xs_Changed (shapeClosureDeps \<pi> fm tm)))
       (fresh_report \<pi> opts fm tm)"
    by (rule ComputeClosure_InrE) (use assms(4) in auto)
  let ?js = "xs_Changed (shapeClosureDeps \<pi> fm tm)"
  have deps: "xr_ClosureDeps r = shapeClosureDeps \<pi> fm tm" by (simp add: r rollup_deps)
  have dj: "distinct (map xd_Name ?js)"
    by (rule distinct_shape_changed [OF assms(1) distinct_walkClosure [OF tm]])
  note lk = rollup_lookup [OF distinct_schedule [OF assms(2) dj] fresh_report_fields(1,2,3), unfolded set_schedule [OF assms(2)]]
  show "map_of (xr_ModuleDiffs r) n = Some d \<longleftrightarrow>
      (\<exists>j \<in> set (xs_Changed (xr_ClosureDeps r)). xd_Name j = n \<and> job_diff \<pi> an j = Inr d)"
    unfolding deps unfolding r by (rule lk(1))
  show "map_of (xr_ErrorByModule r) n = Some e \<longleftrightarrow>
      (\<exists>j \<in> set (xs_Changed (xr_ClosureDeps r)). xd_Name j = n \<and> job_diff \<pi> an j = Inl e)"
    unfolding deps unfolding r by (rule lk(2))
  show "map_of (xr_ClosureBreakingByModule r) n = Some c \<longleftrightarrow>
      (\<exists>j \<in> set (xs_Changed (xr_ClosureDeps r)). xd_Name j = n \<and> job_breaks \<pi> an j = c \<and> c > 0)"
    unfolding deps unfolding r by (rule lk(3))
  show "xr_ClosureBreakingTotal r = sum_list (map (job_breaks \<pi> an) (xs_Changed (xr_ClosureDeps r)))"
    unfolding deps unfolding r by (simp add: rollup_total sum_schedule [OF assms(2)])
  show "distinct (map xd_Name (xs_Changed (xr_ClosureDeps r)))" unfolding deps by (rule dj)
qed


text \<open>
  The headline number of a closure diff counts the structural breaks of every moved module
  that could be analyzed at both versions; modules whose analysis failed contribute nothing.
\<close>

theorem closure_breaking_total:
  assumes "range_ok \<pi>" and "schedule_ok sch" and "ComputeClosure \<pi> resolve sch opts = Inr r"
    and "co_AnalyzeFunc opts = Some an"
  shows "xr_ClosureBreakingTotal r =
     (\<Sum>j \<leftarrow> xs_Changed (xr_ClosureDeps r).
        case (an (xd_Name j) (xd_FromVersion j), an (xd_Name j) (xd_ToVersion j)) of
          (Inr f, Inr t) \<Rightarrow> card {(k, n, a). breaks f t k n a}
        | _ \<Rightarrow> 0)"
proof -
  have "job_breaks \<pi> an j = (case (an (xd_Name j) (xd_FromVersion j), an (xd_Name j) (xd_ToVersion j)) of
      (Inr f, Inr t) \<Rightarrow> card {(k, n, a). breaks f t k n a} | _ \<Rightarrow> 0)" for j
    by (simp add: job_breaks_def perModuleDiff_def length_Breaking [OF assms(1)] split: sum.splits)
  then show ?thesis unfolding closure_rollup(4) [OF assms] by (simp cong: map_cong)
qed

text \<open>
  The module map, the error map, the per-module counts and the total of a closure diff do
  not depend on how the worker pool interleaves nor on the iteration order of maps.
\<close>

theorem closure_schedule_independent:
  assumes "range_ok \<pi>" and "schedule_ok sch" and "ComputeClosure \<pi> resolve sch opts = Inr r"
    and "range_ok \<pi>'" and "schedule_ok sch'" and "ComputeClosure \<pi>' resolve sch' opts = Inr r'"
  shows "map_of (xr_ModuleDiffs r) = map_of (xr_ModuleDiffs r') \<and>
    map_of (xr_ErrorByModule r) = map_of (xr_ErrorByModule r') \<and>
    map_of (xr_ClosureBreakingByModule r) = map_of (xr_ClosureBreakingByModule r') \<and>
    xr_ClosureBreakingTotal r = xr_ClosureBreakingTotal r' \<and>
    xr_ClosureDeps r = xr_ClosureDeps r'"
proof -
  from assms(3) obtain an where an: "co_AnalyzeFunc opts = Some an" by (rule ComputeClosure_InrE)
  note roll = closure_rollup [OF assms(1-3) an] and roll' = closure_rollup [OF assms(4-6) an]
  have deps: "xr_ClosureDeps r = xr_ClosureDeps r'"
    using assms(3,6)
    by (elim ComputeClosure_InrE)
      (use shape_order_free [OF assms(1,4) distinct_walkClosure distinct_walkClosure] in \<open>auto simp: rollup_deps\<close>)
  have diff: "job_diff \<pi> an = job_diff \<pi>' an"
    by (simp add: fun_eq_iff perModuleDiff_def Compute_order_free [OF assms(1,4)] split: sum.splits)
  then have "job_breaks \<pi> an = job_breaks \<pi>' an"
    by (simp add: fun_eq_iff job_breaks_def)
  note eqs = deps this fun_cong [OF diff]
  have "map_of (xr_ModuleDiffs r) = map_of (xr_ModuleDiffs r')"
    by (rule lookup_eqI) (simp only: roll(1) roll'(1) eqs)
  moreover have "map_of (xr_ErrorByModule r) = map_of (xr_ErrorByModule r')"
    by (rule lookup_eqI) (simp only: roll(2) roll'(2) eqs)
  moreover have "map_of (xr_ClosureBreakingByModule r) = map_of (xr_ClosureBreakingByModule r')"
    by (rule lookup_eqI) (simp only: roll(3) roll'(3) eqs)
  ultimately show ?thesis using roll(4) roll'(4) eqs by simp
qed

definition in_order :: "changed_closure_dep schedule" where
  "in_order = \<lparr>completion = (\<lambda>js. js), cancelled = None\<rparr>"

definition bump_opts :: closure_options where
  "bump_opts = \<lparr>co_Module = ''rules_cc'', co_FromVersion = ''1'', co_ToVersion = ''2'', co_Upstream = ''u'',
     co_Workers = 4,
     co_AnalyzeFunc = Some (\<lambda>name v. if v = ''1'' then Inr one_rule else Inr no_rules)\<rparr>"

abbreviation bump_run :: "range_order \<Rightarrow> changed_closure_dep schedule \<Rightarrow> string + closure_report" where
  "bump_run \<pi> sch \<equiv> ComputeClosure \<pi> two_versions sch bump_opts"

lemma schedule_ok_in_order: "schedule_ok in_order"
  by (simp add: schedule_ok_def in_order_def)

lemma bump_run_ok: "bump_run canon in_order = Inr (projr (bump_run canon in_order))"
proof -
  have "\<not> isl (bump_run canon in_order)" by code_simp
  then show ?thesis by (simp add: sum.collapse)
qed


lemma closure_breaking_total_witness:
  "xr_ClosureBreakingTotal (projr (bump_run canon in_order)) = card {(k, n, a). breaks one_rule no_rules k n a}"
proof -
  have "xs_Changed (xr_ClosureDeps (projr (bump_run canon in_order))) =
      [\<lparr>xd_Name = ''rules_cc'', xd_FromVersion = ''1'', xd_ToVersion = ''2''\<rparr>]"
    by code_simp
  then show ?thesis
    using closure_breaking_total [OF range_ok_canon schedule_ok_in_order bump_run_ok, of "the (co_AnalyzeFunc bump_opts)"]
    by (simp add: bump_opts_def)
qed

definition rev_order :: "changed_closure_dep schedule" where
  "rev_order = \<lparr>completion = rev, cancelled = None\<rparr>"

lemma bump_run_rev_ok: "bump_run (\<lambda>_. rev) rev_order = Inr (projr (bump_run (\<lambda>_. rev) rev_order))"
proof -
  have "\<not> isl (bump_run (\<lambda>_. rev) rev_order)" by code_simp
  then show ?thesis by (simp add: sum.collapse)
qed

lemma closure_schedule_independent_witness:
  "map_of (xr_ModuleDiffs (projr (bump_run canon in_order))) =
   map_of (xr_ModuleDiffs (projr (bump_run (\<lambda>_. rev) rev_order)))"
proof -
  have "range_ok (\<lambda>_. rev)" and "schedule_ok rev_order"
    by (simp_all add: range_ok_def schedule_ok_def rev_order_def)
  from closure_schedule_independent [OF range_ok_canon schedule_ok_in_order bump_run_ok this bump_run_rev_ok]
  show ?thesis by blast
qed

end
