(* ===== verification/Caches.thy ===== *)
theory Caches
  imports Prelude
begin

text \<open>
  The two in-process LRU caches with expiry: the verdict cache of the policy evaluator
  (src/internal/policy/evaluator.go) and the federation response cache
  (src/internal/backend/cache.go). Both are a container/list of nodes plus a map from key to
  node; the model keeps nodes as addresses into a heap, so that the list, the map and the
  entries are separate, as in the code. One locale states what a client may rely on, and both
  caches are shown to provide it.
\<close>

section \<open>The linked structure\<close>

record ('k, 'v) cache_entry =
  en_key :: 'k
  en_value :: 'v
  en_expires :: int

record ('k, 'v) lru =
  lr_order :: "nat list"
  lr_index :: "'k \<rightharpoonup> nat"
  lr_heap :: "nat \<rightharpoonup> ('k, 'v) cache_entry"
  lr_next :: nat

definition empty_lru :: "('k, 'v) lru" where
  "empty_lru = \<lparr>lr_order = [], lr_index = Map.empty, lr_heap = Map.empty, lr_next = 0\<rparr>"

definition node :: "('k, 'v) lru \<Rightarrow> nat \<Rightarrow> ('k, 'v) cache_entry" where
  "node c el = the (lr_heap c el)"

text \<open>list.Remove with the delete of the node's key, list.MoveToFront, list.PushFront.\<close>

definition unlink :: "nat \<Rightarrow> ('k, 'v) lru \<Rightarrow> ('k, 'v) lru" where
  "unlink el c = c\<lparr>lr_order := remove1 el (lr_order c), lr_index := (lr_index c)(en_key (node c el) := None)\<rparr>"

definition move_to_front :: "nat \<Rightarrow> ('k, 'v) lru \<Rightarrow> ('k, 'v) lru" where
  "move_to_front el c = c\<lparr>lr_order := el # remove1 el (lr_order c)\<rparr>"

definition push_front :: "('k, 'v) cache_entry \<Rightarrow> ('k, 'v) lru \<Rightarrow> ('k, 'v) lru" where
  "push_front e c =
     c\<lparr>lr_order := lr_next c # lr_order c, lr_index := (lr_index c)(en_key e \<mapsto> lr_next c),
       lr_heap := (lr_heap c)(lr_next c \<mapsto> e), lr_next := Suc (lr_next c)\<rparr>"

definition overwrite :: "nat \<Rightarrow> 'v \<Rightarrow> int \<Rightarrow> ('k, 'v) lru \<Rightarrow> ('k, 'v) lru" where
  "overwrite el v expires c =
     c\<lparr>lr_heap := (lr_heap c)(el \<mapsto> (node c el)\<lparr>en_value := v, en_expires := expires\<rparr>)\<rparr>"

text \<open>
  The eviction loop: while the list is longer than the bound, drop its back; an empty list ends
  it, as the nil check on list.Back does.
\<close>

function evict_to :: "int \<Rightarrow> ('k, 'v) lru \<Rightarrow> ('k, 'v) lru" where
  "evict_to bound c =
     (if int (length (lr_order c)) > bound \<and> lr_order c \<noteq> []
      then evict_to bound (unlink (last (lr_order c)) c) else c)"
  by pat_completeness auto
termination
  by (relation "measure (\<lambda>(b, c). length (lr_order c))") (auto simp: unlink_def length_remove1)

declare evict_to.simps [simp del]

section \<open>The verdict cache of the evaluator\<close>

type_synonym cache_key = "string \<times> string"

type_synonym verdict_cache = "(cache_key, bool) lru"

definition lookupCache :: "int \<Rightarrow> cache_key \<Rightarrow> verdict_cache \<Rightarrow> bool option \<times> verdict_cache" where
  "lookupCache now key c =
     (case lr_index c key of
        None \<Rightarrow> (None, c)
      | Some el \<Rightarrow>
        (let entry = node c el
         in if now > en_expires entry
            then (None, c\<lparr>lr_order := remove1 el (lr_order c), lr_index := (lr_index c)(key := None)\<rparr>)
            else (Some (en_value entry), move_to_front el c)))"

definition storeCache :: "int \<Rightarrow> int \<Rightarrow> int \<Rightarrow> cache_key \<Rightarrow> bool \<Rightarrow> verdict_cache \<Rightarrow> verdict_cache" where
  "storeCache cacheMax cacheTTL now key verdict c =
     (case lr_index c key of
        Some el \<Rightarrow> move_to_front el (overwrite el verdict (now + cacheTTL) c)
      | None \<Rightarrow>
        (let entry = \<lparr>en_key = key, en_value = verdict, en_expires = now + cacheTTL\<rparr>
         in evict_to cacheMax (push_front entry c)))"

definition InvalidateMaintainer :: "string \<Rightarrow> string \<Rightarrow> verdict_cache \<Rightarrow> verdict_cache" where
  "InvalidateMaintainer email m c =
     (case lr_index c (email, m) of None \<Rightarrow> c | Some el \<Rightarrow> unlink el c)"

section \<open>The response cache\<close>

record response_cache =
  rc_capacity :: int
  rc_lru :: "(string, bytes) lru"
  rc_hits :: int
  rc_misses :: int

record cache_stats =
  cs_Entries :: nat
  cs_Hits :: int
  cs_Misses :: int

definition newResponseCache :: "int \<Rightarrow> response_cache" where
  "newResponseCache capacity =
     \<lparr>rc_capacity = capacity, rc_lru = empty_lru, rc_hits = 0, rc_misses = 0\<rparr>"

definition Enabled :: "response_cache \<Rightarrow> bool" where
  "Enabled c \<longleftrightarrow> rc_capacity c > 0"

definition cacheGet :: "int \<Rightarrow> string \<Rightarrow> response_cache \<Rightarrow> bytes option \<times> response_cache" where
  "cacheGet now key c =
     (if rc_capacity c \<le> 0 then (None, c)
      else (case lr_index (rc_lru c) key of
          None \<Rightarrow> (None, c\<lparr>rc_misses := rc_misses c + 1\<rparr>)
        | Some el \<Rightarrow>
          (let ent = node (rc_lru c) el
           in if now > en_expires ent
              then (None, c\<lparr>rc_lru := (rc_lru c)\<lparr>lr_order := remove1 el (lr_order (rc_lru c)),
                              lr_index := (lr_index (rc_lru c))(key := None)\<rparr>,
                            rc_misses := rc_misses c + 1\<rparr>)
              else (Some (en_value ent), c\<lparr>rc_lru := move_to_front el (rc_lru c), rc_hits := rc_hits c + 1\<rparr>))))"

definition cachePut :: "int \<Rightarrow> string \<Rightarrow> bytes \<Rightarrow> int \<Rightarrow> response_cache \<Rightarrow> response_cache" where
  "cachePut now key body ttl c =
     (if rc_capacity c \<le> 0 \<or> ttl \<le> 0 then c
      else (case lr_index (rc_lru c) key of
          Some el \<Rightarrow> c\<lparr>rc_lru := move_to_front el (overwrite el body (now + ttl) (rc_lru c))\<rparr>
        | None \<Rightarrow>
          (let l = evict_to (rc_capacity c - 1) (rc_lru c);
               ent = \<lparr>en_key = key, en_value = body, en_expires = now + ttl\<rparr>
           in c\<lparr>rc_lru := push_front ent l\<rparr>)))"

definition Len :: "response_cache \<Rightarrow> nat" where
  "Len c = length (lr_order (rc_lru c))"

definition Stats :: "response_cache \<Rightarrow> cache_stats" where
  "Stats c = \<lparr>cs_Entries = length (lr_order (rc_lru c)), cs_Hits = rc_hits c, cs_Misses = rc_misses c\<rparr>"

definition second :: int where
  "second = 1000000000"

definition cacheTTLFor :: "string \<Rightarrow> int" where
  "cacheTTLFor relPath =
     (if has_suffix relPath ''/metadata.json'' then 30 * second else 60 * second)"

section \<open>The structure invariant and its abstraction\<close>

text \<open>
  The list has no repeated node, every node is allocated below the next address, and the index
  maps exactly the keys of the listed nodes to them.
\<close>

definition lru_ok :: "('k, 'v) lru \<Rightarrow> bool" where
  "lru_ok c \<longleftrightarrow>
     distinct (lr_order c) \<and>
     (\<forall>el \<in> set (lr_order c). el < lr_next c \<and> (\<exists>e. lr_heap c el = Some e)) \<and>
     (\<forall>k el. lr_index c k = Some el \<longleftrightarrow> el \<in> set (lr_order c) \<and> en_key (node c el) = k)"

type_synonym ('k, 'v) contents = "('k \<times> 'v \<times> int) list"

definition triple :: "('k, 'v) cache_entry \<Rightarrow> 'k \<times> 'v \<times> int" where
  "triple e = (en_key e, en_value e, en_expires e)"

definition contents :: "('k, 'v) lru \<Rightarrow> ('k, 'v) contents" where
  "contents c = map (\<lambda>el. triple (node c el)) (lr_order c)"

definition without :: "'k \<Rightarrow> ('k, 'v) contents \<Rightarrow> ('k, 'v) contents" where
  "without k xs = filter (\<lambda>x. fst x \<noteq> k) xs"

lemma lru_ok_empty [simp]: "lru_ok empty_lru" and contents_empty [simp]: "contents empty_lru = []"
  by (simp_all add: lru_ok_def contents_def empty_lru_def)

lemma node_updates [simp]:
  "node (c\<lparr>lr_order := xs\<rparr>) = node c" "node (c\<lparr>lr_index := m\<rparr>) = node c" "node (c\<lparr>lr_next := n\<rparr>) = node c"
  by (simp_all add: node_def fun_eq_iff)

lemma lru_indexD: "lru_ok c \<Longrightarrow> lr_index c k = Some el \<longleftrightarrow> el \<in> set (lr_order c) \<and> en_key (node c el) = k"
  by (simp add: lru_ok_def)

lemma lru_distinct: "lru_ok c \<Longrightarrow> distinct (lr_order c)"
  by (simp add: lru_ok_def)

lemma lru_fresh: "lru_ok c \<Longrightarrow> lr_next c \<notin> set (lr_order c)"
  by (auto simp: lru_ok_def)

lemma lru_key_unique:
  assumes "lru_ok c" and "x \<in> set (lr_order c)" "y \<in> set (lr_order c)" "en_key (node c x) = en_key (node c y)"
  shows "x = y"
  using lru_indexD [OF assms(1), of "en_key (node c y)" x] lru_indexD [OF assms(1), of "en_key (node c y)" y] assms
  by auto

lemma lru_okI:
  assumes "distinct (lr_order c)"
    and "\<And>el. el \<in> set (lr_order c) \<Longrightarrow> el < lr_next c \<and> (\<exists>e. lr_heap c el = Some e)"
    and "\<And>k el. lr_index c k = Some el \<longleftrightarrow> el \<in> set (lr_order c) \<and> en_key (node c el) = k"
  shows "lru_ok c"
  using assms by (simp add: lru_ok_def)

lemma contents_lookup:
  assumes "lru_ok c"
  shows "map_of (contents c) k = map_option (\<lambda>el. (en_value (node c el), en_expires (node c el))) (lr_index c k)"
proof -
  have "distinct (map fst (contents c))"
    using lru_key_unique [OF assms] lru_distinct [OF assms]
    by (auto simp: contents_def triple_def comp_def distinct_map inj_on_def)
  then have "map_of (contents c) k = Some (v, x) \<longleftrightarrow> (k, v, x) \<in> set (contents c)" for v x
    by (rule map_of_eq_Some_iff)
  also have "(k, v, x) \<in> set (contents c) \<longleftrightarrow>
      (\<exists>el \<in> set (lr_order c). en_key (node c el) = k \<and> en_value (node c el) = v \<and> en_expires (node c el) = x)" for v x
    by (auto simp: contents_def triple_def)
  also have "\<dots> v x \<longleftrightarrow> (\<exists>el. lr_index c k = Some el \<and> en_value (node c el) = v \<and> en_expires (node c el) = x)" for v x
    using lru_indexD [OF assms, of k] by blast
  finally have "map_of (contents c) k = Some p \<longleftrightarrow>
      map_option (\<lambda>el. (en_value (node c el), en_expires (node c el))) (lr_index c k) = Some p" for p
    by (cases p) auto
  then show ?thesis by (metis option.exhaust)
qed

lemma without_at:
  assumes "lru_ok c" and "el \<in> set (lr_order c)"
  shows "map (\<lambda>x. triple (node c x)) (remove1 el (lr_order c)) = without (en_key (node c el)) (contents c)"
proof -
  have "remove1 el (lr_order c) = filter (\<lambda>x. en_key (node c x) \<noteq> en_key (node c el)) (lr_order c)"
    using lru_distinct [OF assms(1)] lru_key_unique [OF assms(1)] assms(2)
    by (simp add: distinct_remove1_removeAll removeAll_filter_not_eq cong: filter_cong) (auto intro!: filter_cong)
  then show ?thesis by (simp add: without_def contents_def filter_map comp_def triple_def)
qed

lemma unlink_refines:
  assumes "lru_ok c" and "el \<in> set (lr_order c)"
  shows "lru_ok (unlink el c)" and "contents (unlink el c) = without (en_key (node c el)) (contents c)"
proof -
  show "lru_ok (unlink el c)"
    using assms lru_key_unique [OF assms(1)] lru_indexD [OF assms(1)] lru_distinct [OF assms(1)]
    by (intro lru_okI) (auto simp: unlink_def lru_ok_def)
  show "contents (unlink el c) = without (en_key (node c el)) (contents c)"
    using without_at [OF assms] by (simp add: contents_def unlink_def)
qed

lemma move_to_front_refines:
  assumes "lru_ok c" and "el \<in> set (lr_order c)"
  shows "lru_ok (move_to_front el c)"
    and "contents (move_to_front el c) = triple (node c el) # without (en_key (node c el)) (contents c)"
proof -
  show "lru_ok (move_to_front el c)"
    using assms by (auto simp: lru_ok_def move_to_front_def)
  show "contents (move_to_front el c) = triple (node c el) # without (en_key (node c el)) (contents c)"
    using without_at [OF assms] by (simp add: contents_def move_to_front_def)
qed

lemma overwrite_refines:
  assumes "lru_ok c" and "el \<in> set (lr_order c)"
  shows "lru_ok (overwrite el v x c)" and "lr_order (overwrite el v x c) = lr_order c"
    and "triple (node (overwrite el v x c) el) = (en_key (node c el), v, x)"
    and "without (en_key (node c el)) (contents (overwrite el v x c)) = without (en_key (node c el)) (contents c)"
proof -
  have n: "node (overwrite el v x c) y = (if y = el then (node c el)\<lparr>en_value := v, en_expires := x\<rparr> else node c y)" for y
    by (simp add: node_def overwrite_def)
  then have k: "en_key (node (overwrite el v x c) y) = en_key (node c y)" for y by simp
  show "lr_order (overwrite el v x c) = lr_order c" by (simp add: overwrite_def)
  show "lru_ok (overwrite el v x c)"
    using assms unfolding lru_ok_def k by (auto simp: overwrite_def)
  show "triple (node (overwrite el v x c) el) = (en_key (node c el), v, x)" by (simp add: n triple_def)
  show "without (en_key (node c el)) (contents (overwrite el v x c)) = without (en_key (node c el)) (contents c)"
    unfolding without_def contents_def filter_map comp_def overwrite_def
    by (auto simp: triple_def k [unfolded overwrite_def] n [unfolded overwrite_def] intro!: map_cong filter_cong)
qed

lemma push_front_refines:
  assumes "lru_ok c" and "lr_index c (en_key e) = None"
  shows "lru_ok (push_front e c)" and "contents (push_front e c) = triple e # contents c"
proof -
  have n: "node (push_front e c) x = (if x = lr_next c then e else node c x)" for x
    by (simp add: node_def push_front_def)
  have other: "en_key (node c x) \<noteq> en_key e" if "x \<in> set (lr_order c)" for x
    using that assms(2) lru_indexD [OF assms(1), of "en_key e" x] by auto
  show "lru_ok (push_front e c)"
  proof (rule lru_okI)
    show "distinct (lr_order (push_front e c))"
      using lru_distinct [OF assms(1)] lru_fresh [OF assms(1)] by (simp add: push_front_def)
    show "el < lr_next (push_front e c) \<and> (\<exists>x. lr_heap (push_front e c) el = Some x)"
      if "el \<in> set (lr_order (push_front e c))" for el
      using that assms(1) by (auto simp: push_front_def lru_ok_def)
    show "lr_index (push_front e c) k = Some el \<longleftrightarrow>
        el \<in> set (lr_order (push_front e c)) \<and> en_key (node (push_front e c) el) = k" for k el
      unfolding n using other lru_fresh [OF assms(1)] lru_indexD [OF assms(1), of k el]
      by (auto simp: push_front_def split: if_splits)
  qed
  have "map (\<lambda>el. triple (node (push_front e c) el)) (lr_order c) = contents c"
    unfolding contents_def n using lru_fresh [OF assms(1)] by (intro map_cong) auto
  then show "contents (push_front e c) = triple e # contents c"
    by (simp add: contents_def n) (simp add: push_front_def)
qed

lemma without_absent: "k \<notin> fst ` set xs \<Longrightarrow> without k xs = xs"
  by (auto simp: without_def filter_id_conv)

lemma evict_to_refines:
  assumes "lru_ok c" and "0 \<le> bound"
  shows "lru_ok (evict_to bound c) \<and> contents (evict_to bound c) = take (nat bound) (contents c)"
  using assms
proof (induction bound c rule: evict_to.induct)
  case (1 bound c)
  have len: "length (contents c) = length (lr_order c)" by (simp add: contents_def)
  show ?case
  proof (cases "int (length (lr_order c)) > bound \<and> lr_order c \<noteq> []")
    case True
    let ?el = "last (lr_order c)" and ?u = "unlink (last (lr_order c)) c"
    have el: "?el \<in> set (lr_order c)" using True by simp
    define xs where "xs = butlast (lr_order c)"
    have xs: "lr_order c = xs @ [?el]" using True by (simp add: xs_def)
    then have d: "?el \<notin> set xs" using lru_distinct [OF 1(2)] by (metis distinct_append disjoint_iff list.set_intros(1))
    have "lr_order ?u = remove1 ?el (xs @ [?el])" using xs by (simp add: unlink_def)
    also have "\<dots> = xs" using d by (simp add: remove1_append)
    finally have u: "lr_order ?u = xs" .
    have "contents c = map (\<lambda>el. triple (node c el)) (xs @ [?el])" unfolding contents_def using xs by simp
    moreover have "contents ?u = map (\<lambda>el. triple (node c el)) xs" unfolding contents_def u by (simp add: unlink_def)
    ultimately have cu: "contents ?u = take (length xs) (contents c)" by simp
    have "length (lr_order c) = Suc (length xs)" by (subst xs) simp
    then have "nat bound \<le> length xs" using True by linarith
    moreover note cu
    moreover have "lru_ok (evict_to bound ?u) \<and> contents (evict_to bound ?u) = take (nat bound) (contents ?u)"
      using 1(1) [OF True unlink_refines(1) [OF 1(2) el] 1(3)] .
    moreover have "evict_to bound c = evict_to bound ?u" using True by (subst evict_to.simps) simp
    ultimately show ?thesis by (simp add: min_def)
  next
    case False
    then have "evict_to bound c = c" by (subst evict_to.simps) (simp only: if_False)
    moreover have "take (nat bound) (contents c) = contents c" using False len by auto
    ultimately show ?thesis using 1(2) by simp
  qed
qed

section \<open>The contract of a bounded cache with expiry\<close>

text \<open>
  \<open>view\<close> lists the entries, most recently used first. A read serves an unexpired entry and
  bumps it, drops an expired one, and otherwise changes nothing; a write puts the entry in
  front and cuts the list at the capacity.
\<close>

locale ttl_cache =
  fixes ok :: "'c \<Rightarrow> bool"
    and view :: "'c \<Rightarrow> ('k, 'v) contents"
    and cap :: "'c \<Rightarrow> nat"
    and get :: "int \<Rightarrow> 'k \<Rightarrow> 'c \<Rightarrow> 'v option \<times> 'c"
    and put :: "int \<Rightarrow> int \<Rightarrow> 'k \<Rightarrow> 'v \<Rightarrow> 'c \<Rightarrow> 'c"
  assumes ok_view: "ok c \<Longrightarrow> distinct (map fst (view c)) \<and> length (view c) \<le> cap c \<and> 0 < cap c"
    and get_ok: "ok c \<Longrightarrow> ok (snd (get now k c))"
    and put_ok: "ok c \<Longrightarrow> 0 < ttl \<Longrightarrow> ok (put now ttl k v c)"
    and get_cap: "ok c \<Longrightarrow> cap (snd (get now k c)) = cap c"
    and put_cap: "ok c \<Longrightarrow> 0 < ttl \<Longrightarrow> cap (put now ttl k v c) = cap c"
    and get_view: "ok c \<Longrightarrow>
      (case map_of (view c) k of
         None \<Rightarrow> fst (get now k c) = None \<and> view (snd (get now k c)) = view c
       | Some (v, x) \<Rightarrow>
           if now > x then fst (get now k c) = None \<and> view (snd (get now k c)) = without k (view c)
           else fst (get now k c) = Some v \<and> view (snd (get now k c)) = (k, v, x) # without k (view c))"
    and put_view: "ok c \<Longrightarrow> 0 < ttl \<Longrightarrow>
      view (put now ttl k v c) = take (cap c) ((k, v, now + ttl) # without k (view c))"
begin

lemma get_hit: "ok c \<Longrightarrow> fst (get now k c) = Some v \<longleftrightarrow> (\<exists>x. map_of (view c) k = Some (v, x) \<and> now \<le> x)"
  using get_view [of c now k] by (auto split: option.splits prod.splits if_splits)

lemma put_lookup: "ok c \<Longrightarrow> 0 < ttl \<Longrightarrow> map_of (view (put now ttl k v c)) k = Some (v, now + ttl)"
  using ok_view [of c] by (cases "cap c") (simp_all add: put_view)

lemma get_after_put:
  assumes "ok c" and "0 < ttl"
  shows "fst (get later k (put now ttl k v c)) = (if later \<le> now + ttl then Some v else None)"
proof -
  have hit: "fst (get later k (put now ttl k v c)) = Some w \<longleftrightarrow> w = v \<and> later \<le> now + ttl" for w
    using get_hit [OF put_ok [OF assms]] put_lookup [OF assms] by auto
  show ?thesis using hit by (cases "fst (get later k (put now ttl k v c))") (auto split: if_splits)
qed

text \<open>What a write does to another key: it is kept, unless the cache is full and it is the oldest.\<close>

lemma put_other:
  assumes "ok c" and "0 < ttl" and "j \<noteq> k" and "map_of (view c) j = Some e"
    and "length (view c) < cap c \<or> k \<in> fst ` set (view c) \<or> fst (last (view c)) \<noteq> j"
  shows "map_of (view (put now ttl k v c)) j = Some e"
proof -
  let ?w = "without k (view c)"
  have d: "distinct (map fst (view c))" and len: "length (view c) \<le> cap c" and pos: "0 < cap c"
    using ok_view [OF assms(1)] by auto
  have mem: "(j, e) \<in> set (view c)" using assms(4) by (rule map_of_SomeD)
  then have memw: "(j, e) \<in> set ?w" using assms(3) by (simp add: without_def)
  have dw: "distinct (map fst ?w)" using d unfolding without_def by (rule distinct_map_filterI)
  have "(j, e) \<in> set (take (cap c - 1) ?w)"
  proof (cases "length ?w \<le> cap c - 1")
    case True
    then show ?thesis using memw by simp
  next
    case False
    have lw: "length ?w \<le> length (view c)" by (simp add: without_def)
    then have full: "length (view c) = cap c" "length ?w = cap c" using False len by linarith+
    then have "k \<notin> fst ` set (view c)"
      unfolding without_def by (metis (mono_tags, lifting) filter_id_conv image_iff length_filter_less order_less_irrefl)
    then have w: "?w = view c" by (rule without_absent)
    have ne: "view c \<noteq> []" using mem by auto
    have "(j, e) \<noteq> last (view c)"
      using assms(5) full \<open>k \<notin> fst ` set (view c)\<close> by (metis fst_conv order_less_irrefl)
    then have "(j, e) \<in> set (butlast (view c))"
      using mem ne by (metis append_butlast_last_id in_set_conv_decomp rotate1.simps(2) set_ConsD set_rotate1)
    then show ?thesis using w full by (simp add: butlast_conv_take)
  qed
  then have "(j, e) \<in> set (view (put now ttl k v c))"
    using pos by (cases "cap c") (auto simp: put_view [OF assms(1,2)])
  moreover have "distinct (map fst (view (put now ttl k v c)))"
    using ok_view [OF put_ok [OF assms(1,2)]] by simp
  ultimately show ?thesis by simp
qed

lemma bounded: "ok c \<Longrightarrow> length (view c) \<le> cap c"
  using ok_view by blast

end

section \<open>Both caches provide it\<close>

lemma lru_contents_distinct: "lru_ok c \<Longrightarrow> distinct (map fst (contents c))"
  using lru_key_unique [of c] lru_distinct [of c]
  by (auto simp: contents_def triple_def comp_def distinct_map inj_on_def)

lemma length_contents [simp]: "length (contents c) = length (lr_order c)"
  by (simp add: contents_def)

text \<open>The three paths of a read, on the linked structure.\<close>

definition lru_get :: "int \<Rightarrow> 'k \<Rightarrow> ('k, 'v) lru \<Rightarrow> 'v option \<times> ('k, 'v) lru" where
  "lru_get now key c =
     (case lr_index c key of None \<Rightarrow> (None, c)
      | Some el \<Rightarrow> if now > en_expires (node c el) then (None, unlink el c)
                   else (Some (en_value (node c el)), move_to_front el c))"

lemma lru_get_refines:
  assumes "lru_ok c"
  shows "lru_ok (snd (lru_get now k c))"
    and "case map_of (contents c) k of
         None \<Rightarrow> fst (lru_get now k c) = None \<and> contents (snd (lru_get now k c)) = contents c
       | Some (v, x) \<Rightarrow>
           if now > x then fst (lru_get now k c) = None \<and> contents (snd (lru_get now k c)) = without k (contents c)
           else fst (lru_get now k c) = Some v \<and> contents (snd (lru_get now k c)) = (k, v, x) # without k (contents c)"
proof -
  have "lru_ok (snd (lru_get now k c)) \<and> (case map_of (contents c) k of
         None \<Rightarrow> fst (lru_get now k c) = None \<and> contents (snd (lru_get now k c)) = contents c
       | Some (v, x) \<Rightarrow>
           if now > x then fst (lru_get now k c) = None \<and> contents (snd (lru_get now k c)) = without k (contents c)
           else fst (lru_get now k c) = Some v \<and> contents (snd (lru_get now k c)) = (k, v, x) # without k (contents c))"
  proof (cases "lr_index c k")
    case None
    then show ?thesis by (simp add: lru_get_def contents_lookup [OF assms] assms)
  next
    case (Some el)
    then have el: "el \<in> set (lr_order c)" "en_key (node c el) = k" using lru_indexD [OF assms, of k el] by simp_all
    show ?thesis
      using unlink_refines [OF assms el(1)] move_to_front_refines [OF assms el(1)] el(2)
      by (simp add: lru_get_def contents_lookup [OF assms] Some triple_def)
  qed
  then show "lru_ok (snd (lru_get now k c))"
    and "case map_of (contents c) k of
         None \<Rightarrow> fst (lru_get now k c) = None \<and> contents (snd (lru_get now k c)) = contents c
       | Some (v, x) \<Rightarrow>
           if now > x then fst (lru_get now k c) = None \<and> contents (snd (lru_get now k c)) = without k (contents c)
           else fst (lru_get now k c) = Some v \<and> contents (snd (lru_get now k c)) = (k, v, x) # without k (contents c)"
    by blast+
qed

lemma length_without_le: "length (without k xs) \<le> length xs"
  by (simp add: without_def)

lemma length_without_less: "k \<in> fst ` set xs \<Longrightarrow> length (without k xs) < length xs"
  unfolding without_def by (auto intro: length_filter_less)

lemma lru_rewrite_refines:
  assumes "lru_ok c" and "lr_index c k = Some el"
  shows "lru_ok (move_to_front el (overwrite el v x c))"
    and "contents (move_to_front el (overwrite el v x c)) = (k, v, x) # without k (contents c)"
    and "length (lr_order (move_to_front el (overwrite el v x c))) = length (lr_order c)"
proof -
  have el: "el \<in> set (lr_order c)" "en_key (node c el) = k"
    using lru_indexD [OF assms(1), of k el] assms(2) by simp_all
  note ow = overwrite_refines [OF assms(1) el(1), of v x]
  have el': "el \<in> set (lr_order (overwrite el v x c))" using el ow(2) by simp
  have k: "en_key (node (overwrite el v x c) el) = k"
    using ow(3) el(2) by (simp add: triple_def)
  show "lru_ok (move_to_front el (overwrite el v x c))"
    by (rule move_to_front_refines(1) [OF ow(1) el'])
  show "contents (move_to_front el (overwrite el v x c)) = (k, v, x) # without k (contents c)"
    using move_to_front_refines(2) [OF ow(1) el'] ow(3,4) k el(2) by simp
  show "length (lr_order (move_to_front el (overwrite el v x c))) = length (lr_order c)"
    using length_pos_if_in_set [OF el(1)] el(1) ow(2) by (simp add: move_to_front_def length_remove1)
qed

lemma in_contents_keys: "lru_ok c \<Longrightarrow> lr_index c k = Some el \<Longrightarrow> k \<in> fst ` set (contents c)"
  using contents_lookup [of c k] by (auto dest!: map_of_SomeD) (force)

lemma not_in_contents_keys: "lru_ok c \<Longrightarrow> lr_index c k = None \<Longrightarrow> k \<notin> fst ` set (contents c)"
  using contents_lookup [of c k] by (simp add: map_of_eq_None_iff)

definition verdict_ok :: "int \<Rightarrow> verdict_cache \<Rightarrow> bool" where
  "verdict_ok cacheMax c \<longleftrightarrow> 0 < cacheMax \<and> lru_ok c \<and> int (length (lr_order c)) \<le> cacheMax"

lemma lru_index_key: "lru_ok c \<Longrightarrow> lr_index c k = Some el \<Longrightarrow> en_key (node c el) = k"
  using lru_indexD [of c k el] by simp

lemma lookupCache_eq:
  assumes "lru_ok c"
  shows "lookupCache now k c = lru_get now k c"
  using lru_index_key [OF assms, of k]
  by (cases "lr_index c k") (simp_all add: lookupCache_def lru_get_def unlink_def Let_def)

lemma cacheGet_eq:
  assumes "lru_ok (rc_lru c)" and "0 < rc_capacity c"
  shows "fst (cacheGet now k c) = fst (lru_get now k (rc_lru c))"
    and "rc_lru (snd (cacheGet now k c)) = snd (lru_get now k (rc_lru c))"
    and "rc_capacity (snd (cacheGet now k c)) = rc_capacity c"
  using assms(2) lru_index_key [OF assms(1), of k]
  by (cases "lr_index (rc_lru c) k"; simp add: cacheGet_def lru_get_def unlink_def Let_def)+

lemma length_lru_get: "lru_ok c \<Longrightarrow> length (lr_order (snd (lru_get now k c))) \<le> length (lr_order c)"
  using lru_indexD [of c k]
  by (cases "lr_index c k")
    (auto simp: lru_get_def unlink_def move_to_front_def length_remove1 dest: length_pos_if_in_set)

lemma storeCache_refines:
  assumes "verdict_ok m c"
  shows "verdict_ok m (storeCache m ttl now k v c)"
    and "contents (storeCache m ttl now k v c) = take (nat m) ((k, v, now + ttl) # without k (contents c))"
proof -
  have ok: "lru_ok c" "0 < m" "int (length (lr_order c)) \<le> m" using assms by (simp_all add: verdict_ok_def)
  have "verdict_ok m (storeCache m ttl now k v c) \<and>
      contents (storeCache m ttl now k v c) = take (nat m) ((k, v, now + ttl) # without k (contents c))"
  proof (cases "lr_index c k")
    case None
    let ?p = "push_front \<lparr>en_key = k, en_value = v, en_expires = now + ttl\<rparr> c"
    have p: "lru_ok ?p" "contents ?p = (k, v, now + ttl) # contents c"
      using push_front_refines [OF ok(1), of "\<lparr>en_key = k, en_value = v, en_expires = now + ttl\<rparr>"] None
      by (simp_all add: triple_def)
    have e: "lru_ok (evict_to m ?p)" "contents (evict_to m ?p) = take (nat m) (contents ?p)"
      using evict_to_refines [OF p(1), of m] ok(2) by simp_all
    have "length (lr_order (evict_to m ?p)) \<le> nat m"
      using e(2) by (metis length_contents length_take min.cobounded2)
    then show ?thesis
      using e p ok(2) without_absent [OF not_in_contents_keys [OF ok(1) None]] None
      by (simp add: storeCache_def verdict_ok_def)
  next
    case (Some el)
    have "length (without k (contents c)) < nat m"
      using length_without_less [OF in_contents_keys [OF ok(1) Some]] ok(3) by simp
    then show ?thesis
      using lru_rewrite_refines [OF ok(1) Some, of v "now + ttl"] ok Some
      by (simp add: storeCache_def verdict_ok_def)
  qed
  then show "verdict_ok m (storeCache m ttl now k v c)"
    and "contents (storeCache m ttl now k v c) = take (nat m) ((k, v, now + ttl) # without k (contents c))" by blast+
qed

definition response_ok :: "response_cache \<Rightarrow> bool" where
  "response_ok c \<longleftrightarrow> 0 < rc_capacity c \<and> lru_ok (rc_lru c) \<and> int (Len c) \<le> rc_capacity c"

lemma cachePut_refines:
  assumes "response_ok c" and "0 < ttl"
  shows "response_ok (cachePut now k v ttl c)" and "rc_capacity (cachePut now k v ttl c) = rc_capacity c"
    and "contents (rc_lru (cachePut now k v ttl c)) =
      take (nat (rc_capacity c)) ((k, v, now + ttl) # without k (contents (rc_lru c)))"
proof -
  let ?l = "rc_lru c" and ?m = "rc_capacity c"
  have ok: "lru_ok ?l" "0 < ?m" "int (length (lr_order ?l)) \<le> ?m"
    using assms by (simp_all add: response_ok_def Len_def)
  have "response_ok (cachePut now k v ttl c) \<and> rc_capacity (cachePut now k v ttl c) = rc_capacity c \<and>
      contents (rc_lru (cachePut now k v ttl c)) = take (nat ?m) ((k, v, now + ttl) # without k (contents ?l))"
  proof (cases "lr_index ?l k")
    case None
    let ?e = "evict_to (?m - 1) ?l" and ?ent = "\<lparr>en_key = k, en_value = v, en_expires = now + ttl\<rparr>"
    have e: "lru_ok ?e" "contents ?e = take (nat (?m - 1)) (contents ?l)"
      using evict_to_refines [OF ok(1), of "?m - 1"] ok(2) by simp_all
    have absent: "k \<notin> fst ` set (contents ?l)" by (rule not_in_contents_keys [OF ok(1) None])
    then have ke: "k \<notin> fst ` set (contents ?e)" unfolding e(2)
      using set_take_subset [of "nat (?m - 1)" "contents ?l"] by blast
    have "lr_index ?e (en_key ?ent) = None"
      using in_contents_keys [OF e(1), of k] ke by (metis cache_entry.select_convs(1) not_None_eq)
    from push_front_refines [OF e(1) this]
    have p: "lru_ok (push_front ?ent ?e)" "contents (push_front ?ent ?e) = (k, v, now + ttl) # contents ?e"
      by (simp_all add: triple_def)
    have m': "nat ?m = Suc (nat (?m - 1))" using ok(2) by arith
    have full: "contents (push_front ?ent ?e) = take (nat ?m) ((k, v, now + ttl) # without k (contents ?l))"
      using p(2) e(2) m' without_absent [OF absent] by simp
    moreover from full have "length (lr_order (push_front ?ent ?e)) \<le> nat ?m"
      by (metis length_contents length_take min.cobounded2)
    ultimately show ?thesis
      using p ok(2) assms(2) None by (simp add: cachePut_def response_ok_def Len_def Let_def)
  next
    case (Some el)
    have "length (without k (contents ?l)) < nat ?m"
      using length_without_less [OF in_contents_keys [OF ok(1) Some]] ok(3) by simp
    then show ?thesis
      using lru_rewrite_refines [OF ok(1) Some, of v "now + ttl"] ok assms(2) Some
      by (simp add: cachePut_def response_ok_def Len_def)
  qed
  then show "response_ok (cachePut now k v ttl c)" "rc_capacity (cachePut now k v ttl c) = rc_capacity c"
    "contents (rc_lru (cachePut now k v ttl c)) = take (nat ?m) ((k, v, now + ttl) # without k (contents ?l))"
    by blast+
qed

interpretation verdicts: ttl_cache "verdict_ok m" contents "\<lambda>_. nat m" lookupCache
    "\<lambda>now ttl k v c. storeCache m ttl now k v c"
  for m
proof
  fix c :: verdict_cache and now ttl :: int and k v
  assume ok: "verdict_ok m c"
  then have l: "lru_ok c" by (simp add: verdict_ok_def)
  show "distinct (map fst (contents c)) \<and> length (contents c) \<le> nat m \<and> 0 < nat m"
    using ok lru_contents_distinct [OF l] by (simp add: verdict_ok_def nat_le_iff le_nat_iff)
  show "verdict_ok m (snd (lookupCache now k c))"
    using ok lru_get_refines(1) [OF l, of now k] length_lru_get [OF l, of now k]
    by (simp add: lookupCache_eq [OF l] verdict_ok_def)
  show "verdict_ok m (storeCache m ttl now k v c)" if "0 < ttl" by (rule storeCache_refines(1) [OF ok])
  show "contents (storeCache m ttl now k v c) = take (nat m) ((k, v, now + ttl) # without k (contents c))"
    if "0 < ttl" by (rule storeCache_refines(2) [OF ok])
  show "case map_of (contents c) k of
         None \<Rightarrow> fst (lookupCache now k c) = None \<and> contents (snd (lookupCache now k c)) = contents c
       | Some (v, x) \<Rightarrow>
           if now > x then fst (lookupCache now k c) = None \<and> contents (snd (lookupCache now k c)) = without k (contents c)
           else fst (lookupCache now k c) = Some v \<and> contents (snd (lookupCache now k c)) = (k, v, x) # without k (contents c)"
    unfolding lookupCache_eq [OF l] by (rule lru_get_refines(2) [OF l])
qed simp_all

interpretation responses: ttl_cache response_ok "\<lambda>c. contents (rc_lru c)" "\<lambda>c. nat (rc_capacity c)" cacheGet
    "\<lambda>now ttl k v c. cachePut now k v ttl c"
proof
  fix c :: response_cache and now ttl :: int and k v
  assume ok: "response_ok c"
  then have l: "lru_ok (rc_lru c)" and pos: "0 < rc_capacity c" by (simp_all add: response_ok_def)
  show "distinct (map fst (contents (rc_lru c))) \<and> length (contents (rc_lru c)) \<le> nat (rc_capacity c) \<and> 0 < nat (rc_capacity c)"
    using ok lru_contents_distinct [OF l] by (simp add: response_ok_def Len_def nat_le_iff le_nat_iff)
  note g = cacheGet_eq [OF l pos, of now k]
  show "response_ok (snd (cacheGet now k c))"
    using ok lru_get_refines(1) [OF l, of now k] length_lru_get [OF l, of now k]
    by (simp add: g response_ok_def Len_def)
  show "nat (rc_capacity (snd (cacheGet now k c))) = nat (rc_capacity c)" by (simp add: g)
  show "case map_of (contents (rc_lru c)) k of
         None \<Rightarrow> fst (cacheGet now k c) = None \<and> contents (rc_lru (snd (cacheGet now k c))) = contents (rc_lru c)
       | Some (v, x) \<Rightarrow>
           if now > x then fst (cacheGet now k c) = None \<and> contents (rc_lru (snd (cacheGet now k c))) = without k (contents (rc_lru c))
           else fst (cacheGet now k c) = Some v \<and> contents (rc_lru (snd (cacheGet now k c))) = (k, v, x) # without k (contents (rc_lru c))"
    unfolding g by (rule lru_get_refines(2) [OF l])
qed (simp_all add: cachePut_refines)

section \<open>Properties\<close>

text \<open>
  The response cache never serves a wrong or stale body: right after a body is stored under
  a key, reading the key returns that body up to and including the deadline and misses after
  it, whatever the cache held before and even when the store evicted another entry.
\<close>

theorem response_cache_get_after_put:
  assumes "response_ok c" and "0 < ttl"
  shows "fst (cacheGet later key (cachePut now key body ttl c)) =
      (if later \<le> now + ttl then Some body else None)"
  by (rule responses.get_after_put [OF assms])

lemma response_cache_get_after_put_witness:
  "fst (cacheGet 40 ''k'' (cachePut 10 ''k'' ''body'' 30 (newResponseCache 1))) = Some ''body'' \<and>
   fst (cacheGet 41 ''k'' (cachePut 10 ''k'' ''body'' 30 (newResponseCache 1))) = None"
proof -
  have "response_ok (newResponseCache 1)"
    by (simp add: response_ok_def newResponseCache_def Len_def) (simp add: empty_lru_def)
  then show ?thesis
    using response_cache_get_after_put [of "newResponseCache 1" 30 40 "''k''" 10 "''body''"]
      response_cache_get_after_put [of "newResponseCache 1" 30 41 "''k''" 10 "''body''"] by simp
qed

text \<open>
  Storing a response under another key drops an entry only if the cache is full and that
  entry is the least recently used one; every other entry keeps its body and deadline, and the
  cache never holds more entries than its capacity.
\<close>

theorem response_cache_evicts_oldest:
  assumes "response_ok c" and "0 < ttl" and "other \<noteq> key"
    and "map_of (contents (rc_lru c)) other = Some e"
    and "length (contents (rc_lru c)) < nat (rc_capacity c) \<or> key \<in> fst ` set (contents (rc_lru c)) \<or>
         fst (last (contents (rc_lru c))) \<noteq> other"
  shows "map_of (contents (rc_lru (cachePut now key body ttl c))) other = Some e \<and>
    int (Len (cachePut now key body ttl c)) \<le> rc_capacity c"
  using responses.put_other [OF assms(1-4)] assms(5) cachePut_refines(1,2) [OF assms(1,2), of now key body]
  by (simp add: response_ok_def)

lemma response_cache_evicts_oldest_witness:
  "map_of (contents (rc_lru (cachePut 3 ''c'' ''3'' 9 (cachePut 2 ''b'' ''2'' 9 (cachePut 1 ''a'' ''1'' 9 (newResponseCache 2)))))) ''b''
     = Some (''2'', 11)"
proof -
  let ?c = "cachePut 2 ''b'' ''2'' 9 (cachePut 1 ''a'' ''1'' 9 (newResponseCache 2))"
  have "response_ok (newResponseCache 2)"
    by (simp add: response_ok_def newResponseCache_def Len_def) (simp add: empty_lru_def)
  then have ok: "response_ok ?c" by (intro cachePut_refines) simp_all
  have c: "contents (rc_lru ?c) = [(''b'', ''2'', 11), (''a'', ''1'', 10)]" by code_simp
  show ?thesis
    using response_cache_evicts_oldest [OF ok, of 9 "''b''" "''c''" "(''2'', 11)" 3 "''3''"] unfolding c by simp
qed

lemma InvalidateMaintainer_refines:
  assumes "verdict_ok m c"
  shows "verdict_ok m (InvalidateMaintainer email target c)"
    and "contents (InvalidateMaintainer email target c) = without (email, target) (contents c)"
proof -
  have l: "lru_ok c" "0 < m" "int (length (lr_order c)) \<le> m" using assms by (simp_all add: verdict_ok_def)
  have "verdict_ok m (InvalidateMaintainer email target c) \<and>
      contents (InvalidateMaintainer email target c) = without (email, target) (contents c)"
  proof (cases "lr_index c (email, target)")
    case None
    then show ?thesis
      using assms without_absent [OF not_in_contents_keys [OF l(1) None]] by (simp add: InvalidateMaintainer_def)
  next
    case (Some el)
    then have el: "el \<in> set (lr_order c)" "en_key (node c el) = (email, target)"
      using lru_indexD [OF l(1), of "(email, target)" el] by simp_all
    have "length (lr_order (unlink el c)) \<le> length (lr_order c)" by (simp add: unlink_def length_remove1)
    then show ?thesis
      using unlink_refines [OF l(1) el(1)] el(2) l(2,3) Some by (simp add: InvalidateMaintainer_def verdict_ok_def)
  qed
  then show "verdict_ok m (InvalidateMaintainer email target c)"
    and "contents (InvalidateMaintainer email target c) = without (email, target) (contents c)" by blast+
qed

lemma lookup_without: "map_of (without k xs) j = (if j = k then None else map_of xs j)"
  by (induction xs) (auto simp: without_def)

end
