(* ===== verification/Policy.thy ===== *)
theory Policy
  imports Caches
begin

text \<open>
  Who may do what: identities (src/internal/auth), the gates of the policy file and their
  evaluation (src/internal/policy), the maintainer grants they consult
  (src/internal/store/maintainers.go), the bearer-token registry and the merge of an operator's
  overrides onto a profile.

  YAML and JSON decoding, SHA-256 and the file system are parameters of the definitions that use
  them.
\<close>

section \<open>Identities\<close>

definition SourceAnonymous :: string where "SourceAnonymous = ''anonymous''"
definition SourceHeader :: string where "SourceHeader = ''header''"
definition SourceBearer :: string where "SourceBearer = ''bearer''"
definition SourceOIDC :: string where "SourceOIDC = ''oidc''"

lemmas source_defs = SourceAnonymous_def SourceHeader_def SourceBearer_def SourceOIDC_def

record identity =
  id_User :: string
  id_Email :: string
  id_Groups :: "string list"
  id_Source :: string

definition Anonymous :: identity where
  "Anonymous = \<lparr>id_User = [], id_Email = [], id_Groups = [], id_Source = SourceAnonymous\<rparr>"

definition IsAuthenticated :: "identity \<Rightarrow> bool" where
  "IsAuthenticated i \<longleftrightarrow> id_Source i \<noteq> [] \<and> id_Source i \<noteq> SourceAnonymous"

definition DisplayName :: "identity \<Rightarrow> string" where
  "DisplayName i = (if id_Email i \<noteq> [] then id_Email i else id_User i)"

text \<open>The identity attached to a request context, if the middleware attached one.\<close>

definition FromContext :: "identity option \<Rightarrow> identity \<times> bool" where
  "FromContext ctx = (case ctx of Some i \<Rightarrow> (i, True) | None \<Rightarrow> (Anonymous, False))"

section \<open>Gates and the policy\<close>

type_synonym gate = string

definition GateAny :: gate where "GateAny = ''any''"
definition GateAuthenticated :: gate where "GateAuthenticated = ''authenticated''"
definition GateMaintainer :: gate where "GateMaintainer = ''maintainer''"
definition GateDeny :: gate where "GateDeny = ''deny''"
definition groupGatePrefix :: string where "groupGatePrefix = ''group:''"

lemmas gate_defs = GateAny_def GateAuthenticated_def GateMaintainer_def GateDeny_def groupGatePrefix_def

definition IsGroup :: "gate \<Rightarrow> bool" where
  "IsGroup g \<longleftrightarrow> length g > length groupGatePrefix \<and> take (length groupGatePrefix) g = groupGatePrefix"

definition GroupName :: "gate \<Rightarrow> string" where
  "GroupName g = (if \<not> IsGroup g then [] else drop (length groupGatePrefix) g)"

record anonymous_abuse =
  aa_Turnstile :: string
  aa_PerIPRateLimit :: string
  aa_FirstTimeHoldback :: bool

record auth_section =
  au_Actions :: "gate gomap"
  au_AnonymousAbuse :: anonymous_abuse
  au_PerUserRateLimit :: string
  au_MaxPendingPerUser :: int
  au_PublicIDField :: string

record license_section =
  li_RequireLicense :: bool
  li_Allowlist :: "string list"
  li_Denylist :: "string list"
  li_UnknownVerdict :: string

record source_section =
  so_RequireHTTPS :: bool
  so_AllowedHosts :: "string list"
  so_DenylistedHosts :: "string list"

record cost_section =
  co_MaxArchiveSizeBytes :: int
  co_MaxClosureModules :: int
  co_MaxTotalAdmissionBytes :: int
  co_MaxPatchBytesPerVersion :: int

record review_section =
  re_TimeoutDays :: int
  re_AutoPassOnAlreadyInUpstream :: bool

record admission_section =
  ad_License :: license_section
  ad_Source :: source_section
  ad_Cost :: cost_section
  ad_Review :: review_section

record maintainers_section =
  mt_AutoGrantOnAdmission :: bool
  mt_MinPerModule :: int

record policy =
  po_Version :: int
  po_Profile :: string
  po_Auth :: auth_section
  po_Admission :: admission_section
  po_Maintainers :: maintainers_section

text \<open>\<open>None\<close> is the nil policy.\<close>

definition Allow :: "policy option \<Rightarrow> identity \<Rightarrow> string \<Rightarrow> bool" where
  "Allow p i action =
     (case p of None \<Rightarrow> False
      | Some p \<Rightarrow>
        (case map_of (au_Actions (po_Auth p)) action of
           None \<Rightarrow> False
         | Some g \<Rightarrow>
             if g = GateAny then True
             else if g = GateAuthenticated then IsAuthenticated i
             else if g = GateMaintainer then False
             else if g = GateDeny then False
             else if IsGroup g then (if \<not> IsAuthenticated i then False else GroupName g \<in> set (id_Groups i))
             else False))"

section \<open>Maintainer grants\<close>

record maintainer =
  mn_Module :: string
  mn_UserEmail :: string
  mn_GrantedAt :: int
  mn_GrantedBy :: string

definition AddMaintainer ::
  "string option \<Rightarrow> int \<Rightarrow> string \<Rightarrow> string \<Rightarrow> string \<Rightarrow> maintainer list \<Rightarrow> string option \<times> maintainer list" where
  "AddMaintainer fault now m email grantedBy rows =
     (if m = [] then (Some ''store: AddMaintainer: module required'', rows)
      else if email = [] then (Some ''store: AddMaintainer: user_email required'', rows)
      else if grantedBy = [] then (Some ''store: AddMaintainer: granted_by required'', rows)
      else (case fault of Some err \<Rightarrow> (Some (''store: insert maintainer: '' @ err), rows)
        | None \<Rightarrow>
          if \<exists>r \<in> set rows. mn_Module r = m \<and> mn_UserEmail r = email then (None, rows)
          else (None, rows @ [\<lparr>mn_Module = m, mn_UserEmail = email, mn_GrantedAt = now, mn_GrantedBy = grantedBy\<rparr>])))"

definition RemoveMaintainer ::
  "string option \<Rightarrow> string \<Rightarrow> string \<Rightarrow> maintainer list \<Rightarrow> string option \<times> maintainer list" where
  "RemoveMaintainer fault m email rows =
     (if m = [] then (Some ''store: RemoveMaintainer: module required'', rows)
      else if email = [] then (Some ''store: RemoveMaintainer: user_email required'', rows)
      else (case fault of Some err \<Rightarrow> (Some (''store: delete maintainer: '' @ err), rows)
        | None \<Rightarrow> (None, filter (\<lambda>r. \<not> (mn_Module r = m \<and> mn_UserEmail r = email)) rows)))"

definition IsMaintainer ::
  "string option \<Rightarrow> string \<Rightarrow> string \<Rightarrow> maintainer list \<Rightarrow> string + bool" where
  "IsMaintainer fault m email rows =
     (if m = [] \<or> email = [] then Inr False
      else (case fault of Some err \<Rightarrow> Inl (''store: probe maintainer: '' @ err)
        | None \<Rightarrow> Inr (\<exists>r \<in> set rows. mn_Module r = m \<and> mn_UserEmail r = email)))"

definition ListMaintainers :: "string option \<Rightarrow> string \<Rightarrow> maintainer list \<Rightarrow> string + maintainer list" where
  "ListMaintainers fault m rows =
     (case fault of Some err \<Rightarrow> Inl (''store: list maintainers: '' @ err)
      | None \<Rightarrow> Inr (sort_key mn_GrantedAt (filter (\<lambda>r. mn_Module r = m) rows)))"

section \<open>The evaluator\<close>

record evaluator =
  ev_policy :: policy
  ev_has_source :: bool
  ev_cacheTTL :: int
  ev_cacheMax :: int
  ev_cache :: verdict_cache

definition NewEvaluator :: "policy \<Rightarrow> bool \<Rightarrow> int \<Rightarrow> int \<Rightarrow> evaluator" where
  "NewEvaluator p has_source cacheTTL cacheMax =
     \<lparr>ev_policy = p, ev_has_source = has_source,
      ev_cacheTTL = (if cacheTTL \<le> 0 then 60 * second else cacheTTL),
      ev_cacheMax = (if cacheMax \<le> 0 then 256 else cacheMax),
      ev_cache = empty_lru\<rparr>"

text \<open>
  AllowFor takes and releases the lock twice: once to look up the cache and once to store the
  answer of the source, with the query in between. \<open>AllowFor_lookup\<close> is the part up to the
  query: a verdict, or the cache key to ask the source about. \<open>AllowFor_store\<close> is the rest.
\<close>

definition AllowFor_lookup ::
  "int \<Rightarrow> identity \<Rightarrow> string \<Rightarrow> string \<Rightarrow> evaluator \<Rightarrow> (bool + cache_key) \<times> evaluator" where
  "AllowFor_lookup now i action target e =
     (case map_of (au_Actions (po_Auth (ev_policy e))) action of
        None \<Rightarrow> (Inl False, e)
      | Some g \<Rightarrow>
          if g \<noteq> GateMaintainer then (Inl (Allow (Some (ev_policy e)) i action), e)
          else if \<not> IsAuthenticated i \<or> id_Email i = [] \<or> target = [] then (Inl False, e)
          else if \<not> ev_has_source e then (Inl False, e)
          else (case lookupCache now (id_Email i, target) (ev_cache e) of
              (Some v, c) \<Rightarrow> (Inl v, e\<lparr>ev_cache := c\<rparr>)
            | (None, c) \<Rightarrow> (Inr (id_Email i, target), e\<lparr>ev_cache := c\<rparr>)))"

definition AllowFor_store :: "int \<Rightarrow> cache_key \<Rightarrow> string + bool \<Rightarrow> evaluator \<Rightarrow> bool \<times> evaluator" where
  "AllowFor_store now key answer e =
     (case answer of
        Inl err \<Rightarrow> (False, e)
      | Inr got \<Rightarrow> (got, e\<lparr>ev_cache := storeCache (ev_cacheMax e) (ev_cacheTTL e) now key got (ev_cache e)\<rparr>))"

text \<open>A call with no other call in between: \<open>ask\<close> is IsMaintainer on module and email.\<close>

definition AllowFor ::
  "int \<Rightarrow> int \<Rightarrow> (string \<Rightarrow> string \<Rightarrow> string + bool) \<Rightarrow> identity \<Rightarrow> string \<Rightarrow> string \<Rightarrow> evaluator \<Rightarrow>
   bool \<times> evaluator" where
  "AllowFor now now' ask i action target e =
     (case AllowFor_lookup now i action target e of
        (Inl v, e) \<Rightarrow> (v, e)
      | (Inr (email, m), e) \<Rightarrow> AllowFor_store now' (email, m) (ask m email) e)"

definition Invalidate :: "string \<Rightarrow> string \<Rightarrow> evaluator \<Rightarrow> evaluator" where
  "Invalidate email m e = e\<lparr>ev_cache := InvalidateMaintainer email m (ev_cache e)\<rparr>"

section \<open>Merging overrides onto a profile\<close>

datatype yval = YNull | YScalar string | YSeq "yval list" | YMap "(string \<times> yval) list"

function deepMergeMaps :: "(string \<times> yval) list \<Rightarrow> (string \<times> yval) list \<Rightarrow> (string \<times> yval) list" where
  "deepMergeMaps base overlay =
     fold (\<lambda>(k, v) out.
        case map_of out k of
          Some (YMap bm) \<Rightarrow>
            (case v of YMap om \<Rightarrow> AList.update k (YMap (deepMergeMaps bm om)) out
             | _ \<Rightarrow> AList.update k v out)
        | _ \<Rightarrow> AList.update k v out) overlay base"
  by pat_completeness auto
termination
proof (relation "measure (\<lambda>(base, overlay). size (YMap overlay))")
  fix base overlay :: "(string \<times> yval) list" and x k v out bm om
  assume "x \<in> set overlay" "(k, v) = x" "v = YMap om"
  then have "(k, YMap om) \<in> set overlay" by simp
  then have "size (YMap om) < size (YMap overlay)"
    by (induction overlay) auto
  then show "((bm, om), base, overlay) \<in> measure (\<lambda>(base, overlay). size (YMap overlay))" by simp
qed simp

declare deepMergeMaps.simps [simp del]

text \<open>What opening and reading a configuration file gives; \<open>FileData\<close> is its whole content.\<close>

datatype file_read = FileAbsent | FileOpenError string | FileReadError string | FileData bytes

datatype policy_error =
    ErrPolicyFileMissing
  | PolicyOpen string
  | PolicyRead string
  | PolicyTooLarge
  | PolicyParse string
  | PolicyVersion int
  | ErrUnknownProfile string
  | PolicyProfile string
  | PolicyMerge string

record diagnostic =
  dg_Path :: string
  dg_Message :: string

text \<open>The YAML library and the embedded profile files.\<close>

record yaml_lib =
  yl_head :: "bytes \<Rightarrow> string + (int \<times> string)"
  yl_profile :: "string \<Rightarrow> string + policy"
  yl_marshal_policy :: "policy \<Rightarrow> string + bytes"
  yl_map :: "bytes \<Rightarrow> string + (string \<times> yval) list"
  yl_marshal_map :: "(string \<times> yval) list \<Rightarrow> string + bytes"
  yl_policy :: "bytes \<Rightarrow> string + policy"

definition maxPolicyFileBytes :: nat where
  "maxPolicyFileBytes = 10 * 1024 * 1024"

definition supportedVersion :: int where
  "supportedVersion = 1"

definition LoadProfile :: "yaml_lib \<Rightarrow> string \<Rightarrow> policy_error + policy" where
  "LoadProfile yl name =
     (if name \<notin> {''strict'', ''open'', ''closed''} then Inl (ErrUnknownProfile name)
      else (case yl_profile yl name of Inl err \<Rightarrow> Inl (PolicyProfile err) | Inr p \<Rightarrow> Inr p))"

definition mergeYAML :: "yaml_lib \<Rightarrow> policy \<Rightarrow> bytes \<Rightarrow> string + policy" where
  "mergeYAML yl baseline userYAML =
     (case yl_marshal_policy yl baseline of
        Inl err \<Rightarrow> Inl (''marshal baseline: '' @ err)
      | Inr baselineYAML \<Rightarrow>
        (case yl_map yl baselineYAML of
           Inl err \<Rightarrow> Inl (''decode baseline: '' @ err)
         | Inr baselineMap \<Rightarrow>
           (case yl_map yl userYAML of
              Inl err \<Rightarrow> Inl (''decode user: '' @ err)
            | Inr userMap \<Rightarrow>
              (case yl_marshal_map yl (deepMergeMaps baselineMap userMap) of
                 Inl err \<Rightarrow> Inl (''marshal merged: '' @ err)
               | Inr mergedYAML \<Rightarrow>
                 (case yl_policy yl mergedYAML of
                    Inl err \<Rightarrow> Inl (''decode merged: '' @ err)
                  | Inr out \<Rightarrow> Inr out)))))"

text \<open>The verb \<^verbatim>\<open>%q\<close> on a name without characters that it escapes.\<close>

definition quoted :: "string \<Rightarrow> string" where
  "quoted s = CHR 0x22 # s @ [CHR 0x22]"

definition profile_baseline :: "yaml_lib \<Rightarrow> string \<Rightarrow> policy_error + (policy \<times> diagnostic list)" where
  "profile_baseline yl profileName =
     (case LoadProfile yl profileName of
        Inr p \<Rightarrow> Inr (p, [])
      | Inl (ErrUnknownProfile _) \<Rightarrow>
          (case LoadProfile yl ''strict'' of
             Inl err \<Rightarrow> Inl err
           | Inr p \<Rightarrow> Inr (p, [\<lparr>dg_Path = ''profile'',
               dg_Message = ''unknown profile '' @ quoted profileName @
                 ''; falling back to strict (known profiles: strict, open, closed)''\<rparr>]))
      | Inl err \<Rightarrow> Inl err)"

definition LoadFile :: "yaml_lib \<Rightarrow> file_read \<Rightarrow> policy_error + (policy \<times> diagnostic list)" where
  "LoadFile yl file =
     (case file of
        FileAbsent \<Rightarrow> Inl ErrPolicyFileMissing
      | FileOpenError err \<Rightarrow> Inl (PolicyOpen err)
      | FileReadError err \<Rightarrow> Inl (PolicyRead err)
      | FileData content \<Rightarrow>
        (let body = take (maxPolicyFileBytes + 1) content
         in if length body > maxPolicyFileBytes then Inl PolicyTooLarge
         else (case yl_head yl body of
            Inl err \<Rightarrow> Inl (PolicyParse err)
          | Inr (version, profile) \<Rightarrow>
            if version \<noteq> supportedVersion then Inl (PolicyVersion version)
            else
              (let base = profile_baseline yl (if profile = [] then ''strict'' else profile)
               in case base of
                    Inl err \<Rightarrow> Inl err
                  | Inr (baseline, diags) \<Rightarrow>
                      (case mergeYAML yl baseline body of
                         Inl err \<Rightarrow> Inl (PolicyMerge err)
                       | Inr merged \<Rightarrow> Inr (merged, diags))))))"

section \<open>The bearer-token registry\<close>

record token_entry_ident =
  ti_User :: string
  ti_Email :: string
  ti_Groups :: "string list"

record token_entry =
  te_TokenSHA256 :: string
  te_Identity :: token_entry_ident

record identity_file =
  if_Version :: int
  if_Tokens :: "token_entry list"

datatype identity_error =
    ErrIdentityFileMissing
  | IdentityOpen string
  | IdentityRead string
  | IdentityTooLarge
  | IdentityParse string
  | IdentityVersion int
  | TokenLength nat nat
  | TokenNotHex nat
  | TokenNoUser nat
  | TokenDuplicate nat

type_synonym identity_registry = "identity gomap"

definition maxIdentityFileBytes :: nat where
  "maxIdentityFileBytes = 10 * 1024 * 1024"

definition hex_digit :: "char \<Rightarrow> bool" where
  "hex_digit c \<longleftrightarrow> c \<in> set ''0123456789abcdefABCDEF''"

definition valid_hex :: "string \<Rightarrow> bool" where
  "valid_hex s \<longleftrightarrow> even (length s) \<and> list_all hex_digit s"

fun load_tokens :: "nat \<Rightarrow> token_entry list \<Rightarrow> identity_registry \<Rightarrow> identity_error + identity_registry" where
  "load_tokens i [] reg = Inr reg"
| "load_tokens i (t # ts) reg =
     (let hash = to_lower (trim_space (te_TokenSHA256 t)); ident = te_Identity t
      in if length hash \<noteq> 64 then Inl (TokenLength i (length hash))
      else if \<not> valid_hex hash then Inl (TokenNotHex i)
      else if ti_User ident = [] \<and> ti_Email ident = [] then Inl (TokenNoUser i)
      else if has_key reg hash then Inl (TokenDuplicate i)
      else load_tokens (Suc i) ts (AList.update hash
             \<lparr>id_User = trim_space (ti_User ident), id_Email = trim_space (ti_Email ident),
              id_Groups = ti_Groups ident, id_Source = SourceBearer\<rparr> reg))"

definition LoadIdentityFile ::
  "(bytes \<Rightarrow> string + identity_file) \<Rightarrow> file_read \<Rightarrow> identity_error + identity_registry" where
  "LoadIdentityFile decode file =
     (case file of
        FileAbsent \<Rightarrow> Inl ErrIdentityFileMissing
      | FileOpenError err \<Rightarrow> Inl (IdentityOpen err)
      | FileReadError err \<Rightarrow> Inl (IdentityRead err)
      | FileData content \<Rightarrow>
        (let data = take (maxIdentityFileBytes + 1) content
         in if length data > maxIdentityFileBytes then Inl IdentityTooLarge
         else (case decode data of
            Inl err \<Rightarrow> Inl (IdentityParse err)
          | Inr f \<Rightarrow>
            if if_Version f \<noteq> 1 then Inl (IdentityVersion (if_Version f))
            else load_tokens 0 (if_Tokens f) [])))"

text \<open>\<open>sha256_hex\<close> is the lowercase hexadecimal SHA-256 of the token; \<open>None\<close> the nil registry.\<close>

definition LookupToken :: "(string \<Rightarrow> string) \<Rightarrow> identity_registry option \<Rightarrow> string \<Rightarrow> identity option" where
  "LookupToken sha256_hex r token =
     (case r of None \<Rightarrow> None | Some tokens \<Rightarrow> if token = [] then None else map_of tokens (sha256_hex token))"

definition Replace :: "identity_registry option \<Rightarrow> identity_registry option \<Rightarrow> identity_registry option" where
  "Replace r other = (case (r, other) of (Some _, Some newTokens) \<Rightarrow> Some newTokens | _ \<Rightarrow> r)"

definition Size :: "identity_registry option \<Rightarrow> nat" where
  "Size r = (case r of None \<Rightarrow> 0 | Some tokens \<Rightarrow> length tokens)"

section \<open>What the gates grant\<close>

lemma IsGroup_iff: "IsGroup g \<longleftrightarrow> (\<exists>n. n \<noteq> [] \<and> g = groupGatePrefix @ n)"
proof
  assume g: "IsGroup g"
  then have "g = groupGatePrefix @ drop (length groupGatePrefix) g"
    by (metis IsGroup_def append_take_drop_id)
  moreover have "drop (length groupGatePrefix) g \<noteq> []" using g by (simp add: IsGroup_def)
  ultimately show "\<exists>n. n \<noteq> [] \<and> g = groupGatePrefix @ n" by blast
qed (auto simp: IsGroup_def)

text \<open>
  The policy grants an action exactly when the policy names it and its gate is open to
  everyone, or the caller is authenticated and the gate asks for authentication or for a group
  the caller is in. Everything else is refused: an unnamed action, a nil policy, the per-target
  maintainer gate, deny, and any gate text the program does not know.
\<close>

theorem Allow_exact:
  "Allow p i action \<longleftrightarrow>
     (\<exists>pol g. p = Some pol \<and> map_of (au_Actions (po_Auth pol)) action = Some g \<and>
        (g = GateAny \<or>
         IsAuthenticated i \<and> (g = GateAuthenticated \<or> (\<exists>n \<in> set (id_Groups i). n \<noteq> [] \<and> g = groupGatePrefix @ n))))"
proof -
  have neq: "groupGatePrefix @ n \<noteq> GateAny" "groupGatePrefix @ n \<noteq> GateAuthenticated"
    "groupGatePrefix @ n \<noteq> GateMaintainer" "groupGatePrefix @ n \<noteq> GateDeny" for n
    by (simp_all add: gate_defs)
  have gates: "GateAny \<noteq> GateAuthenticated" "GateAny \<noteq> GateMaintainer" "GateAny \<noteq> GateDeny"
    "GateAuthenticated \<noteq> GateMaintainer" "GateAuthenticated \<noteq> GateDeny"
    by (simp_all add: gate_defs)
  show ?thesis
    using neq gates
    by (auto simp: Allow_def IsGroup_iff GroupName_def split: option.splits if_splits)
qed

lemma anonymous_not_authenticated [simp]: "\<not> IsAuthenticated Anonymous"
  by (simp add: IsAuthenticated_def Anonymous_def)

section \<open>How fresh a maintainer verdict is\<close>

text \<open>
  The evaluator under any interleaving of calls: every lookup, every store of an answer the
  source gave earlier, and every invalidation is one step. The trace keeps the stores and the
  invalidations, latest first.
\<close>

datatype ev_event = Stored int cache_key bool | Invalidated cache_key

inductive ev_run :: "evaluator \<Rightarrow> ev_event list \<Rightarrow> bool" where
  start: "ev_run (NewEvaluator p src ttl cap) []"
| look: "ev_run e tr \<Longrightarrow> AllowFor_lookup now i action target e = (r, e') \<Longrightarrow> ev_run e' tr"
| answer: "ev_run e tr \<Longrightarrow> AllowFor_store now key (Inr got) e = (v, e') \<Longrightarrow> ev_run e' (Stored now key got # tr)"
| failure: "ev_run e tr \<Longrightarrow> AllowFor_store now key (Inl err) e = (v, e') \<Longrightarrow> ev_run e' tr"
| invalid: "ev_run e tr \<Longrightarrow> ev_run (Invalidate email m e) (Invalidated (email, m) # tr)"

fun key_of :: "ev_event \<Rightarrow> cache_key" where
  "key_of (Stored t k v) = k"
| "key_of (Invalidated k) = k"

definition latest :: "cache_key \<Rightarrow> ev_event list \<Rightarrow> ev_event option" where
  "latest k tr = find (\<lambda>ev. key_of ev = k) tr"

lemma latest_Cons: "latest k (ev # tr) = (if key_of ev = k then Some ev else latest k tr)"
  by (simp add: latest_def)

definition ev_ok :: "evaluator \<Rightarrow> ev_event list \<Rightarrow> bool" where
  "ev_ok e tr \<longleftrightarrow> 0 < ev_cacheTTL e \<and> verdict_ok (ev_cacheMax e) (ev_cache e) \<and>
     (\<forall>k v x. map_of (contents (ev_cache e)) k = Some (v, x) \<longrightarrow> latest k tr = Some (Stored (x - ev_cacheTTL e) k v))"

lemma lookup_view:
  assumes "verdict_ok m c" and "lookupCache now key c = (r, c')"
    and "map_of (contents c') k = Some (v, x)"
  shows "map_of (contents c) k = Some (v, x)"
  using verdicts.get_view [OF assms(1), of now key] assms(2,3)
  by (auto simp: lookup_without split: option.splits if_splits prod.splits)

lemma store_view:
  assumes "verdict_ok m c" and "0 < ttl" and "map_of (contents (storeCache m ttl now key got c)) k = Some (v, x)"
  shows "if k = key then v = got \<and> x = now + ttl else map_of (contents c) k = Some (v, x)"
proof -
  have "(k, v, x) \<in> set (take (nat m) ((key, got, now + ttl) # without key (contents c)))"
    using assms(3) unfolding storeCache_refines(2) [OF assms(1)] by (rule map_of_SomeD)
  then have "(k, v, x) \<in> set ((key, got, now + ttl) # without key (contents c))" by (rule in_set_takeD)
  moreover have "map_of (contents c) k = Some (v, x)" if "(k, v, x) \<in> set (contents c)"
    using that assms(1) by (intro map_of_is_SomeI lru_contents_distinct) (simp_all add: verdict_ok_def)
  ultimately show ?thesis by (auto simp: without_def)
qed

lemma ev_run_ok: "ev_run e tr \<Longrightarrow> ev_ok e tr"
proof (induction rule: ev_run.induct)
  case (start p src ttl cap)
  then show ?case
    by (simp add: ev_ok_def NewEvaluator_def verdict_ok_def second_def) (simp add: empty_lru_def)
next
  case (look e tr now i action target r e')
  have "e' = e \<or> (\<exists>k v c. lookupCache now k (ev_cache e) = (v, c) \<and> e' = e\<lparr>ev_cache := c\<rparr>)"
    using look.hyps(2) by (auto simp: AllowFor_lookup_def split: option.splits if_splits prod.splits)
  then show ?case
  proof
    assume "e' = e"
    then show ?thesis using look.IH by simp
  next
    assume "\<exists>k v c. lookupCache now k (ev_cache e) = (v, c) \<and> e' = e\<lparr>ev_cache := c\<rparr>"
    then obtain k v c where c: "lookupCache now k (ev_cache e) = (v, c)" and e': "e' = e\<lparr>ev_cache := c\<rparr>" by blast
    have ok: "verdict_ok (ev_cacheMax e) (ev_cache e)" using look.IH by (simp add: ev_ok_def)
    have "verdict_ok (ev_cacheMax e) c" using verdicts.get_ok [OF ok, of now k] c by simp
    then show ?thesis using look.IH lookup_view [OF ok c] unfolding ev_ok_def e' by simp
  qed
next
  case (answer e tr now key got v e')
  then have e': "e' = e\<lparr>ev_cache := storeCache (ev_cacheMax e) (ev_cacheTTL e) now key got (ev_cache e)\<rparr>"
    by (auto simp: AllowFor_store_def)
  have ok: "verdict_ok (ev_cacheMax e) (ev_cache e)" "0 < ev_cacheTTL e" using answer.IH by (simp_all add: ev_ok_def)
  have "latest k (Stored now key got # tr) = Some (Stored (x - ev_cacheTTL e) k w)"
    if "map_of (contents (ev_cache e')) k = Some (w, x)" for k w x
  proof -
    have c: "map_of (contents (storeCache (ev_cacheMax e) (ev_cacheTTL e) now key got (ev_cache e))) k = Some (w, x)"
      using that by (simp add: e')
    show ?thesis
      using store_view [OF ok c] answer.IH by (cases k; cases "k = key") (simp_all add: latest_Cons ev_ok_def)
  qed
  then show ?case
    using storeCache_refines(1) [OF ok(1)] ok(2) unfolding ev_ok_def by (simp add: e')
next
  case (failure e tr now key err v e')
  then show ?case by (simp add: AllowFor_store_def)
next
  case (invalid e tr email m)
  then have ok: "verdict_ok (ev_cacheMax e) (ev_cache e)" by (simp add: ev_ok_def)
  show ?case
    using invalid.IH InvalidateMaintainer_refines [OF ok, of email m]
    unfolding ev_ok_def Invalidate_def by (auto simp: latest_Cons lookup_without)
qed


definition alice :: identity where
  "alice = \<lparr>id_User = ''alice'', id_Email = ''a@x'', id_Groups = [], id_Source = SourceBearer\<rparr>"

definition edit_policy :: policy where
  "edit_policy = \<lparr>po_Version = 1, po_Profile = ''strict'',
     po_Auth = \<lparr>au_Actions = [(''edit'', GateMaintainer)],
       au_AnonymousAbuse = \<lparr>aa_Turnstile = [], aa_PerIPRateLimit = [], aa_FirstTimeHoldback = False\<rparr>,
       au_PerUserRateLimit = [], au_MaxPendingPerUser = 0, au_PublicIDField = []\<rparr>,
     po_Admission = \<lparr>ad_License = \<lparr>li_RequireLicense = False, li_Allowlist = [], li_Denylist = [], li_UnknownVerdict = []\<rparr>,
       ad_Source = \<lparr>so_RequireHTTPS = True, so_AllowedHosts = [], so_DenylistedHosts = []\<rparr>,
       ad_Cost = \<lparr>co_MaxArchiveSizeBytes = 0, co_MaxClosureModules = 0, co_MaxTotalAdmissionBytes = 0, co_MaxPatchBytesPerVersion = 0\<rparr>,
       ad_Review = \<lparr>re_TimeoutDays = 0, re_AutoPassOnAlreadyInUpstream = True\<rparr>\<rparr>,
     po_Maintainers = \<lparr>mt_AutoGrantOnAdmission = False, mt_MinPerModule = 0\<rparr>\<rparr>"


text \<open>
  An invalidation does not reach an answer that is already on its way: a grant read before a
  revocation and stored after the invalidation that follows it lets the next call through,
  although the user is no longer a maintainer and the invalidation came after the revocation.
\<close>

theorem stale_grant_after_invalidation:
  "\<exists>rows rows' e1 e2 e3.
     AllowFor_lookup 1 alice ''edit'' ''zlib'' (NewEvaluator edit_policy True 60 5) = (Inr (''a@x'', ''zlib''), e1) \<and>
     IsMaintainer None ''zlib'' ''a@x'' rows = Inr True \<and>
     RemoveMaintainer None ''zlib'' ''a@x'' rows = (None, rows') \<and>
     Invalidate ''a@x'' ''zlib'' e1 = e2 \<and>
     AllowFor_store 2 (''a@x'', ''zlib'') (IsMaintainer None ''zlib'' ''a@x'' rows) e2 = (True, e3) \<and>
     IsMaintainer None ''zlib'' ''a@x'' rows' = Inr False \<and>
     fst (AllowFor 3 3 (\<lambda>m email. IsMaintainer None m email rows') alice ''edit'' ''zlib'' e3) = True"
proof -
  let ?rows = "[\<lparr>mn_Module = ''zlib'', mn_UserEmail = ''a@x'', mn_GrantedAt = 0, mn_GrantedBy = ''root''\<rparr>]"
  let ?e0 = "NewEvaluator edit_policy True 60 5"
  let ?e1 = "snd (AllowFor_lookup 1 alice ''edit'' ''zlib'' ?e0)"
  let ?e2 = "Invalidate ''a@x'' ''zlib'' ?e1"
  let ?e3 = "snd (AllowFor_store 2 (''a@x'', ''zlib'') (Inr True) ?e2)"
  have "fst (AllowFor_lookup 1 alice ''edit'' ''zlib'' ?e0) = Inr (''a@x'', ''zlib'')" by code_simp
  then have a: "AllowFor_lookup 1 alice ''edit'' ''zlib'' ?e0 = (Inr (''a@x'', ''zlib''), ?e1)" by (metis prod.collapse)
  have b: "IsMaintainer None ''zlib'' ''a@x'' ?rows = Inr True" "RemoveMaintainer None ''zlib'' ''a@x'' ?rows = (None, [])"
    "IsMaintainer None ''zlib'' ''a@x'' [] = Inr False" by code_simp+
  have c: "AllowFor_store 2 (''a@x'', ''zlib'') (Inr True) ?e2 = (True, ?e3)" by (simp add: AllowFor_store_def)
  have d: "fst (AllowFor 3 3 (\<lambda>m email. IsMaintainer None m email []) alice ''edit'' ''zlib'' ?e3) = True" by code_simp
  show ?thesis using a b c d by (intro exI [of _ ?rows] exI [of _ "[]"] exI [of _ ?e1] exI [of _ ?e2] exI [of _ ?e3]) simp
qed

section \<open>The merge of overrides\<close>

fun wf_yval :: "yval \<Rightarrow> bool" where
  "wf_yval (YMap m) \<longleftrightarrow> distinct (map fst m) \<and> list_all (\<lambda>kv. wf_yval (snd kv)) m"
| "wf_yval (YSeq vs) \<longleftrightarrow> list_all wf_yval vs"
| "wf_yval _ \<longleftrightarrow> True"

text \<open>The value the merged map holds for one key.\<close>

definition merged_value :: "yval option \<Rightarrow> yval option \<Rightarrow> yval option" where
  "merged_value b v =
     (case v of None \<Rightarrow> b
      | Some (YMap om) \<Rightarrow> (case b of Some (YMap bm) \<Rightarrow> Some (YMap (deepMergeMaps bm om)) | _ \<Rightarrow> v)
      | Some _ \<Rightarrow> v)"

lemma merge_lookup_fold:
  assumes "distinct (map fst overlay)"
  shows "map_of (fold (\<lambda>(k, v) out.
        case map_of out k of
          Some (YMap bm) \<Rightarrow>
            (case v of YMap om \<Rightarrow> AList.update k (YMap (deepMergeMaps bm om)) out
             | _ \<Rightarrow> AList.update k v out)
        | _ \<Rightarrow> AList.update k v out) overlay base) k = merged_value (map_of base k) (map_of overlay k)"
  using assms
proof (induction overlay arbitrary: base)
  case Nil
  then show ?case by (simp add: merged_value_def)
next
  case (Cons kv overlay)
  obtain j w where kv: "kv = (j, w)" by fastforce
  have j: "map_of overlay j = None" using Cons.prems kv by (simp add: map_of_eq_None_iff)
  show ?case
    using Cons j by (auto simp: kv merged_value_def update_conv' split: option.splits yval.splits)
qed

lemma merge_lookup:
  "distinct (map fst overlay) \<Longrightarrow>
   map_of (deepMergeMaps base overlay) k = merged_value (map_of base k) (map_of overlay k)"
  by (subst deepMergeMaps.simps) (rule merge_lookup_fold)

text \<open>The value at a dotted path.\<close>

fun at_path :: "(string \<times> yval) list \<Rightarrow> string list \<Rightarrow> yval option" where
  "at_path m [] = Some (YMap m)"
| "at_path m (k # ks) =
     (case map_of m k of
        None \<Rightarrow> None
      | Some (YMap m') \<Rightarrow> at_path m' ks
      | Some v \<Rightarrow> if ks = [] then Some v else None)"

text \<open>A path on which the overrides say nothing: it leaves their maps at an absent key.\<close>

fun silent :: "(string \<times> yval) list \<Rightarrow> string list \<Rightarrow> bool" where
  "silent m [] = False"
| "silent m (k # ks) =
     (case map_of m k of
        None \<Rightarrow> True
      | Some (YMap m') \<Rightarrow> silent m' ks
      | Some v \<Rightarrow> False)"

lemma wf_submap:
  assumes "wf_yval (YMap m)" and "map_of m k = Some (YMap m')"
  shows "wf_yval (YMap m')"
proof -
  have "list_all (\<lambda>kv. wf_yval (snd kv)) m" using assms(1) by (simp only: wf_yval.simps)
  moreover have "(k, YMap m') \<in> set m" using assms(2) by (rule map_of_SomeD)
  ultimately show ?thesis unfolding list_all_iff by (metis snd_conv)
qed

lemma at_path_leaf: "map_of m k = Some v \<Longrightarrow> \<nexists>m'. v = YMap m' \<Longrightarrow> at_path m (k # ks) = (if ks = [] then Some v else None)"
  by (cases v) auto

lemma merge_user_wins:
  assumes "wf_yval (YMap overlay)" and "at_path overlay p = Some v" and "\<nexists>m. v = YMap m"
  shows "at_path (deepMergeMaps base overlay) p = Some v"
  using assms
proof (induction p arbitrary: base overlay)
  case (Cons k ks)
  have d: "distinct (map fst overlay)" using Cons.prems(1) by simp
  obtain w where w: "map_of overlay k = Some w" using Cons.prems(2) by (cases "map_of overlay k") simp_all
  show ?case
  proof (cases "\<exists>om. w = YMap om")
    case True
    then obtain om where om: "w = YMap om" by blast
    have ks: "at_path om ks = Some v" using Cons.prems(2) om w by simp
    have wf: "wf_yval (YMap om)" by (rule wf_submap [OF Cons.prems(1) w [unfolded om]])
    show ?thesis
    proof (cases "\<exists>bm. map_of base k = Some (YMap bm)")
      case True
      then obtain bm where "map_of base k = Some (YMap bm)" by blast
      then have "map_of (deepMergeMaps base overlay) k = Some (YMap (deepMergeMaps bm om))"
        using w om by (simp add: merge_lookup [OF d] merged_value_def)
      then show ?thesis using Cons.IH [OF wf ks Cons.prems(3)] by simp
    next
      case False
      then have "map_of (deepMergeMaps base overlay) k = Some (YMap om)"
        using w om by (simp add: merge_lookup [OF d] merged_value_def split: option.splits yval.splits)
      then show ?thesis using ks by simp
    qed
  next
    case False
    then have "map_of (deepMergeMaps base overlay) k = Some w"
      using w by (simp add: merge_lookup [OF d] merged_value_def split: yval.splits)
    then show ?thesis using at_path_leaf [of _ k w ks] Cons.prems(2) w False by metis
  qed
qed auto

lemma silent_absent: "silent m p \<Longrightarrow> at_path m p = None"
  by (induction m p rule: silent.induct) (auto split: option.splits yval.splits)

lemma merge_base_kept:
  assumes "wf_yval (YMap overlay)" and "silent overlay p"
  shows "at_path (deepMergeMaps base overlay) p = at_path base p"
  using assms
proof (induction p arbitrary: base overlay)
  case (Cons k ks)
  have d: "distinct (map fst overlay)" using Cons.prems(1) by simp
  show ?case
  proof (cases "map_of overlay k")
    case None
    then have "map_of (deepMergeMaps base overlay) k = map_of base k"
      by (simp add: merge_lookup [OF d] merged_value_def)
    then show ?thesis by simp
  next
    case (Some w)
    then obtain om where om: "w = YMap om" and ks: "silent om ks"
      using Cons.prems(2) by (cases w) auto
    have wf: "wf_yval (YMap om)" by (rule wf_submap [OF Cons.prems(1) Some [unfolded om]])
    show ?thesis
    proof (cases "\<exists>bm. map_of base k = Some (YMap bm)")
      case True
      then obtain bm where bm: "map_of base k = Some (YMap bm)" by blast
      then have "map_of (deepMergeMaps base overlay) k = Some (YMap (deepMergeMaps bm om))"
        using Some om by (simp add: merge_lookup [OF d] merged_value_def)
      then show ?thesis using Cons.IH [OF wf ks] bm by simp
    next
      case False
      then have "map_of (deepMergeMaps base overlay) k = Some (YMap om)"
        using Some om by (simp add: merge_lookup [OF d] merged_value_def split: option.splits yval.splits)
      moreover have "at_path om ks = None" using Cons.IH [OF wf ks, of "[]"] ks silent_absent by blast
      moreover have "ks \<noteq> []" using ks by auto
      ultimately show ?thesis using False by (simp split: option.splits yval.splits)
    qed
  qed
qed simp

text \<open>
  Merging an operator's file onto a profile keeps both sides where they do not meet: every
  scalar or list the operator writes, at any depth, is in the result, explicit false included,
  and every path the operator's file is silent about has the profile's value.
\<close>

theorem deepMerge_overrides:
  assumes "wf_yval (YMap overlay)"
  shows "(at_path overlay p = Some v \<and> (\<nexists>m. v = YMap m) \<longrightarrow> at_path (deepMergeMaps base overlay) p = Some v) \<and>
    (silent overlay p \<longrightarrow> at_path (deepMergeMaps base overlay) p = at_path base p)"
  using merge_user_wins [OF assms] merge_base_kept [OF assms] by blast

lemma deepMerge_overrides_witness:
  "let base = [(''audit'', YMap [(''retain'', YScalar ''30''), (''redact'', YScalar ''true'')])];
       user = [(''audit'', YMap [(''redact'', YScalar ''false'')])]
   in at_path (deepMergeMaps base user) [''audit'', ''redact''] = Some (YScalar ''false'') \<and>
      at_path (deepMergeMaps base user) [''audit'', ''retain''] = Some (YScalar ''30'')"
proof -
  let ?base = "[(''audit'', YMap [(''retain'', YScalar ''30''), (''redact'', YScalar ''true'')])]"
  let ?user = "[(''audit'', YMap [(''redact'', YScalar ''false'')])]"
  have wf: "wf_yval (YMap ?user)" by simp
  show ?thesis
    using deepMerge_overrides [OF wf, of "[''audit'', ''redact'']" "YScalar ''false''" ?base]
      deepMerge_overrides [OF wf, of "[''audit'', ''retain'']" "YNull" ?base] by simp
qed

section \<open>The registry\<close>

abbreviation token_hash :: "token_entry \<Rightarrow> string" where
  "token_hash t \<equiv> to_lower (trim_space (te_TokenSHA256 t))"

definition entry_identity :: "token_entry \<Rightarrow> identity" where
  "entry_identity t = \<lparr>id_User = trim_space (ti_User (te_Identity t)), id_Email = trim_space (ti_Email (te_Identity t)),
     id_Groups = ti_Groups (te_Identity t), id_Source = SourceBearer\<rparr>"

lemma load_tokens_sound:
  assumes "load_tokens i ts reg = Inr out"
  shows "map_of out = map_of reg ++ map_of (map (\<lambda>t. (token_hash t, entry_identity t)) (rev ts)) \<and>
    distinct (map token_hash ts) \<and> (\<forall>t \<in> set ts. length (token_hash t) = 64 \<and> valid_hex (token_hash t) \<and> \<not> has_key reg (token_hash t))"
  using assms
proof (induction ts arbitrary: i reg)
  case Nil
  then show ?case by simp
next
  case (Cons t ts)
  let ?reg = "AList.update (token_hash t) (entry_identity t) reg"
  have rec: "load_tokens (Suc i) ts ?reg = Inr out" and t: "length (token_hash t) = 64" "valid_hex (token_hash t)"
    "\<not> has_key reg (token_hash t)"
    using Cons.prems by (auto simp: Let_def entry_identity_def split: if_splits)
  note IH = Cons.IH [OF rec]
  have upd: "map_of ?reg = (map_of reg)(token_hash t \<mapsto> entry_identity t)" by (simp add: update_conv')
  have new: "token_hash u \<noteq> token_hash t \<and> \<not> has_key reg (token_hash u)" if "u \<in> set ts" for u
    using IH that by (auto simp: has_key_def upd split: if_splits)
  have "map_of (map (\<lambda>t. (token_hash t, entry_identity t)) (rev ts)) (token_hash t) = None"
    using new by (fastforce simp: map_of_eq_None_iff)
  then have "map_of ?reg ++ map_of (map (\<lambda>t. (token_hash t, entry_identity t)) (rev ts)) =
      map_of reg ++ map_of (map (\<lambda>t. (token_hash t, entry_identity t)) (rev (t # ts)))"
    by (auto simp: upd fun_eq_iff map_add_def split: option.splits)
  moreover have "distinct (map token_hash (t # ts))"
    using IH new by (simp add: image_iff) metis
  moreover have "length (token_hash u) = 64 \<and> valid_hex (token_hash u) \<and> \<not> has_key reg (token_hash u)"
    if "u \<in> set (t # ts)" for u
    using that IH t new by (metis set_ConsD)
  ultimately show ?case using IH by metis
qed

text \<open>
  A loaded identity file is a faithful bearer-token table: a token authenticates exactly
  when its digest is one of the file's entries, each entry has a digest of its own, a token gets
  the trimmed user, email and groups of that entry with source bearer, and a token that is not in
  the file, the empty token or a nil registry authenticate nobody.
\<close>

theorem identity_registry_exact:
  assumes "LoadIdentityFile decode file = Inr reg" and "file = FileData content"
    and "decode content = Inr f"
  shows "LookupToken sha256_hex (Some reg) token =
      (if token = [] then None
       else map_option entry_identity (find (\<lambda>t. token_hash t = sha256_hex token) (if_Tokens f))) \<and>
    (\<forall>i. LookupToken sha256_hex (Some reg) token = Some i \<longrightarrow> IsAuthenticated i) \<and>
    LookupToken sha256_hex None token = None \<and> distinct (map token_hash (if_Tokens f))"
proof -
  have len: "length content \<le> maxIdentityFileBytes" and load: "load_tokens 0 (if_Tokens f) [] = Inr reg"
    using assms by (auto simp: LoadIdentityFile_def Let_def min_def split: if_splits sum.splits)
  note reg = load_tokens_sound [OF load]
  have "map_of (map (\<lambda>t. (token_hash t, entry_identity t)) (rev ts)) h = map_option entry_identity (find (\<lambda>t. token_hash t = h) ts)"
    if "distinct (map token_hash ts)" for ts h
    using that
  proof (induction ts)
    case (Cons t ts)
    have "map_of (map (\<lambda>t. (token_hash t, entry_identity t)) (rev ts)) (token_hash t) = None"
      using Cons.prems by (auto simp: map_of_eq_None_iff)
    then show ?case using Cons by (auto simp: map_add_def split: option.splits)
  qed simp
  then have lk: "map_of reg h = map_option entry_identity (find (\<lambda>t. token_hash t = h) (if_Tokens f))" for h
    using reg by simp
  then show ?thesis
    using reg by (auto simp: LookupToken_def entry_identity_def IsAuthenticated_def source_defs)
qed

definition alice_file :: identity_file where
  "alice_file = \<lparr>if_Version = 1, if_Tokens = [\<lparr>te_TokenSHA256 = replicate 64 (CHR ''A''),
     te_Identity = \<lparr>ti_User = ''alice '', ti_Email = [], ti_Groups = [''ops'']\<rparr>\<rparr>]\<rparr>"

lemma load_alice:
  "load_tokens 0 (if_Tokens alice_file) [] =
     Inr [(replicate 64 (CHR ''a''), \<lparr>id_User = ''alice'', id_Email = [], id_Groups = [''ops''], id_Source = SourceBearer\<rparr>)]"
  by code_simp

lemma alice_file_loads:
  "LoadIdentityFile (\<lambda>_. Inr alice_file) (FileData []) =
     Inr [(replicate 64 (CHR ''a''), \<lparr>id_User = ''alice'', id_Email = [], id_Groups = [''ops''], id_Source = SourceBearer\<rparr>)]"
  using load_alice by (simp add: LoadIdentityFile_def) (simp add: alice_file_def)

lemma identity_registry_exact_witness:
  "LookupToken (\<lambda>tok. if tok = ''s3cret'' then replicate 64 (CHR ''a'') else [])
     (Some [(replicate 64 (CHR ''a''), \<lparr>id_User = ''alice'', id_Email = [], id_Groups = [''ops''], id_Source = SourceBearer\<rparr>)])
     ''other'' = None"
proof -
  have "token_hash (hd (if_Tokens alice_file)) \<noteq> []" by code_simp
  then show ?thesis
    using identity_registry_exact [OF alice_file_loads refl refl, of "\<lambda>tok. if tok = ''s3cret'' then replicate 64 (CHR ''a'') else []" "''other''"]
    by (simp add: alice_file_def)
qed

text \<open>
  An entry whose user and email are only white space passes the check that one of them is
  given, and its token then authenticates an identity without any name.
\<close>

theorem blank_identity_accepted:
  "let blank = \<lparr>te_TokenSHA256 = replicate 64 (CHR ''a''), te_Identity = \<lparr>ti_User = '' '', ti_Email = [], ti_Groups = []\<rparr>\<rparr>
   in \<exists>reg. LoadIdentityFile (\<lambda>_. Inr \<lparr>if_Version = 1, if_Tokens = [blank]\<rparr>) (FileData []) = Inr reg \<and>
        (\<exists>i. LookupToken (\<lambda>_. replicate 64 (CHR ''a'')) (Some reg) ''tok'' = Some i \<and> DisplayName i = [] \<and> IsAuthenticated i)"
proof -
  let ?f = "\<lparr>if_Version = 1, if_Tokens = [\<lparr>te_TokenSHA256 = replicate 64 (CHR ''a''),
      te_Identity = \<lparr>ti_User = '' '', ti_Email = [], ti_Groups = []\<rparr>\<rparr>]\<rparr>"
  let ?reg = "[(replicate 64 (CHR ''a''), \<lparr>id_User = [], id_Email = [], id_Groups = [], id_Source = SourceBearer\<rparr>)]"
  have "load_tokens 0 (if_Tokens ?f) [] = Inr ?reg" by code_simp
  then have load: "LoadIdentityFile (\<lambda>_. Inr ?f) (FileData []) = Inr ?reg"
    by (simp add: LoadIdentityFile_def del: load_tokens.simps)
  have "LookupToken (\<lambda>_. replicate 64 (CHR ''a'')) (Some ?reg) ''tok'' = Some (snd (hd ?reg))"
    by (simp add: LookupToken_def)
  then show ?thesis
    unfolding Let_def using load by (auto simp: DisplayName_def IsAuthenticated_def source_defs)
qed

text \<open>
  Loading a policy file refuses every version but the supported one and every file above the
  size cap, reports a missing file as such, and falls back to the strict profile, with exactly
  one diagnostic, when the profile name is unknown; a known or absent name gives none.
\<close>

theorem LoadFile_outcomes:
  "LoadFile yl FileAbsent = Inl ErrPolicyFileMissing \<and>
   (length content > maxPolicyFileBytes \<longrightarrow> LoadFile yl (FileData content) = Inl PolicyTooLarge) \<and>
   (length content \<le> maxPolicyFileBytes \<and> yl_head yl content = Inr (version, profile) \<longrightarrow>
      (version \<noteq> 1 \<longrightarrow> LoadFile yl (FileData content) = Inl (PolicyVersion version)) \<and>
      (\<forall>p diags. LoadFile yl (FileData content) = Inr (p, diags) \<longrightarrow>
         version = 1 \<and>
         (\<exists>base. yl_profile yl (if profile \<in> {''open'', ''closed''} then profile else ''strict'') = Inr base \<and>
                 mergeYAML yl base content = Inr p) \<and>
         length diags = (if profile \<in> {[], ''strict'', ''open'', ''closed''} then 0 else 1)))"
proof (intro conjI impI allI)
  show "LoadFile yl FileAbsent = Inl ErrPolicyFileMissing" by (simp add: LoadFile_def)
  show "LoadFile yl (FileData content) = Inl PolicyTooLarge" if "length content > maxPolicyFileBytes"
    using that by (simp add: LoadFile_def Let_def)
  assume h: "length content \<le> maxPolicyFileBytes \<and> yl_head yl content = Inr (version, profile)"
  show "LoadFile yl (FileData content) = Inl (PolicyVersion version)" if "version \<noteq> 1"
    using h that by (simp add: LoadFile_def Let_def supportedVersion_def)
  fix p diags
  assume "LoadFile yl (FileData content) = Inr (p, diags)"
  then have v: "version = 1" and "\<exists>base. profile_baseline yl (if profile = [] then ''strict'' else profile) = Inr (base, diags) \<and>
      mergeYAML yl base content = Inr p"
    using h by (auto simp: LoadFile_def Let_def supportedVersion_def split: if_splits sum.splits)
  then obtain base where b: "profile_baseline yl (if profile = [] then ''strict'' else profile) = Inr (base, diags)"
    and m: "mergeYAML yl base content = Inr p" by blast
  show "version = 1" by (rule v)
  have "yl_profile yl (if profile \<in> {''open'', ''closed''} then profile else ''strict'') = Inr base \<and>
      length diags = (if profile \<in> {[], ''strict'', ''open'', ''closed''} then 0 else 1)"
    using b by (auto simp: profile_baseline_def LoadProfile_def split: if_splits sum.splits)
  then show "\<exists>base. yl_profile yl (if profile \<in> {''open'', ''closed''} then profile else ''strict'') = Inr base \<and>
      mergeYAML yl base content = Inr p"
    and "length diags = (if profile \<in> {[], ''strict'', ''open'', ''closed''} then 0 else 1)"
    using m by blast+
qed

definition tiny_yaml :: yaml_lib where
  "tiny_yaml = \<lparr>yl_head = (\<lambda>_. Inr (1, ''lenient'')), yl_profile = (\<lambda>_. Inr edit_policy),
     yl_marshal_policy = (\<lambda>_. Inr []), yl_map = (\<lambda>_. Inr []), yl_marshal_map = (\<lambda>_. Inr []),
     yl_policy = (\<lambda>_. Inr edit_policy)\<rparr>"

lemma LoadFile_outcomes_witness:
  "\<exists>p diags. LoadFile tiny_yaml (FileData []) = Inr (p, diags) \<and> length diags = 1"
proof -
  let ?r = "LoadFile tiny_yaml (FileData [])"
  obtain p diags where r: "?r = Inr (p, diags)"
    by (simp add: LoadFile_def supportedVersion_def profile_baseline_def LoadProfile_def tiny_yaml_def mergeYAML_def)
  have "yl_head tiny_yaml [] = Inr (1, ''lenient'')" by (simp add: tiny_yaml_def)
  then have "length diags = 1"
    using LoadFile_outcomes [of tiny_yaml "[]" 1 "''lenient''"] r by auto
  then show ?thesis using r by blast
qed

end
