(* ===== verification/Json.thy ===== *)
theory Json
  imports Prelude
begin

text \<open>
  The text of encoding/json as the sources use it: Marshal and MarshalIndent of the values
  they build, and Unmarshal of what they read back. Values are trees, numbers keep their
  literal, an object keeps the order of its members.

  The parser takes a fuel argument; \<open>Unmarshal\<close> passes the length of the text plus one, which
  \<open>parse_value_fuel\<close> shows to be enough: more fuel gives the same result.
\<close>

section \<open>UTF-8\<close>

definition in_range :: "nat \<Rightarrow> nat \<Rightarrow> char \<Rightarrow> bool" where
  "in_range lo hi c \<longleftrightarrow> lo \<le> of_char c \<and> of_char c \<le> hi"

text \<open>The number of bytes of the first rune, 0 where utf8.DecodeRune reports an error.\<close>

definition second_range :: "nat \<Rightarrow> nat \<times> nat" where
  "second_range b =
     (if b = 0xE0 then (0xA0, 0xBF) else if b = 0xED then (0x80, 0x9F)
      else if b = 0xF0 then (0x90, 0xBF) else if b = 0xF4 then (0x80, 0x8F) else (0x80, 0xBF))"

fun continues :: "nat \<Rightarrow> string \<Rightarrow> bool" where
  "continues 0 s = True"
| "continues (Suc n) [] = False"
| "continues (Suc n) (c # s) = (in_range 0x80 0xBF c \<and> continues n s)"

definition multibyte :: "nat \<Rightarrow> char \<Rightarrow> string \<Rightarrow> nat" where
  "multibyte n c s =
     (case s of [] \<Rightarrow> 0
      | c1 # s1 \<Rightarrow> (case second_range (of_char c) of (lo, hi) \<Rightarrow>
          if in_range lo hi c1 \<and> continues (n - 2) s1 then n else 0))"

fun rune_len :: "string \<Rightarrow> nat" where
  "rune_len [] = 0"
| "rune_len (c # s) =
     (if of_char c < (0x80 :: nat) then 1
      else if in_range 0xC2 0xDF c then multibyte 2 c s
      else if in_range 0xE0 0xEF c then multibyte 3 c s
      else if in_range 0xF0 0xF4 c then multibyte 4 c s
      else 0)"

lemma multibyte_cases: "multibyte n c s = 0 \<or> multibyte n c s = n"
  by (auto simp: multibyte_def split: list.splits prod.splits)

lemma rune_len_le_4: "rune_len s \<le> 4"
  using multibyte_cases [of 2 "hd s" "tl s"] multibyte_cases [of 3 "hd s" "tl s"]
    multibyte_cases [of 4 "hd s" "tl s"]
  by (cases s) auto

lemma continues_length: "continues n s \<Longrightarrow> n \<le> length s"
  by (induction n s rule: continues.induct) auto

lemma continues_append: "continues n s \<Longrightarrow> continues n (take n s @ t)"
  by (induction n s rule: continues.induct) auto

lemma multibyte_length: "multibyte n c s = n \<Longrightarrow> 2 \<le> n \<Longrightarrow> n \<le> Suc (length s)"
  using continues_length [of "n - 2" "tl s"]
  by (auto simp: multibyte_def split: list.splits prod.splits if_splits)

lemma multibyte_append:
  "multibyte n c s = n \<Longrightarrow> 2 \<le> n \<Longrightarrow> multibyte n c (take (n - 1) s @ t) = n"
proof -
  assume n: "multibyte n c s = n" "2 \<le> n"
  then obtain c1 s1 where s: "s = c1 # s1" by (cases s) (auto simp: multibyte_def)
  obtain m where m: "n = Suc (Suc m)" using n(2) by (metis Suc_le_D numeral_2_eq_2 Suc_le_mono)
  have "continues m s1" using n(1) by (auto simp: multibyte_def s m split: prod.splits if_splits)
  then show ?thesis using n(1) continues_append [of m s1 t]
    by (auto simp: multibyte_def s m split: prod.splits if_splits)
qed

lemma rune_len_length: "rune_len s \<le> length s"
proof (cases s)
  case (Cons c r)
  then show ?thesis
    using multibyte_cases [of 2 c r] multibyte_cases [of 3 c r] multibyte_cases [of 4 c r]
      multibyte_length [of 2 c r] multibyte_length [of 3 c r] multibyte_length [of 4 c r]
    by (auto split: if_splits)
qed simp

lemma rune_len_append:
  assumes "rune_len s = n" and "0 < n"
  shows "rune_len (take n s @ t) = n"
proof (cases s)
  case (Cons c r)
  have m: "take n s = c # take (n - 1) r" using assms(2) by (cases n) (simp_all add: Cons)
  then have e: "rune_len (take n s @ t) = rune_len (c # (take (n - 1) r @ t))" by simp
  have k: "multibyte n c (take (n - 1) r @ t) = n \<and> n = k" if "multibyte k c r = n" "2 \<le> k" for k
    using that multibyte_cases [of k c r] multibyte_append [of k c r t] assms(2) by auto
  consider "of_char c < (0x80 :: nat)" | "\<not> of_char c < (0x80 :: nat)" "in_range 0xC2 0xDF c"
    | "\<not> of_char c < (0x80 :: nat)" "\<not> in_range 0xC2 0xDF c" "in_range 0xE0 0xEF c"
    | "\<not> of_char c < (0x80 :: nat)" "\<not> in_range 0xC2 0xDF c" "\<not> in_range 0xE0 0xEF c" "in_range 0xF0 0xF4 c"
    using assms by (auto simp: Cons split: if_splits)
  then show ?thesis
  proof cases
    case 1
    then show ?thesis using m unfolding e using assms 1 Cons by simp
  next
    case 2
    then have "multibyte 2 c r = n" using assms(1) by (simp add: Cons)
    from k [OF this] 2 show ?thesis unfolding e by auto
  next
    case 3
    then have "multibyte 3 c r = n" using assms(1) by (simp add: Cons)
    from k [OF this] 3 show ?thesis unfolding e by auto
  next
    case 4
    then have "multibyte 4 c r = n" using assms(1) by (simp add: Cons)
    from k [OF this] 4 show ?thesis unfolding e by auto
  qed
qed (use assms in simp)

fun valid_utf8 :: "string \<Rightarrow> bool" where
  "valid_utf8 [] = True"
| "valid_utf8 (c # s) = (rune_len (c # s) \<noteq> 0 \<and> valid_utf8 (drop (rune_len (c # s) - 1) s))"

declare valid_utf8.simps(2) [simp del]

lemma valid_utf8_ascii [simp]:
  "of_char c < (0x80 :: nat) \<Longrightarrow> valid_utf8 (c # s) = valid_utf8 s"
  by (subst valid_utf8.simps) simp

text \<open>utf8.AppendRune, for the code points a \<^verbatim>\<open>\u\<close> escape denotes.\<close>

definition utf8_encode :: "nat \<Rightarrow> string" where
  "utf8_encode r =
     (if r < 0x80 then [char_of r]
      else if r < 0x800 then [char_of (0xC0 + r div 64), char_of (0x80 + r mod 64)]
      else if r < 0x10000 then [char_of (0xE0 + r div 4096), char_of (0x80 + r div 64 mod 64), char_of (0x80 + r mod 64)]
      else [char_of (0xF0 + r div 262144), char_of (0x80 + r div 4096 mod 64), char_of (0x80 + r div 64 mod 64),
            char_of (0x80 + r mod 64)])"

definition rune_error :: string where
  "rune_error = [CHR 0xEF, CHR 0xBF, CHR 0xBD]"

section \<open>Strings\<close>

definition hex_lower :: "nat \<Rightarrow> char" where
  "hex_lower n = (if n < 10 then char_of (48 + n) else char_of (87 + n))"

definition hex_val :: "char \<Rightarrow> nat option" where
  "hex_val c =
     (if in_range 48 57 c then Some (of_char c - 48)
      else if in_range 97 102 c then Some (of_char c - 87)
      else if in_range 65 70 c then Some (of_char c - 55) else None)"

definition dquote :: char where "dquote = CHR 0x22"
definition bslash :: char where "bslash = CHR 0x5C"

text \<open>One ASCII byte of a string, with the HTML escaping that Marshal applies.\<close>

definition escape_ascii :: "char \<Rightarrow> string" where
  "escape_ascii c =
     (let b = of_char c :: nat in
      if c = dquote \<or> c = bslash then [bslash, c]
      else if b = 8 then [bslash, CHR ''b'']
      else if b = 12 then [bslash, CHR ''f'']
      else if b = 10 then [bslash, CHR ''n'']
      else if b = 13 then [bslash, CHR ''r'']
      else if b = 9 then [bslash, CHR ''t'']
      else if b < 32 \<or> c = CHR ''<'' \<or> c = CHR ''>'' \<or> c = CHR ''&''
      then [bslash, CHR ''u'', CHR ''0'', CHR ''0'', hex_lower (b div 16), hex_lower (b mod 16)]
      else [c])"

text \<open>An invalid byte becomes the replacement escape; U+2028 and U+2029 are escaped too.\<close>

function escape :: "string \<Rightarrow> string" where
  "escape [] = []"
| "escape (c # s) =
     (if of_char c < (0x80 :: nat) then escape_ascii c @ escape s
      else (let n = rune_len (c # s) in
        if n = 0 then bslash # ''ufffd'' @ escape s
        else if take n (c # s) = [CHR 0xE2, CHR 0x80, CHR 0xA8] then bslash # ''u2028'' @ escape (drop (n - 1) s)
        else if take n (c # s) = [CHR 0xE2, CHR 0x80, CHR 0xA9] then bslash # ''u2029'' @ escape (drop (n - 1) s)
        else take n (c # s) @ escape (drop (n - 1) s)))"
  by pat_completeness auto
termination by (relation "measure length") auto

definition quote_string :: "string \<Rightarrow> string" where
  "quote_string s = dquote # escape s @ [dquote]"

fun hex4 :: "string \<Rightarrow> nat option" where
  "hex4 (a # b # c # d # s) =
     (case (hex_val a, hex_val b, hex_val c, hex_val d) of
        (Some w, Some x, Some y, Some z) \<Rightarrow> Some (4096 * w + 256 * x + 16 * y + z)
      | _ \<Rightarrow> None)"
| "hex4 _ = None"

definition simple_escape :: "char \<Rightarrow> char option" where
  "simple_escape c =
     (if c = dquote \<or> c = bslash \<or> c = CHR ''/'' then Some c
      else if c = CHR ''b'' then Some (char_of (8 :: nat))
      else if c = CHR ''f'' then Some (char_of (12 :: nat))
      else if c = CHR ''n'' then Some (char_of (10 :: nat))
      else if c = CHR ''r'' then Some (char_of (13 :: nat))
      else if c = CHR ''t'' then Some (char_of (9 :: nat)) else None)"

text \<open>The second half of a surrogate pair, read at the start of \<open>s\<close>.\<close>

definition low_surrogate :: "nat \<Rightarrow> string \<Rightarrow> nat option" where
  "low_surrogate u s =
     (case s of
        b # c # r \<Rightarrow>
          (if b = bslash \<and> c = CHR ''u''
           then (case hex4 r of
                   Some u2 \<Rightarrow> if 0xD800 \<le> u \<and> u < 0xDC00 \<and> 0xDC00 \<le> u2 \<and> u2 < 0xE000
                     then Some (0x10000 + (u - 0xD800) * 1024 + (u2 - 0xDC00)) else None
                 | None \<Rightarrow> None)
           else None)
      | _ \<Rightarrow> None)"

abbreviation prepend :: "string \<Rightarrow> (string \<times> 'b) option \<Rightarrow> (string \<times> 'b) option" where
  "prepend p r \<equiv> map_option (\<lambda>(s, rest). (p @ s, rest)) r"

text \<open>The rest of a string literal after its opening quote: its bytes and what follows it.\<close>

function unquote :: "string \<Rightarrow> (string \<times> string) option" where
  "unquote [] = None"
| "unquote (c # s) =
     (if c = dquote then Some ([], s)
      else if c = bslash then
        (case s of
           [] \<Rightarrow> None
         | e # s1 \<Rightarrow>
           (case simple_escape e of
              Some b \<Rightarrow> prepend [b] (unquote s1)
            | None \<Rightarrow>
              if e \<noteq> CHR ''u'' then None
              else (case hex4 s1 of
                      None \<Rightarrow> None
                    | Some u \<Rightarrow>
                      if 0xD800 \<le> u \<and> u < 0xE000
                      then (case low_surrogate u (drop 4 s1) of
                              Some r \<Rightarrow> prepend (utf8_encode r) (unquote (drop 10 s1))
                            | None \<Rightarrow> prepend rune_error (unquote (drop 4 s1)))
                      else prepend (utf8_encode u) (unquote (drop 4 s1)))))
      else if of_char c < (32 :: nat) then None
      else if of_char c < (0x80 :: nat) then prepend [c] (unquote s)
      else (let n = rune_len (c # s) in
        if n = 0 then prepend rune_error (unquote s)
        else prepend (take n (c # s)) (unquote (drop (n - 1) s))))"
  by pat_completeness auto
termination by (relation "measure length") auto

declare unquote.simps(2) [simp del] escape.simps(2) [simp del]

lemma char_eq_iff_nat: "c = d \<longleftrightarrow> (of_char c :: nat) = of_char d"
  by simp

lemma hex_val_lower: "n < 16 \<Longrightarrow> hex_val (hex_lower n) = Some n"
  by (auto simp: hex_val_def hex_lower_def in_range_def)

lemma hex4_ascii:
  "b < 0x80 \<Longrightarrow> hex4 (CHR ''0'' # CHR ''0'' # hex_lower (b div 16) # hex_lower (b mod 16) # s) = Some b"
  by (simp add: hex_val_lower) (simp add: hex_val_def in_range_def)

lemma unquote_ascii:
  assumes "of_char c < (0x80 :: nat)"
  shows "unquote (escape_ascii c @ s) = prepend [c] (unquote s)"
proof -
  let ?b = "of_char c :: nat"
  consider "c = dquote \<or> c = bslash" | "?b \<in> {8, 12, 10, 13, 9}"
    | "c \<noteq> dquote" "c \<noteq> bslash" "?b \<notin> {8, 12, 10, 13, 9}" "?b < 32 \<or> c = CHR ''<'' \<or> c = CHR ''>'' \<or> c = CHR ''&''"
    | "c \<noteq> dquote" "c \<noteq> bslash" "?b \<ge> 32" "c \<noteq> CHR ''<''" "c \<noteq> CHR ''>''" "c \<noteq> CHR ''&''"
    by fastforce
  then show ?thesis
  proof cases
    case 1
    then show ?thesis
      by (auto simp: escape_ascii_def unquote.simps(2) simple_escape_def dquote_def bslash_def)
  next
    case 2
    then have "c \<noteq> dquote" "c \<noteq> bslash" by (auto simp: dquote_def bslash_def)
    moreover have "char_of ?b = c" by simp
    ultimately show ?thesis
      using 2
      by (auto simp: escape_ascii_def unquote.simps(2) simple_escape_def dquote_def bslash_def simp del: char_of_char)
  next
    case 3
    then have e: "escape_ascii c = [bslash, CHR ''u'', CHR ''0'', CHR ''0'', hex_lower (?b div 16), hex_lower (?b mod 16)]"
      unfolding escape_ascii_def Let_def by auto
    let ?h = "CHR ''0'' # CHR ''0'' # hex_lower (?b div 16) # hex_lower (?b mod 16) # s"
    have u: "simple_escape (CHR ''u'') = None" "bslash \<noteq> dquote" "utf8_encode ?b = [c]" "\<not> 0xD800 \<le> ?b"
      using assms by (simp_all add: simple_escape_def dquote_def bslash_def utf8_encode_def)
    have "unquote (bslash # CHR ''u'' # ?h) = prepend [c] (unquote (drop 4 ?h))"
      by (subst unquote.simps(2)) (simp only: u hex4_ascii [OF assms] list.case option.case if_False if_True simp_thms)
    then show ?thesis by (simp add: e)
  next
    case 4
    then show ?thesis using assms
      by (auto simp: escape_ascii_def unquote.simps(2) simple_escape_def dquote_def bslash_def)
  qed
qed

lemma unquote_multibyte:
  assumes "\<not> of_char c < (0x80 :: nat)" and "rune_len (c # s) = n" and "0 < n"
  shows "unquote (take n (c # s) @ t) = prepend (take n (c # s)) (unquote t)"
proof -
  obtain m where m: "n = Suc m" using assms(3) by (cases n) auto
  have len: "length (take m s) = m" using rune_len_length [of "c # s"] assms(2) m by simp
  have "rune_len (take n (c # s) @ t) = n" using rune_len_append assms by simp
  then have "rune_len (c # (take m s @ t)) = Suc m" by (simp add: m)
  moreover have "c \<noteq> dquote" "c \<noteq> bslash" "\<not> of_char c < (32 :: nat)"
    using assms(1) by (auto simp: dquote_def bslash_def)
  ultimately show ?thesis
    using assms(1) len by (simp add: m unquote.simps(2) del: rune_len.simps)
qed

lemma utf8_encode_separators:
  "utf8_encode 0x2028 = [CHR 0xE2, CHR 0x80, CHR 0xA8]" "utf8_encode 0x2029 = [CHR 0xE2, CHR 0x80, CHR 0xA9]"
  by (simp_all add: utf8_encode_def char_of_eq_iff)

lemma unquote_u_escape:
  assumes "hex4 h = Some u" and "length h = 4" and "\<not> (0xD800 \<le> u \<and> u < 0xE000)"
  shows "unquote (bslash # CHR ''u'' # h @ t) = prepend (utf8_encode u) (unquote t)"
proof -
  have h: "hex4 (h @ t) = Some u"
    using assms(1,2) by (cases h rule: hex4.cases) simp_all
  have u: "simple_escape (CHR ''u'') = None" "bslash \<noteq> dquote" "drop 4 (h @ t) = t"
    using assms(2) by (simp_all add: simple_escape_def dquote_def bslash_def)
  show ?thesis
    by (subst unquote.simps(2)) (simp only: u h assms(3) list.case option.case if_False if_True simp_thms)
qed

lemma unquote_line_separator:
  "unquote (bslash # ''u2028'' @ t) = prepend [CHR 0xE2, CHR 0x80, CHR 0xA8] (unquote t)"
  "unquote (bslash # ''u2029'' @ t) = prepend [CHR 0xE2, CHR 0x80, CHR 0xA9] (unquote t)"
  using unquote_u_escape [of "''2028''" "0x2028" t] unquote_u_escape [of "''2029''" "0x2029" t]
  by (simp_all add: utf8_encode_separators hex_val_def in_range_def)

lemma escape_rune:
  assumes "\<not> of_char c < (0x80 :: nat)" and "rune_len (c # s) = n" and "0 < n"
  obtains q where "escape (c # s) = q @ escape (drop (n - 1) s)"
    and "\<And>t. unquote (q @ t) = prepend (take n (c # s)) (unquote t)"
proof -
  consider "take n (c # s) = [CHR 0xE2, CHR 0x80, CHR 0xA8]" | "take n (c # s) = [CHR 0xE2, CHR 0x80, CHR 0xA9]"
    | "take n (c # s) \<noteq> [CHR 0xE2, CHR 0x80, CHR 0xA8]" "take n (c # s) \<noteq> [CHR 0xE2, CHR 0x80, CHR 0xA9]"
    by blast
  then show thesis
  proof cases
    case 1
    show thesis
    proof (rule that)
      show "escape (c # s) = (bslash # ''u2028'') @ escape (drop (n - 1) s)"
        using assms 1 by (simp add: escape.simps(2) del: rune_len.simps take_Cons')
      show "unquote ((bslash # ''u2028'') @ t) = prepend (take n (c # s)) (unquote t)" for t
        using unquote_line_separator(1) [of t] by (simp add: 1)
    qed
  next
    case 2
    show thesis
    proof (rule that)
      show "escape (c # s) = (bslash # ''u2029'') @ escape (drop (n - 1) s)"
        using assms 2 by (simp add: escape.simps(2) del: rune_len.simps take_Cons')
      show "unquote ((bslash # ''u2029'') @ t) = prepend (take n (c # s)) (unquote t)" for t
        using unquote_line_separator(2) [of t] by (simp add: 2)
    qed
  next
    case 3
    show thesis
    proof (rule that)
      show "escape (c # s) = take n (c # s) @ escape (drop (n - 1) s)"
        using assms 3 by (simp add: escape.simps(2) Let_def del: rune_len.simps take_Cons')
      show "unquote (take n (c # s) @ t) = prepend (take n (c # s)) (unquote t)" for t
        by (rule unquote_multibyte [OF assms])
    qed
  qed
qed

text \<open>Every byte string that is valid UTF-8 survives the escaping.\<close>

theorem unquote_escape:
  assumes "valid_utf8 s"
  shows "unquote (escape s @ dquote # rest) = Some (s, rest)"
  using assms
proof (induction s rule: valid_utf8.induct)
  case 1
  then show ?case by (simp add: unquote.simps(2))
next
  case (2 c s)
  show ?case
  proof (cases "of_char c < (0x80 :: nat)")
    case True
    then show ?thesis using 2 by (simp add: escape.simps(2) unquote_ascii)
  next
    case False
    define n where "n = rune_len (c # s)"
    have n: "0 < n" and IH: "unquote (escape (drop (n - 1) s) @ dquote # rest) = Some (drop (n - 1) s, rest)"
      using 2 by (auto simp: n_def valid_utf8.simps(2) simp del: rune_len.simps)
    obtain q where "escape (c # s) = q @ escape (drop (n - 1) s)"
      and q: "\<And>t. unquote (q @ t) = prepend (take n (c # s)) (unquote t)"
      using escape_rune [OF False n_def [symmetric] n] by blast
    then have "unquote (escape (c # s) @ dquote # rest) = prepend (take n (c # s)) (Some (drop (n - 1) s, rest))"
      using q [of "escape (drop (n - 1) s) @ dquote # rest"] IH by simp
    moreover have "take n (c # s) @ drop (n - 1) s = c # s" using n by (cases n) auto
    ultimately show ?thesis by simp
  qed
qed

section \<open>Numbers\<close>

fun nat_text :: "nat \<Rightarrow> string" where
  "nat_text n = (if n < 10 then [char_of (48 + n)] else nat_text (n div 10) @ [char_of (48 + n mod 10)])"

declare nat_text.simps [simp del]

definition int_text :: "int \<Rightarrow> string" where
  "int_text i = (if i < 0 then CHR ''-'' # nat_text (nat (- i)) else nat_text (nat i))"

definition is_digit :: "char \<Rightarrow> bool" where
  "is_digit c = in_range 48 57 c"

definition digits_val :: "string \<Rightarrow> int" where
  "digits_val s = foldl (\<lambda>a c. 10 * a + (of_char c - 48)) 0 s"

text \<open>strconv.ParseInt with base 10 and 64 bits, on a number literal.\<close>

definition parse_int64 :: "string \<Rightarrow> int option" where
  "parse_int64 s =
     (let (neg, ds) = (case s of c # r \<Rightarrow> if c = CHR ''-'' then (True, r) else (False, s) | [] \<Rightarrow> (False, s));
          i = (if neg then - digits_val ds else digits_val ds)
      in if ds \<noteq> [] \<and> list_all is_digit ds \<and> - (2 ^ 63) \<le> i \<and> i < 2 ^ 63 then Some i else None)"

definition scan_digits :: "string \<Rightarrow> (string \<times> string) option" where
  "scan_digits s = (if takeWhile is_digit s = [] then None else Some (takeWhile is_digit s, dropWhile is_digit s))"

definition scan_int :: "string \<Rightarrow> (string \<times> string) option" where
  "scan_int s =
     (case s of
        [] \<Rightarrow> None
      | c # r \<Rightarrow> if c = CHR ''0'' then Some ([c], r) else scan_digits s)"

definition scan_frac :: "string \<Rightarrow> (string \<times> string) option" where
  "scan_frac s =
     (case s of
        [] \<Rightarrow> Some ([], s)
      | c # r \<Rightarrow> if c = CHR ''.'' then prepend [c] (scan_digits r) else Some ([], s))"

definition scan_exp :: "string \<Rightarrow> (string \<times> string) option" where
  "scan_exp s =
     (case s of
        [] \<Rightarrow> Some ([], s)
      | c # r \<Rightarrow>
          if c = CHR ''e'' \<or> c = CHR ''E''
          then (case r of
                  [] \<Rightarrow> None
                | d # r' \<Rightarrow> if d = CHR ''+'' \<or> d = CHR ''-'' then prepend [c, d] (scan_digits r')
                             else prepend [c] (scan_digits r))
          else Some ([], s))"

text \<open>A number literal and what follows it.\<close>

definition scan_number :: "string \<Rightarrow> (string \<times> string) option" where
  "scan_number s =
     (let (sign, s1) = (case s of c # r \<Rightarrow> if c = CHR ''-'' then ([c], r) else ([], s) | [] \<Rightarrow> ([], s))
      in case scan_int s1 of
           None \<Rightarrow> None
         | Some (i, s2) \<Rightarrow>
           (case scan_frac s2 of
              None \<Rightarrow> None
            | Some (f, s3) \<Rightarrow>
              (case scan_exp s3 of
                 None \<Rightarrow> None
               | Some (e, s4) \<Rightarrow> Some (sign @ i @ f @ e, s4))))"

lemma nat_text_induct [case_names digit more]:
  assumes "\<And>n :: nat. n < 10 \<Longrightarrow> P n" and "\<And>n :: nat. \<not> n < 10 \<Longrightarrow> P (n div 10) \<Longrightarrow> P n"
  shows "P n"
proof (induction n rule: less_induct)
  case (less n)
  show ?case by (cases "n < 10") (use assms less in auto)
qed

lemma nat_text_lt: "n < 10 \<Longrightarrow> nat_text n = [char_of (48 + n)]"
  by (subst nat_text.simps) (rule if_P)

lemma nat_text_ge: "\<not> n < 10 \<Longrightarrow> nat_text n = nat_text (n div 10) @ [char_of (48 + n mod 10)]"
  by (subst nat_text.simps) (rule if_not_P)

lemma of_char_digit: "(n :: nat) < 10 \<Longrightarrow> of_char (char_of (48 + n) :: char) = 48 + n"
  by (simp add: take_bit_eq_mod)

lemma of_char_digit_int: "(n :: nat) < 10 \<Longrightarrow> (of_char (char_of (48 + n) :: char) :: int) = 48 + int n"
  using of_char_digit [of n] by (metis of_nat_add of_nat_numeral of_nat_of_char)

lemma is_digit_char: "(n :: nat) < 10 \<Longrightarrow> is_digit (char_of (48 + n))"
  unfolding is_digit_def in_range_def of_char_digit by linarith

lemma nat_text_digits: "list_all is_digit (nat_text n)"
proof (induction n rule: nat_text_induct)
  case (digit n)
  then show ?case unfolding nat_text_lt [OF digit] using is_digit_char [OF digit] by simp
next
  case (more n)
  have "n mod 10 < 10" by simp
  from is_digit_char [OF this] more.IH show ?case unfolding nat_text_ge [OF more.hyps]
    by (simp only: list_all_append list.pred_inject simp_thms)
qed

lemma nat_text_not_Nil [simp]: "nat_text n \<noteq> []"
  by (subst nat_text.simps) simp

lemma digits_val_snoc: "digits_val (s @ [c]) = 10 * digits_val s + (of_char c - 48)"
  unfolding digits_val_def foldl_append foldl_Cons foldl_Nil ..

lemma digits_val_nat_text: "digits_val (nat_text n) = int n"
proof (induction n rule: nat_text_induct)
  case (digit n)
  show ?case unfolding nat_text_lt [OF digit] digits_val_def foldl_Cons foldl_Nil of_char_digit_int [OF digit] by simp
next
  case (more n)
  have "n mod 10 < 10" by simp
  note d = of_char_digit_int [OF this]
  have "int n = 10 * int (n div 10) + int (n mod 10)" by presburger
  then show ?case unfolding nat_text_ge [OF more.hyps] digits_val_snoc d more.IH by linarith
qed

lemma hd_nat_text: "0 < n \<Longrightarrow> hd (nat_text n) \<noteq> CHR ''0''"
proof (induction n rule: nat_text_induct)
  case (digit n)
  have "of_char (char_of (48 + n) :: char) \<noteq> (of_char (CHR ''0'') :: nat)"
    unfolding of_char_digit [OF digit.hyps] using digit.prems by simp
  then have "(char_of (48 + n) :: char) \<noteq> CHR ''0''" by metis
  then show ?case unfolding nat_text_lt [OF digit.hyps] list.sel .
next
  case (more n)
  then have "0 < n div 10" by (simp add: div_greater_zero_iff)
  then show ?case unfolding nat_text_ge [OF more.hyps] using more.IH by (simp add: hd_append)
qed

lemma parse_int_text:
  assumes "- (2 ^ 63) \<le> i" and "i < 2 ^ 63"
  shows "parse_int64 (int_text i) = Some i"
proof (cases "i < 0")
  case True
  then show ?thesis using assms
    by (simp add: parse_int64_def int_text_def nat_text_digits digits_val_nat_text)
next
  case False
  obtain c r where c: "nat_text (nat i) = c # r" by (cases "nat_text (nat i)") auto
  then have "is_digit c" using nat_text_digits [of "nat i"] by simp
  then have "c \<noteq> CHR ''-''" by (auto simp: is_digit_def in_range_def)
  then show ?thesis using False assms nat_text_digits [of "nat i"] digits_val_nat_text [of "nat i"]
    by (simp add: parse_int64_def int_text_def c)
qed

text \<open>The first byte after a number that ends it.\<close>

definition number_end :: "string \<Rightarrow> bool" where
  "number_end s = (case s of [] \<Rightarrow> True
     | c # _ \<Rightarrow> \<not> is_digit c \<and> c \<noteq> CHR ''.'' \<and> c \<noteq> CHR ''e'' \<and> c \<noteq> CHR ''E'')"

lemma scan_int_nat_text:
  assumes "number_end rest"
  shows "scan_int (nat_text n @ rest) = Some (nat_text n, rest)"
proof -
  obtain c r where c: "nat_text n = c # r" by (cases "nat_text n") auto
  have d: "list_all is_digit (nat_text n)" by (rule nat_text_digits)
  have "takeWhile is_digit (nat_text n @ rest) = nat_text n \<and> dropWhile is_digit (nat_text n @ rest) = rest"
    using d assms by (cases rest) (simp_all add: list_all_iff number_end_def)
  then have sd: "scan_digits (nat_text n @ rest) = Some (nat_text n, rest)" by (simp add: scan_digits_def)
  show ?thesis
  proof (cases "n = 0")
    case True
    then show ?thesis by (simp add: nat_text.simps scan_int_def char_of_eq_iff)
  next
    case False
    then show ?thesis using sd hd_nat_text [of n] by (simp add: scan_int_def c)
  qed
qed

lemma scan_number_int_text:
  assumes "number_end rest"
  shows "scan_number (int_text i @ rest) = Some (int_text i, rest)"
proof -
  have e: "scan_frac rest = Some ([], rest)" "scan_exp rest = Some ([], rest)"
    using assms by (cases rest; simp add: scan_frac_def scan_exp_def number_end_def)+
  have *: "scan_int (nat_text n @ rest) = Some (nat_text n, rest)" for n
    by (rule scan_int_nat_text [OF assms])
  obtain c r where c: "nat_text (nat i) = c # r" by (cases "nat_text (nat i)") auto
  then have "is_digit c" using nat_text_digits [of "nat i"] by simp
  then have "c \<noteq> CHR ''-''" by (auto simp: is_digit_def in_range_def)
  then show ?thesis using e * [of "nat (- i)"] * [of "nat i"]
    by (simp add: scan_number_def int_text_def c)
qed

section \<open>Values\<close>

datatype json =
    JNull
  | JBool bool
  | JNum string
  | JStr string
  | JArr "json list"
  | JObj "(string \<times> json) list"

text \<open>
  The layout of the text: what follows an opening bracket or a comma at a depth, and what
  separates a member's name from its value.
\<close>

record layout =
  ly_Newline :: "nat \<Rightarrow> string"
  ly_Colon :: string

definition compact :: layout where
  "compact = \<lparr>ly_Newline = (\<lambda>d. []), ly_Colon = '':''\<rparr>"

definition indented :: layout where
  "indented = \<lparr>ly_Newline = (\<lambda>d. CHR 0x0A # replicate (2 * d) (CHR '' '')), ly_Colon = '': ''\<rparr>"

fun render :: "layout \<Rightarrow> nat \<Rightarrow> json \<Rightarrow> string"
  and render_elems :: "layout \<Rightarrow> nat \<Rightarrow> json list \<Rightarrow> string"
  and render_members :: "layout \<Rightarrow> nat \<Rightarrow> (string \<times> json) list \<Rightarrow> string" where
  "render L d JNull = ''null''"
| "render L d (JBool b) = (if b then ''true'' else ''false'')"
| "render L d (JNum n) = n"
| "render L d (JStr s) = quote_string s"
| "render L d (JArr vs) =
     (if vs = [] then ''[]'' else ''['' @ render_elems L (Suc d) vs @ ly_Newline L d @ '']'')"
| "render L d (JObj ms) =
     (if ms = [] then ''{}'' else ''{'' @ render_members L (Suc d) ms @ ly_Newline L d @ ''}'')"
| "render_elems L d [] = []"
| "render_elems L d (v # vs) =
     ly_Newline L d @ render L d v @ (if vs = [] then [] else '','' @ render_elems L d vs)"
| "render_members L d [] = []"
| "render_members L d (m # ms) =
     ly_Newline L d @ quote_string (fst m) @ ly_Colon L @ render L d (snd m) @
       (if ms = [] then [] else '','' @ render_members L d ms)"

definition Marshal :: "json \<Rightarrow> string" where
  "Marshal v = render compact 0 v"

definition MarshalIndent :: "json \<Rightarrow> string" where
  "MarshalIndent v = render indented 0 v"

definition json_space :: "char \<Rightarrow> bool" where
  "json_space c \<longleftrightarrow> c = CHR '' '' \<or> c = CHR 0x09 \<or> c = CHR 0x0A \<or> c = CHR 0x0D"

definition skip_ws :: "string \<Rightarrow> string" where
  "skip_ws s = dropWhile json_space s"

definition maxNestingDepth :: nat where
  "maxNestingDepth = 10000"

fun parse_value :: "nat \<Rightarrow> nat \<Rightarrow> string \<Rightarrow> (json \<times> string) option"
  and parse_elems :: "nat \<Rightarrow> nat \<Rightarrow> string \<Rightarrow> (json list \<times> string) option"
  and parse_members :: "nat \<Rightarrow> nat \<Rightarrow> string \<Rightarrow> ((string \<times> json) list \<times> string) option" where
  "parse_value 0 d s = None"
| "parse_value (Suc f) d s =
     (case skip_ws s of
        [] \<Rightarrow> None
      | c # r \<Rightarrow>
        if c = dquote then map_option (\<lambda>(t, rest). (JStr t, rest)) (unquote r)
        else if c = CHR ''{'' then
          (if d \<ge> maxNestingDepth then None
           else (case skip_ws r of
                   [] \<Rightarrow> None
                 | c' # r' \<Rightarrow> if c' = CHR ''}'' then Some (JObj [], r')
                     else map_option (\<lambda>(ms, rest). (JObj ms, rest)) (parse_members f (Suc d) (c' # r'))))
        else if c = CHR ''['' then
          (if d \<ge> maxNestingDepth then None
           else (case skip_ws r of
                   [] \<Rightarrow> None
                 | c' # r' \<Rightarrow> if c' = CHR '']'' then Some (JArr [], r')
                     else map_option (\<lambda>(vs, rest). (JArr vs, rest)) (parse_elems f (Suc d) (c' # r'))))
        else if has_prefix (c # r) ''true'' then Some (JBool True, drop 3 r)
        else if has_prefix (c # r) ''false'' then Some (JBool False, drop 4 r)
        else if has_prefix (c # r) ''null'' then Some (JNull, drop 3 r)
        else map_option (\<lambda>(n, rest). (JNum n, rest)) (scan_number (c # r)))"
| "parse_elems 0 d s = None"
| "parse_elems (Suc f) d s =
     (case parse_value f d s of
        None \<Rightarrow> None
      | Some (v, r) \<Rightarrow>
        (case skip_ws r of
           [] \<Rightarrow> None
         | c # r' \<Rightarrow> if c = CHR '','' then map_option (\<lambda>(vs, rest). (v # vs, rest)) (parse_elems f d r')
                      else if c = CHR '']'' then Some ([v], r') else None))"
| "parse_members 0 d s = None"
| "parse_members (Suc f) d s =
     (case skip_ws s of
        [] \<Rightarrow> None
      | q # s1 \<Rightarrow>
        if q \<noteq> dquote then None
        else (case unquote s1 of
            None \<Rightarrow> None
          | Some (k, s2) \<Rightarrow>
            (case skip_ws s2 of
               [] \<Rightarrow> None
             | c0 # s3 \<Rightarrow>
               if c0 \<noteq> CHR '':'' then None
               else (case parse_value f d s3 of
                   None \<Rightarrow> None
                 | Some (v, r) \<Rightarrow>
                   (case skip_ws r of
                      [] \<Rightarrow> None
                    | c # r' \<Rightarrow>
                      if c = CHR '','' then map_option (\<lambda>(ms, rest). ((k, v) # ms, rest)) (parse_members f d r')
                      else if c = CHR ''}'' then Some ([(k, v)], r') else None)))))"

definition Unmarshal :: "string \<Rightarrow> json option" where
  "Unmarshal s =
     (case parse_value (Suc (length s)) 0 s of
        None \<Rightarrow> None
      | Some (v, rest) \<Rightarrow> if skip_ws rest = [] then Some v else None)"

text \<open>
  The values whose text reads back: valid UTF-8, and numbers that are the text of a 64-bit
  integer.
\<close>

fun json_ok :: "json \<Rightarrow> bool" where
  "json_ok (JStr s) = valid_utf8 s"
| "json_ok (JNum n) = (case parse_int64 n of Some i \<Rightarrow> n = int_text i | None \<Rightarrow> False)"
| "json_ok (JArr vs) = list_all json_ok vs"
| "json_ok (JObj ms) = list_all (\<lambda>m. valid_utf8 (fst m) \<and> json_ok (snd m)) ms"
| "json_ok _ = True"

text \<open>At most \<open>k\<close> arrays and objects around any part of the value.\<close>

fun nests :: "nat \<Rightarrow> json \<Rightarrow> bool" where
  "nests k (JArr vs) = (0 < k \<and> list_all (nests (k - 1)) vs)"
| "nests k (JObj ms) = (0 < k \<and> list_all (\<lambda>m. nests (k - 1) (snd m)) ms)"
| "nests k _ = True"

section \<open>Reading back what was written\<close>

lemma skip_ws_idem [simp]: "skip_ws (skip_ws s) = skip_ws s"
  by (induction s) (simp_all add: skip_ws_def)

lemma skip_ws_append: "list_all json_space w \<Longrightarrow> skip_ws (w @ s) = skip_ws s"
  by (induction w) (simp_all add: skip_ws_def)

lemma skip_ws_Cons: "\<not> json_space c \<Longrightarrow> skip_ws (c # s) = c # s"
  by (simp add: skip_ws_def)

lemma parse_value_skip: "parse_value f d (skip_ws s) = parse_value f d s"
  by (cases f) simp_all

lemma parse_elems_skip: "parse_elems f d (skip_ws s) = parse_elems f d s"
  by (cases f) (simp_all add: parse_value_skip)

lemma parse_members_skip: "parse_members f d (skip_ws s) = parse_members f d s"
  by (cases f) simp_all

lemma parse_value_hd:
  assumes "parse_value f d s = Some x"
  obtains c r where "skip_ws s = c # r" "c \<noteq> CHR '']''"
proof (cases "skip_ws s")
  case Nil
  then show thesis using assms by (cases f) simp_all
next
  case (Cons c r)
  have "scan_number (CHR '']'' # r) = None"
    by (simp add: scan_number_def scan_int_def scan_digits_def is_digit_def in_range_def)
  then have "c \<noteq> CHR '']''" using assms Cons by (cases f) (auto simp: dquote_def has_prefix_def)
  then show thesis using Cons that by blast
qed

lemma parse_elems_hd:
  assumes "parse_elems f d s = Some x"
  obtains c r where "skip_ws s = c # r" "c \<noteq> CHR '']''"
proof (cases f)
  case (Suc g)
  then obtain y where "parse_value g d s = Some y" using assms by (auto split: option.splits)
  then show thesis by (rule parse_value_hd) (rule that)
qed (use assms in simp)

lemma parse_members_hd:
  assumes "parse_members f d s = Some x"
  obtains c r where "skip_ws s = c # r" "c \<noteq> CHR ''}''"
  using assms by (cases f; cases "skip_ws s") (auto simp: dquote_def split: if_splits)

lemma skip_ws_quote [simp]: "skip_ws (dquote # s) = dquote # s"
  by (simp add: skip_ws_Cons json_space_def dquote_def)

lemma int_text_hd:
  obtains c r where "int_text i = c # r" "c = CHR ''-'' \<or> is_digit c"
proof (cases "nat_text (nat i)")
  case (Cons c r)
  then have "is_digit c" using nat_text_digits [of "nat i"] by simp
  then show thesis using that Cons by (cases "i < 0") (simp_all add: int_text_def)
qed simp

lemma parse_value_num:
  assumes "number_end rest"
  shows "parse_value (Suc f) d (int_text i @ rest) = Some (JNum (int_text i), rest)"
proof -
  obtain c r where c: "int_text i = c # r" "c = CHR ''-'' \<or> is_digit c" by (rule int_text_hd)
  then have n: "\<not> json_space c" "c \<noteq> dquote" "c \<noteq> CHR ''{''" "c \<noteq> CHR ''[''" "c \<noteq> CHR ''t''" "c \<noteq> CHR ''f''" "c \<noteq> CHR ''n''"
    by (auto simp: json_space_def dquote_def is_digit_def in_range_def)
  then show ?thesis using scan_number_int_text [OF assms, of i]
    by (simp add: c(1) skip_ws_Cons has_prefix_def)
qed

lemma parse_value_quote:
  "valid_utf8 s \<Longrightarrow> parse_value (Suc f) d (quote_string s @ rest) = Some (JStr s, rest)"
  by (simp add: quote_string_def unquote_escape)

lemma number_end_simps [simp]:
  "number_end []" "number_end (CHR '','' # s)" "number_end (CHR '']'' # s)" "number_end (CHR ''}'' # s)"
  by (simp_all add: number_end_def is_digit_def in_range_def)

lemma number_end_space: "list_all json_space w \<Longrightarrow> number_end s \<Longrightarrow> number_end (w @ s)"
  by (cases w) (auto simp: number_end_def json_space_def is_digit_def in_range_def)

definition layout_ok :: "layout \<Rightarrow> bool" where
  "layout_ok L \<longleftrightarrow> (\<forall>d. list_all json_space (ly_Newline L d)) \<and>
     (\<exists>w. list_all json_space w \<and> ly_Colon L = CHR '':'' # w)"

lemma layout_ok_compact [simp]: "layout_ok compact"
  by (simp add: layout_ok_def compact_def)

lemma layout_ok_indented [simp]: "layout_ok indented"
  by (simp add: layout_ok_def indented_def json_space_def list_all_length nth_Cons')

lemma parse_elems_step:
  assumes "parse_value f d s = Some (v, r)"
  shows "skip_ws r = CHR '']'' # rest \<Longrightarrow> parse_elems (Suc f) d s = Some ([v], rest)"
    and "skip_ws r = CHR '','' # t \<Longrightarrow> parse_elems f d t = Some (vs, rest) \<Longrightarrow>
      parse_elems (Suc f) d s = Some (v # vs, rest)"
  using assms by simp_all

lemma parse_members_step:
  assumes "valid_utf8 k" and "skip_ws s = quote_string k @ s2" and "skip_ws s2 = CHR '':'' # s3"
    and "parse_value f d s3 = Some (v, r)"
  shows "skip_ws r = CHR ''}'' # rest \<Longrightarrow> parse_members (Suc f) d s = Some ([(k, v)], rest)"
    and "skip_ws r = CHR '','' # t \<Longrightarrow> parse_members f d t = Some (ms, rest) \<Longrightarrow>
      parse_members (Suc f) d s = Some ((k, v) # ms, rest)"
  using assms by (simp_all add: quote_string_def unquote_escape)

lemma parse_array:
  assumes "parse_elems f (Suc d) s = Some (vs, rest)" and "d < maxNestingDepth"
  shows "parse_value (Suc f) d (CHR ''['' # s) = Some (JArr vs, rest)"
proof -
  obtain c r where c: "skip_ws s = c # r" "c \<noteq> CHR '']''" using parse_elems_hd [OF assms(1)] .
  have "parse_elems f (Suc d) (c # r) = Some (vs, rest)" using assms(1) by (metis c(1) parse_elems_skip)
  then show ?thesis using c assms(2) by (simp add: skip_ws_Cons json_space_def dquote_def)
qed

lemma parse_object:
  assumes "parse_members f (Suc d) s = Some (ms, rest)" and "d < maxNestingDepth"
  shows "parse_value (Suc f) d (CHR ''{'' # s) = Some (JObj ms, rest)"
proof -
  obtain c r where c: "skip_ws s = c # r" "c \<noteq> CHR ''}''" using parse_members_hd [OF assms(1)] .
  have "parse_members f (Suc d) (c # r) = Some (ms, rest)" using assms(1) by (metis c(1) parse_members_skip)
  then show ?thesis using c assms(2) by (simp add: skip_ws_Cons json_space_def dquote_def)
qed

lemma layout_okD:
  assumes "layout_ok L"
  shows "list_all json_space (ly_Newline L d)"
    and "\<exists>w. list_all json_space w \<and> ly_Colon L = CHR '':'' # w"
  using assms by (auto simp: layout_ok_def)

lemma parse_render:
  shows "layout_ok L \<Longrightarrow> json_ok v \<Longrightarrow> nests (maxNestingDepth - d) v \<Longrightarrow> length (render L e v) < f \<Longrightarrow>
      number_end rest \<Longrightarrow> parse_value f d (render L e v @ rest) = Some (v, rest)"
    and "layout_ok L \<Longrightarrow> vs \<noteq> [] \<Longrightarrow> list_all json_ok vs \<Longrightarrow> list_all (nests (maxNestingDepth - d)) vs \<Longrightarrow>
      Suc (length (render_elems L e vs)) < f \<Longrightarrow> list_all json_space w \<Longrightarrow>
      parse_elems f d (render_elems L e vs @ w @ CHR '']'' # rest) = Some (vs, rest)"
    and "layout_ok L \<Longrightarrow> ms \<noteq> [] \<Longrightarrow> list_all (\<lambda>m. valid_utf8 (fst m) \<and> json_ok (snd m)) ms \<Longrightarrow>
      list_all (\<lambda>m. nests (maxNestingDepth - d) (snd m)) ms \<Longrightarrow>
      Suc (length (render_members L e ms)) < f \<Longrightarrow> list_all json_space w \<Longrightarrow>
      parse_members f d (render_members L e ms @ w @ CHR ''}'' # rest) = Some (ms, rest)"
proof (induction L e v and L e vs and L e ms arbitrary: f d rest and f d w rest and f d w rest
    rule: render_render_elems_render_members.induct)
  case (1 L e)
  then show ?case by (cases f) (simp_all add: skip_ws_Cons json_space_def dquote_def has_prefix_def)
next
  case (2 L e b)
  then show ?case by (cases f) (simp_all add: skip_ws_Cons json_space_def dquote_def has_prefix_def)
next
  case (3 L e n)
  then obtain i where "n = int_text i" by (auto split: option.splits)
  moreover obtain g where "f = Suc g" using 3 by (cases f) auto
  ultimately show ?case using parse_value_num [OF "3.prems"(5)] by (simp only: render.simps)
next
  case (4 L e s)
  moreover obtain g where "f = Suc g" using 4 by (cases f) auto
  ultimately show ?case using parse_value_quote [of s g d rest] by (simp only: render.simps json_ok.simps)
next
  case (5 L e vs)
  obtain g where f: "f = Suc g" using 5 by (cases f) auto
  show ?case
  proof (cases "vs = []")
    case True
    then show ?thesis using 5 by (simp add: f skip_ws_Cons json_space_def dquote_def)
  next
    case False
    have "parse_elems g (Suc d) (render_elems L (Suc e) vs @ ly_Newline L e @ CHR '']'' # rest) = Some (vs, rest)"
      using 5 False by (intro "5.IH") (auto simp: f layout_okD)
    from parse_array [OF this] show ?thesis using "5.prems"(3) False by (simp add: f)
  qed
next
  case (6 L e ms)
  obtain g where f: "f = Suc g" using 6 by (cases f) auto
  show ?case
  proof (cases "ms = []")
    case True
    then show ?thesis using 6 by (simp add: f skip_ws_Cons json_space_def dquote_def)
  next
    case False
    have "parse_members g (Suc d) (render_members L (Suc e) ms @ ly_Newline L e @ CHR ''}'' # rest) = Some (ms, rest)"
      using 6 False by (intro "6.IH") (auto simp: f layout_okD)
    from parse_object [OF this] show ?thesis using "6.prems"(3) False by (simp add: f)
  qed
next
  case (7 L e)
  then show ?case by simp
next
  case (8 L e v vs)
  obtain g where f: "f = Suc g" using 8 by (cases f) auto
  note ws = layout_okD(1) [OF "8.prems"(1), of e]
  have v: "parse_value g d (ly_Newline L e @ render L e v @ r) = Some (v, r)" if "number_end r" for r
    using 8 that parse_value_skip [of g d "ly_Newline L e @ render L e v @ r"] parse_value_skip [of g d "render L e v @ r"]
    by (simp add: f skip_ws_append [OF ws])
  show ?case
  proof (cases "vs = []")
    case True
    have "number_end (w @ CHR '']'' # rest)" using 8 by (simp add: number_end_space)
    from parse_elems_step(1) [OF v [OF this]] show ?thesis using 8 True
      by (simp add: f skip_ws_append skip_ws_Cons json_space_def)
  next
    case False
    have "parse_elems g d (render_elems L e vs @ w @ CHR '']'' # rest) = Some (vs, rest)"
      using 8 False by (intro "8.IH"(2)) (auto simp: f)
    from parse_elems_step(2) [OF v _ this] show ?thesis using False
      by (simp add: f skip_ws_Cons json_space_def)
  qed
next
  case (9 L e)
  then show ?case by simp
next
  case (10 L e m ms)
  obtain g where f: "f = Suc g" using 10 by (cases f) auto
  obtain k v where m: "m = (k, v)" by (cases m)
  note ws = layout_okD(1) [OF "10.prems"(1), of e]
  obtain u where u: "list_all json_space u" "ly_Colon L = CHR '':'' # u" using layout_okD(2) [OF "10.prems"(1)] by blast
  have v: "parse_value g d (u @ render L e v @ r) = Some (v, r)" if "number_end r" for r
    using 10 that parse_value_skip [of g d "u @ render L e v @ r"] parse_value_skip [of g d "render L e v @ r"]
    by (simp add: f m skip_ws_append [OF u(1)])
  have k: "valid_utf8 k" using 10 by (simp add: m)
  have q: "skip_ws (ly_Newline L e @ quote_string k @ t) = quote_string k @ t" for t
    by (simp add: skip_ws_append [OF ws] quote_string_def)
  have c: "skip_ws (ly_Colon L @ t) = CHR '':'' # u @ t" for t
    by (simp add: u(2) skip_ws_Cons json_space_def)
  show ?case
  proof (cases "ms = []")
    case True
    have "number_end (w @ CHR ''}'' # rest)" using 10 by (simp add: number_end_space)
    from parse_members_step(1) [OF k q c v [OF this]] show ?thesis using 10 True
      by (simp add: f m skip_ws_append skip_ws_Cons json_space_def)
  next
    case False
    have "parse_members g d (render_members L e ms @ w @ CHR ''}'' # rest) = Some (ms, rest)"
      using 10 False by (intro "10.IH"(2)) (auto simp: f)
    from parse_members_step(2) [OF k q c v _ this] show ?thesis using False
      by (simp add: f m skip_ws_Cons json_space_def)
  qed
qed

text \<open>Marshal and MarshalIndent write a text that Unmarshal reads back as the same value.\<close>

theorem Unmarshal_render:
  assumes "layout_ok L" and "json_ok v" and "nests maxNestingDepth v"
  shows "Unmarshal (render L 0 v) = Some v"
  using parse_render(1) [OF assms(1,2), of 0 0 "Suc (length (render L 0 v))" "[]"] assms(3)
  by (simp add: Unmarshal_def skip_ws_def)

section \<open>The fuel of the parser\<close>

lemma unquote_tail:
  assumes "unquote (c # s) = Some (t, r)"
  shows "r = s \<or> (\<exists>n t'. unquote (drop n s) = Some (t', r))"
proof -
  have sub: "\<exists>n t'. unquote (drop n s) = Some (t', r)"
    if "prepend p (unquote (drop n s)) = Some (t, r)" for p n
    using that by auto
  have sub0: "\<exists>n t'. unquote (drop n s) = Some (t', r)" if "prepend p (unquote s) = Some (t, r)" for p
    using sub [of p 0] that by simp
  have sub1: "\<exists>n t'. unquote (drop n s) = Some (t', r)"
    if "s = e # u" "prepend p (unquote (drop n u)) = Some (t, r)" for p n e u
    using sub [of p "Suc n"] that by simp
  have esc: "\<exists>n t'. unquote (drop n s) = Some (t', r)" if "c = bslash" "c \<noteq> dquote"
  proof (cases s)
    case (Cons e u)
    show ?thesis
    proof (cases "simple_escape e")
      case None
      then show ?thesis using assms that Cons sub1 [OF Cons]
        by (simp add: unquote.simps(2) split: if_splits option.splits del: map_option_eq_Some)
    next
      case (Some b)
      then show ?thesis using assms that Cons sub1 [OF Cons, of "[b]" 0]
        by (simp add: unquote.simps(2) split: if_splits option.splits del: map_option_eq_Some)
    qed
  qed (use assms that in \<open>simp add: unquote.simps(2)\<close>)
  show ?thesis
  proof (cases "c = bslash \<and> c \<noteq> dquote")
    case False
    then show ?thesis
      using assms sub0 [of "[c]"] sub0 [of rune_error] sub [of "take (rune_len (c # s)) (c # s)" "rune_len (c # s) - 1"]
      by (simp add: unquote.simps(2) Let_def split: if_splits del: map_option_eq_Some rune_len.simps)
  qed (use esc in blast)
qed

lemma unquote_shorter: "unquote s = Some (t, r) \<Longrightarrow> length r < length s"
proof (induction s arbitrary: t rule: length_induct)
  case (1 s)
  obtain c u where s: "s = c # u" using 1 by (cases s) auto
  with unquote_tail 1(2) consider "r = u" | n t' where "unquote (drop n u) = Some (t', r)" by blast
  then show ?case
  proof cases
    case 2
    have "length (drop n u) < length s" by (simp add: s)
    then have "length r < length (drop n u)" using 1(1) 2 by blast
    then show ?thesis by (simp add: s)
  qed (simp add: s)
qed

lemma scan_digits_shorter: "scan_digits s = Some (t, r) \<Longrightarrow> length r < length s"
  by (cases s) (auto simp: scan_digits_def length_dropWhile_le le_imp_less_Suc split: if_splits)

lemma scan_int_shorter: "scan_int s = Some (t, r) \<Longrightarrow> length r < length s"
  by (auto simp: scan_int_def dest: scan_digits_shorter split: list.splits if_splits)

lemma scan_frac_shorter: "scan_frac s = Some (t, r) \<Longrightarrow> length r \<le> length s"
  by (auto simp: scan_frac_def dest!: scan_digits_shorter split: list.splits if_splits)

lemma scan_exp_shorter: "scan_exp s = Some (t, r) \<Longrightarrow> length r \<le> length s"
  by (auto simp: scan_exp_def dest!: scan_digits_shorter split: list.splits if_splits)

lemma scan_number_shorter: "scan_number s = Some (t, r) \<Longrightarrow> length r < length s"
  by (fastforce simp: scan_number_def dest!: scan_int_shorter scan_frac_shorter scan_exp_shorter
      split: list.splits if_splits option.splits prod.splits)

lemma skip_ws_length: "length (skip_ws s) \<le> length s"
  by (simp add: skip_ws_def length_dropWhile_le)

text \<open>A successful parse consumes something, and succeeds with any fuel above what it consumes.\<close>

lemma all_above: "(\<And>g. n \<le> g \<Longrightarrow> P (Suc g)) \<Longrightarrow> \<forall>g > n. P g"
  by (auto elim!: less_natE)

lemma parse_enough_fuel:
  "(\<forall>d s v r. parse_value f d s = Some (v, r) \<longrightarrow> length r < length s \<and>
      (\<forall>g > length s - length r. parse_value g d s = Some (v, r))) \<and>
   (\<forall>d s vs r. parse_elems f d s = Some (vs, r) \<longrightarrow> length r < length s \<and>
      (\<forall>g > length s - length r. parse_elems g d s = Some (vs, r))) \<and>
   (\<forall>d s ms r. parse_members f d s = Some (ms, r) \<longrightarrow> length r < length s \<and>
      (\<forall>g > length s - length r. parse_members g d s = Some (ms, r)))"
  (is "?V f \<and> ?E f \<and> ?M f")
proof (induction f)
  case (Suc f)
  then have V: "\<And>d s v r. parse_value f d s = Some (v, r) \<Longrightarrow> length r < length s"
      "\<And>d s v r g. parse_value f d s = Some (v, r) \<Longrightarrow> length s - length r < g \<Longrightarrow> parse_value g d s = Some (v, r)"
    and E: "\<And>d s v r. parse_elems f d s = Some (v, r) \<Longrightarrow> length r < length s"
      "\<And>d s v r g. parse_elems f d s = Some (v, r) \<Longrightarrow> length s - length r < g \<Longrightarrow> parse_elems g d s = Some (v, r)"
    and M: "\<And>d s v r. parse_members f d s = Some (v, r) \<Longrightarrow> length r < length s"
      "\<And>d s v r g. parse_members f d s = Some (v, r) \<Longrightarrow> length s - length r < g \<Longrightarrow> parse_members g d s = Some (v, r)"
    by blast+
  have "length r < length s \<and> (\<forall>g > length s - length r. parse_value g d s = Some (v, r))"
    if p: "parse_value (Suc f) d s = Some (v, r)" for d s v r
  proof -
    obtain c u where c: "skip_ws s = c # u" using p by (cases "skip_ws s") simp_all
    have u: "length u < length s" using skip_ws_length [of s] c by simp
    have w: "length w < length s" if "skip_ws u = w" for w
      using u that skip_ws_length [of u] by simp
    consider "c = dquote" | "c \<noteq> dquote" "c = CHR ''{''" | "c \<noteq> dquote" "c \<noteq> CHR ''{''" "c = CHR ''[''"
      | "c \<noteq> dquote" "c \<noteq> CHR ''{''" "c \<noteq> CHR ''[''" by blast
    then show ?thesis
    proof cases
      case 1
      then obtain t where "unquote u = Some (t, r)" "v = JStr t" using p c by auto
      with 1 c u unquote_shorter [of u t r] show ?thesis by (auto intro!: all_above)
    next
      case 2
      then have d: "d < maxNestingDepth" using p c by (simp split: if_splits)
      then obtain c' u' where c': "skip_ws u = c' # u'" using p c 2 by (cases "skip_ws u") simp_all
      note l = w [OF c']
      show ?thesis
      proof (cases "c' = CHR ''}''")
        case True
        then show ?thesis using p c 2 d c' l by (auto intro!: all_above)
      next
        case False
        then obtain ms where m: "parse_members f (Suc d) (c' # u') = Some (ms, r)" "v = JObj ms"
          using p c 2 d c' by auto
        have "parse_members g (Suc d) (c' # u') = Some (ms, r)" if "length s - length r \<le> g" for g
          by (rule M(2) [OF m(1)]) (use that l M(1) [OF m(1)] in linarith)
        then show ?thesis using c 2 d c' l False M(1) [OF m(1)] m(2) by (auto intro!: all_above)
      qed
    next
      case 3
      then have d: "d < maxNestingDepth" using p c by (simp split: if_splits)
      then obtain c' u' where c': "skip_ws u = c' # u'" using p c 3 by (cases "skip_ws u") simp_all
      note l = w [OF c']
      show ?thesis
      proof (cases "c' = CHR '']''")
        case True
        then show ?thesis using p c 3 d c' l by (auto intro!: all_above)
      next
        case False
        then obtain vs where m: "parse_elems f (Suc d) (c' # u') = Some (vs, r)" "v = JArr vs"
          using p c 3 d c' by auto
        have "parse_elems g (Suc d) (c' # u') = Some (vs, r)" if "length s - length r \<le> g" for g
          by (rule E(2) [OF m(1)]) (use that l E(1) [OF m(1)] in linarith)
        then show ?thesis using c 3 d c' l False E(1) [OF m(1)] m(2) by (auto intro!: all_above)
      qed
    next
      case 4
      then have "parse_value (Suc g) d s = Some (v, r)" for g using p c by simp
      moreover have "length r < length s"
        using p c 4 u by (auto dest: scan_number_shorter split: if_splits)
      ultimately show ?thesis by (auto intro!: all_above)
    qed
  qed
  moreover have "length r < length s \<and> (\<forall>g > length s - length r. parse_elems g d s = Some (vs, r))"
    if p: "parse_elems (Suc f) d s = Some (vs, r)" for d s vs r
  proof -
    obtain v r1 where v: "parse_value f d s = Some (v, r1)" using p by (auto split: option.splits)
    obtain c r2 where c: "skip_ws r1 = c # r2" using p v by (cases "skip_ws r1") simp_all
    have l: "length r2 < length r1" "length r1 < length s"
      using skip_ws_length [of r1] c V(1) [OF v] by simp_all
    have tl: "length r \<le> length r2 \<and> (c = CHR '','' \<longrightarrow> length r < length r2)"
      using p v c by (auto split: if_splits dest!: E(1))
    have "parse_elems (Suc g) d s = Some (vs, r)" if g: "length s - length r \<le> g" for g
    proof -
      have v': "parse_value g d s = Some (v, r1)" by (rule V(2) [OF v]) (use g l tl in linarith)
      show ?thesis
      proof (cases "c = CHR '',''")
        case True
        then obtain ws where t: "parse_elems f d r2 = Some (ws, r)" "vs = v # ws" using p v c by auto
        have "parse_elems g d r2 = Some (ws, r)" by (rule E(2) [OF t(1)]) (use g l tl True in linarith)
        then show ?thesis using v' c True t(2) by simp
      next
        case False
        then show ?thesis using p v v' c by simp
      qed
    qed
    moreover have "length r < length s" using l tl by linarith
    ultimately show ?thesis
      using all_above [of "length s - length r" "\<lambda>g. parse_elems g d s = Some (vs, r)"] by blast
  qed
  moreover have "length r < length s \<and> (\<forall>g > length s - length r. parse_members g d s = Some (ms, r))"
    if p: "parse_members (Suc f) d s = Some (ms, r)" for d s ms r
  proof -
    obtain u where u: "skip_ws s = dquote # u"
      using p by (cases "skip_ws s") (simp_all split: if_splits)
    obtain k s2 where k: "unquote u = Some (k, s2)" using p u by (auto split: option.splits)
    obtain s3 where s3: "skip_ws s2 = CHR '':'' # s3"
      using p u k by (cases "skip_ws s2") (simp_all split: if_splits)
    obtain v r1 where v: "parse_value f d s3 = Some (v, r1)" using p u k s3 by (auto split: option.splits)
    obtain c r2 where c: "skip_ws r1 = c # r2" using p u k s3 v by (cases "skip_ws r1") simp_all
    have l: "length r2 < length r1" "length r1 < length s3" "length s3 < length s2" "length s2 < length u" "length u < length s"
      using skip_ws_length [of r1] skip_ws_length [of s2] skip_ws_length [of s] c u s3 V(1) [OF v] unquote_shorter [OF k]
      by simp_all
    have tl: "length r \<le> length r2 \<and> (c = CHR '','' \<longrightarrow> length r < length r2)"
      using p u k s3 v c by (auto split: if_splits dest!: M(1))
    have "parse_members (Suc g) d s = Some (ms, r)" if g: "length s - length r \<le> g" for g
    proof -
      have v': "parse_value g d s3 = Some (v, r1)" by (rule V(2) [OF v]) (use g l tl in linarith)
      show ?thesis
      proof (cases "c = CHR '',''")
        case True
        then obtain ws where t: "parse_members f d r2 = Some (ws, r)" "ms = (k, v) # ws"
          using p u k s3 v c by auto
        have "parse_members g d r2 = Some (ws, r)" by (rule M(2) [OF t(1)]) (use g l tl True in linarith)
        then show ?thesis using u k s3 v' c True t(2) by simp
      next
        case False
        then show ?thesis using p u k s3 v v' c by simp
      qed
    qed
    moreover have "length r < length s" using l tl by linarith
    ultimately show ?thesis
      using all_above [of "length s - length r" "\<lambda>g. parse_members g d s = Some (ms, r)"] by blast
  qed
  ultimately show ?case by blast
qed simp

lemma parse_value_fuel:
  assumes "parse_value f d s = Some (v, r)"
  shows "parse_value (Suc (length s)) d s = Some (v, r)"
  using parse_enough_fuel [of f] assms by (metis diff_le_self le_imp_less_Suc)

section \<open>Decoding into a struct\<close>

text \<open>
  A member's name is matched to a field exactly, or else up to the case folding of the
  decoder, which also folds the Kelvin sign and the long s onto ASCII letters.
\<close>

fun fold_name :: "string \<Rightarrow> string" where
  "fold_name [] = []"
| "fold_name (c # s) =
     (if take 3 (c # s) = [CHR 0xE2, CHR 0x84, CHR 0xAA] then CHR ''K'' # fold_name (drop 2 s)
      else if take 2 (c # s) = [CHR 0xC5, CHR 0xBF] then CHR ''S'' # fold_name (drop 1 s)
      else (if in_range 97 122 c then char_of (of_char c - 32 :: nat) else c) # fold_name s)"

definition field_for :: "string list \<Rightarrow> string \<Rightarrow> string option" where
  "field_for names k =
     (if k \<in> set names then Some k else find (\<lambda>n. fold_name n = fold_name k) names)"

text \<open>null leaves a string or number field as it is; a value of another kind is an error.\<close>

definition decode_string :: "json \<Rightarrow> string \<Rightarrow> string option" where
  "decode_string j old = (case j of JStr s \<Rightarrow> Some s | JNull \<Rightarrow> Some old | _ \<Rightarrow> None)"

definition decode_int64 :: "json \<Rightarrow> int \<Rightarrow> int option" where
  "decode_int64 j old = (case j of JNum n \<Rightarrow> parse_int64 n | JNull \<Rightarrow> Some old | _ \<Rightarrow> None)"

text \<open>The members in order, each decoded into the field it names; the others are skipped.\<close>

fun decode_members ::
  "string list \<Rightarrow> (string \<Rightarrow> json \<Rightarrow> 'a \<Rightarrow> 'a option) \<Rightarrow> (string \<times> json) list \<Rightarrow> 'a \<Rightarrow> 'a option" where
  "decode_members names set_field [] x = Some x"
| "decode_members names set_field (m # ms) x =
     (case (case field_for names (fst m) of None \<Rightarrow> Some x | Some n \<Rightarrow> set_field n (snd m) x) of
        None \<Rightarrow> None
      | Some y \<Rightarrow> decode_members names set_field ms y)"

text \<open>null leaves the struct as it is.\<close>

definition decode_struct ::
  "string list \<Rightarrow> (string \<Rightarrow> json \<Rightarrow> 'a \<Rightarrow> 'a option) \<Rightarrow> json \<Rightarrow> 'a \<Rightarrow> 'a option" where
  "decode_struct names set_field j x =
     (case j of JObj ms \<Rightarrow> decode_members names set_field ms x | JNull \<Rightarrow> Some x | _ \<Rightarrow> None)"

lemma field_for_known [simp]: "n \<in> set names \<Longrightarrow> field_for names n = Some n"
  by (simp add: field_for_def)

lemma decode_basic [simp]:
  "decode_string (JStr s) old = Some s" "decode_string JNull old = Some old"
  "decode_int64 (JNum n) i = parse_int64 n"
  by (simp_all add: decode_string_def decode_int64_def)

text \<open>An optional member, as \<^verbatim>\<open>omitempty\<close> writes it.\<close>

definition omit_empty :: "string \<Rightarrow> string \<Rightarrow> (string \<times> json) list" where
  "omit_empty k s = (if s = [] then [] else [(k, JStr s)])"

lemma decode_omit_empty:
  assumes "k \<in> set names" and "\<And>y. set_field k (JStr s) y = Some (upd y)" and "s = [] \<Longrightarrow> upd x = x"
  shows "decode_members names set_field (omit_empty k s @ ms) x = decode_members names set_field ms (upd x)"
  using assms by (simp add: omit_empty_def)

lemma omit_empty_ok [simp]:
  "list_all (\<lambda>m. valid_utf8 (fst m) \<and> json_ok (snd m)) (omit_empty k s) \<longleftrightarrow> s = [] \<or> valid_utf8 k \<and> valid_utf8 s"
  "list_all (\<lambda>m. nests n (snd m)) (omit_empty k s)"
  by (simp_all add: omit_empty_def)

end
