(* ===== verification/Http.thy ===== *)
theory Http
  imports Json
begin

text \<open>
  What a caller of net/http sees of one GET: the request may not be built (an unusable URL),
  the round trip may fail, or a response arrives whose body may break off. A client is a
  parameter of the operations; nothing is assumed of it.
\<close>

text \<open>\<open>hr_ReadError\<close> is the error reported after the bytes of \<open>hr_Body\<close>, \<open>None\<close> at a clean end.\<close>

record http_response =
  hr_Status :: int
  hr_Body :: bytes
  hr_ReadError :: "string option"

record http_client =
  hc_NewRequest :: "string \<Rightarrow> string option"
  hc_Do :: "string \<Rightarrow> string + http_response"

definition ok_status :: "int \<Rightarrow> bool" where
  "ok_status code \<longleftrightarrow> \<not> (code < 200 \<or> code \<ge> 300)"

text \<open>io.ReadAll of an io.LimitReader: at the limit the reader ends without looking further.\<close>

definition read_limited :: "nat \<Rightarrow> http_response \<Rightarrow> string + bytes" where
  "read_limited limit r =
     (if length (hr_Body r) < limit
      then (case hr_ReadError r of Some err \<Rightarrow> Inl err | None \<Rightarrow> Inr (hr_Body r))
      else Inr (take limit (hr_Body r)))"

lemma read_limited_bound: "read_limited limit r = Inr b \<Longrightarrow> length b \<le> limit"
  by (auto simp: read_limited_def split: if_splits option.splits)

section \<open>Addresses\<close>

text \<open>net.SplitHostPort; the errors are not told apart.\<close>

definition last_byte :: "string \<Rightarrow> char \<Rightarrow> nat option" where
  "last_byte s c = map_option (\<lambda>i. length s - Suc i) (index_byte (rev s) c)"

definition SplitHostPort :: "string \<Rightarrow> (string \<times> string) option" where
  "SplitHostPort hp =
     (case last_byte hp (CHR '':'') of
        None \<Rightarrow> None
      | Some i \<Rightarrow>
        (let bracket = (hp \<noteq> [] \<and> hd hp = CHR ''['');
             close = index_byte hp (CHR '']'');
             host = (if bracket then (case close of None \<Rightarrow> None
                       | Some e \<Rightarrow> if Suc e = i then Some (take (e - 1) (drop 1 hp), 1, Suc e) else None)
                     else if CHR '':'' \<in> set (take i hp) then None else Some (take i hp, 0, 0))
         in case host of
              None \<Rightarrow> None
            | Some (h, j, k) \<Rightarrow>
              (if CHR ''['' \<in> set (drop j hp) \<or> CHR '']'' \<in> set (drop k hp) then None
               else Some (h, drop (Suc i) hp))))"

end
