(* ===== verification/Middleware.thy ===== *)
theory Middleware
  imports Policy Http
begin

text \<open>
  The two middlewares that say who a request comes from
  (src/internal/server/bearer_middleware.go, auth_middleware.go): a bearer token looked up in the
  registry, then the headers of a trusted reverse proxy.

  net.ParseIP, net.ParseCIDR and the test whether a network contains an address are parameters.
  A header is the value Header.Get gives, the empty string when there is none.
\<close>

section \<open>Bearer tokens\<close>

record caller =
  cl_RemoteAddr :: string
  cl_Authorization :: string
  cl_ForwardedUser :: string
  cl_ForwardedEmail :: string
  cl_ForwardedGroups :: string

definition is_blank :: "char \<Rightarrow> bool" where
  "is_blank c \<longleftrightarrow> c = CHR '' '' \<or> c = CHR 0x09"

definition extractBearerToken :: "string \<Rightarrow> string" where
  "extractBearerToken header =
     (let scheme = ''bearer''
      in if header = [] then []
      else if length header \<le> length scheme then []
      else if to_lower (take (length scheme) header) \<noteq> scheme then []
      else (let rest = drop (length scheme) header
        in if rest = [] \<or> \<not> is_blank (hd rest) then [] else dropWhile is_blank rest))"

text \<open>The identity of the request context, before and after.\<close>

definition bearerAuth ::
  "(string \<Rightarrow> string) \<Rightarrow> identity_registry option \<Rightarrow> caller \<Rightarrow> identity option \<Rightarrow> identity option" where
  "bearerAuth sha256_hex reg c ctx =
     (if reg = None \<or> Size reg = 0 then ctx
      else (let token = extractBearerToken (cl_Authorization c)
        in if token = [] then ctx
           else (case LookupToken sha256_hex reg token of None \<Rightarrow> ctx | Some ident \<Rightarrow> Some ident)))"

section \<open>Proxy headers\<close>

record ('net, 'addr) net_lib =
  nl_ParseIP :: "string \<Rightarrow> 'addr option"
  nl_ParseCIDR :: "string \<Rightarrow> string + 'net"
  nl_Contains :: "'net \<Rightarrow> 'addr \<Rightarrow> bool"

definition sourceIPIsTrusted :: "('net, 'addr) net_lib \<Rightarrow> string \<Rightarrow> 'net list \<Rightarrow> bool" where
  "sourceIPIsTrusted lib remoteAddr cidrs =
     (let host = (case SplitHostPort remoteAddr of None \<Rightarrow> remoteAddr | Some (h, _) \<Rightarrow> h)
      in case nl_ParseIP lib host of
           None \<Rightarrow> False
         | Some ip \<Rightarrow> \<exists>c \<in> set cidrs. nl_Contains lib c ip)"

definition forwarded_groups :: "string \<Rightarrow> string list" where
  "forwarded_groups raw =
     (if raw \<noteq> [] then filter (\<lambda>g. g \<noteq> []) (map trim_space (split_byte raw (CHR '',''))) else [])"

definition identityFromHeaders :: "caller \<Rightarrow> identity option" where
  "identityFromHeaders c =
     (let user = trim_space (cl_ForwardedUser c); email = trim_space (cl_ForwardedEmail c)
      in if user = [] \<and> email = [] then None
      else Some \<lparr>id_User = user, id_Email = email, id_Groups = forwarded_groups (cl_ForwardedGroups c),
                 id_Source = SourceHeader\<rparr>)"

definition headerAuth :: "('net, 'addr) net_lib \<Rightarrow> 'net list \<Rightarrow> caller \<Rightarrow> identity option \<Rightarrow> identity option" where
  "headerAuth lib trustedCIDRs c ctx =
     (let (existing, ok) = FromContext ctx
      in if ok \<and> IsAuthenticated existing then ctx
      else if length trustedCIDRs > 0 \<and> sourceIPIsTrusted lib (cl_RemoteAddr c) trustedCIDRs
      then (case identityFromHeaders c of Some i \<Rightarrow> Some i | None \<Rightarrow> ctx)
      else ctx)"

fun parse_cidrs :: "('net, 'addr) net_lib \<Rightarrow> string list \<Rightarrow> string + 'net list" where
  "parse_cidrs lib [] = Inr []"
| "parse_cidrs lib (s # ss) =
     (if trim_space s = [] then parse_cidrs lib ss
      else (case nl_ParseCIDR lib (trim_space s) of
          Inl err \<Rightarrow> Inl err
        | Inr c \<Rightarrow> (case parse_cidrs lib ss of Inl err \<Rightarrow> Inl err | Inr cs \<Rightarrow> Inr (c # cs))))"

definition ParseTrustedProxyCIDRs :: "('net, 'addr) net_lib \<Rightarrow> string \<Rightarrow> string + 'net list" where
  "ParseTrustedProxyCIDRs lib raw = parse_cidrs lib (split_byte raw (CHR '',''))"

text \<open>The chain the router installs, and the identity a handler finds.\<close>

definition identity_chain ::
  "(string \<Rightarrow> string) \<Rightarrow> identity_registry option \<Rightarrow> ('net, 'addr) net_lib \<Rightarrow> 'net list \<Rightarrow> caller \<Rightarrow> identity option" where
  "identity_chain sha256_hex reg lib cidrs c = headerAuth lib cidrs c (bearerAuth sha256_hex reg c None)"

definition caller_identity ::
  "(string \<Rightarrow> string) \<Rightarrow> identity_registry option \<Rightarrow> ('net, 'addr) net_lib \<Rightarrow> 'net list \<Rightarrow> caller \<Rightarrow> identity" where
  "caller_identity sha256_hex reg lib cidrs c = fst (FromContext (identity_chain sha256_hex reg lib cidrs c))"

section \<open>Who a request comes from\<close>

lemma extractBearerToken_iff:
  assumes "t \<noteq> []"
  shows "extractBearerToken h = t \<longleftrightarrow>
    (\<exists>scheme w. h = scheme @ w @ t \<and> to_lower scheme = ''bearer'' \<and> w \<noteq> [] \<and> list_all is_blank w \<and> \<not> is_blank (hd t))"
proof
  assume e: "extractBearerToken h = t"
  let ?rest = "drop 6 h"
  have h: "to_lower (take 6 h) = ''bearer''" "?rest \<noteq> []" "is_blank (hd ?rest)" "dropWhile is_blank ?rest = t"
    using e assms by (auto simp: extractBearerToken_def Let_def eval_nat_numeral split: if_splits)
  have "h = take 6 h @ takeWhile is_blank ?rest @ t" using h(4) takeWhile_dropWhile_id [of is_blank ?rest] by simp
  moreover have "takeWhile is_blank ?rest \<noteq> []" using h(2,3) by (cases ?rest) auto
  moreover have "list_all is_blank (takeWhile is_blank ?rest)" by (auto simp: list_all_iff dest: set_takeWhileD)
  moreover have "\<not> is_blank (hd t)" using h(4) assms hd_dropWhile [of is_blank ?rest] by auto
  ultimately show "\<exists>scheme w. h = scheme @ w @ t \<and> to_lower scheme = ''bearer'' \<and> w \<noteq> [] \<and> list_all is_blank w \<and> \<not> is_blank (hd t)"
    using h(1) by blast
next
  assume "\<exists>scheme w. h = scheme @ w @ t \<and> to_lower scheme = ''bearer'' \<and> w \<noteq> [] \<and> list_all is_blank w \<and> \<not> is_blank (hd t)"
  then obtain scheme w where h: "h = scheme @ w @ t" "to_lower scheme = ''bearer''" "w \<noteq> []" "list_all is_blank w" "\<not> is_blank (hd t)"
    by blast
  have len: "length scheme = 6" using h(2) length_to_lower [of scheme] by (simp add: eval_nat_numeral)
  have "dropWhile is_blank (w @ t) = t" using h(4,5) assms by (cases t) (auto simp: list_all_iff dropWhile_append2)
  moreover have "is_blank (hd (w @ t))" using h(3,4) by (cases w) auto
  ultimately show "extractBearerToken h = t" using h(1-3) len by (simp add: extractBearerToken_def Let_def eval_nat_numeral)
qed

definition token_identity :: "(string \<Rightarrow> string) \<Rightarrow> identity_registry option \<Rightarrow> caller \<Rightarrow> identity option" where
  "token_identity sha256_hex reg c = LookupToken sha256_hex reg (extractBearerToken (cl_Authorization c))"

lemma bearerAuth_token: "bearerAuth sha256_hex reg c None = token_identity sha256_hex reg c"
  by (auto simp: bearerAuth_def token_identity_def LookupToken_def Size_def Let_def split: option.splits)

text \<open>
  C14: with a registry whose entries carry an authenticated identity, as every loaded one does,
  the handlers see the identity of the presented token if the registry knows it; otherwise that
  of the forwarded headers if the peer of the connection is in a trusted network and they name
  someone; otherwise the anonymous one. So headers from any other peer never authenticate, and
  without trusted networks no header does.
\<close>

theorem caller_identity_exact:
  assumes "\<forall>i. token_identity sha256_hex reg c = Some i \<longrightarrow> IsAuthenticated i"
  shows "caller_identity sha256_hex reg lib cidrs c =
      (case token_identity sha256_hex reg c of
         Some i \<Rightarrow> i
       | None \<Rightarrow>
         if sourceIPIsTrusted lib (cl_RemoteAddr c) cidrs \<and> trim_space (cl_ForwardedUser c) @ trim_space (cl_ForwardedEmail c) \<noteq> []
         then \<lparr>id_User = trim_space (cl_ForwardedUser c), id_Email = trim_space (cl_ForwardedEmail c),
               id_Groups = forwarded_groups (cl_ForwardedGroups c), id_Source = SourceHeader\<rparr>
         else Anonymous) \<and>
    (IsAuthenticated (caller_identity sha256_hex reg lib cidrs c) \<longrightarrow>
       token_identity sha256_hex reg c \<noteq> None \<or> cidrs \<noteq> [] \<and> sourceIPIsTrusted lib (cl_RemoteAddr c) cidrs)"
proof -
  have untrusted: "\<not> sourceIPIsTrusted lib a []" for a
    by (simp add: sourceIPIsTrusted_def Let_def split: option.splits)
  have anon: "\<not> IsAuthenticated Anonymous" by (simp add: IsAuthenticated_def Anonymous_def SourceAnonymous_def)
  show ?thesis
  proof (cases "token_identity sha256_hex reg c")
    case None
    then show ?thesis using untrusted anon
      by (cases cidrs) (auto simp: caller_identity_def identity_chain_def headerAuth_def bearerAuth_token
          FromContext_def identityFromHeaders_def Let_def)
  next
    case (Some i)
    then show ?thesis using assms
      by (simp add: caller_identity_def identity_chain_def headerAuth_def bearerAuth_token FromContext_def)
  qed
qed

lemma caller_identity_exact_witness:
  "caller_identity (\<lambda>_. ''h'') None \<lparr>nl_ParseIP = (\<lambda>s. if s = ''10.0.0.1'' then Some (1 :: nat) else None),
       nl_ParseCIDR = (\<lambda>_. Inl []), nl_Contains = (\<lambda>n a. n = a)\<rparr> [1]
     \<lparr>cl_RemoteAddr = ''10.0.0.9:4711'', cl_Authorization = [], cl_ForwardedUser = ''root'', cl_ForwardedEmail = [], cl_ForwardedGroups = []\<rparr>
   = Anonymous"
proof -
  let ?c = "\<lparr>cl_RemoteAddr = ''10.0.0.9:4711'', cl_Authorization = [], cl_ForwardedUser = ''root'', cl_ForwardedEmail = [], cl_ForwardedGroups = []\<rparr>"
  let ?lib = "\<lparr>nl_ParseIP = (\<lambda>s. if s = ''10.0.0.1'' then Some (1 :: nat) else None),
       nl_ParseCIDR = (\<lambda>_. Inl []), nl_Contains = (\<lambda>n a. n = a)\<rparr>"
  have n: "token_identity (\<lambda>_. ''h'') None ?c = None" by (simp add: token_identity_def LookupToken_def)
  have "\<not> sourceIPIsTrusted ?lib (cl_RemoteAddr ?c) [1]" by code_simp
  then show ?thesis using caller_identity_exact [of "\<lambda>_. ''h''" None ?c ?lib "[1]"] n by simp
qed

end
