(* ===== verification/RateLimit.thy ===== *)
theory RateLimit
  imports Caches Http
begin

text \<open>
  The two limiters of src/internal/ratelimit: the token bucket per user with its rate syntax and
  its collector of stale buckets, and the limiter of ingest writes, a token bucket per address
  in front of a counting semaphore.

  Times and durations are \<^typ>\<open>int\<close> nanoseconds. Tokens are exact rationals where the code
  computes with float64. A call of Allow holds the locks of its bucket one after the other; the
  model takes each call as one step.
\<close>

section \<open>The syntax of a rate\<close>

datatype rate_error =
    ErrRateUnset
  | WantForm string
  | CountNotInteger string
  | CountNotPositive string
  | BadUnit string

text \<open>strconv.Atoi on a 64-bit platform.\<close>

definition Atoi :: "string \<Rightarrow> int option" where
  "Atoi s =
     (case s of
        [] \<Rightarrow> None
      | c # r \<Rightarrow> if c = CHR ''+'' then (if list_all is_digit r then parse_int64 r else None) else parse_int64 s)"

text \<open>strings.SplitN with a limit of two: the parts around the first separator.\<close>

definition split_two :: "string \<Rightarrow> char \<Rightarrow> string list" where
  "split_two s c = (case index_byte s c of None \<Rightarrow> [s] | Some i \<Rightarrow> [take i s, drop (Suc i) s])"

definition ParseRate :: "string \<Rightarrow> rate_error + (int \<times> int)" where
  "ParseRate s =
     (if trim_space s = [] then Inl ErrRateUnset
      else (case split_two (trim_space s) (CHR ''/'') of
          [l, r] \<Rightarrow>
            (case Atoi (trim_space l) of
               None \<Rightarrow> Inl (CountNotInteger s)
             | Some n \<Rightarrow>
               (if n \<le> 0 then Inl (CountNotPositive s)
                else (let unit = to_lower (trim_space r)
                  in if unit = ''second'' then Inr (n, second)
                  else if unit = ''minute'' then Inr (n, 60 * second)
                  else if unit = ''hour'' then Inr (n, 3600 * second)
                  else Inl (BadUnit s))))
        | _ \<Rightarrow> Inl (WantForm s)))"

section \<open>The limiter per user\<close>

record user_bucket =
  ub_tokens :: rat
  ub_lastFill :: int
  ub_lastSeen :: int

type_synonym user_limiter = "(string \<times> user_bucket) list"

definition NewUserLimiter :: user_limiter where
  "NewUserLimiter = []"

definition seconds_of :: "int \<Rightarrow> rat" where
  "seconds_of d = of_int d / of_int second"

definition consume :: "int \<Rightarrow> int \<Rightarrow> int \<Rightarrow> user_bucket \<Rightarrow> (bool \<times> int) \<times> user_bucket" where
  "consume now cnt per b =
     (let elapsed = seconds_of (now - ub_lastFill b);
          b = (if elapsed > 0
               then (let tokens = ub_tokens b + elapsed * of_int cnt / seconds_of per
                 in b\<lparr>ub_tokens := (if tokens > of_int cnt then of_int cnt else tokens), ub_lastFill := now\<rparr>)
               else b)
      in if ub_tokens b \<ge> 1 then ((True, 0), b\<lparr>ub_tokens := ub_tokens b - 1\<rparr>)
         else (let deficit = 1 - ub_tokens b;
                   secondsToOne = deficit * seconds_of per / of_int cnt
               in ((False, \<lfloor>secondsToOne * of_int second\<rfloor>), b)))"

definition allowAt :: "string \<Rightarrow> int \<Rightarrow> int \<Rightarrow> int \<Rightarrow> user_limiter \<Rightarrow> (bool \<times> int) \<times> user_limiter" where
  "allowAt user cnt per now l =
     (if cnt \<le> 0 \<or> per \<le> 0 then ((True, 0), l)
      else (let b = (case map_of l user of
                       Some b \<Rightarrow> b
                     | None \<Rightarrow> \<lparr>ub_tokens = of_int cnt, ub_lastFill = now, ub_lastSeen = now\<rparr>);
                (res, b) = consume now cnt per b
            in (res, AList.update user (b\<lparr>ub_lastSeen := now\<rparr>) l)))"

definition GCStaleBuckets :: "int \<Rightarrow> int \<Rightarrow> user_limiter \<Rightarrow> nat \<times> user_limiter" where
  "GCStaleBuckets now maxAge l =
     (let stale = (\<lambda>ub. ub_lastSeen (snd ub) < now - maxAge)
      in (length (filter stale l), filter (\<lambda>ub. \<not> stale ub) l))"

definition limiter_Size :: "user_limiter \<Rightarrow> nat" where
  "limiter_Size l = length l"

text \<open>The collector started at boot: every fifteen minutes, with an age of two hours.\<close>

definition gc_maxAge :: int where
  "gc_maxAge = 2 * 3600 * second"

section \<open>The ingest limiter\<close>

record ingest_bucket =
  ib_capacity :: int
  ib_tokens :: rat
  ib_lastFill :: int

text \<open>\<open>il_sem\<close> is the capacity and the number of slots taken of the semaphore, if there is one.\<close>

record ingest_limiter =
  il_perMin :: int
  il_bypass :: "string list"
  il_sem :: "(nat \<times> nat) option"
  il_buckets :: "(string \<times> ingest_bucket) list"

definition NewIngestLimiter :: "int \<Rightarrow> string list \<Rightarrow> int \<Rightarrow> ingest_limiter" where
  "NewIngestLimiter perMin bypassIPs maxConcurrent =
     \<lparr>il_perMin = perMin, il_bypass = bypassIPs,
      il_sem = (if maxConcurrent > 0 then Some (nat maxConcurrent, 0) else None), il_buckets = []\<rparr>"

definition newBucket :: "int \<Rightarrow> int \<Rightarrow> ingest_bucket" where
  "newBucket perMin now = \<lparr>ib_capacity = perMin, ib_tokens = of_int perMin, ib_lastFill = now\<rparr>"

definition bucketFor :: "int \<Rightarrow> string \<Rightarrow> ingest_limiter \<Rightarrow> ingest_bucket" where
  "bucketFor now ip l =
     (case map_of (il_buckets l) ip of Some b \<Rightarrow> b | None \<Rightarrow> newBucket (il_perMin l) now)"

definition bucket_allow :: "int \<Rightarrow> ingest_bucket \<Rightarrow> bool \<times> ingest_bucket" where
  "bucket_allow now b =
     (let elapsed = seconds_of (now - ib_lastFill b);
          tokens = ib_tokens b + elapsed * of_int (ib_capacity b) / 60;
          tokens = (if tokens > of_int (ib_capacity b) then of_int (ib_capacity b) else tokens);
          b = b\<lparr>ib_tokens := tokens, ib_lastFill := now\<rparr>
      in if ib_tokens b < 1 then (False, b) else (True, b\<lparr>ib_tokens := ib_tokens b - 1\<rparr>))"

datatype acquire_error =
    ErrRateLimited
  | ErrCapacityExhausted
  | ContextDone

text \<open>
  \<open>created\<close> and \<open>now\<close> are the clock when a bucket is made and when it is asked. The context is done
  or not, and \<open>prefer_done\<close> is the runtime's choice when it is and a slot is free.
\<close>

definition Acquire ::
  "int \<Rightarrow> int \<Rightarrow> bool \<Rightarrow> bool \<Rightarrow> string \<Rightarrow> ingest_limiter \<Rightarrow> acquire_error option \<times> ingest_limiter" where
  "Acquire created now ctx_done prefer_done remoteAddr l =
     (let limited = (il_perMin l > 0 \<and> remoteAddr \<notin> set (il_bypass l));
          (ok, b) = bucket_allow now (bucketFor created remoteAddr l);
          l = (if limited then l\<lparr>il_buckets := AList.update remoteAddr b (il_buckets l)\<rparr> else l)
      in if limited \<and> \<not> ok then (Some ErrRateLimited, l)
         else (case il_sem l of
             None \<Rightarrow> (None, l)
           | Some (cap, used) \<Rightarrow>
             (let free = (used < cap)
              in if free \<and> \<not> (ctx_done \<and> prefer_done) then (None, l\<lparr>il_sem := Some (cap, Suc used)\<rparr>)
                 else if ctx_done then (Some ContextDone, l)
                 else (Some ErrCapacityExhausted, l))))"

text \<open>The function Acquire returns on success; \<open>None\<close> is a receive that blocks.\<close>

definition release :: "ingest_limiter \<Rightarrow> ingest_limiter option" where
  "release l =
     (case il_sem l of
        None \<Rightarrow> Some l
      | Some (cap, used) \<Rightarrow> (case used of 0 \<Rightarrow> None | Suc n \<Rightarrow> Some (l\<lparr>il_sem := Some (cap, n)\<rparr>)))"

text \<open>The address of a client: the header the tunnel sets, else the peer of the connection.\<close>

definition trim_blank :: "string \<Rightarrow> string" where
  "trim_blank s =
     (let blank = (\<lambda>c. c = CHR '' '' \<or> c = CHR 0x09) in rev (dropWhile blank (rev (dropWhile blank s))))"

definition RemoteIP :: "string \<Rightarrow> string \<Rightarrow> string" where
  "RemoteIP cf_header remoteAddr =
     (let cf = trim_blank cf_header
      in if cf \<noteq> [] then cf
         else (case SplitHostPort remoteAddr of None \<Rightarrow> remoteAddr | Some (host, _) \<Rightarrow> host))"

section \<open>One bucket\<close>

definition nano_rate :: "int \<Rightarrow> int \<Rightarrow> rat" where
  "nano_rate cnt per = of_int cnt / of_int per"

lemma refill_amount:
  assumes "0 < per"
  shows "seconds_of d * of_int cnt / seconds_of per = of_int d * nano_rate cnt per"
  using assms by (simp add: seconds_of_def nano_rate_def second_def field_simps)

definition bucket_ok :: "int \<Rightarrow> int \<Rightarrow> user_bucket \<Rightarrow> bool" where
  "bucket_ok cnt now b \<longleftrightarrow> 0 \<le> ub_tokens b \<and> ub_tokens b \<le> of_int cnt \<and> ub_lastFill b \<le> now"

text \<open>The tokens in the bucket once it has been refilled at a time.\<close>

definition filled :: "int \<Rightarrow> int \<Rightarrow> int \<Rightarrow> user_bucket \<Rightarrow> rat" where
  "filled cnt per now b = min (of_int cnt) (ub_tokens b + of_int (now - ub_lastFill b) * nano_rate cnt per)"

lemma consume_filled:
  assumes "0 < cnt" and "0 < per" and "bucket_ok cnt now b"
  shows "consume now cnt per b =
    (if filled cnt per now b \<ge> 1
     then ((True, 0), b\<lparr>ub_tokens := filled cnt per now b - 1, ub_lastFill := now\<rparr>)
     else ((False, \<lfloor>(1 - filled cnt per now b) / nano_rate cnt per\<rfloor>),
           b\<lparr>ub_tokens := filled cnt per now b, ub_lastFill := now\<rparr>))"
proof -
  have pos: "0 < elapsed \<longleftrightarrow> 0 < d" if "elapsed = seconds_of d" for elapsed d
    unfolding that seconds_of_def second_def by (simp add: zero_less_divide_iff)
  have wait: "deficit * seconds_of per / of_int cnt * of_int second = deficit / nano_rate cnt per" for deficit
    using assms(1,2) by (simp add: seconds_of_def nano_rate_def second_def field_simps)
  let ?b = "b\<lparr>ub_tokens := filled cnt per now b, ub_lastFill := now\<rparr>"
  have "(if seconds_of (now - ub_lastFill b) > 0
      then b\<lparr>ub_tokens := (if ub_tokens b + seconds_of (now - ub_lastFill b) * of_int cnt / seconds_of per > of_int cnt
             then of_int cnt else ub_tokens b + seconds_of (now - ub_lastFill b) * of_int cnt / seconds_of per),
           ub_lastFill := now\<rparr> else b) = ?b"
  proof (cases "ub_lastFill b < now")
    case True
    then show ?thesis unfolding refill_amount [OF assms(2)] filled_def min_def pos [OF refl]
      by (simp only: not_le if_True if_False diff_gt_0_iff_gt split: if_split) (auto simp: not_le)
  next
    case False
    then have "ub_lastFill b = now" using assms(3) by (simp add: bucket_ok_def)
    then show ?thesis using assms(3)
      by (cases b) (simp add: pos [OF refl] filled_def bucket_ok_def min_def)
  qed
  then have "consume now cnt per b = (if ub_tokens ?b \<ge> 1 then ((True, 0), ?b\<lparr>ub_tokens := ub_tokens ?b - 1\<rparr>)
      else ((False, \<lfloor>(1 - ub_tokens ?b) * seconds_of per / of_int cnt * of_int second\<rfloor>), ?b))"
    unfolding consume_def Let_def by presburger
  then show ?thesis unfolding wait by simp
qed

section \<open>Runs of the limiter\<close>

text \<open>
  A run at a fixed rate: callers ask, and the collector of stale buckets passes, each at its
  time. \<open>grants\<close> counts what one user was granted.
\<close>

datatype limiter_op =
    Ask string int
  | Collect int int

fun op_time :: "limiter_op \<Rightarrow> int" where
  "op_time (Ask _ now) = now"
| "op_time (Collect now _) = now"

fun limiter_step :: "int \<Rightarrow> int \<Rightarrow> limiter_op \<Rightarrow> user_limiter \<Rightarrow> user_limiter" where
  "limiter_step cnt per (Ask u now) l = snd (allowAt u cnt per now l)"
| "limiter_step cnt per (Collect now maxAge) l = snd (GCStaleBuckets now maxAge l)"

fun granted :: "int \<Rightarrow> int \<Rightarrow> string \<Rightarrow> limiter_op \<Rightarrow> user_limiter \<Rightarrow> nat" where
  "granted cnt per u (Ask v now) l = (if v = u \<and> fst (fst (allowAt v cnt per now l)) then 1 else 0)"
| "granted cnt per u (Collect now maxAge) l = 0"

fun grants :: "int \<Rightarrow> int \<Rightarrow> string \<Rightarrow> limiter_op list \<Rightarrow> user_limiter \<Rightarrow> nat" where
  "grants cnt per u [] l = 0"
| "grants cnt per u (x # xs) l = granted cnt per u x l + grants cnt per u xs (limiter_step cnt per x l)"

definition limiter_run :: "int \<Rightarrow> int \<Rightarrow> limiter_op list \<Rightarrow> user_limiter \<Rightarrow> user_limiter" where
  "limiter_run cnt per xs l = fold (limiter_step cnt per) xs l"

text \<open>Every bucket is within its bounds and was last seen when it was last filled.\<close>

definition limiter_ok :: "int \<Rightarrow> int \<Rightarrow> user_limiter \<Rightarrow> bool" where
  "limiter_ok cnt now l \<longleftrightarrow> distinct (map fst l) \<and>
     (\<forall>u b. map_of l u = Some b \<longrightarrow> bucket_ok cnt now b \<and> ub_lastSeen b = ub_lastFill b)"

fun timely :: "int \<Rightarrow> limiter_op \<Rightarrow> bool" where
  "timely per (Ask _ _) = True"
| "timely per (Collect _ maxAge) = (per \<le> maxAge)"

text \<open>The tokens a user can have spent up to a time, on top of none so far.\<close>

definition allowance :: "int \<Rightarrow> int \<Rightarrow> int \<Rightarrow> string \<Rightarrow> int \<Rightarrow> user_limiter \<Rightarrow> rat" where
  "allowance cnt per T u now l =
     (case map_of l u of
        Some b \<Rightarrow> ub_tokens b + of_int (T - ub_lastFill b) * nano_rate cnt per
      | None \<Rightarrow> of_int cnt + of_int (T - now) * nano_rate cnt per)"

definition bucket_of :: "int \<Rightarrow> int \<Rightarrow> string \<Rightarrow> user_limiter \<Rightarrow> user_bucket" where
  "bucket_of cnt now u l =
     (case map_of l u of Some b \<Rightarrow> b | None \<Rightarrow> \<lparr>ub_tokens = of_int cnt, ub_lastFill = now, ub_lastSeen = now\<rparr>)"

lemma limiter_ok_bucket:
  assumes "limiter_ok cnt now l" and "now \<le> now'" and "0 < cnt"
  shows "bucket_ok cnt now' (bucket_of cnt now' u l)"
proof (cases "map_of l u")
  case None
  then show ?thesis using assms(3) by (simp add: bucket_of_def bucket_ok_def)
next
  case (Some b)
  then show ?thesis using assms(1,2) by (force simp: bucket_of_def bucket_ok_def limiter_ok_def)
qed

lemma allowAt_filled:
  assumes "0 < cnt" and "0 < per" and "limiter_ok cnt now l" and "now \<le> now'"
  shows "allowAt u cnt per now' l =
    (let f = filled cnt per now' (bucket_of cnt now' u l); b = bucket_of cnt now' u l
     in if f \<ge> 1 then ((True, 0), AList.update u \<lparr>ub_tokens = f - 1, ub_lastFill = now', ub_lastSeen = now'\<rparr> l)
        else ((False, \<lfloor>(1 - f) / nano_rate cnt per\<rfloor>),
              AList.update u \<lparr>ub_tokens = f, ub_lastFill = now', ub_lastSeen = now'\<rparr> l))"
proof -
  have b: "allowAt u cnt per now' l =
      (let (res, b) = consume now' cnt per (bucket_of cnt now' u l)
       in (res, AList.update u (b\<lparr>ub_lastSeen := now'\<rparr>) l))"
    using assms(1,2) by (simp add: allowAt_def bucket_of_def Let_def)
  have seen: "b\<lparr>ub_tokens := x, ub_lastFill := y, ub_lastSeen := z\<rparr> =
      \<lparr>ub_tokens = x, ub_lastFill = y, ub_lastSeen = z\<rparr>" for b :: user_bucket and x y z
    by (cases b) simp
  show ?thesis unfolding b
    by (simp add: consume_filled [OF assms(1,2) limiter_ok_bucket [OF assms(3,4,1)]] Let_def seen)
qed

lemma distinct_kept: "distinct (map fst l) \<Longrightarrow> distinct (map fst (filter P l))"
  by (induction l) auto

lemma map_of_kept:
  "distinct (map fst l) \<Longrightarrow> map_of (filter P l) u = (case map_of l u of Some b \<Rightarrow> if P (u, b) then Some b else None | None \<Rightarrow> None)"
  by (induction l) (auto split: option.splits simp: map_of_eq_None_iff)

lemma filled_bounds:
  assumes "0 < cnt" and "0 < per" and "bucket_ok cnt now b"
  shows "0 \<le> filled cnt per now b" and "filled cnt per now b \<le> of_int cnt"
  using assms by (simp_all add: filled_def bucket_ok_def nano_rate_def)

lemma limiter_ok_update:
  assumes "limiter_ok cnt now l" and "now \<le> t" and "bucket_ok cnt t b" and "ub_lastSeen b = ub_lastFill b"
  shows "limiter_ok cnt t (AList.update u b l)"
  using assms unfolding limiter_ok_def
  by (force simp: update_conv distinct_update bucket_ok_def simp del: map_of_eq_Some_iff split: if_splits)

lemma limiter_step_ok:
  assumes "limiter_ok cnt now l" and "now \<le> op_time x" and "0 < cnt" and "0 < per"
  shows "limiter_ok cnt (op_time x) (limiter_step cnt per x l)"
proof (cases x)
  case (Ask u t)
  have t: "now \<le> t" using assms(2) Ask by simp
  note f = filled_bounds [OF assms(3,4) limiter_ok_bucket [OF assms(1) t assms(3)], of u]
  show ?thesis using f
    by (simp add: Ask allowAt_filled [OF assms(3,4,1) t] Let_def limiter_ok_update [OF assms(1) t] bucket_ok_def)
next
  case (Collect t maxAge)
  have d: "distinct (map fst l)" and t: "now \<le> t" using assms(1,2) Collect by (auto simp: limiter_ok_def)
  have old: "bucket_ok cnt t b \<and> ub_lastSeen b = ub_lastFill b" if "(u, b) \<in> set l" for u b
    using assms(1) d t that by (force simp: limiter_ok_def bucket_ok_def)
  have keys: "distinct (map fst (filter P l))" for P by (rule distinct_kept [OF d])
  show ?thesis using old
    by (auto simp: Collect limiter_ok_def GCStaleBuckets_def Let_def keys)
qed

text \<open>A step spends what it grants.\<close>

lemma allowance_step:
  assumes "limiter_ok cnt now l" and "now \<le> op_time x" and "0 < cnt" and "0 < per"
    and "t \<le> op_time x" and "timely per x"
  shows "of_nat (granted cnt per u x l) +
      min (of_int cnt + of_int (T - t) * nano_rate cnt per) (allowance cnt per T u (op_time x) (limiter_step cnt per x l))
    \<le> min (of_int cnt + of_int (T - t) * nano_rate cnt per) (allowance cnt per T u now l)"
proof -
  let ?r = "nano_rate cnt per" and ?s = "op_time x"
  have r: "0 < ?r" "of_int per * ?r = of_int cnt" using assms(3,4) by (simp_all add: nano_rate_def)
  have mono: "of_int a * ?r \<le> of_int b * ?r" if "a \<le> b" for a b
    using r(1) that by (simp add: mult_right_mono)
  have full: "of_int cnt + of_int (T - ?s) * ?r \<le> of_int cnt + of_int (T - now) * ?r"
    "of_int cnt + of_int (T - ?s) * ?r \<le> of_int cnt + of_int (T - t) * ?r"
    using mono [of "T - ?s" "T - now"] mono [of "T - ?s" "T - t"] assms(2,5) by linarith+
  have later: "of_int (T - ?s) * ?r + of_int (?s - d) * ?r = of_int (T - d) * ?r" for d
    by (simp add: algebra_simps)
  show ?thesis
  proof (cases x)
    case (Ask v s)
    show ?thesis
    proof (cases "v = u")
      case False
      then show ?thesis using Ask full
        by (cases "map_of l u")
           (auto simp: allowance_def allowAt_def Let_def update_conv split: prod.splits option.splits)
    next
      case True
      let ?b = "bucket_of cnt s u l"
      let ?f = "filled cnt per s ?b"
      have s: "now \<le> s" using assms(2) Ask by simp
      have f: "?f \<le> of_int cnt" "0 \<le> ?f"
        using filled_bounds [OF assms(3,4) limiter_ok_bucket [OF assms(1) s assms(3)]] by simp_all
      have "?f + of_int (T - s) * ?r \<le> allowance cnt per T u now l"
      proof (cases "map_of l u")
        case None
        then show ?thesis using full(1) f(1) Ask by (simp add: allowance_def)
      next
        case (Some b)
        then have "?f \<le> ub_tokens b + of_int (s - ub_lastFill b) * ?r" by (simp add: filled_def bucket_of_def)
        then show ?thesis using Some later [of "ub_lastFill b"] Ask by (simp add: allowance_def)
      qed
      moreover have "?f + of_int (T - s) * ?r \<le> of_int cnt + of_int (T - t) * ?r"
        using full(2) f(1) Ask by simp
      ultimately show ?thesis using True Ask
        by (auto simp: allowAt_filled [OF assms(3,4,1) s] Let_def allowance_def update_conv min_def)
    qed
  next
    case (Collect s maxAge)
    show ?thesis
    proof (cases "map_of l u")
      case None
      then show ?thesis using full Collect assms(1)
        by (auto simp: allowance_def GCStaleBuckets_def Let_def map_of_kept limiter_ok_def)
    next
      case (Some b)
      have b: "0 \<le> ub_tokens b" "ub_lastSeen b = ub_lastFill b"
        using assms(1) Some by (auto simp: limiter_ok_def bucket_ok_def simp del: map_of_eq_Some_iff)
      have "of_int cnt + of_int (T - s) * ?r \<le> allowance cnt per T u now l" if "ub_lastSeen b < s - maxAge"
      proof -
        have "of_int per * ?r \<le> of_int (s - ub_lastFill b) * ?r"
          using assms(6) Collect that b(2) by (intro mono) simp
        then show ?thesis using later [of "ub_lastFill b"] r(2) b(1) Some Collect by (simp add: allowance_def)
      qed
      then show ?thesis using full Collect assms(1) Some
        by (auto simp: allowance_def GCStaleBuckets_def Let_def map_of_kept limiter_ok_def simp del: map_of_eq_Some_iff)
    qed
  qed
qed

lemma limiter_run_ok:
  assumes "limiter_ok cnt now l" and "sorted (now # map op_time xs)" and "0 < cnt" and "0 < per"
  shows "\<exists>now'. limiter_ok cnt now' (limiter_run cnt per xs l) \<and> now \<le> now' \<and> (xs \<noteq> [] \<longrightarrow> now' = op_time (last xs)) \<and> (xs = [] \<longrightarrow> now' = now)"
  using assms(1,2)
proof (induction xs arbitrary: now l)
  case (Cons x xs)
  then have "now \<le> op_time x" "sorted (op_time x # map op_time xs)" by auto
  with Cons.IH [OF limiter_step_ok [OF Cons.prems(1) _ assms(3,4)] this(2)] show ?case
    by (auto simp: limiter_run_def)
qed (auto simp: limiter_run_def)

lemma grants_bound:
  assumes "0 < cnt" and "0 < per" and "limiter_ok cnt now l" and "sorted (now # map op_time xs)"
    and "\<forall>x \<in> set xs. t \<le> op_time x \<and> op_time x \<le> T \<and> timely per x" and "now \<le> T" and "t \<le> T"
  shows "of_nat (grants cnt per u xs l) \<le>
    min (of_int cnt + of_int (T - t) * nano_rate cnt per) (allowance cnt per T u now l)"
  using assms(3-)
proof (induction xs arbitrary: now l)
  case Nil
  have "0 \<le> nano_rate cnt per" using assms(1,2) by (simp add: nano_rate_def)
  then have z: "0 \<le> of_int d * nano_rate cnt per" if "0 \<le> d" for d using that by simp
  have "0 \<le> allowance cnt per T u now l"
  proof (cases "map_of l u")
    case None
    then show ?thesis using z [of "T - now"] assms(1) Nil by (simp add: allowance_def)
  next
    case (Some b)
    then have "0 \<le> ub_tokens b" "ub_lastFill b \<le> T" using Nil by (force simp: limiter_ok_def bucket_ok_def)+
    then show ?thesis using Some z [of "T - ub_lastFill b"] by (simp add: allowance_def)
  qed
  then show ?case using z [of "T - t"] assms(1) Nil by simp
next
  case (Cons x xs)
  then have x: "now \<le> op_time x" "sorted (op_time x # map op_time xs)" "t \<le> op_time x" "op_time x \<le> T" "timely per x"
    by auto
  have "of_nat (grants cnt per u xs (limiter_step cnt per x l)) \<le>
      min (of_int cnt + of_int (T - t) * nano_rate cnt per) (allowance cnt per T u (op_time x) (limiter_step cnt per x l))"
    using Cons.IH [OF limiter_step_ok [OF Cons.prems(1) x(1) assms(1,2)] x(2)] Cons.prems x(4) by simp
  then show ?case
    using allowance_step [OF Cons.prems(1) x(1) assms(1,2) x(3,5), of u T]
    by (simp only: grants.simps of_nat_add)
qed



text \<open>
  A refused caller learns how long to wait: asking again one nanosecond after the wait it was
  told, or later, it is granted, if nobody used its bucket in between.
\<close>

theorem refused_then_granted:
  assumes "0 < cnt" and "0 < per" and "limiter_ok cnt now l" and "now \<le> now'"
    and "allowAt u cnt per now' l = ((False, retryAfter), l')" and "now' + retryAfter < later"
  shows "fst (fst (allowAt u cnt per later l')) \<and> 0 \<le> retryAfter \<and> retryAfter \<le> per"
proof -
  let ?f = "filled cnt per now' (bucket_of cnt now' u l)" and ?r = "nano_rate cnt per"
  have r: "0 < ?r" using assms(1,2) by (simp add: nano_rate_def)
  note b = limiter_ok_bucket [OF assms(3,4,1), of u]
  note f = filled_bounds [OF assms(1,2) b]
  have res: "?f < 1" "retryAfter = \<lfloor>(1 - ?f) / ?r\<rfloor>"
      "l' = AList.update u \<lparr>ub_tokens = ?f, ub_lastFill = now', ub_lastSeen = now'\<rparr> l"
    using assms(5) by (auto simp: allowAt_filled [OF assms(1-4)] Let_def split: if_splits)
  have wait: "(1 - ?f) / ?r \<le> of_int (later - now')" "0 \<le> retryAfter"
    using assms(6) res(1,2) r by (auto simp: floor_less_iff le_floor_iff intro: less_imp_le) linarith
  have "(1 - ?f) / ?r \<le> of_int per"
  proof -
    have "1 - ?f \<le> of_int per * ?r" using f(1) assms(1,2) by (simp add: nano_rate_def)
    then show ?thesis using r by (simp add: pos_divide_le_eq)
  qed
  then have "retryAfter \<le> per" using res(2) by (simp add: floor_le_iff)
  moreover have ok: "limiter_ok cnt now' l'"
    unfolding res(3) using f by (intro limiter_ok_update [OF assms(3,4)]) (simp_all add: bucket_ok_def)
  have le: "now' \<le> later" using assms(6) wait(2) by linarith
  have "1 \<le> filled cnt per later (bucket_of cnt later u l')"
    using wait(1) r assms(1) by (simp add: res(3) bucket_of_def update_conv filled_def pos_divide_le_eq)
  then have "fst (fst (allowAt u cnt per later l'))"
    by (simp add: allowAt_filled [OF assms(1,2) ok le] Let_def)
  ultimately show ?thesis using wait(2) by simp
qed

lemma refused_then_granted_witness:
  "fst (fst (allowAt ''bob'' 1 (60 * second) (60 * second + 1)
     (snd (allowAt ''bob'' 1 (60 * second) 0 [(''bob'', \<lparr>ub_tokens = 0, ub_lastFill = 0, ub_lastSeen = 0\<rparr>)]))))"
proof -
  let ?l = "[(''bob'', \<lparr>ub_tokens = 0, ub_lastFill = 0, ub_lastSeen = 0\<rparr>)]"
  have "allowAt ''bob'' 1 (60 * second) 0 ?l = ((False, 60 * second), ?l)"
    by (simp add: allowAt_def consume_def seconds_of_def second_def Let_def)
  then show ?thesis
    using refused_then_granted [of 1 "60 * second" 0 ?l 0 "''bob''" "60 * second" ?l "60 * second + 1"]
    by (simp add: second_def limiter_ok_def bucket_ok_def)
qed

section \<open>Work in flight\<close>

text \<open>
  The limiter of ingest writes in use: requests arrive at any time from any address, and each
  one that was admitted calls the release function it was given once. The second component
  counts the requests in flight.
\<close>

inductive ingest_use :: "ingest_limiter \<Rightarrow> ingest_limiter \<Rightarrow> nat \<Rightarrow> bool" for l0 where
  start: "ingest_use l0 l0 0"
| admitted: "ingest_use l0 l n \<Longrightarrow> Acquire created now ctx_done prefer_done addr l = (None, l') \<Longrightarrow> ingest_use l0 l' (Suc n)"
| refused: "ingest_use l0 l n \<Longrightarrow> Acquire created now ctx_done prefer_done addr l = (Some err, l') \<Longrightarrow> ingest_use l0 l' n"
| finished: "ingest_use l0 l (Suc n) \<Longrightarrow> release l = Some l' \<Longrightarrow> ingest_use l0 l' n"

lemma Acquire_sem:
  assumes "Acquire created now ctx_done prefer_done addr l = (res, l')"
  shows "il_sem l' = (case il_sem l of None \<Rightarrow> None
           | Some (cap, used) \<Rightarrow> Some (cap, if res = None then Suc used else used)) \<and>
         (res = None \<longrightarrow> (\<forall>cap used. il_sem l = Some (cap, used) \<longrightarrow> used < cap)) \<and>
         (res = Some ErrCapacityExhausted \<longrightarrow> (\<exists>cap used. il_sem l = Some (cap, used) \<and> cap \<le> used))"
  using assms by (auto simp: Acquire_def Let_def split: prod.splits if_splits option.splits)

text \<open>
  With a positive limit, never more requests are in flight than the limit, a request that
  finishes can always give its slot back, and a request is told that the server is at capacity
  only while the limit is reached.
\<close>

theorem ingest_in_flight_bounded:
  assumes "ingest_use (NewIngestLimiter perMin bypassIPs maxConcurrent) l n" and "0 < maxConcurrent"
  shows "int n \<le> maxConcurrent \<and> (0 < n \<longrightarrow> release l \<noteq> None) \<and>
    (fst (Acquire created now ctx_done prefer_done addr l) = Some ErrCapacityExhausted \<longrightarrow> int n = maxConcurrent)"
proof -
  have sem: "il_sem l = Some (nat maxConcurrent, n) \<and> n \<le> nat maxConcurrent"
    using assms(1)
  proof induction
    case start
    then show ?case using assms(2) by (simp add: NewIngestLimiter_def)
  next
    case (admitted l n created now ctx_done prefer_done addr l')
    then show ?case using Acquire_sem [OF admitted.hyps(2)] by auto
  next
    case (refused l n created now ctx_done prefer_done addr err l')
    then show ?case using Acquire_sem [OF refused.hyps(2)] by auto
  next
    case (finished l n l')
    then show ?case by (auto simp: release_def split: nat.splits)
  qed
  obtain res l' where a: "Acquire created now ctx_done prefer_done addr l = (res, l')" by fastforce
  show ?thesis using sem Acquire_sem [OF a] assms(2) a by (auto simp: release_def split: nat.splits)
qed

lemma ingest_in_flight_bounded_witness:
  "int 1 \<le> 1 \<and> fst (Acquire 5 6 False False ''b'' (snd (Acquire 0 0 False False ''a'' (NewIngestLimiter 2 [] 1)))) =
     Some ErrCapacityExhausted"
proof -
  let ?l = "snd (Acquire 0 0 False False ''a'' (NewIngestLimiter 2 [] 1))"
  have a: "Acquire 0 0 False False ''a'' (NewIngestLimiter 2 [] 1) = (None, ?l)"
    by (simp add: Acquire_def NewIngestLimiter_def bucketFor_def newBucket_def bucket_allow_def Let_def seconds_of_def)
  have "fst (Acquire 5 6 False False ''b'' ?l) = Some ErrCapacityExhausted"
    by (simp add: Acquire_def NewIngestLimiter_def bucketFor_def newBucket_def bucket_allow_def Let_def seconds_of_def second_def)
  then show ?thesis
    using ingest_in_flight_bounded [OF ingest_use.admitted [OF ingest_use.start a], of 5 6 False False "''b''"] by simp
qed

end
