(* ===== verification/Requests.thy ===== *)
theory Requests
  imports Prelude
begin

text \<open>
  The procurement requests of the store (src/internal/store/requests.go): the state machine,
  the table of requests and every operation on it.

  A table is the list of its rows in id order together with the AUTOINCREMENT counter. A
  timestamp is an \<^typ>\<open>int\<close> of nanoseconds: the code stores fixed-width UTC text, whose order as
  text is the order of the instants. The clock reading and the outcome of each SQL statement
  are arguments of the operations.
\<close>

section \<open>The request state machine\<close>

text \<open>A \<^verbatim>\<open>RequestState\<close> is a string: the eight constants of the source, or any other text.\<close>

datatype request_state =
    RequestStatePending
  | RequestStatePreflighting
  | RequestStateAutoPass
  | RequestStateNeedsReview
  | RequestStateApproved
  | RequestStateFetching
  | RequestStateIndexed
  | RequestStateDenied
  | RequestStateOther string

definition legalTransitions :: "(request_state \<times> (request_state \<times> bool) list) list" where
  "legalTransitions =
     [(RequestStatePending, [(RequestStatePreflighting, True), (RequestStateDenied, True)]),
      (RequestStatePreflighting,
        [(RequestStateAutoPass, True), (RequestStateNeedsReview, True), (RequestStateDenied, True)]),
      (RequestStateNeedsReview, [(RequestStateApproved, True), (RequestStateDenied, True)]),
      (RequestStateAutoPass, [(RequestStateFetching, True)]),
      (RequestStateApproved, [(RequestStateFetching, True)]),
      (RequestStateFetching, [(RequestStateIndexed, True), (RequestStateDenied, True)])]"

definition CanTransitionTo :: "request_state \<Rightarrow> request_state \<Rightarrow> bool" where
  "CanTransitionTo s to_state =
     (case map_of legalTransitions s of
        None \<Rightarrow> False
      | Some allowed \<Rightarrow> map_of allowed to_state = Some True)"

definition IsTerminal :: "request_state \<Rightarrow> bool" where
  "IsTerminal s = (map_of legalTransitions s = None)"

section \<open>Requests and rows\<close>

record request =
  rq_ID :: int
  rq_SubmitterSub :: string
  rq_SubmitterEmail :: string
  rq_AuthMethod :: string
  rq_Module :: string
  rq_Version :: string
  rq_SourceURL :: string
  rq_SubmitterNotes :: string
  rq_State :: request_state
  rq_StateChangedAt :: int
  rq_CreatedAt :: int
  rq_PreflightJSON :: string
  rq_DenialReason :: string
  rq_FetchedSHA :: string
  rq_CommittedSHA :: string
  rq_RetryCount :: int

record request_query =
  qq_States :: "request_state list"
  qq_Submitter :: string
  qq_Limit :: int

record request_fields =
  ff_PreflightJSON :: string
  ff_DenialReason :: string
  ff_FetchedSHA :: string
  ff_CommittedSHA :: string
  ff_RetryCount :: "int option"

definition no_fields :: request_fields where
  "no_fields = \<lparr>ff_PreflightJSON = [], ff_DenialReason = [], ff_FetchedSHA = [],
     ff_CommittedSHA = [], ff_RetryCount = None\<rparr>"

text \<open>A row of the table: a nullable column is an option.\<close>

record request_row =
  rw_id :: int
  rw_submitter_sub :: string
  rw_submitter_email :: "string option"
  rw_auth_method :: string
  rw_module :: string
  rw_version :: string
  rw_source_url :: "string option"
  rw_submitter_notes :: "string option"
  rw_state :: request_state
  rw_state_changed_at :: int
  rw_created_at :: int
  rw_preflight_json :: "string option"
  rw_denial_reason :: "string option"
  rw_fetched_sha :: "string option"
  rw_committed_sha :: "string option"
  rw_retry_count :: int

record request_store =
  rs_rows :: "request_row list"
  rs_seq :: int

datatype store_error =
    ErrRequestNotFound
  | ErrIllegalTransition request_state request_state
  | ErrStateMismatch int request_state
  | StoreError string

text \<open>
  The outcome of one statement: \<open>sf_Exec\<close> is the error of the execution, which then changes
  nothing; \<open>sf_Result\<close> the error of reading its result afterwards.
\<close>

record sql_fault =
  sf_Exec :: "string option"
  sf_Result :: "string option"

definition no_fault :: sql_fault where
  "no_fault = \<lparr>sf_Exec = None, sf_Result = None\<rparr>"

definition nullableString :: "string \<Rightarrow> string option" where
  "nullableString s = (if s = [] then None else Some s)"

definition scanRequest :: "request_row \<Rightarrow> request" where
  "scanRequest row =
     \<lparr>rq_ID = rw_id row, rq_SubmitterSub = rw_submitter_sub row,
      rq_SubmitterEmail = case_option [] id (rw_submitter_email row),
      rq_AuthMethod = rw_auth_method row, rq_Module = rw_module row, rq_Version = rw_version row,
      rq_SourceURL = case_option [] id (rw_source_url row),
      rq_SubmitterNotes = case_option [] id (rw_submitter_notes row),
      rq_State = rw_state row, rq_StateChangedAt = rw_state_changed_at row,
      rq_CreatedAt = rw_created_at row,
      rq_PreflightJSON = case_option [] id (rw_preflight_json row),
      rq_DenialReason = case_option [] id (rw_denial_reason row),
      rq_FetchedSHA = case_option [] id (rw_fetched_sha row),
      rq_CommittedSHA = case_option [] id (rw_committed_sha row),
      rq_RetryCount = rw_retry_count row\<rparr>"

section \<open>Operations\<close>

text \<open>The row of the INSERT; the columns it does not name take their defaults.\<close>

definition inserted_row :: "int \<Rightarrow> int \<Rightarrow> request \<Rightarrow> request_row" where
  "inserted_row now new_id r =
     \<lparr>rw_id = new_id, rw_submitter_sub = rq_SubmitterSub r,
      rw_submitter_email = nullableString (rq_SubmitterEmail r),
      rw_auth_method = rq_AuthMethod r, rw_module = rq_Module r, rw_version = rq_Version r,
      rw_source_url = nullableString (rq_SourceURL r),
      rw_submitter_notes = nullableString (rq_SubmitterNotes r),
      rw_state = RequestStatePending, rw_state_changed_at = now, rw_created_at = now,
      rw_preflight_json = None, rw_denial_reason = None, rw_fetched_sha = None,
      rw_committed_sha = None, rw_retry_count = 0\<rparr>"

definition CreateRequest ::
  "sql_fault \<Rightarrow> int \<Rightarrow> request \<Rightarrow> request_store \<Rightarrow> (store_error + int) \<times> request_store" where
  "CreateRequest fault now r st =
     (let r = r\<lparr>rq_SubmitterSub := trim_space (rq_SubmitterSub r), rq_Module := trim_space (rq_Module r),
                rq_Version := trim_space (rq_Version r), rq_AuthMethod := trim_space (rq_AuthMethod r)\<rparr>
      in if rq_SubmitterSub r = [] then (Inl (StoreError ''store: CreateRequest: submitter_sub required''), st)
      else if rq_AuthMethod r = [] then (Inl (StoreError ''store: CreateRequest: auth_method required''), st)
      else if rq_Module r = [] then (Inl (StoreError ''store: CreateRequest: module required''), st)
      else if rq_Version r = [] then (Inl (StoreError ''store: CreateRequest: version required''), st)
      else (case sf_Exec fault of
          Some err \<Rightarrow> (Inl (StoreError (''store: insert request: '' @ err)), st)
        | None \<Rightarrow>
          (let new_id = rs_seq st + 1;
               st = \<lparr>rs_rows = rs_rows st @ [inserted_row now new_id r], rs_seq = new_id\<rparr>
           in case sf_Result fault of
                Some err \<Rightarrow> (Inl (StoreError (''store: LastInsertId: '' @ err)), st)
              | None \<Rightarrow> (Inr new_id, st))))"

definition GetRequest :: "sql_fault \<Rightarrow> int \<Rightarrow> request_store \<Rightarrow> store_error + request" where
  "GetRequest fault i st =
     (case sf_Exec fault of
        Some err \<Rightarrow> Inl (StoreError err)
      | None \<Rightarrow>
        (case find (\<lambda>row. rw_id row = i) (rs_rows st) of
           None \<Rightarrow> Inl ErrRequestNotFound
         | Some row \<Rightarrow> Inr (scanRequest row)))"

text \<open>
  \<^verbatim>\<open>ORDER BY created_at DESC\<close> leaves the order of equal stamps to the engine: \<open>scan\<close> is the order in
  which it visits the rows before the sort.
\<close>

definition row_matches :: "request_query \<Rightarrow> request_row \<Rightarrow> bool" where
  "row_matches q row \<longleftrightarrow>
     (qq_States q \<noteq> [] \<longrightarrow> rw_state row \<in> set (qq_States q)) \<and>
     (qq_Submitter q \<noteq> [] \<longrightarrow> rw_submitter_sub row = qq_Submitter q)"

definition ListRequests ::
  "sql_fault \<Rightarrow> (request_row list \<Rightarrow> request_row list) \<Rightarrow> request_query \<Rightarrow> request_store \<Rightarrow>
   store_error + request list" where
  "ListRequests fault scan q st =
     (let maxLimit = 500;
          limit = (if qq_Limit q \<le> 0 \<or> qq_Limit q > maxLimit then maxLimit else qq_Limit q)
      in case sf_Exec fault of
           Some err \<Rightarrow> Inl (StoreError (''store: list requests: '' @ err))
         | None \<Rightarrow>
             (case sf_Result fault of
                Some err \<Rightarrow> Inl (StoreError err)
              | None \<Rightarrow> Inr (map scanRequest (take (nat limit)
                  (sort_key (\<lambda>row. - rw_created_at row) (scan (filter (row_matches q) (rs_rows st))))))))"

definition FindOpenRequest ::
  "sql_fault \<Rightarrow> string \<Rightarrow> string \<Rightarrow> request_store \<Rightarrow> store_error + request" where
  "FindOpenRequest fault m v st =
     (case sf_Exec fault of
        Some err \<Rightarrow> Inl (StoreError err)
      | None \<Rightarrow>
        (case sort_key (\<lambda>row. - rw_id row)
            (filter (\<lambda>row. rw_module row = m \<and> rw_version row = v \<and>
               rw_state row \<notin> {RequestStateIndexed, RequestStateDenied}) (rs_rows st)) of
           [] \<Rightarrow> Inl ErrRequestNotFound
         | row # _ \<Rightarrow> Inr (scanRequest row)))"

definition AnyRequestFor ::
  "sql_fault \<Rightarrow> string \<Rightarrow> string \<Rightarrow> request_store \<Rightarrow> store_error + bool" where
  "AnyRequestFor fault m v st =
     (if m = [] \<or> v = [] then Inr False
      else (case sf_Exec fault of
          Some err \<Rightarrow> Inl (StoreError (''store: probe AnyRequestFor: '' @ err))
        | None \<Rightarrow> Inr (\<exists>row \<in> set (rs_rows st). rw_module row = m \<and> rw_version row = v)))"

text \<open>The SET clauses of a transition.\<close>

definition apply_fields :: "request_fields option \<Rightarrow> request_row \<Rightarrow> request_row" where
  "apply_fields flds row =
     (case flds of None \<Rightarrow> row
      | Some f \<Rightarrow>
        (let row = (if ff_PreflightJSON f \<noteq> [] then row\<lparr>rw_preflight_json := Some (ff_PreflightJSON f)\<rparr> else row);
             row = (if ff_DenialReason f \<noteq> [] then row\<lparr>rw_denial_reason := Some (ff_DenialReason f)\<rparr> else row);
             row = (if ff_FetchedSHA f \<noteq> [] then row\<lparr>rw_fetched_sha := Some (ff_FetchedSHA f)\<rparr> else row);
             row = (if ff_CommittedSHA f \<noteq> [] then row\<lparr>rw_committed_sha := Some (ff_CommittedSHA f)\<rparr> else row)
         in case ff_RetryCount f of None \<Rightarrow> row | Some n \<Rightarrow> row\<lparr>rw_retry_count := n\<rparr>))"

definition TransitionRequest ::
  "sql_fault \<Rightarrow> int \<Rightarrow> int \<Rightarrow> request_state \<Rightarrow> request_state \<Rightarrow> request_fields option \<Rightarrow>
   request_store \<Rightarrow> store_error option \<times> request_store" where
  "TransitionRequest fault now i fromState toState flds st =
     (if \<not> CanTransitionTo fromState toState then (Some (ErrIllegalTransition fromState toState), st)
      else (case sf_Exec fault of
          Some err \<Rightarrow> (Some (StoreError (''store: transition request: '' @ err)), st)
        | None \<Rightarrow>
          (let hit = (\<lambda>row. rw_id row = i \<and> rw_state row = fromState);
               n = length (filter hit (rs_rows st));
               st = st\<lparr>rs_rows := map (\<lambda>row. if hit row
                     then apply_fields flds (row\<lparr>rw_state := toState, rw_state_changed_at := now\<rparr>)
                     else row) (rs_rows st)\<rparr>
           in case sf_Result fault of
                Some err \<Rightarrow> (Some (StoreError (''store: RowsAffected: '' @ err)), st)
              | None \<Rightarrow> (if n = 0 then (Some (ErrStateMismatch i fromState), st) else (None, st)))))"

definition CountOpenRequestsForUser ::
  "sql_fault \<Rightarrow> string \<Rightarrow> request_store \<Rightarrow> store_error + nat" where
  "CountOpenRequestsForUser fault submitterSub st =
     (case sf_Exec fault of
        Some err \<Rightarrow> Inl (StoreError (''store: count open requests for user: '' @ err))
      | None \<Rightarrow> Inr (length (filter (\<lambda>row. rw_submitter_sub row = submitterSub \<and>
          rw_state row \<notin> {RequestStateIndexed, RequestStateDenied}) (rs_rows st))))"

definition ReclaimStuckFetching ::
  "sql_fault \<Rightarrow> int \<Rightarrow> int \<Rightarrow> request_store \<Rightarrow> (store_error + nat) \<times> request_store" where
  "ReclaimStuckFetching fault now before st =
     (case sf_Exec fault of
        Some err \<Rightarrow> (Inl (StoreError (''store: reclaim stuck fetching: '' @ err)), st)
      | None \<Rightarrow>
        (let hit = (\<lambda>row. rw_state row = RequestStateFetching \<and> rw_state_changed_at row < before);
             n = length (filter hit (rs_rows st));
             st = st\<lparr>rs_rows := map (\<lambda>row. if hit row
                   then row\<lparr>rw_state := RequestStateApproved, rw_state_changed_at := now\<rparr> else row) (rs_rows st)\<rparr>
         in case sf_Result fault of
              Some err \<Rightarrow> (Inl (StoreError (''store: RowsAffected: '' @ err)), st)
            | None \<Rightarrow> (Inr n, st)))"

section \<open>The transition graph\<close>

lemma CanTransitionTo_iff:
  "CanTransitionTo s t \<longleftrightarrow>
     (s, t) \<in> {(RequestStatePending, RequestStatePreflighting), (RequestStatePending, RequestStateDenied),
       (RequestStatePreflighting, RequestStateAutoPass), (RequestStatePreflighting, RequestStateNeedsReview),
       (RequestStatePreflighting, RequestStateDenied), (RequestStateNeedsReview, RequestStateApproved),
       (RequestStateNeedsReview, RequestStateDenied), (RequestStateAutoPass, RequestStateFetching),
       (RequestStateApproved, RequestStateFetching), (RequestStateFetching, RequestStateIndexed),
       (RequestStateFetching, RequestStateDenied)}"
  by (cases s; cases t; simp add: CanTransitionTo_def legalTransitions_def)

fun stage :: "request_state \<Rightarrow> nat" where
  "stage RequestStatePending = 0"
| "stage RequestStatePreflighting = 1"
| "stage RequestStateNeedsReview = 2"
| "stage RequestStateAutoPass = 3"
| "stage RequestStateApproved = 3"
| "stage RequestStateFetching = 4"
| "stage _ = 5"

lemma stage_increases: "CanTransitionTo s t \<Longrightarrow> stage s < stage t"
  by (auto simp: CanTransitionTo_iff)

definition known_state :: "request_state \<Rightarrow> bool" where
  "known_state s = (case s of RequestStateOther _ \<Rightarrow> False | _ \<Rightarrow> True)"

lemma IsTerminal_known:
  "known_state s \<Longrightarrow> IsTerminal s \<longleftrightarrow> s = RequestStateIndexed \<or> s = RequestStateDenied"
  by (cases s) (simp_all add: IsTerminal_def legalTransitions_def known_state_def)

lemma IsTerminal_no_exit: "IsTerminal s \<Longrightarrow> \<not> CanTransitionTo s t"
  by (simp add: IsTerminal_def CanTransitionTo_def)

text \<open>
  The transition graph has no cycle and its ends are exactly the two terminals: a request
  state has an outgoing edge if and only if it is not terminal, among the eight states of the
  program the terminals are indexed and denied, and every chain of legal transitions makes at
  most five moves.
\<close>

theorem transition_graph_terminates:
  "(IsTerminal s \<longleftrightarrow> (\<forall>t. \<not> CanTransitionTo s t)) \<and>
   (known_state s \<longrightarrow> (IsTerminal s \<longleftrightarrow> s \<in> {RequestStateIndexed, RequestStateDenied})) \<and>
   (successively CanTransitionTo (s # ss) \<longrightarrow> length ss \<le> 5)"
proof (intro conjI impI)
  show "IsTerminal s \<longleftrightarrow> (\<forall>t. \<not> CanTransitionTo s t)"
    by (cases s) (auto simp: IsTerminal_def CanTransitionTo_def legalTransitions_def)
  show "IsTerminal s \<longleftrightarrow> s \<in> {RequestStateIndexed, RequestStateDenied}" if "known_state s"
    using IsTerminal_known [OF that] by simp
  have "successively CanTransitionTo (s # ss) \<Longrightarrow> stage s + length ss \<le> stage (last (s # ss))"
  proof (induction ss arbitrary: s)
    case (Cons t ss)
    then show ?case using stage_increases [of s t] by fastforce
  qed simp
  moreover have "stage u \<le> 5" for u by (cases u) auto
  ultimately show "length ss \<le> 5" if "successively CanTransitionTo (s # ss)"
    using that by (meson add_leD2 order_trans)
qed

lemma transition_graph_terminates_witness:
  "length [RequestStatePreflighting, RequestStateNeedsReview, RequestStateApproved,
     RequestStateFetching, RequestStateIndexed] \<le> 5 \<and> IsTerminal RequestStateIndexed"
proof -
  let ?ss = "[RequestStatePreflighting, RequestStateNeedsReview, RequestStateApproved,
     RequestStateFetching, RequestStateIndexed]"
  have "successively CanTransitionTo (RequestStatePending # ?ss)" by (simp add: CanTransitionTo_iff)
  then have "length ?ss \<le> 5" using transition_graph_terminates [of RequestStatePending ?ss] by blast
  moreover have "IsTerminal RequestStateIndexed"
    using transition_graph_terminates [of RequestStateIndexed "[]"] unfolding known_state_def by auto
  ultimately show ?thesis by blast
qed

section \<open>The contract of a compare-and-set table\<close>

text \<open>
  What the preflight runner, the admit loop and the handlers rely on: a transition that reports
  success found the request in the state the caller expected and moved only that request along
  a legal edge; one that reports failure changed nothing.
\<close>

fun race ::
  "('e \<Rightarrow> int \<Rightarrow> request_state \<Rightarrow> request_state \<Rightarrow> 's \<Rightarrow> bool \<times> 's) \<Rightarrow>
   ('e \<times> int \<times> request_state \<times> request_state) list \<Rightarrow> 's \<Rightarrow> (int \<times> request_state \<times> bool) list \<times> 's" where
  "race cas [] s = ([], s)"
| "race cas ((e, i, f, t) # cs) s =
     (let (ok, s') = cas e i f t s; (rs, s'') = race cas cs s' in ((i, f, ok) # rs, s''))"

locale cas_table =
  fixes inv :: "'s \<Rightarrow> bool"
    and state_of :: "'s \<Rightarrow> int \<Rightarrow> request_state option"
    and cas :: "'e \<Rightarrow> int \<Rightarrow> request_state \<Rightarrow> request_state \<Rightarrow> 's \<Rightarrow> bool \<times> 's"
  assumes cas_inv: "inv s \<Longrightarrow> cas e i f t s = (ok, s') \<Longrightarrow> inv s'"
    and cas_won: "inv s \<Longrightarrow> cas e i f t s = (True, s') \<Longrightarrow>
      state_of s i = Some f \<and> CanTransitionTo f t \<and> state_of s' = (state_of s)(i \<mapsto> t)"
    and cas_lost: "inv s \<Longrightarrow> cas e i f t s = (False, s') \<Longrightarrow> s' = s"
    and cas_wins: "inv s \<Longrightarrow> state_of s i = Some f \<Longrightarrow> CanTransitionTo f t \<Longrightarrow> \<exists>e s'. cas e i f t s = (True, s')"
begin

lemma stage_mono:
  assumes "inv s" and "cas e i f t s = (ok, s')" and "state_of s k = Some q"
  shows "\<exists>q'. state_of s' k = Some q' \<and> stage q \<le> stage q'"
proof (cases ok)
  case True
  then show ?thesis
    using cas_won [of s e i f t s'] assms stage_increases [of f t] by (cases "k = i") auto
next
  case False
  then show ?thesis using cas_lost [of s e i f t s'] assms by auto
qed

lemma no_return:
  assumes "inv s" and "race cas cs s = (rs, s')" and "state_of s k = Some q" and "stage f < stage q"
  shows "(k, f, True) \<notin> set rs"
  using assms
proof (induction cs arbitrary: s rs q s')
  case (Cons c cs)
  obtain e i g t where c: "c = (e, i, g, t)" by (metis prod_cases4)
  obtain ok s1 where s1: "cas e i g t s = (ok, s1)" by fastforce
  obtain rs1 s2 where rs1: "race cas cs s1 = (rs1, s2)" by fastforce
  have rs: "rs = (i, g, ok) # rs1" using Cons.prems(2) c s1 rs1 by simp
  obtain q' where q': "state_of s1 k = Some q'" "stage q \<le> stage q'"
    using stage_mono [OF Cons.prems(1) s1 Cons.prems(3)] by blast
  have "(k, f, True) \<notin> set rs1"
    using Cons.IH [OF cas_inv [OF Cons.prems(1) s1] rs1 q'(1)] q'(2) Cons.prems(4) by simp
  moreover have "(i, g, ok) \<noteq> (k, f, True)"
    using cas_won [of s e i g t s1] s1 Cons.prems(1,3,4) by auto
  ultimately show ?case by (simp add: rs)
qed auto

lemma one_winner:
  assumes "inv s" and "race cas cs s = (rs, s')"
  shows "length (filter (\<lambda>r. r = (i, f, True)) rs) \<le> 1"
  using assms
proof (induction cs arbitrary: s rs s')
  case (Cons c cs)
  obtain e k g t where c: "c = (e, k, g, t)" by (metis prod_cases4)
  obtain ok s1 where s1: "cas e k g t s = (ok, s1)" by fastforce
  obtain rs1 s2 where rs1: "race cas cs s1 = (rs1, s2)" by fastforce
  have rs: "rs = (k, g, ok) # rs1" using Cons.prems(2) c s1 rs1 by simp
  have inv1: "inv s1" by (rule cas_inv [OF Cons.prems(1) s1])
  show ?case
  proof (cases "(k, g, ok) = (i, f, True)")
    case True
    then have "state_of s1 i = Some t" "stage f < stage t"
      using cas_won [of s e k g t s1] s1 Cons.prems(1) stage_increases by auto
    then have "(i, f, True) \<notin> set rs1" using no_return [OF inv1 rs1] by blast
    then have "filter (\<lambda>r. r = (i, f, True)) rs1 = []" by (auto simp: filter_empty_conv)
    then show ?thesis by (simp add: rs True)
  next
    case False
    then show ?thesis using Cons.IH [OF inv1 rs1] by (auto simp: rs)
  qed
qed auto

end

section \<open>The table invariant\<close>

text \<open>
  Row ids are distinct, positive, ascending and within the counter; the required columns are
  not empty, and every state is one of the program's eight.
\<close>

definition row_ok :: "request_row \<Rightarrow> bool" where
  "row_ok row \<longleftrightarrow> rw_submitter_sub row \<noteq> [] \<and> rw_auth_method row \<noteq> [] \<and> rw_module row \<noteq> [] \<and>
     rw_version row \<noteq> [] \<and> known_state (rw_state row)"

definition store_ok :: "request_store \<Rightarrow> bool" where
  "store_ok st \<longleftrightarrow> sorted_wrt (<) (map rw_id (rs_rows st)) \<and> 0 \<le> rs_seq st \<and>
     (\<forall>row \<in> set (rs_rows st). 0 < rw_id row \<and> rw_id row \<le> rs_seq st \<and> row_ok row)"

definition empty_store :: request_store where
  "empty_store = \<lparr>rs_rows = [], rs_seq = 0\<rparr>"

definition row_of :: "request_store \<Rightarrow> int \<Rightarrow> request_row option" where
  "row_of st i = find (\<lambda>row. rw_id row = i) (rs_rows st)"

definition state_of :: "request_store \<Rightarrow> int \<Rightarrow> request_state option" where
  "state_of st i = map_option rw_state (row_of st i)"

lemma store_ok_empty [simp]: "store_ok empty_store"
  by (simp add: store_ok_def empty_store_def)

lemma row_of_in: "row_of st i = Some row \<Longrightarrow> row \<in> set (rs_rows st) \<and> rw_id row = i"
  by (auto simp: row_of_def find_Some_iff)

lemma store_ok_distinct: "store_ok st \<Longrightarrow> distinct (map rw_id (rs_rows st))"
  by (simp add: store_ok_def strict_sorted_iff)

lemma row_of_iff:
  assumes "distinct (map rw_id (rs_rows st))"
  shows "row_of st i = Some row \<longleftrightarrow> row \<in> set (rs_rows st) \<and> rw_id row = i"
proof
  assume r: "row \<in> set (rs_rows st) \<and> rw_id row = i"
  then have "row_of st i \<noteq> None" by (auto simp: row_of_def find_None_iff)
  then obtain row' where row': "row_of st i = Some row'" by blast
  have "inj_on rw_id (set (rs_rows st))" using assms by (simp add: distinct_map)
  then have "row' = row" using row_of_in [OF row'] r by (simp add: inj_on_def)
  then show "row_of st i = Some row" using row' by simp
qed (rule row_of_in)

text \<open>An update that rewrites rows in place without touching their ids.\<close>

lemma row_of_map:
  assumes "\<And>row. rw_id (g row) = rw_id row"
  shows "row_of (st\<lparr>rs_rows := map g (rs_rows st)\<rparr>) i = map_option g (row_of st i)"
proof -
  have "find (\<lambda>row. rw_id row = i) (map g rows) = map_option g (find (\<lambda>row. rw_id row = i) rows)" for rows
    by (induction rows) (auto simp: assms)
  then show ?thesis by (simp add: row_of_def)
qed

lemma store_ok_map:
  assumes "store_ok st" and "\<And>row. rw_id (g row) = rw_id row"
    and "\<And>row. row \<in> set (rs_rows st) \<Longrightarrow> row_ok row \<Longrightarrow> row_ok (g row)"
  shows "store_ok (st\<lparr>rs_rows := map g (rs_rows st)\<rparr>)"
  using assms by (simp add: store_ok_def comp_def)

lemma apply_fields_simps [simp]:
  "rw_id (apply_fields flds row) = rw_id row"
  "rw_state (apply_fields flds row) = rw_state row"
  "rw_submitter_sub (apply_fields flds row) = rw_submitter_sub row"
  "rw_auth_method (apply_fields flds row) = rw_auth_method row"
  "rw_module (apply_fields flds row) = rw_module row"
  "rw_version (apply_fields flds row) = rw_version row"
  "rw_created_at (apply_fields flds row) = rw_created_at row"
  "rw_state_changed_at (apply_fields flds row) = rw_state_changed_at row"
  "rw_source_url (apply_fields flds row) = rw_source_url row"
  by (simp_all add: apply_fields_def Let_def split: option.splits)

section \<open>Transitions\<close>

definition moved :: "int \<Rightarrow> request_state \<Rightarrow> request_fields option \<Rightarrow> request_row \<Rightarrow> request_row" where
  "moved now t flds row = apply_fields flds (row\<lparr>rw_state := t, rw_state_changed_at := now\<rparr>)"

lemma moved_simps [simp]:
  "rw_id (moved now t flds row) = rw_id row" "rw_state (moved now t flds row) = t"
  "rw_state_changed_at (moved now t flds row) = now" "rw_created_at (moved now t flds row) = rw_created_at row"
  "rw_submitter_sub (moved now t flds row) = rw_submitter_sub row"
  "rw_module (moved now t flds row) = rw_module row" "rw_version (moved now t flds row) = rw_version row"
  "rw_auth_method (moved now t flds row) = rw_auth_method row"
  "rw_source_url (moved now t flds row) = rw_source_url row"
  by (simp_all add: moved_def)

lemma row_ok_moved: "row_ok row \<Longrightarrow> known_state t \<Longrightarrow> row_ok (moved now t flds row)"
  by (simp add: row_ok_def)

lemma CanTransitionTo_known: "CanTransitionTo f t \<Longrightarrow> known_state f \<and> known_state t"
  by (auto simp: CanTransitionTo_iff known_state_def)

abbreviation hits :: "int \<Rightarrow> request_state \<Rightarrow> request_row \<Rightarrow> bool" where
  "hits i f row \<equiv> rw_id row = i \<and> rw_state row = f"

lemma no_hit_iff:
  assumes "store_ok st"
  shows "filter (hits i f) (rs_rows st) = [] \<longleftrightarrow> state_of st i \<noteq> Some f"
  using row_of_iff [OF store_ok_distinct [OF assms]]
  by (auto simp: state_of_def filter_empty_conv)

lemma map_no_hit:
  assumes "filter (hits i f) rows = []"
  shows "map (\<lambda>row. if hits i f row then g row else row) rows = rows"
  using assms by (intro map_idI) (auto simp: filter_empty_conv)

lemma TransitionRequest_cases:
  assumes "store_ok st"
  shows "TransitionRequest fault now i f t flds st =
    (if \<not> CanTransitionTo f t then (Some (ErrIllegalTransition f t), st)
     else case sf_Exec fault of
       Some err \<Rightarrow> (Some (StoreError (''store: transition request: '' @ err)), st)
     | None \<Rightarrow>
       (let st' = (if state_of st i = Some f
                   then st\<lparr>rs_rows := map (\<lambda>row. if hits i f row then moved now t flds row else row) (rs_rows st)\<rparr>
                   else st)
        in case sf_Result fault of
             Some err \<Rightarrow> (Some (StoreError (''store: RowsAffected: '' @ err)), st')
           | None \<Rightarrow> if state_of st i = Some f then (None, st') else (Some (ErrStateMismatch i f), st')))"
proof -
  have "st\<lparr>rs_rows := map (\<lambda>row. if hits i f row then g row else row) (rs_rows st)\<rparr> = st"
    if "state_of st i \<noteq> Some f" for g
    using map_no_hit [of i f "rs_rows st"] no_hit_iff [OF assms] that by simp
  then show ?thesis
    using no_hit_iff [OF assms, of i f]
    by (auto simp: TransitionRequest_def moved_def [symmetric] Let_def split: option.splits)
qed

lemma row_of_transition:
  assumes "store_ok st" and "row_of st i = Some row" and "rw_state row = f"
  shows "row_of (st\<lparr>rs_rows := map (\<lambda>row. if hits i f row then moved now t flds row else row) (rs_rows st)\<rparr>) =
     (row_of st)(i \<mapsto> moved now t flds row)"
proof
  fix k
  show "row_of (st\<lparr>rs_rows := map (\<lambda>row. if hits i f row then moved now t flds row else row) (rs_rows st)\<rparr>) k =
     ((row_of st)(i \<mapsto> moved now t flds row)) k"
    using assms row_of_in [of st k] by (subst row_of_map) (cases "row_of st k"; auto)+
qed

lemma store_ok_transition:
  assumes "store_ok st" and "CanTransitionTo f t"
  shows "store_ok (st\<lparr>rs_rows := map (\<lambda>row. if hits i f row then moved now t flds row else row) (rs_rows st)\<rparr>)"
  using assms CanTransitionTo_known by (intro store_ok_map) (auto intro: row_ok_moved)

lemma TransitionRequest_ok:
  assumes "store_ok st" and "TransitionRequest fault now i f t flds st = (e, st')"
  shows "store_ok st'"
  using assms store_ok_transition
  by (auto simp: TransitionRequest_cases Let_def split: if_splits option.splits)

lemma TransitionRequest_success:
  assumes "store_ok st" and "TransitionRequest fault now i f t flds st = (None, st')"
  obtains row where "row_of st i = Some row" "rw_state row = f" "CanTransitionTo f t"
    "row_of st' = (row_of st)(i \<mapsto> moved now t flds row)" "rs_seq st' = rs_seq st"
proof -
  from assms have f: "state_of st i = Some f" "CanTransitionTo f t"
    and st': "st' = st\<lparr>rs_rows := map (\<lambda>row. if hits i f row then moved now t flds row else row) (rs_rows st)\<rparr>"
    by (auto simp: TransitionRequest_cases Let_def split: if_splits option.splits)
  from f(1) obtain row where "row_of st i = Some row" "rw_state row = f" by (auto simp: state_of_def)
  with row_of_transition [OF assms(1) this] f(2) show thesis by (intro that) (auto simp: st')
qed

lemma TransitionRequest_failure:
  assumes "store_ok st" and "TransitionRequest fault now i f t flds st = (Some e, st')"
    and "sf_Result fault = None"
  shows "st' = st"
  using assms by (auto simp: TransitionRequest_cases Let_def split: if_splits option.splits)

text \<open>The compare-and-set view of a transition: did it return nil.\<close>

definition transition_cas ::
  "(string option \<times> int \<times> request_fields option) \<Rightarrow> int \<Rightarrow> request_state \<Rightarrow> request_state \<Rightarrow>
   request_store \<Rightarrow> bool \<times> request_store" where
  "transition_cas env i f t st =
     (case env of (exec_fault, now, flds) \<Rightarrow>
        (case TransitionRequest \<lparr>sf_Exec = exec_fault, sf_Result = None\<rparr> now i f t flds st of
           (err, st') \<Rightarrow> (err = None, st')))"

lemma transition_cas_won:
  assumes "store_ok st" and "transition_cas env i f t st = (True, st')"
  shows "state_of st i = Some f \<and> CanTransitionTo f t \<and> state_of st' = (state_of st)(i \<mapsto> t)"
proof -
  obtain x now flds where env: "env = (x, now, flds)" by (metis prod_cases3)
  then have "TransitionRequest \<lparr>sf_Exec = x, sf_Result = None\<rparr> now i f t flds st = (None, st')"
    using assms(2) by (auto simp: transition_cas_def split: prod.splits)
  then show ?thesis
    by (rule TransitionRequest_success [OF assms(1)]) (auto simp: state_of_def fun_eq_iff)
qed

interpretation req: cas_table store_ok state_of transition_cas
proof
  fix s s' :: request_store and env i f t ok
  assume ok: "store_ok s"
  show "store_ok s'" if "transition_cas env i f t s = (ok, s')"
    using that TransitionRequest_ok [OF ok] by (auto simp: transition_cas_def split: prod.splits)
  show "state_of s i = Some f \<and> CanTransitionTo f t \<and> state_of s' = (state_of s)(i \<mapsto> t)"
    if "transition_cas env i f t s = (True, s')"
    by (rule transition_cas_won [OF ok that])
  show "s' = s" if "transition_cas env i f t s = (False, s')"
    using that TransitionRequest_failure [OF ok] by (auto simp: transition_cas_def split: prod.splits)
  show "\<exists>env s'. transition_cas env i f t s = (True, s')" if "state_of s i = Some f" "CanTransitionTo f t"
    using that by (intro exI [of _ "(None, 0, None)"])
      (simp add: transition_cas_def TransitionRequest_cases [OF ok])
qed

text \<open>
  C1: a transition succeeds exactly when the edge is legal, the statement runs, and the request
  is in the expected state. It then rewrites that one row: new state and stamp, the non-empty
  optional columns, every other column and every other request as before. In all other cases
  the table is unchanged and the error says which of the three conditions failed.
\<close>

theorem TransitionRequest_exact:
  assumes "store_ok st" and "sf_Result fault = None"
    and "TransitionRequest fault now i f t flds st = (e, st')"
  shows "(e = None \<longleftrightarrow> CanTransitionTo f t \<and> sf_Exec fault = None \<and> state_of st i = Some f) \<and>
    (e = None \<longrightarrow> row_of st' = (row_of st)(i \<mapsto> moved now t flds (the (row_of st i)))) \<and>
    (e \<noteq> None \<longrightarrow> st' = st) \<and>
    (e = Some (ErrIllegalTransition f t) \<longleftrightarrow> \<not> CanTransitionTo f t) \<and>
    (e = Some (ErrStateMismatch i f) \<longleftrightarrow>
       CanTransitionTo f t \<and> sf_Exec fault = None \<and> state_of st i \<noteq> Some f)"
proof -
  have "row_of st' = (row_of st)(i \<mapsto> moved now t flds (the (row_of st i)))" if "e = None"
    using TransitionRequest_success [OF assms(1)] assms(3) that by (metis option.sel)
  moreover have "st' = st" if "e \<noteq> None"
    using TransitionRequest_failure [OF assms(1)] assms(2,3) that by blast
  ultimately show ?thesis
    using assms by (auto simp: TransitionRequest_cases Let_def split: if_splits option.splits)
qed

definition one_request :: request_store where
  "one_request = \<lparr>rs_rows = [\<lparr>rw_id = 1, rw_submitter_sub = ''alice'', rw_submitter_email = None,
     rw_auth_method = ''bearer'', rw_module = ''zlib'', rw_version = ''1.3'', rw_source_url = None,
     rw_submitter_notes = None, rw_state = RequestStatePending, rw_state_changed_at = 5, rw_created_at = 5,
     rw_preflight_json = None, rw_denial_reason = None, rw_fetched_sha = None, rw_committed_sha = None,
     rw_retry_count = 0\<rparr>], rs_seq = 1\<rparr>"

lemma store_ok_one_request: "store_ok one_request"
  by (simp add: store_ok_def one_request_def row_ok_def known_state_def)

lemma TransitionRequest_exact_witness:
  "snd (TransitionRequest no_fault 9 1 RequestStatePending RequestStateFetching None one_request) = one_request \<and>
   state_of (snd (TransitionRequest no_fault 9 1 RequestStatePending RequestStatePreflighting None one_request)) 1
     = Some RequestStatePreflighting"
proof -
  let ?bad = "TransitionRequest no_fault 9 1 RequestStatePending RequestStateFetching None one_request"
  let ?good = "TransitionRequest no_fault 9 1 RequestStatePending RequestStatePreflighting None one_request"
  have r: "sf_Result no_fault = None" "sf_Exec no_fault = None" by (simp_all add: no_fault_def)
  have st: "state_of one_request 1 = Some RequestStatePending"
    by (simp add: state_of_def row_of_def one_request_def)
  have "snd ?bad = one_request"
    using TransitionRequest_exact [OF store_ok_one_request r(1), of 9 1 RequestStatePending RequestStateFetching
        None "fst ?bad" "snd ?bad"] by (auto simp: CanTransitionTo_iff)
  moreover have "fst ?good = None \<and> row_of (snd ?good) 1 =
      Some (moved 9 RequestStatePreflighting None (the (row_of one_request 1)))"
    using TransitionRequest_exact [OF store_ok_one_request r(1), of 9 1 RequestStatePending RequestStatePreflighting
        None "fst ?good" "snd ?good"] st r(2) by (auto simp: CanTransitionTo_iff)
  ultimately show ?thesis by (simp add: state_of_def)
qed

text \<open>
  C3: in any interleaving of transitions, issued by any number of workers with any arguments, at
  most one of those that expect request \<open>i\<close> in state \<open>f\<close> succeeds: no two workers ever own the
  same step of a request.
\<close>

theorem TransitionRequest_one_winner:
  assumes "store_ok st"
  shows "length (filter (\<lambda>r. r = (i, f, True)) (fst (race transition_cas claims st))) \<le> 1"
  by (rule req.one_winner [OF assms, of claims _ "snd (race transition_cas claims st)"]) simp

lemma TransitionRequest_one_winner_witness:
  "let claim = ((None, 7, None), 1, RequestStatePending, RequestStatePreflighting)
   in fst (race transition_cas [claim, claim] one_request) =
        [(1, RequestStatePending, True), (1, RequestStatePending, False)] \<and>
      length (filter (\<lambda>r. r = (1, RequestStatePending, True))
        (fst (race transition_cas [claim, claim] one_request))) \<le> 1"
proof -
  let ?claim = "((None, 7, None), 1, RequestStatePending, RequestStatePreflighting)"
  have "fst (race transition_cas [?claim, ?claim] one_request) =
        [(1, RequestStatePending, True), (1, RequestStatePending, False)]"
    by code_simp
  moreover have "length (filter (\<lambda>r. r = (1, RequestStatePending, True))
        (fst (race transition_cas [?claim, ?claim] one_request))) \<le> 1"
    by (rule TransitionRequest_one_winner [OF store_ok_one_request])
  ultimately show ?thesis by (simp add: Let_def)
qed

section \<open>Creating and reading back\<close>

definition trimmed :: "request \<Rightarrow> request" where
  "trimmed r = r\<lparr>rq_SubmitterSub := trim_space (rq_SubmitterSub r), rq_Module := trim_space (rq_Module r),
     rq_Version := trim_space (rq_Version r), rq_AuthMethod := trim_space (rq_AuthMethod r)\<rparr>"

definition required_fields :: "request \<Rightarrow> bool" where
  "required_fields r \<longleftrightarrow> rq_SubmitterSub r \<noteq> [] \<and> rq_AuthMethod r \<noteq> [] \<and> rq_Module r \<noteq> [] \<and> rq_Version r \<noteq> []"

lemma scan_inserted_row:
  "scanRequest (inserted_row now i r) = r\<lparr>rq_ID := i, rq_State := RequestStatePending,
     rq_StateChangedAt := now, rq_CreatedAt := now, rq_PreflightJSON := [], rq_DenialReason := [],
     rq_FetchedSHA := [], rq_CommittedSHA := [], rq_RetryCount := 0\<rparr>"
  by (simp add: scanRequest_def inserted_row_def nullableString_def)

lemma CreateRequest_cases:
  "CreateRequest fault now r st = (res, st') \<Longrightarrow>
     (st' = st \<and> isl res) \<or>
     (required_fields (trimmed r) \<and> sf_Exec fault = None \<and>
      st' = \<lparr>rs_rows = rs_rows st @ [inserted_row now (rs_seq st + 1) (trimmed r)], rs_seq = rs_seq st + 1\<rparr> \<and>
      (sf_Result fault = None \<longrightarrow> res = Inr (rs_seq st + 1)) \<and> (\<forall>i. res = Inr i \<longrightarrow> i = rs_seq st + 1))"
  unfolding CreateRequest_def trimmed_def [symmetric] required_fields_def Let_def
  by (auto split: if_splits option.splits)

lemma CreateRequest_accepts:
  assumes "required_fields (trimmed r)" and "sf_Exec fault = None" and "sf_Result fault = None"
  shows "CreateRequest fault now r st =
     (Inr (rs_seq st + 1),
      \<lparr>rs_rows = rs_rows st @ [inserted_row now (rs_seq st + 1) (trimmed r)], rs_seq = rs_seq st + 1\<rparr>)"
  using assms unfolding CreateRequest_def trimmed_def [symmetric] required_fields_def Let_def by simp

lemma CreateRequest_rejects:
  assumes "\<not> required_fields (trimmed r)"
  shows "\<exists>err. CreateRequest fault now r st = (Inl (StoreError err), st)"
  using assms unfolding CreateRequest_def trimmed_def [symmetric] required_fields_def Let_def by auto

lemma store_ok_insert:
  assumes "store_ok st" and "required_fields r"
  shows "store_ok \<lparr>rs_rows = rs_rows st @ [inserted_row now (rs_seq st + 1) r], rs_seq = rs_seq st + 1\<rparr>"
  using assms
  by (fastforce simp: store_ok_def sorted_wrt_append inserted_row_def row_ok_def required_fields_def known_state_def)

lemma row_of_insert:
  assumes "store_ok st"
  shows "row_of \<lparr>rs_rows = rs_rows st @ [inserted_row now (rs_seq st + 1) r], rs_seq = q\<rparr> =
     (row_of st)(rs_seq st + 1 \<mapsto> inserted_row now (rs_seq st + 1) r)"
proof
  fix k
  have "find (\<lambda>row. rw_id row = rs_seq st + 1) (rs_rows st) = None"
    using assms by (force simp: find_None_iff store_ok_def)
  then show "row_of \<lparr>rs_rows = rs_rows st @ [inserted_row now (rs_seq st + 1) r], rs_seq = q\<rparr> k =
     ((row_of st)(rs_seq st + 1 \<mapsto> inserted_row now (rs_seq st + 1) r)) k"
    by (auto simp: row_of_def find_append_iff inserted_row_def split: option.splits)
qed

lemma GetRequest_row: "GetRequest fault i st =
   (case sf_Exec fault of Some err \<Rightarrow> Inl (StoreError err)
    | None \<Rightarrow> (case row_of st i of None \<Rightarrow> Inl ErrRequestNotFound | Some row \<Rightarrow> Inr (scanRequest row)))"
  by (simp add: GetRequest_def row_of_def split: option.splits)

text \<open>
  A request with its four required fields is stored and read back: the new id was unused,
  reading it returns the submitted request with those fields trimmed, in state pending with
  both stamps at the current time and no preflight, denial, digest or retry data; every other
  request is untouched. A request that lacks one of them is refused and nothing is stored.
\<close>

theorem CreateRequest_roundtrip:
  assumes "store_ok st"
  shows "(required_fields (trimmed r) \<longrightarrow>
      (\<exists>i st'. CreateRequest no_fault now r st = (Inr i, st') \<and> row_of st i = None \<and> store_ok st' \<and>
         GetRequest no_fault i st' = Inr ((trimmed r)\<lparr>rq_ID := i, rq_State := RequestStatePending,
           rq_StateChangedAt := now, rq_CreatedAt := now, rq_PreflightJSON := [], rq_DenialReason := [],
           rq_FetchedSHA := [], rq_CommittedSHA := [], rq_RetryCount := 0\<rparr>) \<and>
         (\<forall>k. k \<noteq> i \<longrightarrow> GetRequest no_fault k st' = GetRequest no_fault k st))) \<and>
    (\<not> required_fields (trimmed r) \<longrightarrow>
      (\<exists>err. CreateRequest no_fault now r st = (Inl (StoreError err), st)))"
proof -
  have nf: "sf_Exec no_fault = None" "sf_Result no_fault = None" by (simp_all add: no_fault_def)
  have fresh: "row_of st (rs_seq st + 1) = None"
    using assms row_of_in [of st "rs_seq st + 1"] by (cases "row_of st (rs_seq st + 1)") (auto simp: store_ok_def)
  have "\<exists>i st'. CreateRequest no_fault now r st = (Inr i, st') \<and> row_of st i = None \<and> store_ok st' \<and>
         GetRequest no_fault i st' = Inr ((trimmed r)\<lparr>rq_ID := i, rq_State := RequestStatePending,
           rq_StateChangedAt := now, rq_CreatedAt := now, rq_PreflightJSON := [], rq_DenialReason := [],
           rq_FetchedSHA := [], rq_CommittedSHA := [], rq_RetryCount := 0\<rparr>) \<and>
         (\<forall>k. k \<noteq> i \<longrightarrow> GetRequest no_fault k st' = GetRequest no_fault k st)"
    if "required_fields (trimmed r)"
    unfolding CreateRequest_accepts [OF that nf] GetRequest_row nf
    using fresh store_ok_insert [OF assms that] row_of_insert [OF assms] by (simp add: scan_inserted_row)
  then show ?thesis using CreateRequest_rejects by blast
qed

definition alice_request :: request where
  "alice_request = \<lparr>rq_ID = 0, rq_SubmitterSub = ''alice '', rq_SubmitterEmail = [], rq_AuthMethod = ''bearer'',
     rq_Module = '' zlib'', rq_Version = ''1.3'', rq_SourceURL = [], rq_SubmitterNotes = [],
     rq_State = RequestStateOther [], rq_StateChangedAt = 0, rq_CreatedAt = 0, rq_PreflightJSON = [],
     rq_DenialReason = [], rq_FetchedSHA = [], rq_CommittedSHA = [], rq_RetryCount = 0\<rparr>"

lemma CreateRequest_roundtrip_witness:
  "\<exists>i st' r. CreateRequest no_fault 5 alice_request empty_store = (Inr i, st') \<and>
     GetRequest no_fault i st' = Inr r \<and> rq_Module r = ''zlib'' \<and> rq_SubmitterSub r = ''alice'' \<and>
     rq_State r = RequestStatePending"
proof -
  have t: "required_fields (trimmed alice_request)" "rq_Module (trimmed alice_request) = ''zlib''"
    "rq_SubmitterSub (trimmed alice_request) = ''alice''" by code_simp+
  show ?thesis
    using CreateRequest_roundtrip [OF store_ok_empty, of alice_request 5] t by fastforce
qed

section \<open>Executions of the table\<close>

text \<open>
  A step of the table is any call of an operation that writes it, with any arguments, clock and
  statement outcome. The ghost history of a request lists its states, latest first.
\<close>

inductive table_step :: "request_store \<Rightarrow> request_store \<Rightarrow> bool" where
  create: "CreateRequest fault now r st = (res, st') \<Longrightarrow> table_step st st'"
| transition: "TransitionRequest fault now i f t flds st = (err, st') \<Longrightarrow> table_step st st'"
| reclaim: "ReclaimStuckFetching fault now before st = (res, st') \<Longrightarrow> table_step st st'"

inductive_cases table_stepE: "table_step st st'"

text \<open>What one step can do to one row: nothing, a legal move, or the recovery of a stuck fetch.\<close>

inductive row_step :: "request_row \<Rightarrow> request_row \<Rightarrow> bool" where
  stay: "row_step row row"
| legal: "CanTransitionTo (rw_state row) t \<Longrightarrow> row_step row (moved now t flds row)"
| recover: "rw_state row = RequestStateFetching \<Longrightarrow>
     row_step row (row\<lparr>rw_state := RequestStateApproved, rw_state_changed_at := now\<rparr>)"

lemma Reclaim_result:
  "ReclaimStuckFetching fault now before st = (res, st') \<Longrightarrow>
   st' = st \<or> st' = st\<lparr>rs_rows := map (\<lambda>row. if rw_state row = RequestStateFetching \<and> rw_state_changed_at row < before
       then row\<lparr>rw_state := RequestStateApproved, rw_state_changed_at := now\<rparr> else row) (rs_rows st)\<rparr>"
  by (auto simp: ReclaimStuckFetching_def Let_def split: option.splits)

lemma table_step_ok:
  assumes "table_step st st'" and "store_ok st"
  shows "store_ok st'"
  using assms(1)
proof cases
  case (create fault now r res)
  then show ?thesis using CreateRequest_cases [OF create] store_ok_insert assms(2) by auto
next
  case (transition fault now i f t flds err)
  then show ?thesis using TransitionRequest_ok assms(2) by blast
next
  case (reclaim fault now before res)
  then show ?thesis
    using Reclaim_result [OF reclaim] assms(2)
    by (auto intro!: store_ok_map simp: row_ok_def known_state_def)
qed

lemma row_id_bound: "store_ok st \<Longrightarrow> row_of st i = Some row \<Longrightarrow> i \<le> rs_seq st"
  using row_of_in [of st i row] by (auto simp: store_ok_def)

lemma table_step_row:
  assumes "table_step st st'" and "store_ok st" and "row_of st i = Some row"
  shows "\<exists>row'. row_of st' i = Some row' \<and> row_step row row'"
  using assms(1)
proof cases
  case (create fault now r res)
  then show ?thesis
    using CreateRequest_cases [OF create] row_of_insert [OF assms(2)] assms(3) row_id_bound [OF assms(2,3)]
    by (auto intro: row_step.stay)
next
  case (transition fault now k f t flds err)
  then have "st' = st \<or> (CanTransitionTo f t \<and> state_of st k = Some f \<and>
      st' = st\<lparr>rs_rows := map (\<lambda>row. if hits k f row then moved now t flds row else row) (rs_rows st)\<rparr>)"
    using assms(2) by (auto simp: TransitionRequest_cases Let_def split: if_splits option.splits)
  then show ?thesis
    using assms(3) by (auto simp: row_of_map intro: row_step.stay row_step.legal)
next
  case (reclaim fault now before res)
  then show ?thesis
    using Reclaim_result [OF reclaim] assms(3) by (auto simp: row_of_map intro: row_step.stay row_step.recover)
qed

lemma table_step_new:
  assumes "table_step st st'" and "store_ok st" and "row_of st i = None" and "row_of st' i = Some row'"
  shows "rw_state row' = RequestStatePending"
  using assms(1)
proof cases
  case (create fault now r res)
  then show ?thesis
    using CreateRequest_cases [OF create] row_of_insert [OF assms(2)] assms(3,4)
    by (auto simp: inserted_row_def split: if_splits)
next
  case (transition fault now k f t flds err)
  then show ?thesis
    using assms(2,3,4) by (auto simp: TransitionRequest_cases Let_def row_of_map split: if_splits option.splits)
next
  case (reclaim fault now before res)
  then show ?thesis
    using Reclaim_result [OF reclaim] assms(3,4) by (auto simp: row_of_map)
qed

lemma terminal_row_stays:
  "row_step row row' \<Longrightarrow> rw_state row = RequestStateIndexed \<or> rw_state row = RequestStateDenied \<Longrightarrow> row' = row"
  by (induction rule: row_step.induct) (auto simp: CanTransitionTo_iff)

text \<open>
  The two terminal states are final: once a request is indexed or denied, no sequence of
  operations on the table, the recovery sweep included, changes any column of its row.
\<close>

theorem terminal_requests_final:
  assumes "table_step\<^sup>*\<^sup>* st st'" and "store_ok st" and "row_of st i = Some row"
    and "rw_state row \<in> {RequestStateIndexed, RequestStateDenied}"
  shows "row_of st' i = Some row"
proof -
  from assms(1) have "store_ok st' \<and> row_of st' i = Some row"
  proof (induction rule: rtranclp_induct)
    case (step y z)
    then show ?case
      using table_step_ok [of y z] table_step_row [of y z i row] terminal_row_stays [of row] assms(4) by fastforce
  qed (use assms in simp)
  then show ?thesis by simp
qed

definition denied_request :: request_store where
  "denied_request = one_request\<lparr>rs_rows := map (\<lambda>row. row\<lparr>rw_state := RequestStateDenied\<rparr>) (rs_rows one_request)\<rparr>"

lemma terminal_requests_final_witness:
  "row_of (snd (ReclaimStuckFetching no_fault 9 8 denied_request)) 1 = Some (hd (rs_rows denied_request))"
proof -
  have step: "table_step denied_request (snd (ReclaimStuckFetching no_fault 9 8 denied_request))"
    by (rule table_step.reclaim [OF prod.collapse [symmetric]])
  have ok: "store_ok denied_request"
    by (simp add: store_ok_def denied_request_def one_request_def row_ok_def known_state_def)
  have row: "row_of denied_request 1 = Some (hd (rs_rows denied_request))"
    "rw_state (hd (rs_rows denied_request)) \<in> {RequestStateIndexed, RequestStateDenied}"
    by (simp_all add: denied_request_def one_request_def row_of_def)
  show ?thesis
    by (rule terminal_requests_final [OF r_into_rtranclp [where r = table_step, OF step] ok row])
qed

inductive observed :: "request_store \<Rightarrow> (int \<Rightarrow> request_state list) \<Rightarrow> bool" where
  start: "observed empty_store (\<lambda>_. [])"
| step: "observed st h \<Longrightarrow> table_step st st' \<Longrightarrow>
     observed st' (\<lambda>i. case state_of st' i of
        None \<Rightarrow> h i | Some s \<Rightarrow> if h i \<noteq> [] \<and> hd (h i) = s then h i else s # h i)"

inductive life :: "request_state list \<Rightarrow> bool" where
  born: "life [RequestStatePending]"
| move: "life (s # ss) \<Longrightarrow> CanTransitionTo s t \<Longrightarrow> life (t # s # ss)"
| redo: "life (RequestStateFetching # ss) \<Longrightarrow> life (RequestStateApproved # RequestStateFetching # ss)"

lemma observed_inv:
  assumes "observed st h"
  shows "store_ok st \<and> (\<forall>i. case state_of st i of None \<Rightarrow> h i = [] | Some s \<Rightarrow> life (h i) \<and> hd (h i) = s)"
  using assms
proof induction
  case start
  then show ?case by (simp add: state_of_def row_of_def empty_store_def store_ok_def)
next
  case (step st h st')
  let ?h = "\<lambda>i. case state_of st' i of
        None \<Rightarrow> h i | Some s \<Rightarrow> if h i \<noteq> [] \<and> hd (h i) = s then h i else s # h i"
  have ok: "store_ok st" using step.IH by simp
  have "case state_of st' i of None \<Rightarrow> ?h i = [] | Some s \<Rightarrow> life (?h i) \<and> hd (?h i) = s" for i
  proof (cases "row_of st i")
    case None
    then have hi: "h i = []" using step.IH by (auto simp: state_of_def split: option.splits dest: spec [of _ i])
    then show ?thesis
      using table_step_new [OF step.hyps(2) ok None]
      by (cases "row_of st' i") (auto simp: state_of_def intro: life.born)
  next
    case (Some row)
    obtain row' where row': "row_of st' i = Some row'" "row_step row row'"
      using table_step_row [OF step.hyps(2) ok Some] by blast
    have l: "life (h i)" "hd (h i) = rw_state row"
      using step.IH Some by (auto simp: state_of_def dest: spec [of _ i])
    then obtain ss where hi: "h i = rw_state row # ss" by (cases "h i") (auto elim: life.cases)
    show ?thesis
      using row'(2)
      by cases (use l row' hi in \<open>auto simp: state_of_def intro: life.intros\<close>)
  qed
  then show ?case using table_step_ok [OF step.hyps(2) ok] by blast
qed

lemma life_facts:
  "life ss \<Longrightarrow>
     (hd ss \<notin> {RequestStatePending, RequestStateDenied} \<longrightarrow> RequestStatePreflighting \<in> set ss) \<and>
     (hd ss \<in> {RequestStateAutoPass, RequestStateApproved, RequestStateFetching, RequestStateIndexed} \<longrightarrow>
        RequestStateAutoPass \<in> set ss \<or> RequestStateNeedsReview \<in> set ss \<and> RequestStateApproved \<in> set ss) \<and>
     (hd ss = RequestStateIndexed \<longrightarrow> RequestStateFetching \<in> set ss)"
  by (induction rule: life.induct) (auto simp: CanTransitionTo_iff)


text \<open>One request taken through its whole life, for the witness.\<close>

definition life_moves :: "(request_state \<times> request_state) list" where
  "life_moves = [(RequestStatePending, RequestStatePreflighting), (RequestStatePreflighting, RequestStateAutoPass),
     (RequestStateAutoPass, RequestStateFetching), (RequestStateFetching, RequestStateIndexed)]"

definition run_moves :: "(request_state \<times> request_state) list \<Rightarrow> request_store \<Rightarrow> request_store" where
  "run_moves ms st = fold (\<lambda>(f, t) st. snd (TransitionRequest no_fault 7 1 f t None st)) ms st"

lemma observed_moves: "observed st h \<Longrightarrow> \<exists>h'. observed (run_moves ms st) h'"
proof (induction ms arbitrary: st h)
  case Nil
  then show ?case by (auto simp: run_moves_def)
next
  case (Cons m ms)
  obtain f t where m: "m = (f, t)" by fastforce
  have "table_step st (snd (TransitionRequest no_fault 7 1 f t None st))"
    by (rule table_step.transition [OF prod.collapse [symmetric]])
  from observed.step [OF Cons.prems this] show ?case
    using Cons.IH by (fastforce simp: run_moves_def m)
qed


section \<open>Queries\<close>

lemma hd_sort_desc:
  fixes key :: "'a \<Rightarrow> int"
  assumes "sort_key (\<lambda>x. - key x) xs = y # ys"
  shows "y \<in> set xs \<and> (\<forall>x \<in> set xs. key x \<le> key y)"
proof -
  have s: "set (y # ys) = set xs" using arg_cong [OF assms, of set] by simp
  have "sorted (map (\<lambda>x. - key x) (y # ys))" unfolding assms [symmetric] by simp
  then show ?thesis using s by (auto simp: image_iff)
qed

text \<open>
  The open-request lookup of the submit handler returns the newest request of the module
  version that is neither indexed nor denied, and reports not found exactly when there is none.
\<close>

theorem FindOpenRequest_newest:
  "case FindOpenRequest no_fault m v st of
      Inl e \<Rightarrow> e = ErrRequestNotFound \<and>
        (\<forall>row \<in> set (rs_rows st). rw_module row = m \<and> rw_version row = v \<longrightarrow>
           rw_state row \<in> {RequestStateIndexed, RequestStateDenied})
    | Inr r \<Rightarrow> (\<exists>row \<in> set (rs_rows st). r = scanRequest row \<and> rw_module row = m \<and> rw_version row = v \<and>
        rw_state row \<notin> {RequestStateIndexed, RequestStateDenied} \<and>
        (\<forall>other \<in> set (rs_rows st). rw_module other = m \<and> rw_version other = v \<and>
           rw_state other \<notin> {RequestStateIndexed, RequestStateDenied} \<longrightarrow> rw_id other \<le> rw_id row))"
proof -
  let ?open = "filter (\<lambda>row. rw_module row = m \<and> rw_version row = v \<and>
      rw_state row \<notin> {RequestStateIndexed, RequestStateDenied}) (rs_rows st)"
  show ?thesis
  proof (cases "sort_key (\<lambda>row. - rw_id row) ?open")
    case Nil
    then have "?open = []" by (simp only: sort_key_Nil_iff)
    then show ?thesis
      using Nil by (auto simp: FindOpenRequest_def no_fault_def filter_empty_conv)
  next
    case (Cons row rest)
    then show ?thesis
      using hd_sort_desc [OF Cons] by (auto simp: FindOpenRequest_def no_fault_def)
  qed
qed

lemma FindOpenRequest_newest_witness:
  "case FindOpenRequest no_fault ''zlib'' ''1.3'' one_request of Inl e \<Rightarrow> False | Inr r \<Rightarrow> rq_ID r = 1"
proof -
  have "FindOpenRequest no_fault ''zlib'' ''1.3'' one_request = Inr (scanRequest (hd (rs_rows one_request)))"
    by (simp add: FindOpenRequest_def one_request_def no_fault_def)
  then show ?thesis
    using FindOpenRequest_newest [of one_request "''zlib''" "''1.3''"] by (auto simp: scanRequest_def one_request_def)
qed

text \<open>
  The sweep of stuck fetches moves to approved exactly the fetching requests whose stamp is
  before the cutoff, keeps their retry count and every other column, leaves all other requests
  alone, and returns how many it moved.
\<close>

theorem ReclaimStuckFetching_exact:
  assumes "ReclaimStuckFetching no_fault now before st = (res, st')"
  shows "res = Inr (length (filter (\<lambda>row. rw_state row = RequestStateFetching \<and> rw_state_changed_at row < before) (rs_rows st))) \<and>
    (\<forall>i. row_of st' i = map_option (\<lambda>row.
        if rw_state row = RequestStateFetching \<and> rw_state_changed_at row < before
        then row\<lparr>rw_state := RequestStateApproved, rw_state_changed_at := now\<rparr> else row) (row_of st i)) \<and>
    (now \<ge> before \<longrightarrow> fst (ReclaimStuckFetching no_fault now before st') = Inr 0)"
proof -
  let ?hit = "\<lambda>row. rw_state row = RequestStateFetching \<and> rw_state_changed_at row < before"
  let ?g = "\<lambda>row. if ?hit row then row\<lparr>rw_state := RequestStateApproved, rw_state_changed_at := now\<rparr> else row"
  have r: "res = Inr (length (filter ?hit (rs_rows st)))" and st': "st' = st\<lparr>rs_rows := map ?g (rs_rows st)\<rparr>"
    using assms by (simp_all add: ReclaimStuckFetching_def no_fault_def Let_def)
  have "filter ?hit (map ?g (rs_rows st)) = []" by (auto simp: filter_empty_conv)
  then show ?thesis
    by (simp add: r st' row_of_map ReclaimStuckFetching_def no_fault_def Let_def)
qed

definition stuck_request :: request_store where
  "stuck_request = one_request\<lparr>rs_rows := map (\<lambda>row. row\<lparr>rw_state := RequestStateFetching\<rparr>) (rs_rows one_request)\<rparr>"

lemma ReclaimStuckFetching_exact_witness:
  "fst (ReclaimStuckFetching no_fault 9 8 stuck_request) = Inr 1"
  using ReclaimStuckFetching_exact [OF prod.collapse [symmetric], of 9 8 stuck_request]
  by (simp add: stuck_request_def one_request_def)

text \<open>
  Approved does not imply that a reviewer said yes: a request that passed automatically and
  got stuck while fetching is approved after the sweep without ever having been in review.
\<close>

theorem approved_without_review:
  "\<exists>st h. observed st h \<and> state_of st 1 = Some RequestStateApproved \<and> RequestStateNeedsReview \<notin> set (h 1)"
proof -
  let ?s0 = "snd (CreateRequest no_fault 5 alice_request empty_store)"
  let ?mv = "\<lambda>f t st. snd (TransitionRequest no_fault 7 1 f t None st)"
  let ?s1 = "?mv RequestStatePending RequestStatePreflighting ?s0"
  let ?s2 = "?mv RequestStatePreflighting RequestStateAutoPass ?s1"
  let ?s3 = "?mv RequestStateAutoPass RequestStateFetching ?s2"
  let ?s4 = "snd (ReclaimStuckFetching no_fault 9 8 ?s3)"
  have st: "state_of ?s0 1 = Some RequestStatePending" "state_of ?s1 1 = Some RequestStatePreflighting"
    "state_of ?s2 1 = Some RequestStateAutoPass" "state_of ?s3 1 = Some RequestStateFetching"
    "state_of ?s4 1 = Some RequestStateApproved"
    by code_simp+
  note mv = table_step.transition [OF prod.collapse [symmetric]]
  note o0 = observed.step [OF observed.start table_step.create [OF prod.collapse [symmetric], where fault = no_fault and now = 5 and r = alice_request]]
  note o1 = observed.step [OF o0 mv [where fault = no_fault and now = 7 and i = 1 and f = RequestStatePending and t = RequestStatePreflighting and flds = None]]
  note o2 = observed.step [OF o1 mv [where fault = no_fault and now = 7 and i = 1 and f = RequestStatePreflighting and t = RequestStateAutoPass and flds = None]]
  note o3 = observed.step [OF o2 mv [where fault = no_fault and now = 7 and i = 1 and f = RequestStateAutoPass and t = RequestStateFetching and flds = None]]
  note o4 = observed.step [OF o3 table_step.reclaim [OF prod.collapse [symmetric], where fault = no_fault and now = 9 and before = 8]]
  show ?thesis
    by (rule exI [of _ ?s4], rule exI, rule conjI [OF o4]) (simp add: st)
qed

section \<open>Listing\<close>

text \<open>
  A listing holds at most 500 requests, newest first, each matching the filter; when the
  matching requests fit under the limit it holds all of them, and otherwise none that it leaves
  out is newer than one it shows.
\<close>

theorem ListRequests_page:
  assumes "\<And>xs. mset (scan xs) = mset xs" and "ListRequests no_fault scan q st = Inr rs"
  defines "limit \<equiv> (if qq_Limit q \<le> 0 \<or> qq_Limit q > 500 then 500 else nat (qq_Limit q))"
    and "found \<equiv> filter (row_matches q) (rs_rows st)"
  shows "length rs = min limit (length found) \<and> limit \<le> 500 \<and>
    sorted_wrt (\<ge>) (map rq_CreatedAt rs) \<and>
    (\<exists>left_out. mset rs + image_mset scanRequest left_out = image_mset scanRequest (mset found) \<and>
       (\<forall>r \<in> set rs. \<forall>row \<in># left_out. rw_created_at row \<le> rq_CreatedAt r))"
proof -
  let ?srt = "sort_key (\<lambda>row. - rw_created_at row) (scan found)"
  have lim: "nat (if qq_Limit q \<le> 0 \<or> qq_Limit q > 500 then 500 else qq_Limit q) = limit"
    by (simp add: limit_def)
  have rs: "rs = map scanRequest (take limit ?srt)"
    using assms(2) unfolding lim [symmetric] found_def
    by (simp add: ListRequests_def no_fault_def Let_def)
  have len: "length ?srt = length found" using arg_cong [OF assms(1) [of found], of size] by simp
  have srt: "sorted_wrt (\<lambda>x y. rw_created_at y \<le> rw_created_at x) ?srt"
    using sorted_sort_key [of "\<lambda>row. - rw_created_at row" "scan found"] by (simp add: sorted_map)
  have split: "sorted_wrt (\<lambda>x y. rw_created_at y \<le> rw_created_at x) (take limit ?srt @ drop limit ?srt)"
    using srt by simp
  have created: "rq_CreatedAt (scanRequest row) = rw_created_at row" for row by (simp add: scanRequest_def)
  have "mset rs + image_mset scanRequest (mset (drop limit ?srt)) = image_mset scanRequest (mset found)"
  proof -
    have "mset (take limit ?srt) + mset (drop limit ?srt) = mset found"
      by (simp only: mset_append [symmetric] append_take_drop_id mset_sort assms(1))
    then show ?thesis unfolding rs mset_map by (metis image_mset_union)
  qed
  moreover have "\<forall>r \<in> set rs. \<forall>row \<in># mset (drop limit ?srt). rw_created_at row \<le> rq_CreatedAt r"
    using split unfolding rs sorted_wrt_append by (auto simp: created)
  moreover have "sorted_wrt (\<ge>) (map rq_CreatedAt rs)"
    using split unfolding rs sorted_wrt_append by (simp add: sorted_wrt_map created)
  moreover have "length rs = min limit (length found)" using len by (simp add: rs min.commute)
  moreover have "limit \<le> 500" by (auto simp: limit_def)
  ultimately show ?thesis by blast
qed

lemma ListRequests_page_witness:
  "length (projr (ListRequests no_fault id \<lparr>qq_States = [RequestStatePending], qq_Submitter = [], qq_Limit = 0\<rparr> one_request)) = 1"
proof -
  let ?q = "\<lparr>qq_States = [RequestStatePending], qq_Submitter = [], qq_Limit = 0\<rparr>"
  have "ListRequests no_fault id ?q one_request = Inr (projr (ListRequests no_fault id ?q one_request))"
    by (simp add: ListRequests_def no_fault_def Let_def)
  from ListRequests_page [OF _ this] show ?thesis
    by (simp add: one_request_def row_matches_def)
qed

end
