(* ===== verification/AuditLog.thy ===== *)
theory AuditLog
  imports Prelude "HOL-Library.Word"
begin

text \<open>
  The audit trail of the store (src/internal/store/audit.go): appending events, the filtered
  listing, the cursor that feeds webhook delivery, and retention.

  As in the request table, rows are in id order, a stamp is an \<^typ>\<open>int\<close> of nanoseconds
  (the code writes fixed-width UTC text because it compares stamps as text), the clock and the
  outcome of a statement are arguments. \<open>None\<close> as an event's timestamp is the zero time.
\<close>

section \<open>Events and rows\<close>

record audit_event =
  ae_ID :: int
  ae_Timestamp :: "int option"
  ae_Kind :: string
  ae_Source :: string
  ae_Module :: string
  ae_Version :: string
  ae_OK :: bool
  ae_DurationMs :: int
  ae_Error :: string
  ae_Payload :: string
  ae_UserID :: string

record audit_row =
  ar_id :: int
  ar_ts :: int
  ar_kind :: string
  ar_source :: string
  ar_module :: "string option"
  ar_version :: "string option"
  ar_ok :: int
  ar_duration_ms :: "int option"
  ar_error :: "string option"
  ar_payload :: "string option"
  ar_user_id :: "string option"

record audit_log =
  al_rows :: "audit_row list"
  al_seq :: int

record audit_query =
  aq_Kinds :: "string list"
  aq_Source :: string
  aq_Module :: string
  aq_Since :: "int option"
  aq_Limit :: int

definition empty_log :: audit_log where
  "empty_log = \<lparr>al_rows = [], al_seq = 0\<rparr>"

section \<open>Operations\<close>

definition non_empty :: "string \<Rightarrow> string option" where
  "non_empty s = (if s \<noteq> [] then Some s else None)"

definition audit_row_of :: "int \<Rightarrow> int \<Rightarrow> audit_event \<Rightarrow> audit_row" where
  "audit_row_of now new_id ev =
     \<lparr>ar_id = new_id,
      ar_ts = (case ae_Timestamp ev of None \<Rightarrow> now | Some t \<Rightarrow> t),
      ar_kind = ae_Kind ev,
      ar_source = (if ae_Source ev = [] then ''unknown'' else ae_Source ev),
      ar_module = non_empty (ae_Module ev),
      ar_version = non_empty (ae_Version ev),
      ar_ok = (if ae_OK ev then 1 else 0),
      ar_duration_ms = (if ae_DurationMs ev > 0 then Some (ae_DurationMs ev) else None),
      ar_error = non_empty (ae_Error ev),
      ar_payload = (if length (ae_Payload ev) > 0 \<and> ae_Payload ev \<noteq> ''null'' then Some (ae_Payload ev) else None),
      ar_user_id = non_empty (ae_UserID ev)\<rparr>"

definition RecordAudit :: "string option \<Rightarrow> int \<Rightarrow> audit_event \<Rightarrow> audit_log \<Rightarrow> string option \<times> audit_log" where
  "RecordAudit fault now ev tbl =
     (case fault of
        Some err \<Rightarrow> (Some (''insert audit_events: '' @ err), tbl)
      | None \<Rightarrow> (None, \<lparr>al_rows = al_rows tbl @ [audit_row_of now (al_seq tbl + 1) ev], al_seq = al_seq tbl + 1\<rparr>))"

definition scanAuditRow :: "audit_row \<Rightarrow> audit_event" where
  "scanAuditRow row =
     \<lparr>ae_ID = ar_id row, ae_Timestamp = Some (ar_ts row), ae_Kind = ar_kind row, ae_Source = ar_source row,
      ae_Module = case_option [] id (ar_module row), ae_Version = case_option [] id (ar_version row),
      ae_OK = (ar_ok row \<noteq> 0), ae_DurationMs = case_option 0 id (ar_duration_ms row),
      ae_Error = case_option [] id (ar_error row), ae_Payload = case_option [] id (ar_payload row),
      ae_UserID = case_option [] id (ar_user_id row)\<rparr>"

definition ListAuditAfterID :: "string option \<Rightarrow> int \<Rightarrow> int \<Rightarrow> audit_log \<Rightarrow> string + audit_event list" where
  "ListAuditAfterID fault afterID limit tbl =
     (let limit = (if limit \<le> 0 then 100 else limit);
          limit = (if limit > 1000 then 1000 else limit)
      in case fault of
           Some err \<Rightarrow> Inl (''list audit_events after id: '' @ err)
         | None \<Rightarrow> Inr (map scanAuditRow (take (nat limit)
             (sort_key ar_id (filter (\<lambda>row. ar_id row > afterID) (al_rows tbl))))))"

definition MaxAuditID :: "string option \<Rightarrow> audit_log \<Rightarrow> string + int" where
  "MaxAuditID fault tbl =
     (case fault of
        Some err \<Rightarrow> Inl (''max audit_events.id: '' @ err)
      | None \<Rightarrow> Inr (if al_rows tbl = [] then 0 else Max (ar_id ` set (al_rows tbl))))"

definition PruneAudit :: "string option \<Rightarrow> int \<Rightarrow> int \<Rightarrow> audit_log \<Rightarrow> (string + nat) \<times> audit_log" where
  "PruneAudit fault now olderThan tbl =
     (if olderThan \<le> 0 then (Inr 0, tbl)
      else (case fault of
          Some err \<Rightarrow> (Inl (''prune audit_events: '' @ err), tbl)
        | None \<Rightarrow>
          (let cutoff = now - olderThan
           in (Inr (length (filter (\<lambda>row. ar_ts row < cutoff) (al_rows tbl))),
               tbl\<lparr>al_rows := filter (\<lambda>row. \<not> ar_ts row < cutoff) (al_rows tbl)\<rparr>))))"

definition audit_matches :: "audit_query \<Rightarrow> audit_row \<Rightarrow> bool" where
  "audit_matches q row \<longleftrightarrow>
     (aq_Kinds q \<noteq> [] \<longrightarrow> ar_kind row \<in> set (aq_Kinds q)) \<and>
     (aq_Source q \<noteq> [] \<longrightarrow> ar_source row = aq_Source q) \<and>
     (aq_Module q \<noteq> [] \<longrightarrow> ar_module row = Some (aq_Module q)) \<and>
     (case aq_Since q of None \<Rightarrow> True | Some t \<Rightarrow> ar_ts row \<ge> t)"

definition ListAudit :: "string option \<Rightarrow> audit_query \<Rightarrow> audit_log \<Rightarrow> string + audit_event list" where
  "ListAudit fault q tbl =
     (let limit = (if aq_Limit q \<le> 0 then 100 else aq_Limit q);
          limit = (if limit > 10000 then 10000 else limit)
      in case fault of
           Some err \<Rightarrow> Inl (''list audit_events: '' @ err)
         | None \<Rightarrow> Inr (map scanAuditRow (take (nat limit)
             (sort_key (\<lambda>row. (- ar_ts row, - ar_id row)) (filter (audit_matches q) (al_rows tbl))))))"

section \<open>The invariant of the log\<close>

definition log_ok :: "audit_log \<Rightarrow> bool" where
  "log_ok tbl \<longleftrightarrow> sorted_wrt (<) (map ar_id (al_rows tbl)) \<and> 0 \<le> al_seq tbl \<and>
     (\<forall>row \<in> set (al_rows tbl). 0 < ar_id row \<and> ar_id row \<le> al_seq tbl)"

lemma log_ok_empty [simp]: "log_ok empty_log"
  by (simp add: log_ok_def empty_log_def)

lemma log_ok_record: "log_ok tbl \<Longrightarrow> log_ok (snd (RecordAudit fault now ev tbl))"
  by (cases fault) (fastforce simp: RecordAudit_def log_ok_def sorted_wrt_append audit_row_of_def)+

lemma log_ok_prune: "log_ok tbl \<Longrightarrow> log_ok (snd (PruneAudit fault now d tbl))"
  by (cases fault) (auto simp: PruneAudit_def log_ok_def Let_def sorted_wrt_map intro: sorted_wrt_filter)

text \<open>
  An audit event is read back as recorded: the newest row the log lists carries the event's
  kind, outcome, module, version, error and user unchanged, its own stamp or else the current
  time, its source or else unknown, and its payload unless that is the JSON null.
\<close>

theorem RecordAudit_roundtrip:
  assumes "log_ok tbl"
  shows "\<exists>tbl'. RecordAudit None now ev tbl = (None, tbl') \<and> log_ok tbl' \<and>
    ListAuditAfterID None (al_seq tbl) limit tbl' =
      Inr [ev\<lparr>ae_ID := al_seq tbl + 1, ae_Timestamp := Some (case ae_Timestamp ev of None \<Rightarrow> now | Some t \<Rightarrow> t),
              ae_Source := (if ae_Source ev = [] then ''unknown'' else ae_Source ev),
              ae_DurationMs := max 0 (ae_DurationMs ev),
              ae_Payload := (if ae_Payload ev = ''null'' then [] else ae_Payload ev)\<rparr>]"
proof -
  let ?tbl = "\<lparr>al_rows = al_rows tbl @ [audit_row_of now (al_seq tbl + 1) ev], al_seq = al_seq tbl + 1\<rparr>"
  have r: "RecordAudit None now ev tbl = (None, ?tbl)" by (simp add: RecordAudit_def)
  have "filter (\<lambda>row. ar_id row > al_seq tbl) (al_rows tbl) = []"
    using assms by (auto simp: log_ok_def filter_empty_conv)
  moreover have "case_option [] id (non_empty s) = s" for s by (simp add: non_empty_def)
  ultimately have "ListAuditAfterID None (al_seq tbl) limit ?tbl =
      Inr [scanAuditRow (audit_row_of now (al_seq tbl + 1) ev)]"
    by (auto simp: ListAuditAfterID_def Let_def audit_row_of_def)
  moreover have "case_option [] id (non_empty s) = s" for s by (simp add: non_empty_def)
  then have "scanAuditRow (audit_row_of now (al_seq tbl + 1) ev) =
      ev\<lparr>ae_ID := al_seq tbl + 1, ae_Timestamp := Some (case ae_Timestamp ev of None \<Rightarrow> now | Some t \<Rightarrow> t),
              ae_Source := (if ae_Source ev = [] then ''unknown'' else ae_Source ev),
              ae_DurationMs := max 0 (ae_DurationMs ev),
              ae_Payload := (if ae_Payload ev = ''null'' then [] else ae_Payload ev)\<rparr>"
    by (cases ev) (auto simp: scanAuditRow_def audit_row_of_def max_def)
  ultimately show ?thesis using r log_ok_record [OF assms, of None now ev] by simp
qed

definition sample_event :: audit_event where
  "sample_event = \<lparr>ae_ID = 0, ae_Timestamp = None, ae_Kind = ''bump'', ae_Source = [], ae_Module = ''zlib'',
     ae_Version = [], ae_OK = True, ae_DurationMs = 0, ae_Error = [], ae_Payload = ''null'', ae_UserID = []\<rparr>"

lemma RecordAudit_roundtrip_witness:
  "\<exists>tbl'. RecordAudit None 7 sample_event empty_log = (None, tbl') \<and>
     ListAuditAfterID None 0 50 tbl' = Inr [sample_event\<lparr>ae_ID := 1, ae_Timestamp := Some 7, ae_Source := ''unknown'', ae_Payload := []\<rparr>]"
  using RecordAudit_roundtrip [OF log_ok_empty, of 7 sample_event 50] by (auto simp: sample_event_def empty_log_def)

section \<open>The delivery cursor\<close>

text \<open>
  The webhook daemon (src/internal/audit/webhook.go). The ghost field lists the ids it has
  attempted to post, oldest first. A sweep may be cut short by cancellation: \<open>alive\<close> is how many
  events it still finds the context alive for. Whether a post succeeds does not matter to it.
\<close>

record webhook_daemon =
  wd_url :: string
  wd_batchSize :: int
  wd_watermark :: int
  wd_deliveries :: int
  wd_posted :: "int list"

definition NewWebhookDaemon :: "string \<Rightarrow> int \<Rightarrow> string option \<Rightarrow> audit_log \<Rightarrow> webhook_daemon" where
  "NewWebhookDaemon url batchSize fault tbl =
     \<lparr>wd_url = url, wd_batchSize = (if batchSize \<le> 0 then 100 else batchSize),
      wd_watermark = (if url \<noteq> [] then (case MaxAuditID fault tbl of Inr m \<Rightarrow> m | Inl err \<Rightarrow> 0) else 0),
      wd_deliveries = 0, wd_posted = []\<rparr>"

definition deliver :: "audit_event \<Rightarrow> webhook_daemon \<Rightarrow> webhook_daemon" where
  "deliver ev d = d\<lparr>wd_deliveries := wd_deliveries d + 1, wd_posted := wd_posted d @ [ae_ID ev]\<rparr>"

fun deliver_all :: "nat \<Rightarrow> audit_event list \<Rightarrow> webhook_daemon \<Rightarrow> webhook_daemon" where
  "deliver_all alive [] d = d"
| "deliver_all 0 (ev # evs) d = d"
| "deliver_all (Suc alive) (ev # evs) d =
     (let d = deliver ev d;
          d = (if ae_ID ev > wd_watermark d then d\<lparr>wd_watermark := ae_ID ev\<rparr> else d)
      in deliver_all alive evs d)"

definition sweep :: "string option \<Rightarrow> nat \<Rightarrow> audit_log \<Rightarrow> webhook_daemon \<Rightarrow> webhook_daemon" where
  "sweep fault alive tbl d =
     (case ListAuditAfterID fault (wd_watermark d) (wd_batchSize d) tbl of
        Inl err \<Rightarrow> d
      | Inr events \<Rightarrow> deliver_all alive events d)"

text \<open>
  The retention sweep (src/internal/audit/retention.go): the age is a 64-bit duration, so the
  product of the days and the nanoseconds of a day wraps around.
\<close>

definition retention_age :: "int \<Rightarrow> int" where
  "retention_age retainDays = sint (word_of_int retainDays * 24 * 3600000000000 :: 64 word)"

definition retention_sweep :: "int \<Rightarrow> string option \<Rightarrow> int \<Rightarrow> audit_log \<Rightarrow> audit_log" where
  "retention_sweep retainDays fault now tbl =
     (if retainDays \<le> 0 then tbl else snd (PruneAudit fault now (retention_age retainDays) tbl))"

definition page_size :: "int \<Rightarrow> nat" where
  "page_size limit = nat (if limit \<le> 0 then 100 else min limit 1000)"

lemma page_size_pos: "0 < page_size limit"
  by (simp add: page_size_def)

lemma ListAuditAfterID_page:
  assumes "log_ok tbl"
  shows "ListAuditAfterID None after limit tbl =
    Inr (map scanAuditRow (take (page_size limit) (filter (\<lambda>row. ar_id row > after) (al_rows tbl))))"
proof -
  have "sorted (map ar_id (filter (\<lambda>row. ar_id row > after) (al_rows tbl)))"
    using assms by (auto simp: log_ok_def strict_sorted_iff intro: sorted_filter)
  then have "sort_key ar_id (filter (\<lambda>row. ar_id row > after) (al_rows tbl)) = filter (\<lambda>row. ar_id row > after) (al_rows tbl)"
    by (rule sort_key_id_if_sorted)
  then show ?thesis by (simp add: ListAuditAfterID_def Let_def page_size_def min_def)
qed

inductive delivery :: "int \<Rightarrow> audit_log \<Rightarrow> webhook_daemon \<Rightarrow> bool" where
  boot: "log_ok tbl \<Longrightarrow> url \<noteq> [] \<Longrightarrow> d = NewWebhookDaemon url batch fault tbl \<Longrightarrow>
     delivery (wd_watermark d) tbl d"
| recorded: "delivery b tbl d \<Longrightarrow> delivery b (snd (RecordAudit fault now ev tbl)) d"
| swept: "delivery b tbl d \<Longrightarrow> delivery b tbl (sweep fault alive tbl d)"
| pruned: "delivery b tbl d \<Longrightarrow> delivery b (retention_sweep days fault now tbl) d"

definition delivery_ok :: "int \<Rightarrow> audit_log \<Rightarrow> webhook_daemon \<Rightarrow> bool" where
  "delivery_ok b tbl d \<longleftrightarrow> log_ok tbl \<and> sorted_wrt (<) (wd_posted d) \<and> b \<le> wd_watermark d \<and>
     wd_watermark d \<le> al_seq tbl \<and>
     (\<forall>i \<in> set (wd_posted d). b < i \<and> i \<le> wd_watermark d) \<and>
     (\<forall>row \<in> set (al_rows tbl). b < ar_id row \<and> ar_id row \<le> wd_watermark d \<longrightarrow> ar_id row \<in> set (wd_posted d))"

lemma deliver_all_0: "deliver_all 0 evs d = d"
  by (cases evs) simp_all

lemma deliver_all_ok:
  assumes "delivery_ok b tbl d" and "rows = filter (\<lambda>row. ar_id row > wd_watermark d) (al_rows tbl)"
  shows "delivery_ok b tbl (deliver_all alive (map scanAuditRow (take n rows)) d)"
  using assms
proof (induction alive arbitrary: n rows d)
  case 0
  then show ?case by (simp add: deliver_all_0)
next
  case (Suc alive)
  show ?case
  proof (cases "take n rows")
    case Nil
    show ?thesis unfolding Nil using Suc.prems(1) by simp
  next
    case (Cons row rest)
    then obtain m where n: "n = Suc m" and rows: "rows = row # drop 1 rows" and rest: "rest = take m (drop 1 rows)"
      by (cases n; cases rows) auto
    have srt: "sorted_wrt (<) (map ar_id (al_rows tbl))" using Suc.prems(1) by (simp add: delivery_ok_def log_ok_def)
    then have sr: "sorted_wrt (<) (map ar_id rows)" unfolding Suc.prems(2) by (simp add: sorted_wrt_map sorted_wrt_filter)
    have row: "row \<in> set (al_rows tbl)" "ar_id row > wd_watermark d"
      using rows Suc.prems(2) by (metis (mono_tags, lifting) filter_eq_ConsD list.set_intros(1) mem_Collect_eq set_filter)+
    let ?d = "(deliver (scanAuditRow row) d)\<lparr>wd_watermark := ar_id row\<rparr>"
    have between: "x = row" if "x \<in> set (al_rows tbl)" "wd_watermark d < ar_id x" "ar_id x \<le> ar_id row" for x
    proof -
      have "x \<in> set rows" using that Suc.prems(2) by simp
      then have "x = row \<or> x \<in> set (drop 1 rows)" using rows by (metis set_ConsD)
      moreover have "\<forall>y \<in> set (drop 1 rows). ar_id row < ar_id y" using sr by (subst (asm) rows) simp
      ultimately show ?thesis using that(3) by force
    qed
    have ok: "delivery_ok b tbl ?d"
    proof -
      have o: "log_ok tbl" "sorted_wrt (<) (wd_posted d)" "b \<le> wd_watermark d"
        and posted: "\<forall>i \<in> set (wd_posted d). b < i \<and> i \<le> wd_watermark d"
        and rs: "\<forall>x \<in> set (al_rows tbl). b < ar_id x \<and> ar_id x \<le> wd_watermark d \<longrightarrow> ar_id x \<in> set (wd_posted d)"
        using Suc.prems(1) unfolding delivery_ok_def by blast+
      have f: "wd_posted ?d = wd_posted d @ [ar_id row]" "wd_watermark ?d = ar_id row"
        by (simp_all add: deliver_def scanAuditRow_def)
      have "sorted_wrt (<) (wd_posted ?d)" using o(2) posted row(2) unfolding f by (fastforce simp: sorted_wrt_append)
      moreover have "ar_id row \<le> al_seq tbl" using o(1) row(1) by (simp add: log_ok_def)
      moreover have "\<forall>i \<in> set (wd_posted ?d). b < i \<and> i \<le> ar_id row" using posted row(2) o(3) unfolding f by fastforce
      moreover have "\<forall>x \<in> set (al_rows tbl). b < ar_id x \<and> ar_id x \<le> ar_id row \<longrightarrow> ar_id x \<in> set (wd_posted ?d)"
      proof (intro ballI impI)
        fix x assume x: "x \<in> set (al_rows tbl)" "b < ar_id x \<and> ar_id x \<le> ar_id row"
        show "ar_id x \<in> set (wd_posted ?d)"
        proof (cases "ar_id x \<le> wd_watermark d")
          case True
          then show ?thesis using rs x unfolding f by simp
        next
          case False
          then have "x = row" using between [OF x(1)] x(2) by simp
          then show ?thesis unfolding f by simp
        qed
      qed
      moreover have "b \<le> ar_id row" using o(3) row(2) by simp
      ultimately show ?thesis unfolding delivery_ok_def f(2) using o(1) by blast
    qed
    have rows': "drop 1 rows = filter (\<lambda>x. ar_id x > wd_watermark ?d) (al_rows tbl)"
    proof -
      have "filter (\<lambda>x. ar_id x > ar_id row) (al_rows tbl) = filter (\<lambda>x. ar_id x > ar_id row) rows"
        unfolding Suc.prems(2) filter_filter using row(2) by (auto intro!: filter_cong)
      also have "\<dots> = filter (\<lambda>x. ar_id x > ar_id row) (row # drop 1 rows)" using rows by simp
      also have "\<dots> = drop 1 rows" using sr by (subst (asm) rows) (simp add: filter_id_conv)
      finally show ?thesis by simp
    qed
    have "deliver_all (Suc alive) (map scanAuditRow (take n rows)) d =
        deliver_all alive (map scanAuditRow (take m (drop 1 rows))) ?d"
      using row(2) by (simp add: Cons rest deliver_def scanAuditRow_def Let_def)
    then show ?thesis using Suc.IH [OF ok rows'] by simp
  qed
qed

lemma PruneAudit_rows:
  "set (al_rows (snd (PruneAudit fault now age tbl))) \<subseteq> set (al_rows tbl) \<and> al_seq (snd (PruneAudit fault now age tbl)) = al_seq tbl"
  by (cases fault) (auto simp: PruneAudit_def Let_def)

lemma retention_rows:
  "set (al_rows (retention_sweep days fault now tbl)) \<subseteq> set (al_rows tbl)"
  "al_seq (retention_sweep days fault now tbl) = al_seq tbl"
  using PruneAudit_rows by (simp_all add: retention_sweep_def)

lemma delivery_invariant: "delivery b tbl d \<Longrightarrow> delivery_ok b tbl d"
proof (induction rule: delivery.induct)
  case (boot tbl url d batch fault)
  have "wd_watermark d \<le> al_seq tbl" "wd_posted d = []" "wd_watermark d \<le> wd_watermark d"
    using boot by (auto simp: NewWebhookDaemon_def MaxAuditID_def log_ok_def split: option.splits)
  then show ?case using boot(1) by (auto simp: delivery_ok_def)
next
  case (recorded b tbl d fault now ev)
  show ?case
  proof (cases fault)
    case None
    let ?tbl = "\<lparr>al_rows = al_rows tbl @ [audit_row_of now (al_seq tbl + 1) ev], al_seq = al_seq tbl + 1\<rparr>"
    have "log_ok tbl" using recorded.IH by (simp add: delivery_ok_def)
    from log_ok_record [OF this, of None now ev] have ok: "log_ok ?tbl" by (simp add: RecordAudit_def)
    have new: "ar_id (audit_row_of now (al_seq tbl + 1) ev) = al_seq tbl + 1" by (simp add: audit_row_of_def)
    show ?thesis
    proof -
      have o: "sorted_wrt (<) (wd_posted d)" "b \<le> wd_watermark d" "wd_watermark d \<le> al_seq tbl"
        "\<forall>i \<in> set (wd_posted d). b < i \<and> i \<le> wd_watermark d"
        and rows: "\<forall>row \<in> set (al_rows tbl). b < ar_id row \<and> ar_id row \<le> wd_watermark d \<longrightarrow> ar_id row \<in> set (wd_posted d)"
        using recorded.IH unfolding delivery_ok_def by blast+
      have "\<forall>row \<in> set (al_rows ?tbl). b < ar_id row \<and> ar_id row \<le> wd_watermark d \<longrightarrow> ar_id row \<in> set (wd_posted d)"
      proof (intro ballI impI)
        fix row assume r: "row \<in> set (al_rows ?tbl)" and i: "b < ar_id row \<and> ar_id row \<le> wd_watermark d"
        have "row \<noteq> audit_row_of now (al_seq tbl + 1) ev" using i new o(3) by force
        then have "row \<in> set (al_rows tbl)" using r by simp
        then show "ar_id row \<in> set (wd_posted d)" using rows i by blast
      qed
      moreover have "wd_watermark d \<le> al_seq ?tbl" using o(3) by simp
      ultimately have "delivery_ok b ?tbl d" unfolding delivery_ok_def using ok o(1,2,4) by blast
      then show ?thesis by (simp add: None RecordAudit_def)
    qed
  next
    case (Some err)
    then show ?thesis using recorded.IH by (simp add: RecordAudit_def)
  qed
next
  case (swept b tbl d fault alive)
  then have ok: "log_ok tbl" by (simp add: delivery_ok_def)
  show ?case
  proof (cases fault)
    case None
    show ?thesis
      using deliver_all_ok [OF swept.IH refl]
      unfolding sweep_def None ListAuditAfterID_page [OF ok] by simp
  next
    case (Some err)
    then show ?thesis using swept.IH by (simp add: sweep_def ListAuditAfterID_def Let_def)
  qed
next
  case (pruned b tbl d days fault now)
  let ?tbl = "retention_sweep days fault now tbl"
  have rows: "set (al_rows ?tbl) \<subseteq> set (al_rows tbl)" "al_seq ?tbl = al_seq tbl"
    by (rule retention_rows)+
  have "log_ok tbl" using pruned.IH by (simp add: delivery_ok_def)
  then have "log_ok ?tbl" using log_ok_prune by (simp add: retention_sweep_def)
  moreover have o: "sorted_wrt (<) (wd_posted d)" "b \<le> wd_watermark d" "wd_watermark d \<le> al_seq tbl"
    "\<forall>i \<in> set (wd_posted d). b < i \<and> i \<le> wd_watermark d"
    and old: "\<forall>row \<in> set (al_rows tbl). b < ar_id row \<and> ar_id row \<le> wd_watermark d \<longrightarrow> ar_id row \<in> set (wd_posted d)"
    using pruned.IH unfolding delivery_ok_def by blast+
  moreover have "\<forall>row \<in> set (al_rows ?tbl). b < ar_id row \<and> ar_id row \<le> wd_watermark d \<longrightarrow> ar_id row \<in> set (wd_posted d)"
    using old rows(1) by blast
  ultimately show ?case unfolding delivery_ok_def rows(2) by blast
qed


definition hook0 :: webhook_daemon where
  "hook0 = NewWebhookDaemon ''http://hook'' 1 None empty_log"

definition two_events :: audit_log where
  "two_events = snd (RecordAudit None 6 sample_event (snd (RecordAudit None 5 sample_event empty_log)))"


text \<open>
  Retention keeps what it promises for every retention period below 106752 days (about 292
  years): a sweep deletes exactly the events older than that many days. At 213504 days the
  64-bit duration wraps around to under half an hour, and the sweep deletes day-old events that
  the period covers.
\<close>

theorem retention_sweep_exact:
  "(0 < days \<and> days < 106752 \<longrightarrow>
      al_rows (retention_sweep days None now tbl) =
        filter (\<lambda>row. now - days * 86400000000000 \<le> ar_ts row) (al_rows tbl)) \<and>
   retention_age 213504 = 1526290448384 \<and>
   al_rows (retention_sweep 213504 None 86400000000000 \<lparr>al_rows = [audit_row_of 0 1 sample_event], al_seq = 1\<rparr>) = []"
proof -
  have age: "retention_age days = days * 86400000000000" if "0 < days" "days < 106752" for days :: int
  proof -
    have "(word_of_int days * 24 * 3600000000000 :: 64 word) = word_of_int (days * 86400000000000)"
      by simp
    then have "retention_age days = signed_take_bit 63 (days * 86400000000000)"
      unfolding retention_age_def by (simp only: sint_sbintrunc') simp
    also have "\<dots> = days * 86400000000000"
      using that by (intro signed_take_bit_int_eq_self) simp_all
    finally show ?thesis .
  qed
  have wrap: "retention_age 213504 = 1526290448384" by (simp add: retention_age_def)
  have one: "al_rows (retention_sweep days None now tbl) = filter (\<lambda>row. now - days * 86400000000000 \<le> ar_ts row) (al_rows tbl)"
    if "0 < days" "days < 106752"
    using that age [OF that] by (auto simp: retention_sweep_def PruneAudit_def Let_def not_less)
  have two: "al_rows (retention_sweep 213504 None 86400000000000 \<lparr>al_rows = [audit_row_of 0 1 sample_event], al_seq = 1\<rparr>) = []"
    by (simp add: retention_sweep_def PruneAudit_def Let_def wrap audit_row_of_def sample_event_def)
  from one two wrap show ?thesis by blast
qed

lemma retention_sweep_exact_witness:
  "al_rows (retention_sweep 1 None 86400000000001 \<lparr>al_rows = [audit_row_of 0 1 sample_event], al_seq = 1\<rparr>) = []"
  using retention_sweep_exact [of 1 86400000000001 "\<lparr>al_rows = [audit_row_of 0 1 sample_event], al_seq = 1\<rparr>"]
  by (simp add: audit_row_of_def sample_event_def)

end
