(* ===== verification/Preflight.thy ===== *)
theory Preflight
  imports Requests Policy AuditLog Http
begin

text \<open>
  The automated check of a pending request (src/internal/preflight): the verdict and its JSON
  form, the probe of the upstream registry, the default checker, and one tick of a worker of
  the runner over the request table and the audit log.

  url.Parse followed by Hostname is a parameter of the checker, \<open>None\<close> for a parse error; a
  HTTP client is a parameter of the probe. The theorems hold for each of them.
\<close>

section \<open>Verdicts\<close>

record cascade_hit =
  ch_URL :: string
  ch_Integrity :: string
  ch_StripPrefix :: string

record verdict =
  vd_NextState :: request_state
  vd_Reason :: string
  vd_License :: string
  vd_Hermeticity :: string
  vd_ArchiveSize :: int
  vd_SourceSHA :: string
  vd_Notes :: string
  vd_CascadeSource :: "cascade_hit option"

text \<open>The zero verdict with a next state; the zero state is the empty string.\<close>

definition verdict_of :: "request_state \<Rightarrow> verdict" where
  "verdict_of s = \<lparr>vd_NextState = s, vd_Reason = [], vd_License = [], vd_Hermeticity = [], vd_ArchiveSize = 0,
     vd_SourceSHA = [], vd_Notes = [], vd_CascadeSource = None\<rparr>"

definition validNextStates :: "(request_state \<times> bool) list" where
  "validNextStates =
     [(RequestStateAutoPass, True), (RequestStateNeedsReview, True), (RequestStateDenied, True)]"

definition valid_next :: "request_state \<Rightarrow> bool" where
  "valid_next s = (map_of validNextStates s = Some True)"

fun state_text :: "request_state \<Rightarrow> string" where
  "state_text RequestStatePending = ''pending''"
| "state_text RequestStatePreflighting = ''preflighting''"
| "state_text RequestStateAutoPass = ''auto_pass''"
| "state_text RequestStateNeedsReview = ''needs_review''"
| "state_text RequestStateApproved = ''approved''"
| "state_text RequestStateFetching = ''fetching''"
| "state_text RequestStateIndexed = ''indexed''"
| "state_text RequestStateDenied = ''denied''"
| "state_text (RequestStateOther s) = s"

definition state_of_text :: "string \<Rightarrow> request_state" where
  "state_of_text s =
     (case find (\<lambda>c. state_text c = s)
        [RequestStatePending, RequestStatePreflighting, RequestStateAutoPass, RequestStateNeedsReview,
         RequestStateApproved, RequestStateFetching, RequestStateIndexed, RequestStateDenied] of
        Some c \<Rightarrow> c | None \<Rightarrow> RequestStateOther s)"

definition hit_json :: "cascade_hit \<Rightarrow> json" where
  "hit_json h = JObj ([(''url'', JStr (ch_URL h)), (''integrity'', JStr (ch_Integrity h))] @
     omit_empty ''strip_prefix'' (ch_StripPrefix h))"

definition verdict_json :: "verdict \<Rightarrow> json" where
  "verdict_json v = JObj ((''next_state'', JStr (state_text (vd_NextState v))) #
     omit_empty ''reason'' (vd_Reason v) @ omit_empty ''license'' (vd_License v) @
     omit_empty ''hermeticity'' (vd_Hermeticity v) @
     (if vd_ArchiveSize v = 0 then [] else [(''archive_size'', JNum (int_text (vd_ArchiveSize v)))]) @
     omit_empty ''source_sha'' (vd_SourceSHA v) @ omit_empty ''notes'' (vd_Notes v) @
     (case vd_CascadeSource v of None \<Rightarrow> [] | Some h \<Rightarrow> [(''cascade_source'', hit_json h)]))"

definition hit_names :: "string list" where
  "hit_names = [''url'', ''integrity'', ''strip_prefix'']"

definition set_hit_field :: "string \<Rightarrow> json \<Rightarrow> cascade_hit \<Rightarrow> cascade_hit option" where
  "set_hit_field n j h =
     (if n = ''url'' then map_option (\<lambda>s. h\<lparr>ch_URL := s\<rparr>) (decode_string j (ch_URL h))
      else if n = ''integrity'' then map_option (\<lambda>s. h\<lparr>ch_Integrity := s\<rparr>) (decode_string j (ch_Integrity h))
      else map_option (\<lambda>s. h\<lparr>ch_StripPrefix := s\<rparr>) (decode_string j (ch_StripPrefix h)))"

definition zero_hit :: cascade_hit where
  "zero_hit = \<lparr>ch_URL = [], ch_Integrity = [], ch_StripPrefix = []\<rparr>"

definition decode_hit :: "json \<Rightarrow> cascade_hit \<Rightarrow> cascade_hit option" where
  "decode_hit j h = decode_struct hit_names set_hit_field j h"

definition verdict_names :: "string list" where
  "verdict_names = [''next_state'', ''reason'', ''license'', ''hermeticity'', ''archive_size'', ''source_sha'',
     ''notes'', ''cascade_source'']"

text \<open>A pointer field: null clears it, an object is decoded into the struct it points to.\<close>

definition set_verdict_field :: "string \<Rightarrow> json \<Rightarrow> verdict \<Rightarrow> verdict option" where
  "set_verdict_field n j v =
     (if n = ''next_state'' then
        map_option (\<lambda>s. v\<lparr>vd_NextState := state_of_text s\<rparr>) (decode_string j (state_text (vd_NextState v)))
      else if n = ''reason'' then map_option (\<lambda>s. v\<lparr>vd_Reason := s\<rparr>) (decode_string j (vd_Reason v))
      else if n = ''license'' then map_option (\<lambda>s. v\<lparr>vd_License := s\<rparr>) (decode_string j (vd_License v))
      else if n = ''hermeticity'' then map_option (\<lambda>s. v\<lparr>vd_Hermeticity := s\<rparr>) (decode_string j (vd_Hermeticity v))
      else if n = ''archive_size'' then map_option (\<lambda>i. v\<lparr>vd_ArchiveSize := i\<rparr>) (decode_int64 j (vd_ArchiveSize v))
      else if n = ''source_sha'' then map_option (\<lambda>s. v\<lparr>vd_SourceSHA := s\<rparr>) (decode_string j (vd_SourceSHA v))
      else if n = ''notes'' then map_option (\<lambda>s. v\<lparr>vd_Notes := s\<rparr>) (decode_string j (vd_Notes v))
      else (case j of
          JNull \<Rightarrow> Some (v\<lparr>vd_CascadeSource := None\<rparr>)
        | _ \<Rightarrow> map_option (\<lambda>h. v\<lparr>vd_CascadeSource := Some h\<rparr>)
            (decode_hit j (case vd_CascadeSource v of Some h \<Rightarrow> h | None \<Rightarrow> zero_hit))))"

definition decode_verdict :: "json \<Rightarrow> verdict option" where
  "decode_verdict j = decode_struct verdict_names set_verdict_field j (verdict_of (RequestStateOther []))"

section \<open>The upstream probe\<close>

record bcr_probe =
  bp_baseURL :: string
  bp_client :: http_client

definition NewBCRProbe :: "string \<Rightarrow> http_client \<Rightarrow> bcr_probe" where
  "NewBCRProbe baseURL client = \<lparr>bp_baseURL = trim_right_byte baseURL (CHR ''/''), bp_client = client\<rparr>"

definition probe_url :: "bcr_probe \<Rightarrow> string \<Rightarrow> string \<Rightarrow> string" where
  "probe_url p m v = bp_baseURL p @ ''/modules/'' @ m @ ''/'' @ v @ ''/source.json''"

definition Has :: "bcr_probe \<Rightarrow> string \<Rightarrow> string \<Rightarrow> string + cascade_hit option" where
  "Has p m v =
     (let url = probe_url p m v
      in case hc_NewRequest (bp_client p) url of
           Some err \<Rightarrow> Inl err
         | None \<Rightarrow>
           (case hc_Do (bp_client p) url of
              Inl err \<Rightarrow> Inl err
            | Inr resp \<Rightarrow>
              (if hr_Status resp = 404 then Inr None
               else if hr_Status resp < 200 \<or> hr_Status resp \<ge> 300
               then Inl (''cascade GET '' @ url @ '': HTTP '' @ int_text (hr_Status resp))
               else (case read_limited (64 * 1024) resp of
                   Inl err \<Rightarrow> Inl (''cascade GET '' @ url @ '': read body: '' @ err)
                 | Inr body \<Rightarrow>
                   (case Option.bind (Unmarshal body) (\<lambda>j. decode_hit j zero_hit) of
                      None \<Rightarrow> Inl (''cascade GET '' @ url @ '': parse source.json'')
                    | Some hit \<Rightarrow>
                        (if ch_URL hit = [] \<or> ch_Integrity hit = []
                         then Inl (''cascade GET '' @ url @ '': source.json missing url or integrity'')
                         else Inr (Some hit)))))))"

section \<open>The default checker\<close>

text \<open>\<open>dc_Cascade\<close> is the probe, \<open>None\<close> when none is wired; \<open>dc_policy\<close> the current policy.\<close>

record default_checker =
  dc_policy :: "policy option"
  dc_Cascade :: "(string \<Rightarrow> string \<Rightarrow> string + cascade_hit option) option"
  dc_Hostname :: "string \<Rightarrow> string option"

definition denyByURLShape :: "policy \<Rightarrow> request \<Rightarrow> verdict option" where
  "denyByURLShape pol req =
     (if \<not> so_RequireHTTPS (ad_Source (po_Admission pol)) then None
      else if rq_SourceURL req = [] then None
      else if has_prefix (rq_SourceURL req) ''https://'' then None
      else Some ((verdict_of RequestStateDenied)\<lparr>vd_Reason :=
        ''source_url must be https:// (policy admission.source.require_https=true)''\<rparr>))"

definition hostOf :: "(string \<Rightarrow> string option) \<Rightarrow> string \<Rightarrow> string" where
  "hostOf hostname u =
     (if u = [] then []
      else (case hostname u of None \<Rightarrow> [] | Some h \<Rightarrow> to_lower h))"

definition denyByHostPolicy :: "(string \<Rightarrow> string option) \<Rightarrow> policy \<Rightarrow> request \<Rightarrow> verdict option" where
  "denyByHostPolicy hostname pol req =
     (let host = hostOf hostname (rq_SourceURL req)
      in if host = [] then None
      else if host \<in> set (so_DenylistedHosts (ad_Source (po_Admission pol)))
      then Some ((verdict_of RequestStateDenied)\<lparr>vd_Reason :=
        ''source host '' @ host @ '' is denylisted (policy admission.source.denylisted_hosts)''\<rparr>)
      else (let allow = so_AllowedHosts (ad_Source (po_Admission pol))
        in if length allow > 0 \<and> host \<notin> set allow
        then Some ((verdict_of RequestStateDenied)\<lparr>vd_Reason :=
          ''source host '' @ host @ '' is not in the allowlist (policy admission.source.allowed_hosts)''\<rparr>)
        else None))"

definition auto_pass_notes :: string where
  "auto_pass_notes = ''already published in upstream BCR '' @ [CHR 0xE2, CHR 0x80, CHR 0x94] @ '' skipping human review''"

definition autoPassByCascade :: "default_checker \<Rightarrow> policy \<Rightarrow> request \<Rightarrow> verdict option" where
  "autoPassByCascade c pol req =
     (case dc_Cascade c of
        None \<Rightarrow> None
      | Some has \<Rightarrow>
        (if \<not> re_AutoPassOnAlreadyInUpstream (ad_Review (po_Admission pol)) then None
         else (case has (rq_Module req) (rq_Version req) of
             Inl err \<Rightarrow> None
           | Inr None \<Rightarrow> None
           | Inr (Some hit) \<Rightarrow> Some ((verdict_of RequestStateAutoPass)
               \<lparr>vd_Notes := auto_pass_notes, vd_CascadeSource := Some hit\<rparr>))))"

definition review_verdict :: verdict where
  "review_verdict = (verdict_of RequestStateNeedsReview)\<lparr>vd_Notes := ''submitted for human review''\<rparr>"

definition Check :: "default_checker \<Rightarrow> request \<Rightarrow> verdict" where
  "Check c req =
     (case dc_policy c of
        None \<Rightarrow> review_verdict
      | Some pol \<Rightarrow>
        (case denyByURLShape pol req of
           Some v \<Rightarrow> v
         | None \<Rightarrow>
           (case denyByHostPolicy (dc_Hostname c) pol req of
              Some v \<Rightarrow> v
            | None \<Rightarrow>
              (case autoPassByCascade c pol req of
                 Some v \<Rightarrow> v
               | None \<Rightarrow> review_verdict))))"

section \<open>The stored verdict\<close>

lemma state_of_text_valid: "valid_next s \<Longrightarrow> state_of_text (state_text s) = s"
  by (cases s) (simp_all add: valid_next_def validNextStates_def state_of_text_def)

lemma valid_next_iff:
  "valid_next s \<longleftrightarrow> s \<in> {RequestStateAutoPass, RequestStateNeedsReview, RequestStateDenied}"
  by (cases s) (simp_all add: valid_next_def validNextStates_def)

definition hit_ok :: "cascade_hit \<Rightarrow> bool" where
  "hit_ok h \<longleftrightarrow> valid_utf8 (ch_URL h) \<and> valid_utf8 (ch_Integrity h) \<and> valid_utf8 (ch_StripPrefix h)"

definition verdict_storable :: "verdict \<Rightarrow> bool" where
  "verdict_storable v \<longleftrightarrow> valid_next (vd_NextState v) \<and> - (2 ^ 63) \<le> vd_ArchiveSize v \<and> vd_ArchiveSize v < 2 ^ 63 \<and>
     list_all valid_utf8 [vd_Reason v, vd_License v, vd_Hermeticity v, vd_SourceSHA v, vd_Notes v] \<and>
     (case vd_CascadeSource v of None \<Rightarrow> True | Some h \<Rightarrow> hit_ok h)"

lemma decode_hit_json: "decode_hit (hit_json h) zero_hit = Some h"
  by (cases h) (simp add: decode_hit_def hit_json_def decode_struct_def zero_hit_def hit_names_def
      set_hit_field_def omit_empty_def)

abbreviation decode_rest :: "(string \<times> json) list \<Rightarrow> verdict \<Rightarrow> verdict option" where
  "decode_rest \<equiv> decode_members verdict_names set_verdict_field"

lemma decode_verdict_steps:
  "vd_Reason v = [] \<Longrightarrow> decode_rest (omit_empty ''reason'' s @ ms) v = decode_rest ms (v\<lparr>vd_Reason := s\<rparr>)"
  "vd_License v = [] \<Longrightarrow> decode_rest (omit_empty ''license'' s @ ms) v = decode_rest ms (v\<lparr>vd_License := s\<rparr>)"
  "vd_Hermeticity v = [] \<Longrightarrow> decode_rest (omit_empty ''hermeticity'' s @ ms) v = decode_rest ms (v\<lparr>vd_Hermeticity := s\<rparr>)"
  "vd_SourceSHA v = [] \<Longrightarrow> decode_rest (omit_empty ''source_sha'' s @ ms) v = decode_rest ms (v\<lparr>vd_SourceSHA := s\<rparr>)"
  "vd_Notes v = [] \<Longrightarrow> decode_rest (omit_empty ''notes'' s @ ms) v = decode_rest ms (v\<lparr>vd_Notes := s\<rparr>)"
  by (cases v; simp add: omit_empty_def set_verdict_field_def verdict_names_def)+

lemma decode_verdict_size:
  "vd_ArchiveSize v = 0 \<Longrightarrow> - (2 ^ 63) \<le> i \<Longrightarrow> i < 2 ^ 63 \<Longrightarrow>
   decode_rest ((if i = 0 then [] else [(''archive_size'', JNum (int_text i))]) @ ms) v = decode_rest ms (v\<lparr>vd_ArchiveSize := i\<rparr>)"
  by (cases v) (simp add: set_verdict_field_def verdict_names_def parse_int_text)

lemma decode_verdict_hit:
  "vd_CascadeSource v = None \<Longrightarrow>
   decode_rest (case c of None \<Rightarrow> [] | Some h \<Rightarrow> [(''cascade_source'', hit_json h)]) v = Some (v\<lparr>vd_CascadeSource := c\<rparr>)"
  using decode_hit_json
  by (cases v; cases c) (simp_all add: set_verdict_field_def verdict_names_def hit_json_def)

lemma decode_verdict_json:
  assumes "verdict_storable v"
  shows "decode_verdict (verdict_json v) = Some v"
proof -
  have state: "state_of_text (state_text (vd_NextState v)) = vd_NextState v"
    and size: "- (2 ^ 63) \<le> vd_ArchiveSize v" "vd_ArchiveSize v < 2 ^ 63"
    using assms state_of_text_valid by (auto simp: verdict_storable_def)
  have "decode_verdict (verdict_json v) = decode_rest (case verdict_json v of JObj ms \<Rightarrow> tl ms)
      (verdict_of (vd_NextState v))"
    by (simp add: decode_verdict_def verdict_json_def decode_struct_def set_verdict_field_def verdict_names_def
        verdict_of_def state)
  also have "\<dots> = Some v"
    unfolding verdict_json_def
    by (simp only: json.case list.sel) (simp add: decode_verdict_steps decode_verdict_size [OF _ size] decode_verdict_hit verdict_of_def
        del: append.simps)
  finally show ?thesis .
qed

lemma verdict_json_ok:
  assumes "verdict_storable v"
  shows "json_ok (verdict_json v)" and "nests maxNestingDepth (verdict_json v)"
proof -
  have lits: "valid_utf8 (state_text (vd_NextState v))"
    using assms by (cases "vd_NextState v") (simp_all add: verdict_storable_def valid_next_iff)
  have "json_ok (hit_json h) \<and> nests (Suc k) (hit_json h)" if "hit_ok h" for h k
    using that by (simp add: hit_ok_def hit_json_def)
  then show "json_ok (verdict_json v)" and "nests maxNestingDepth (verdict_json v)"
    using assms lits
    by (auto simp: verdict_json_def verdict_storable_def parse_int_text maxNestingDepth_def numeral_eq_Suc split: option.splits)
qed

text \<open>
  The verdict the runner stores as JSON text is read back unchanged, the upstream source
  location included, as long as its text is valid UTF-8 and its size a 64-bit number.
\<close>

theorem stored_verdict_roundtrip:
  assumes "verdict_storable v"
  shows "Option.bind (Unmarshal (Marshal (verdict_json v))) decode_verdict = Some v"
  using Unmarshal_render [OF layout_ok_compact verdict_json_ok [OF assms]] decode_verdict_json [OF assms]
  by (simp add: Marshal_def)

definition sample_verdict :: verdict where
  "sample_verdict = (verdict_of RequestStateAutoPass)\<lparr>vd_Notes := ''R&D <ok>'', vd_ArchiveSize := 12,
     vd_CascadeSource := Some \<lparr>ch_URL = ''https://a/b'', ch_Integrity = ''sha256-x'', ch_StripPrefix = ''b''\<rparr>\<rparr>"

lemma stored_verdict_roundtrip_witness:
  "Option.bind (Unmarshal (Marshal (verdict_json sample_verdict))) decode_verdict = Some sample_verdict"
  by (rule stored_verdict_roundtrip)
     (simp add: sample_verdict_def verdict_storable_def verdict_of_def hit_ok_def valid_next_iff)

section \<open>The decision\<close>

definition refused_by :: "(string \<Rightarrow> string option) \<Rightarrow> policy \<Rightarrow> string \<Rightarrow> bool" where
  "refused_by hostname pol url \<longleftrightarrow>
     (let src = ad_Source (po_Admission pol); host = hostOf hostname url
      in so_RequireHTTPS src \<and> url \<noteq> [] \<and> \<not> has_prefix url ''https://'' \<or>
         host \<noteq> [] \<and> (host \<in> set (so_DenylistedHosts src) \<or>
           so_AllowedHosts src \<noteq> [] \<and> host \<notin> set (so_AllowedHosts src)))"

definition upstream_hit :: "default_checker \<Rightarrow> policy \<Rightarrow> request \<Rightarrow> cascade_hit option" where
  "upstream_hit c pol req =
     (if re_AutoPassOnAlreadyInUpstream (ad_Review (po_Admission pol))
      then (case dc_Cascade c of
              None \<Rightarrow> None
            | Some has \<Rightarrow> (case has (rq_Module req) (rq_Version req) of Inl _ \<Rightarrow> None | Inr h \<Rightarrow> h))
      else None)"

lemma denials:
  "(denyByURLShape pol req = None \<and> denyByHostPolicy hostname pol req = None) \<longleftrightarrow>
     \<not> refused_by hostname pol (rq_SourceURL req)"
  by (auto simp: denyByURLShape_def denyByHostPolicy_def refused_by_def Let_def)

lemma denial_verdicts:
  "denyByURLShape pol req = Some v \<Longrightarrow> vd_NextState v = RequestStateDenied \<and> vd_CascadeSource v = None \<and> vd_Reason v \<noteq> []"
  "denyByHostPolicy hostname pol req = Some v \<Longrightarrow>
     vd_NextState v = RequestStateDenied \<and> vd_CascadeSource v = None \<and> vd_Reason v \<noteq> []"
  by (auto simp: denyByURLShape_def denyByHostPolicy_def verdict_of_def Let_def split: if_splits)

lemma autoPass_hit:
  "autoPassByCascade c pol req = map_option (\<lambda>hit. (verdict_of RequestStateAutoPass)
     \<lparr>vd_Notes := auto_pass_notes, vd_CascadeSource := Some hit\<rparr>) (upstream_hit c pol req)"
  by (auto simp: autoPassByCascade_def upstream_hit_def split: option.splits sum.splits)

lemma Check_cases:
  obtains (no_policy) "dc_policy c = None" "Check c req = review_verdict"
    | (refused) pol v where "dc_policy c = Some pol" "refused_by (dc_Hostname c) pol (rq_SourceURL req)"
        "Check c req = v" "vd_NextState v = RequestStateDenied" "vd_CascadeSource v = None" "vd_Reason v \<noteq> []"
    | (passed) pol hit where "dc_policy c = Some pol" "\<not> refused_by (dc_Hostname c) pol (rq_SourceURL req)"
        "upstream_hit c pol req = Some hit" "Check c req = (verdict_of RequestStateAutoPass)
           \<lparr>vd_Notes := auto_pass_notes, vd_CascadeSource := Some hit\<rparr>"
    | (review) pol where "dc_policy c = Some pol" "\<not> refused_by (dc_Hostname c) pol (rq_SourceURL req)"
        "upstream_hit c pol req = None" "Check c req = review_verdict"
proof (cases "dc_policy c")
  case None
  then show thesis using no_policy by (simp add: Check_def)
next
  case (Some pol)
  show thesis
  proof (cases "denyByURLShape pol req")
    case (Some v)
    with \<open>dc_policy c = Some pol\<close> denial_verdicts(1) [OF Some] denials [of pol req "dc_Hostname c"]
    show thesis by (intro refused [of pol v]) (simp_all add: Check_def)
  next
    case u: None
    show thesis
    proof (cases "denyByHostPolicy (dc_Hostname c) pol req")
      case (Some v)
      with \<open>dc_policy c = Some pol\<close> u denial_verdicts(2) [OF Some] denials [of pol req "dc_Hostname c"]
      show thesis by (intro refused [of pol v]) (simp_all add: Check_def)
    next
      case None
      then have "\<not> refused_by (dc_Hostname c) pol (rq_SourceURL req)" using u denials by blast
      then show thesis
        using Some u None passed [OF Some] review [OF Some]
        by (cases "upstream_hit c pol req") (simp_all add: Check_def autoPass_hit)
    qed
  qed
qed

text \<open>
  The checker denies exactly the requests whose source the policy refuses: a plain URL under
  require-https, a denylisted host, a host outside a non-empty allowlist. Of the others it
  passes exactly those the policy lets through because the upstream has the version, and then
  carries the upstream's location; a probe that fails or finds nothing leaves the request to
  a reviewer. A denial gives a reason, and the next state is always one the runner accepts.
\<close>

theorem Check_exact:
  "(vd_NextState (Check c req) = RequestStateDenied \<longleftrightarrow>
      (\<exists>pol. dc_policy c = Some pol \<and> refused_by (dc_Hostname c) pol (rq_SourceURL req))) \<and>
   (vd_CascadeSource (Check c req) = Some hit \<longleftrightarrow>
      (\<exists>pol. dc_policy c = Some pol \<and> upstream_hit c pol req = Some hit \<and>
        \<not> refused_by (dc_Hostname c) pol (rq_SourceURL req))) \<and>
   (vd_NextState (Check c req) = RequestStateAutoPass \<longleftrightarrow> (\<exists>h. vd_CascadeSource (Check c req) = Some h)) \<and>
   \<not> (vd_NextState (Check c req) = RequestStateDenied \<and> vd_Reason (Check c req) = []) \<and>
   valid_next (vd_NextState (Check c req))"
  by (cases rule: Check_cases [of c req]) (auto simp: review_verdict_def verdict_of_def valid_next_iff)

section \<open>The probe\<close>

text \<open>
  The probe reports a hit only for a version whose source.json the upstream serves with a
  success status, parses, and names both a location and an integrity; it reports absence only
  for the status 404. Every other answer is an error.
\<close>

theorem Has_outcomes:
  "(Has p m v = Inr None \<longleftrightarrow>
      hc_NewRequest (bp_client p) (probe_url p m v) = None \<and>
      (\<exists>r. hc_Do (bp_client p) (probe_url p m v) = Inr r \<and> hr_Status r = 404)) \<and>
   (Has p m v = Inr (Some hit) \<longleftrightarrow>
      hc_NewRequest (bp_client p) (probe_url p m v) = None \<and> ch_URL hit \<noteq> [] \<and> ch_Integrity hit \<noteq> [] \<and>
      (\<exists>r body j. hc_Do (bp_client p) (probe_url p m v) = Inr r \<and> 200 \<le> hr_Status r \<and> hr_Status r < 300 \<and>
        read_limited 65536 r = Inr body \<and> length body \<le> 65536 \<and> Unmarshal body = Some j \<and>
        decode_hit j zero_hit = Some hit))"
proof -
  have "read_limited 65536 r = Inr b \<Longrightarrow> length b \<le> 65536" for r b by (rule read_limited_bound)
  then show ?thesis
    by (auto simp: Has_def Let_def bind_eq_Some_conv split: option.splits sum.splits if_splits)
qed

end
