(* ===== verification/WorkQueue.thy ===== *)
theory WorkQueue
  imports Requests
begin

text \<open>
  The contract the two runners share: a tick of a worker, when nothing fails, takes one request
  that is ready and settles it. What follows from it for any number of ticks is proved once here.
\<close>

locale work_queue =
  fixes inv :: "'s \<Rightarrow> bool"
    and view :: "'s \<Rightarrow> int \<Rightarrow> request_state option"
    and good :: "'e \<Rightarrow> bool"
    and tick :: "'e \<Rightarrow> 's \<Rightarrow> 's"
    and ready :: "request_state \<Rightarrow> bool"
    and settled :: "request_state \<Rightarrow> bool"
  assumes tick_inv: "inv s \<Longrightarrow> good e \<Longrightarrow> inv (tick e s)"
    and ready_finite: "inv s \<Longrightarrow> finite {i. \<exists>x. view s i = Some x \<and> ready x}"
    and tick_takes: "inv s \<Longrightarrow> good e \<Longrightarrow> view s i = Some x \<Longrightarrow> ready x \<Longrightarrow>
      \<exists>k y z. view s k = Some y \<and> ready y \<and> settled z \<and> view (tick e s) = (view s)(k \<mapsto> z)"
    and tick_rests: "inv s \<Longrightarrow> good e \<Longrightarrow> (\<And>i x. view s i = Some x \<Longrightarrow> \<not> ready x) \<Longrightarrow> tick e s = s"
    and settled_not_ready: "settled z \<Longrightarrow> \<not> ready z"
begin

definition waiting :: "'s \<Rightarrow> int set" where
  "waiting s = {i. \<exists>x. view s i = Some x \<and> ready x}"

text \<open>Each request is as it was, or was ready and is settled.\<close>

definition advances :: "'s \<Rightarrow> 's \<Rightarrow> bool" where
  "advances s t \<longleftrightarrow> (\<forall>i. view t i = view s i \<or>
     (\<exists>x z. view s i = Some x \<and> ready x \<and> view t i = Some z \<and> settled z))"

lemma advances_trans: "advances s t \<Longrightarrow> advances t u \<Longrightarrow> advances s u"
  unfolding advances_def using settled_not_ready by (metis option.inject)

lemma tick_advances:
  assumes "inv s" and "good e"
  shows "advances s (tick e s) \<and> card (waiting (tick e s)) = card (waiting s) - 1"
proof (cases "waiting s = {}")
  case True
  then have "tick e s = s" using tick_rests [OF assms] by (auto simp: waiting_def)
  then show ?thesis using True by (simp add: advances_def)
next
  case False
  then obtain i x where "view s i = Some x" "ready x" by (auto simp: waiting_def)
  from tick_takes [OF assms this] obtain k y z
    where k: "view s k = Some y" "ready y" "settled z" "view (tick e s) = (view s)(k \<mapsto> z)" by blast
  then have "waiting (tick e s) = waiting s - {k}" and "k \<in> waiting s"
    using settled_not_ready by (auto simp: waiting_def)
  moreover have "finite (waiting s)" using ready_finite [OF assms(1)] by (simp add: waiting_def)
  ultimately show ?thesis using k by (auto simp: advances_def)
qed

lemma ticks_settle:
  assumes "inv s" and "list_all good es" and "card (waiting s) \<le> length es"
  shows "inv (fold tick es s) \<and> waiting (fold tick es s) = {} \<and> advances s (fold tick es s)"
  using assms
proof (induction es arbitrary: s)
  case Nil
  then show ?case using ready_finite [of s] by (simp add: waiting_def advances_def)
next
  case (Cons e es)
  then have step: "inv (tick e s)" "advances s (tick e s)" "card (waiting (tick e s)) \<le> length es"
    using tick_inv tick_advances by simp_all
  from Cons.IH [OF step(1) _ step(3)] Cons.prems(2) step(2) show ?case
    using advances_trans by auto
qed

end

end
