(* ===== verification/PreflightRunner.thy ===== *)
theory PreflightRunner
  imports Preflight WorkQueue
begin

text \<open>
  The workers of the preflight runner (src/internal/preflight/runner.go). One tick lists the
  pending requests, claims the first it can move to preflighting, checks it, stores the
  verdict and writes an audit event. What the store, the clock and the cancellation of the
  context do during a tick is its environment.
\<close>

section \<open>One tick\<close>

record hub_db =
  db_requests :: request_store
  db_audit :: audit_log

text \<open>
  Each statement has its outcome and its clock reading; \<open>te_Cancelled k\<close> says that the context is
  done when the worker reaches its k-th candidate.
\<close>

record tick_env =
  te_List :: sql_fault
  te_Scan :: "request_row list \<Rightarrow> request_row list"
  te_Cancelled :: "nat \<Rightarrow> bool"
  te_Claim :: "nat \<Rightarrow> sql_fault \<times> int"
  te_Apply :: "sql_fault \<times> int"
  te_Audit :: "string option \<times> int"

text \<open>
  The claiming loop: a candidate that another worker has taken, or whose transition fails, is
  skipped.
\<close>

fun claim_first ::
  "(request \<Rightarrow> request_state) \<Rightarrow> request_state \<Rightarrow> tick_env \<Rightarrow> nat \<Rightarrow> request list \<Rightarrow> request_store \<Rightarrow>
   request option \<times> request_store" where
  "claim_first fromState toState env k [] st = (None, st)"
| "claim_first fromState toState env k (r # rs) st =
     (if te_Cancelled env k then (None, st)
      else (case te_Claim env k of (fault, now) \<Rightarrow>
        (case TransitionRequest fault now (rq_ID r) (fromState r) toState None st of
           (None, st') \<Rightarrow> (Some r, st')
         | (Some err, st') \<Rightarrow> claim_first fromState toState env (Suc k) rs st')))"

record preflight_runner =
  pr_workers :: int
  pr_pollEvery :: int

definition defaultWorkers :: int where "defaultWorkers = 2"
definition defaultPollEvery :: int where "defaultPollEvery = 5 * 1000000000"

text \<open>\<open>None\<close> is the panic on a missing store or checker.\<close>

definition NewPreflightRunner :: "bool \<Rightarrow> bool \<Rightarrow> int \<Rightarrow> int \<Rightarrow> preflight_runner option" where
  "NewPreflightRunner has_store has_checker workers pollEvery =
     (if \<not> has_store then None
      else if \<not> has_checker then None
      else Some \<lparr>pr_workers = (if workers \<le> 0 then defaultWorkers else workers),
                 pr_pollEvery = (if pollEvery \<le> 0 then defaultPollEvery else pollEvery)\<rparr>)"

definition verdict_fields :: "verdict \<Rightarrow> request_fields" where
  "verdict_fields v =
     (let flds = no_fields\<lparr>ff_PreflightJSON := Marshal (verdict_json v)\<rparr>
      in if vd_NextState v = RequestStateDenied then flds\<lparr>ff_DenialReason := vd_Reason v\<rparr> else flds)"

definition verdict_event :: "request \<Rightarrow> verdict \<Rightarrow> audit_event" where
  "verdict_event req v =
     \<lparr>ae_ID = 0, ae_Timestamp = None, ae_Kind = ''preflight_'' @ state_text (vd_NextState v), ae_Source = ''preflight'',
      ae_Module = rq_Module req, ae_Version = rq_Version req, ae_OK = (vd_NextState v \<noteq> RequestStateDenied),
      ae_DurationMs = 0, ae_Error = vd_Reason v, ae_Payload = Marshal (verdict_json v), ae_UserID = []\<rparr>"

definition preflight_processOwned :: "(request \<Rightarrow> verdict) \<Rightarrow> tick_env \<Rightarrow> request \<Rightarrow> hub_db \<Rightarrow> hub_db" where
  "preflight_processOwned check env req db =
     (let v = check req
      in if \<not> valid_next (vd_NextState v) then db
      else (case te_Apply env of (fault, now) \<Rightarrow>
        (case TransitionRequest fault now (rq_ID req) RequestStatePreflighting (vd_NextState v)
            (Some (verdict_fields v)) (db_requests db) of
           (Some err, st') \<Rightarrow> db\<lparr>db_requests := st'\<rparr>
         | (None, st') \<Rightarrow>
           (case te_Audit env of (audit_fault, audit_now) \<Rightarrow>
              db\<lparr>db_requests := st',
                 db_audit := snd (RecordAudit audit_fault audit_now (verdict_event req v) (db_audit db))\<rparr>))))"

definition preflight_tryProcessOne ::
  "preflight_runner \<Rightarrow> (request \<Rightarrow> verdict) \<Rightarrow> tick_env \<Rightarrow> hub_db \<Rightarrow> hub_db" where
  "preflight_tryProcessOne r check env db =
     (case ListRequests (te_List env) (te_Scan env)
         \<lparr>qq_States = [RequestStatePending], qq_Submitter = [], qq_Limit = pr_workers r * 2\<rparr> (db_requests db) of
        Inl err \<Rightarrow> db
      | Inr pending \<Rightarrow>
        (case claim_first (\<lambda>_. RequestStatePending) RequestStatePreflighting env 0 pending (db_requests db) of
           (None, st') \<Rightarrow> db\<lparr>db_requests := st'\<rparr>
         | (Some req, st') \<Rightarrow> preflight_processOwned check env req (db\<lparr>db_requests := st'\<rparr>)))"

section \<open>The claim\<close>

definition scan_ok :: "(request_row list \<Rightarrow> request_row list) \<Rightarrow> bool" where
  "scan_ok scan \<longleftrightarrow> (\<forall>rows. mset (scan rows) = mset rows)"

lemma ListRequests_member:
  assumes "ListRequests fault scan q st = Inr rs" and "scan_ok scan" and "r \<in> set rs"
  obtains row where "row \<in> set (rs_rows st)" "row_matches q row" "r = scanRequest row"
proof -
  have "set (scan rows) = set rows" for rows using assms(2) by (metis scan_ok_def set_mset_mset)
  then have mem: "x \<in> set (take n (sort_key g (scan rows))) \<Longrightarrow> x \<in> set rows" for x n g rows
    by (metis in_set_takeD set_sort)
  let ?n = "nat (if qq_Limit q \<le> 0 \<or> 500 < qq_Limit q then 500 else qq_Limit q)"
  have "rs = map scanRequest (take ?n (sort_key (\<lambda>row. - rw_created_at row) (scan (filter (row_matches q) (rs_rows st)))))"
    using assms(1) by (auto simp: ListRequests_def Let_def split: option.splits)
  then obtain x where "x \<in> set (take ?n (sort_key (\<lambda>row. - rw_created_at row) (scan (filter (row_matches q) (rs_rows st)))))"
      "r = scanRequest x"
    using assms(3) by (auto simp del: set_sort)
  with mem [OF this(1)] show thesis using that by (auto simp del: set_sort)
qed

lemma claim_first_None:
  assumes "claim_first f t env k rs st = (None, st')" and "store_ok st" and "\<And>k. sf_Result (fst (te_Claim env k)) = None"
  shows "st' = st"
  using assms(1)
proof (induction rs arbitrary: k)
  case (Cons r rs)
  have "TransitionRequest fault now i a b c st = (Some e, st'') \<Longrightarrow> sf_Result fault = None \<Longrightarrow> st'' = st"
    for fault now i a b c e st'' by (rule TransitionRequest_failure [OF assms(2)])
  then show ?case using Cons assms(3) [of k]
    by (auto split: if_splits prod.splits option.splits) (metis)
qed simp

lemma claim_first_Some:
  assumes "claim_first f t env k rs st = (Some r, st')" and "store_ok st" and "\<And>k. sf_Result (fst (te_Claim env k)) = None"
  obtains row now where "r \<in> set rs" "row_of st (rq_ID r) = Some row" "rw_state row = f r" "store_ok st'"
    "row_of st' = (row_of st)(rq_ID r \<mapsto> moved now t None row)" "rs_seq st' = rs_seq st"
proof -
  have "\<exists>row now. r \<in> set rs \<and> row_of st (rq_ID r) = Some row \<and> rw_state row = f r \<and> store_ok st' \<and>
    row_of st' = (row_of st)(rq_ID r \<mapsto> moved now t None row) \<and> rs_seq st' = rs_seq st"
    using assms(1)
  proof (induction rs arbitrary: k)
    case (Cons x rs)
    obtain fault now where c: "te_Claim env k = (fault, now)" by fastforce
    obtain e st1 where t: "TransitionRequest fault now (rq_ID x) (f x) t None st = (e, st1)" by fastforce
    have nc: "\<not> te_Cancelled env k" using Cons.prems by (auto split: if_splits)
    show ?case
    proof (cases e)
      case None
      then have "r = x" "st1 = st'" using Cons.prems nc by (simp_all add: c t)
      with None t TransitionRequest_success [OF assms(2), of fault now "rq_ID x" "f x" t None st']
        TransitionRequest_ok [OF assms(2) t] show ?thesis by (metis list.set_intros(1))
    next
      case (Some err)
      then have "st1 = st" using TransitionRequest_failure [OF assms(2)] t assms(3) [of k] c by (metis fst_conv)
      then have "claim_first f t env (Suc k) rs st = (Some r, st')" using Cons.prems nc Some by (simp add: c t)
      from Cons.IH [OF this] show ?thesis by auto
    qed
  qed simp
  then show thesis using that by blast
qed

section \<open>What a tick does\<close>

definition faultless :: "tick_env \<Rightarrow> bool" where
  "faultless env \<longleftrightarrow> te_List env = no_fault \<and> (\<forall>k. \<not> te_Cancelled env k) \<and>
     (\<forall>k. fst (te_Claim env k) = no_fault) \<and> fst (te_Apply env) = no_fault \<and> fst (te_Audit env) = None"

text \<open>Whatever fails, a statement that ran reports its result.\<close>

definition results_read :: "tick_env \<Rightarrow> bool" where
  "results_read env \<longleftrightarrow> scan_ok (te_Scan env) \<and> (\<forall>k. sf_Result (fst (te_Claim env k)) = None) \<and>
     sf_Result (fst (te_Apply env)) = None"

lemma valid_next_legal: "valid_next s \<Longrightarrow> CanTransitionTo RequestStatePreflighting s"
  by (auto simp: valid_next_iff CanTransitionTo_iff)

lemma processOwned_result:
  assumes "store_ok (db_requests db)" and "sf_Result (fst (te_Apply env)) = None"
    and "state_of (db_requests db) (rq_ID r) = Some RequestStatePreflighting"
  shows "preflight_processOwned check env r db =
     (if \<not> valid_next (vd_NextState (check r)) \<or> sf_Exec (fst (te_Apply env)) \<noteq> None then db
      else db\<lparr>db_requests := snd (TransitionRequest (fst (te_Apply env)) (snd (te_Apply env)) (rq_ID r)
                  RequestStatePreflighting (vd_NextState (check r)) (Some (verdict_fields (check r))) (db_requests db)),
              db_audit := snd (RecordAudit (fst (te_Audit env)) (snd (te_Audit env)) (verdict_event r (check r)) (db_audit db))\<rparr>)"
proof -
  obtain fault now where a: "te_Apply env = (fault, now)" by fastforce
  obtain e st' where t: "TransitionRequest fault now (rq_ID r) RequestStatePreflighting (vd_NextState (check r))
      (Some (verdict_fields (check r))) (db_requests db) = (e, st')" by fastforce
  have "e = None \<longleftrightarrow> valid_next (vd_NextState (check r)) \<and> sf_Exec fault = None" "e \<noteq> None \<Longrightarrow> st' = db_requests db"
    if "valid_next (vd_NextState (check r))"
    using t assms a valid_next_legal [OF that] that
    by (auto simp: TransitionRequest_cases [OF assms(1)] Let_def split: if_splits option.splits)
  then show ?thesis
    by (cases e) (auto simp: preflight_processOwned_def Let_def a t split: prod.splits)
qed

lemma tick_cases:
  assumes "store_ok (db_requests db)" and "results_read env"
  obtains (idle) "preflight_tryProcessOne w check env db = db"
    | (owned) i row now st1 where "row_of (db_requests db) i = Some row" "rw_state row = RequestStatePending"
        "store_ok st1" "row_of st1 = (row_of (db_requests db))(i \<mapsto> moved now RequestStatePreflighting None row)"
        "rw_id row = i" "rs_seq st1 = rs_seq (db_requests db)"
        "preflight_tryProcessOne w check env db =
           preflight_processOwned check env (scanRequest row) (db\<lparr>db_requests := st1\<rparr>)"
proof -
  define q where "q = \<lparr>qq_States = [RequestStatePending], qq_Submitter = [], qq_Limit = pr_workers w * 2\<rparr>"
  show thesis
  proof (cases "ListRequests (te_List env) (te_Scan env) q (db_requests db)")
    case (Inl err)
    then show thesis using idle by (simp add: preflight_tryProcessOne_def q_def)
  next
    case (Inr pending)
    obtain res st1 where c: "claim_first (\<lambda>_. RequestStatePending) RequestStatePreflighting env 0 pending (db_requests db) = (res, st1)"
      by fastforce
    have rr: "sf_Result (fst (te_Claim env k)) = None" for k using assms(2) by (simp add: results_read_def)
    show thesis
    proof (cases res)
      case None
      then have "st1 = db_requests db" using claim_first_None [OF _ assms(1) rr] c by blast
      then show thesis using idle Inr c None by (simp add: preflight_tryProcessOne_def q_def)
    next
      case (Some r)
      obtain row now where r: "r \<in> set pending" "row_of (db_requests db) (rq_ID r) = Some row" "rw_state row = RequestStatePending"
        "store_ok st1" "row_of st1 = (row_of (db_requests db))(rq_ID r \<mapsto> moved now RequestStatePreflighting None row)"
        "rs_seq st1 = rs_seq (db_requests db)"
        using claim_first_Some [OF c [unfolded Some] assms(1) rr] by blast
      obtain row' where "row' \<in> set (rs_rows (db_requests db))" "r = scanRequest row'"
        using ListRequests_member [OF Inr _ r(1)] assms(2) by (auto simp: results_read_def)
      then have "row' = row" using r(2) row_of_iff [OF store_ok_distinct [OF assms(1)]]
        by (metis (no_types, lifting) scanRequest_def request.select_convs(1) option.inject)
      then have "r = scanRequest row" using \<open>r = scanRequest row'\<close> by simp
      then show thesis using r Inr c Some row_of_in [OF r(2)]
        by (intro owned [where i = "rq_ID r" and row = row and now = now and ?st1.0 = st1]) (simp_all add: preflight_tryProcessOne_def q_def)
    qed
  qed
qed

lemma state_of_upd: "row_of st' = (row_of st)(i \<mapsto> row) \<Longrightarrow> state_of st' = (state_of st)(i \<mapsto> rw_state row)"
  by (auto simp: state_of_def fun_eq_iff)

lemma tick_effect:
  assumes "store_ok (db_requests db)" and "results_read env"
    and "db' = preflight_tryProcessOne w check env db"
  shows "db' = db \<or>
    (\<exists>i row now now'. row_of (db_requests db) i = Some row \<and> rw_state row = RequestStatePending \<and>
       (let v = check (scanRequest row); claimed = moved now RequestStatePreflighting None row
        in if valid_next (vd_NextState v) \<and> sf_Exec (fst (te_Apply env)) = None
           then row_of (db_requests db') = (row_of (db_requests db))
                  (i \<mapsto> moved now' (vd_NextState v) (Some (verdict_fields v)) claimed) \<and>
                db_audit db' = snd (RecordAudit (fst (te_Audit env)) (snd (te_Audit env))
                  (verdict_event (scanRequest row) v) (db_audit db))
           else row_of (db_requests db') = (row_of (db_requests db))(i \<mapsto> claimed) \<and> db_audit db' = db_audit db))"
  using assms(1,2)
proof (cases rule: tick_cases [where w = w and check = check])
  case idle
  then show ?thesis using assms(3) by simp
next
  case (owned i row now st1)
  define v where "v = check (scanRequest row)"
  have id: "rq_ID (scanRequest row) = i" using owned(5) by (simp add: scanRequest_def)
  have pre: "row_of st1 i = Some (moved now RequestStatePreflighting None row)" by (simp add: owned(4))
  then have st: "state_of st1 i = Some RequestStatePreflighting" by (simp add: state_of_def)
  have res: "sf_Result (fst (te_Apply env)) = None" using assms(2) by (simp add: results_read_def)
  have db': "db' = preflight_processOwned check env (scanRequest row) (db\<lparr>db_requests := st1\<rparr>)"
    using assms(3) owned(7) by simp
  show ?thesis
  proof (cases "valid_next (vd_NextState v) \<and> sf_Exec (fst (te_Apply env)) = None")
    case True
    define st2 where "st2 = snd (TransitionRequest (fst (te_Apply env)) (snd (te_Apply env)) i
      RequestStatePreflighting (vd_NextState v) (Some (verdict_fields v)) st1)"
    have "row_of st2 = (row_of st1)(i \<mapsto> moved (snd (te_Apply env)) (vd_NextState v) (Some (verdict_fields v))
        (moved now RequestStatePreflighting None row))"
      using True row_of_transition [OF owned(3) pre] st valid_next_legal res
      by (simp add: st2_def TransitionRequest_cases [OF owned(3)])
    moreover have "db' = db\<lparr>db_requests := st2, db_audit := snd (RecordAudit (fst (te_Audit env)) (snd (te_Audit env))
        (verdict_event (scanRequest row) v) (db_audit db))\<rparr>"
      using True db' processOwned_result [of "db\<lparr>db_requests := st1\<rparr>" env "scanRequest row" check] owned(3) res st
      by (simp add: id v_def st2_def)
    ultimately show ?thesis using True owned(1,2,4) unfolding v_def Let_def
      by (intro disjI2 exI [of _ i] exI [of _ row] exI [of _ now] exI [of _ "snd (te_Apply env)"]) simp
  next
    case False
    then have "db' = db\<lparr>db_requests := st1\<rparr>"
      using db' processOwned_result [of "db\<lparr>db_requests := st1\<rparr>" env "scanRequest row" check] owned(3) res st
      by (auto simp: id v_def)
    then show ?thesis using False owned(1,2,4) unfolding v_def Let_def
      by (intro disjI2 exI [of _ i] exI [of _ row] exI [of _ now]) auto
  qed
qed

text \<open>
  A tick leaves everything as it is, or takes one pending request and stores the checker's
  verdict for it: the request gets the verdict's state, the verdict as its stored JSON and, for a
  denial, the reason, and the log one event naming the verdict. If the verdict is not one the
  runner accepts or its statement fails, the request stays in preflighting, from which no
  tick takes it again. No other request is touched.
\<close>

theorem preflight_tick_exact:
  assumes "store_ok (db_requests db)" and "results_read env"
    and "db' = preflight_tryProcessOne w check env db"
  shows "db' = db \<or>
    (\<exists>i row now now'. row_of (db_requests db) i = Some row \<and> rw_state row = RequestStatePending \<and>
       (let v = check (scanRequest row); claimed = moved now RequestStatePreflighting None row
        in if valid_next (vd_NextState v) \<and> sf_Exec (fst (te_Apply env)) = None
           then row_of (db_requests db') = (row_of (db_requests db))
                  (i \<mapsto> moved now' (vd_NextState v) (Some (verdict_fields v)) claimed) \<and>
                db_audit db' = snd (RecordAudit (fst (te_Audit env)) (snd (te_Audit env))
                  (verdict_event (scanRequest row) v) (db_audit db))
           else row_of (db_requests db') = (row_of (db_requests db))(i \<mapsto> claimed) \<and> db_audit db' = db_audit db))"
  by (rule tick_effect [OF assms])

definition ideal_env :: tick_env where
  "ideal_env = \<lparr>te_List = no_fault, te_Scan = id, te_Cancelled = (\<lambda>_. False), te_Claim = (\<lambda>_. (no_fault, 7)),
     te_Apply = (no_fault, 8), te_Audit = (None, 9)\<rparr>"

lemma ideal_env_ok: "faultless ideal_env" "results_read ideal_env"
  by (simp_all add: faultless_def results_read_def scan_ok_def ideal_env_def no_fault_def)

definition open_checker :: default_checker where
  "open_checker = \<lparr>dc_policy = None, dc_Cascade = None, dc_Hostname = (\<lambda>_. None)\<rparr>"

definition one_db :: hub_db where
  "one_db = \<lparr>db_requests = one_request, db_audit = empty_log\<rparr>"

abbreviation one_tick :: hub_db where
  "one_tick \<equiv> preflight_tryProcessOne \<lparr>pr_workers = 2, pr_pollEvery = 1\<rparr> (Check open_checker) ideal_env one_db"

lemma preflight_tick_exact_witness:
  "state_of (db_requests one_tick) 1 = Some RequestStateNeedsReview \<and>
   (\<exists>i row. row_of (db_requests one_db) i = Some row \<and> rw_state row = RequestStatePending \<and>
     db_audit one_tick = snd (RecordAudit None 9 (verdict_event (scanRequest row) (Check open_checker (scanRequest row)))
       (db_audit one_db)))"
proof -
  have s: "state_of (db_requests one_tick) 1 = Some RequestStateNeedsReview" by code_simp
  have "state_of (db_requests one_db) 1 = Some RequestStatePending" by code_simp
  then have ne: "one_tick \<noteq> one_db" using s by force
  have v: "valid_next (vd_NextState (Check open_checker r))" for r
    by (simp add: Check_def open_checker_def review_verdict_def verdict_of_def valid_next_iff)
  have "store_ok (db_requests one_db)" by (simp add: one_db_def store_ok_one_request)
  from preflight_tick_exact [OF this ideal_env_ok(2) refl] ne v s show ?thesis
    unfolding Let_def by (fastforce simp: ideal_env_def no_fault_def)
qed

section \<open>Progress\<close>

lemma claim_first_ready:
  assumes "store_ok st" and "faultless env" and "state_of st (rq_ID r) = Some (f r)" and "CanTransitionTo (f r) t"
  shows "\<exists>st'. claim_first f t env k (r # rs) st = (Some r, st')"
proof -
  obtain fault now where c: "te_Claim env k = (fault, now)" by fastforce
  then have "fault = no_fault" using assms(2) by (metis faultless_def fst_conv)
  then show ?thesis using assms
    by (simp add: c faultless_def TransitionRequest_cases no_fault_def Let_def)
qed

lemma ListRequests_some:
  assumes "sf_Exec fault = None" and "sf_Result fault = None" and "scan_ok scan"
    and "row \<in> set (rs_rows st)" and "row_matches q row"
  shows "\<exists>r rs. ListRequests fault scan q st = Inr (r # rs)"
proof -
  have "set (scan rows) = set rows" for rows using assms(3) by (metis scan_ok_def set_mset_mset)
  then have "row \<in> set (sort_key (\<lambda>row. - rw_created_at row) (scan (filter (row_matches q) (rs_rows st))))"
    using assms(4,5) by simp
  then obtain x xs where x: "sort_key (\<lambda>row. - rw_created_at row) (scan (filter (row_matches q) (rs_rows st))) = x # xs"
    by (cases "sort_key (\<lambda>row. - rw_created_at row) (scan (filter (row_matches q) (rs_rows st)))") auto
  define n where "n = nat (if qq_Limit q \<le> 0 \<or> qq_Limit q > 500 then 500 else qq_Limit q)"
  have "0 < n" by (simp add: n_def)
  then have "take n (x # xs) = x # take (n - 1) xs" by (cases n) auto
  then show ?thesis using assms(1,2) x by (simp add: ListRequests_def Let_def n_def [symmetric])
qed

text \<open>With a working store a listing that is not empty leads to a claim.\<close>

lemma list_then_claim:
  assumes "store_ok st" and "faultless env" and "scan_ok (te_Scan env)"
    and "row_of st i = Some row" and "row_matches q row"
    and "\<And>row. row_matches q row \<Longrightarrow> f (scanRequest row) = rw_state row \<and> CanTransitionTo (rw_state row) t"
  obtains r rs st1 row' now where "ListRequests (te_List env) (te_Scan env) q st = Inr (r # rs)"
    "claim_first f t env 0 (r # rs) st = (Some r, st1)" "r = scanRequest row'" "row_matches q row'"
    "row_of st (rq_ID r) = Some row'" "store_ok st1" "row_of st1 = (row_of st)(rq_ID r \<mapsto> moved now t None row')"
proof -
  obtain r rs where l: "ListRequests (te_List env) (te_Scan env) q st = Inr (r # rs)"
    using ListRequests_some [of "te_List env" "te_Scan env" row st q] row_of_in [OF assms(4)] assms(2,3,5)
    by (auto simp: faultless_def no_fault_def)
  obtain row' where row': "row' \<in> set (rs_rows st)" "row_matches q row'" "r = scanRequest row'"
    using ListRequests_member [OF l assms(3)] by auto
  then have ro: "row_of st (rq_ID r) = Some row'"
    using row_of_iff [OF store_ok_distinct [OF assms(1)]] by (simp add: scanRequest_def)
  then obtain st1 where c: "claim_first f t env 0 (r # rs) st = (Some r, st1)"
    using claim_first_ready [OF assms(1,2), of r f t 0 rs] assms(6) [OF row'(2)] row'(3) by (auto simp: state_of_def)
  have rr: "sf_Result (fst (te_Claim env k)) = None" for k using assms(2) by (simp add: faultless_def no_fault_def)
  obtain row1 now where "row_of st (rq_ID r) = Some row1" "store_ok st1" "row_of st1 = (row_of st)(rq_ID r \<mapsto> moved now t None row1)"
    using claim_first_Some [OF c assms(1) rr] by blast
  then show thesis using that [OF l c row'(3,2) ro] ro by simp
qed

lemma tick_store_ok:
  assumes "store_ok (db_requests db)" and "results_read env"
  shows "store_ok (db_requests (preflight_tryProcessOne w check env db))"
  using assms
proof (cases rule: tick_cases [where w = w and check = check])
  case (owned i row now st1)
  obtain fault now where a: "te_Apply env = (fault, now)" by fastforce
  have "store_ok (db_requests (preflight_processOwned check env r (db\<lparr>db_requests := st1\<rparr>)))" for r
    using TransitionRequest_ok [OF owned(3)] owned(3)
    by (auto simp: preflight_processOwned_def Let_def a split: prod.splits option.splits)
  then show ?thesis using owned(7) by simp
qed (use assms in simp)

lemma tick_progress:
  assumes "store_ok (db_requests db)" and "faultless env" and "scan_ok (te_Scan env)"
    and "\<And>r. valid_next (vd_NextState (check r))" and "state_of (db_requests db) i = Some RequestStatePending"
  shows "\<exists>k s. state_of (db_requests db) k = Some RequestStatePending \<and> valid_next s \<and>
    state_of (db_requests (preflight_tryProcessOne w check env db)) = (state_of (db_requests db))(k \<mapsto> s)"
proof -
  let ?st = "db_requests db"
  let ?q = "\<lparr>qq_States = [RequestStatePending], qq_Submitter = [], qq_Limit = pr_workers w * 2\<rparr>"
  obtain row where row: "row_of ?st i = Some row" "row_matches ?q row"
    using assms(5) by (auto simp: state_of_def row_matches_def)
  obtain r rs st1 row' now where l: "ListRequests (te_List env) (te_Scan env) ?q ?st = Inr (r # rs)"
    and c: "claim_first (\<lambda>_. RequestStatePending) RequestStatePreflighting env 0 (r # rs) ?st = (Some r, st1)"
    and o1: "row_matches ?q row'" "row_of ?st (rq_ID r) = Some row'" "store_ok st1"
      "row_of st1 = (row_of ?st)(rq_ID r \<mapsto> moved now RequestStatePreflighting None row')"
    by (rule list_then_claim [OF assms(1-3) row, of "\<lambda>_. RequestStatePending" RequestStatePreflighting])
       (auto simp: row_matches_def CanTransitionTo_iff)
  define v where "v = check r"
  have pre: "row_of st1 (rq_ID r) = Some (moved now RequestStatePreflighting None row')" by (simp add: o1(4))
  then have st: "state_of st1 (rq_ID r) = Some RequestStatePreflighting" by (simp add: state_of_def)
  define st2 where "st2 = snd (TransitionRequest (fst (te_Apply env)) (snd (te_Apply env)) (rq_ID r)
      RequestStatePreflighting (vd_NextState v) (Some (verdict_fields v)) st1)"
  have v: "valid_next (vd_NextState v)" by (simp add: v_def assms(4))
  have nf: "sf_Exec (fst (te_Apply env)) = None" "sf_Result (fst (te_Apply env)) = None"
    using assms(2) by (simp_all add: faultless_def no_fault_def)
  have "row_of st2 = (row_of st1)(rq_ID r \<mapsto> moved (snd (te_Apply env)) (vd_NextState v) (Some (verdict_fields v))
      (moved now RequestStatePreflighting None row'))"
    using nf row_of_transition [OF o1(3) pre] st valid_next_legal [OF v]
    by (simp add: st2_def TransitionRequest_cases [OF o1(3)])
  from state_of_upd [OF this] state_of_upd [OF o1(4)]
  have "state_of st2 = (state_of ?st)(rq_ID r \<mapsto> vd_NextState v)" by simp
  moreover have "db_requests (preflight_tryProcessOne w check env db) = st2"
    using l c processOwned_result [of "db\<lparr>db_requests := st1\<rparr>" env r check] o1(3) nf st v
    by (simp add: preflight_tryProcessOne_def v_def [symmetric] st2_def)
  ultimately show ?thesis using o1(1,2) v by (auto simp: state_of_def row_matches_def)
qed

definition pending_count :: "hub_db \<Rightarrow> nat" where
  "pending_count db = length (filter (\<lambda>row. rw_state row = RequestStatePending) (rs_rows (db_requests db)))"

text \<open>The rows of a table whose state satisfies a predicate, and their ids.\<close>

lemma row_count_card:
  assumes "store_ok st"
  shows "length (filter (\<lambda>row. P (rw_state row)) (rs_rows st)) = card {i. \<exists>x. state_of st i = Some x \<and> P x}"
    and "finite {i. \<exists>x. state_of st i = Some x \<and> P x}"
proof -
  let ?rows = "filter (\<lambda>row. P (rw_state row)) (rs_rows st)"
  have "{i. \<exists>x. state_of st i = Some x \<and> P x} = rw_id ` set ?rows"
    using row_of_iff [OF store_ok_distinct [OF assms]] by (auto simp: state_of_def)
  moreover have "distinct (map rw_id ?rows)"
    using store_ok_distinct [OF assms] by (auto simp: distinct_map inj_on_def)
  ultimately show "length ?rows = card {i. \<exists>x. state_of st i = Some x \<and> P x}"
    and "finite {i. \<exists>x. state_of st i = Some x \<and> P x}"
    using distinct_card [of "map rw_id ?rows"] by simp_all
qed

lemma Check_valid: "valid_next (vd_NextState (Check c r))"
  by (cases rule: Check_cases [of c r]) (auto simp: review_verdict_def verdict_of_def valid_next_iff)

interpretation preflight: work_queue "\<lambda>db. store_ok (db_requests db)" "\<lambda>db. state_of (db_requests db)"
  "\<lambda>env. faultless env \<and> scan_ok (te_Scan env)" "preflight_tryProcessOne w (Check c)"
  "\<lambda>x. x = RequestStatePending" valid_next
proof
  fix db :: hub_db and env i x z
  assume ok: "store_ok (db_requests db)"
  show "finite {i. \<exists>x. state_of (db_requests db) i = Some x \<and> x = RequestStatePending}"
    by (rule row_count_card(2) [OF ok])
  assume good: "faultless env \<and> scan_ok (te_Scan env)"
  then have rr: "results_read env" by (simp add: faultless_def results_read_def no_fault_def)
  show "store_ok (db_requests (preflight_tryProcessOne w (Check c) env db))" by (rule tick_store_ok [OF ok rr])
  show "\<exists>k y z. state_of (db_requests db) k = Some y \<and> y = RequestStatePending \<and> valid_next z \<and>
      state_of (db_requests (preflight_tryProcessOne w (Check c) env db)) = (state_of (db_requests db))(k \<mapsto> z)"
    if "state_of (db_requests db) i = Some x" "x = RequestStatePending"
    using tick_progress [where check = "Check c" and w = w, OF ok _ _ Check_valid] that good by blast
  show "preflight_tryProcessOne w (Check c) env db = db"
    if "\<And>i x. state_of (db_requests db) i = Some x \<Longrightarrow> x \<noteq> RequestStatePending"
    by (rule tick_cases [OF ok rr, of w "Check c"]) (use that in \<open>auto simp: state_of_def\<close>)
qed (auto simp: valid_next_iff)

text \<open>
  With a working store, every pending request is decided: as many ticks as there are pending
  requests leave none pending, each has gone to auto_pass, needs_review or denied, and no other
  request has changed its state.
\<close>

theorem preflight_drains:
  assumes "store_ok (db_requests db)" and "list_all (\<lambda>env. faultless env \<and> scan_ok (te_Scan env)) envs"
    and "pending_count db \<le> length envs" and "db' = fold (preflight_tryProcessOne w (Check c)) envs db"
  shows "pending_count db' = 0 \<and>
    (\<forall>i. state_of (db_requests db) i = Some RequestStatePending \<longrightarrow>
      state_of (db_requests db') i \<in> {Some RequestStateAutoPass, Some RequestStateNeedsReview, Some RequestStateDenied}) \<and>
    (\<forall>i. state_of (db_requests db) i \<noteq> Some RequestStatePending \<longrightarrow>
      state_of (db_requests db') i = state_of (db_requests db) i)"
proof -
  have "card (preflight.waiting db) \<le> length envs"
    using assms(3) row_count_card(1) [OF assms(1), of "\<lambda>x. x = RequestStatePending"]
    by (simp add: pending_count_def preflight.waiting_def)
  from preflight.ticks_settle [OF assms(1,2) this, of w c]
  have d: "store_ok (db_requests db')" "preflight.waiting db' = {}" "preflight.advances db db'" by (simp_all add: assms(4))
  moreover have "pending_count db' = 0"
    using d(2) row_count_card(1) [OF d(1), of "\<lambda>x. x = RequestStatePending"]
    by (simp add: pending_count_def preflight.waiting_def)
  ultimately show ?thesis
    by (auto simp: preflight.advances_def preflight.waiting_def valid_next_iff) (metis option.inject)+
qed

lemma preflight_drains_witness:
  "pending_count (fold (preflight_tryProcessOne \<lparr>pr_workers = 2, pr_pollEvery = 1\<rparr> (Check open_checker)) [ideal_env] one_db) = 0 \<and>
   pending_count one_db = 1"
proof -
  have "store_ok (db_requests one_db)" by (simp add: one_db_def store_ok_one_request)
  moreover have "list_all (\<lambda>env. faultless env \<and> scan_ok (te_Scan env)) [ideal_env]"
    using ideal_env_ok by (simp add: results_read_def)
  moreover have c: "pending_count one_db = 1" by (simp add: pending_count_def one_db_def one_request_def)
  ultimately show ?thesis using preflight_drains [of one_db "[ideal_env]"] by simp
qed

end
