(* ===== verification/Publish.thy ===== *)
theory Publish
  imports Http
begin

text \<open>
  The write interface of the registry (src/internal/publish/publish.go): what a caller hands to
  a publisher and gets back; the integrity strings of src/internal/fetch/sri.go; the
  source.json of an entry (src/internal/admit/sourcejson.go).
\<close>

section \<open>Integrity strings\<close>

definition base64_alphabet :: string where
  "base64_alphabet = ''ABCDEFGHIJKLMNOPQRSTUVWXYZabcdefghijklmnopqrstuvwxyz0123456789+/''"

definition base64_char :: "nat \<Rightarrow> char" where
  "base64_char n = base64_alphabet ! n"

text \<open>base64.StdEncoding.EncodeToString.\<close>

fun base64 :: "bytes \<Rightarrow> string" where
  "base64 [] = []"
| "base64 [a] =
     (let x = of_char a in [base64_char (x div 4), base64_char (x mod 4 * 16), CHR ''='', CHR ''=''])"
| "base64 [a, b] =
     (let x = of_char a; y = of_char b
      in [base64_char (x div 4), base64_char (x mod 4 * 16 + y div 16), base64_char (y mod 16 * 4), CHR ''=''])"
| "base64 (a # b # c # s) =
     (let x = of_char a; y = of_char b; z = of_char c
      in [base64_char (x div 4), base64_char (x mod 4 * 16 + y div 16), base64_char (y mod 16 * 4 + z div 64),
          base64_char (z mod 64)] @ base64 s)"

definition SRI :: "bytes \<Rightarrow> string" where
  "SRI digest = ''sha256-'' @ base64 digest"

definition SRIFromSHA256 :: "bytes \<Rightarrow> string" where
  "SRIFromSHA256 digest = ''sha256-'' @ base64 digest"

text \<open>strings.Cut at the first dash.\<close>

definition splitSRI :: "string \<Rightarrow> (string \<times> string) option" where
  "splitSRI s = map_option (\<lambda>i. (take i s, drop (Suc i) s)) (index_byte s (CHR ''-''))"

text \<open>The reader keeps what has passed through it; \<open>sha256\<close> is the hash function.\<close>

record verifying_reader =
  vr_data :: bytes
  vr_expected :: string

definition NewVerifyingReader :: "string \<Rightarrow> verifying_reader" where
  "NewVerifyingReader expected = \<lparr>vr_data = [], vr_expected = expected\<rparr>"

text \<open>One Read: the bytes the wrapped reader returned are hashed as they pass.\<close>

definition vr_Read :: "bytes \<Rightarrow> verifying_reader \<Rightarrow> verifying_reader" where
  "vr_Read p v = (if length p > 0 then v\<lparr>vr_data := vr_data v @ p\<rparr> else v)"

definition vr_Sum :: "(bytes \<Rightarrow> bytes) \<Rightarrow> verifying_reader \<Rightarrow> bytes" where
  "vr_Sum sha256 v = sha256 (vr_data v)"

datatype verify_error =
    MalformedIntegrity string
  | UnsupportedAlgorithm string
  | IntegrityMismatch string string

definition Verify :: "(bytes \<Rightarrow> bytes) \<Rightarrow> verifying_reader \<Rightarrow> verify_error option" where
  "Verify sha256 v =
     (if vr_expected v = [] then None
      else (case splitSRI (vr_expected v) of
          None \<Rightarrow> Some (MalformedIntegrity (vr_expected v))
        | Some (algo, want) \<Rightarrow>
            (if algo \<noteq> ''sha256'' then Some (UnsupportedAlgorithm algo)
             else (let got = base64 (sha256 (vr_data v))
               in if got \<noteq> want then Some (IntegrityMismatch want got) else None))))"

lemma index_byte_split: "index_byte s c = Some i \<Longrightarrow> s = take i s @ c # drop (Suc i) s \<and> c \<notin> set (take i s)"
  by (induction s arbitrary: i) (auto split: if_splits)

lemma splitSRI_iff: "splitSRI s = Some (a, b) \<longleftrightarrow> s = a @ CHR ''-'' # b \<and> CHR ''-'' \<notin> set a"
proof
  assume "splitSRI s = Some (a, b)"
  then show "s = a @ CHR ''-'' # b \<and> CHR ''-'' \<notin> set a"
    using index_byte_split by (auto simp: splitSRI_def)
next
  assume "s = a @ CHR ''-'' # b \<and> CHR ''-'' \<notin> set a"
  then show "splitSRI s = Some (a, b)" by (simp add: splitSRI_def index_byte_append)
qed

lemma Verify_None: "Verify sha256 v = None \<longleftrightarrow> vr_expected v = [] \<or> vr_expected v = SRI (sha256 (vr_data v))"
proof (cases "splitSRI (vr_expected v)")
  case None
  then have "vr_expected v \<noteq> SRI h" for h using splitSRI_iff [of "SRI h" "''sha256''" "base64 h"] by (auto simp: SRI_def)
  then show ?thesis using None by (simp add: Verify_def)
next
  case (Some p)
  obtain algo want where p: "p = (algo, want)" by (cases p)
  have "vr_expected v = SRI h \<longleftrightarrow> algo = ''sha256'' \<and> want = base64 h" for h
    using splitSRI_iff [of "vr_expected v" "''sha256''" "base64 h"] Some p by (auto simp: SRI_def)
  then show ?thesis by (simp add: Verify_def Some p Let_def)
qed

lemma reads_accumulate: "vr_data (fold vr_Read ps v) = vr_data v @ concat ps"
  by (induction ps arbitrary: v) (auto simp: vr_Read_def)

lemma reads_expected: "vr_expected (fold vr_Read ps v) = vr_expected v"
  by (induction ps arbitrary: v) (auto simp: vr_Read_def)

text \<open>
  However the body was split into reads, verification passes exactly when no integrity was
  asked for or the expected string is the integrity string of all the bytes read; an unknown
  algorithm and a string without one are refused, never skipped.
\<close>

theorem Verify_exact:
  "(Verify sha256 (fold vr_Read ps (NewVerifyingReader expected)) = None \<longleftrightarrow>
      expected = [] \<or> expected = SRI (sha256 (concat ps))) \<and>
   (CHR ''-'' \<notin> set expected \<and> expected \<noteq> [] \<longleftrightarrow>
      Verify sha256 (fold vr_Read ps (NewVerifyingReader expected)) = Some (MalformedIntegrity expected))"
proof -
  let ?v = "fold vr_Read ps (NewVerifyingReader expected)"
  have v: "vr_data ?v = concat ps" "vr_expected ?v = expected"
    by (simp_all add: reads_accumulate reads_expected NewVerifyingReader_def)
  have none: "index_byte s c = None \<longleftrightarrow> c \<notin> set s" for s :: string and c by (induction s) auto
  have "Verify sha256 ?v = Some (MalformedIntegrity expected) \<longleftrightarrow> expected \<noteq> [] \<and> splitSRI expected = None"
    by (auto simp: Verify_def v Let_def split: option.splits)
  then show ?thesis using Verify_None [of sha256 ?v] none by (auto simp: v splitSRI_def)
qed

section \<open>The interface of a publisher\<close>

record pub_identity =
  pi_Name :: string
  pi_Email :: string

definition IsZero :: "pub_identity \<Rightarrow> bool" where
  "IsZero i \<longleftrightarrow> pi_Name i = [] \<and> pi_Email i = []"

definition identity_String :: "pub_identity \<Rightarrow> string" where
  "identity_String i = (if IsZero i then [] else pi_Name i @ '' <'' @ pi_Email i @ ''>'')"

record blob_ref =
  br_Key :: string
  br_Integrity :: string
  br_Bytes :: int

record publish_request =
  pq_Module :: string
  pq_Version :: string
  pq_SourceJSON :: bytes
  pq_ModuleBazel :: bytes
  pq_UpstreamMetadata :: bytes
  pq_Blob :: blob_ref
  pq_Requester :: pub_identity
  pq_SourceURL :: string

record receipt =
  rc_Strategy :: string
  rc_DiskPath :: string
  rc_Commit :: string
  rc_PRURL :: string
  rc_PRNumber :: int
  rc_Diff :: string
  rc_PublishedAt :: int

text \<open>The missing required field that ValidateRequest names, \<open>None\<close> for a valid request.\<close>

definition ValidateRequest :: "publish_request \<Rightarrow> string option" where
  "ValidateRequest req =
     (if pq_Module req = [] then Some ''module''
      else if pq_Version req = [] then Some ''version''
      else if length (pq_SourceJSON req) = 0 then Some ''source.json''
      else if br_Integrity (pq_Blob req) = [] then Some ''blob.integrity''
      else None)"

section \<open>source.json\<close>

text \<open>Marshalling a Go map writes its keys in ascending order.\<close>

definition map_json :: "(string \<times> json) list \<Rightarrow> json" where
  "map_json ms = JObj (sort_key fst ms)"

definition BuildSourceJSON :: "string \<Rightarrow> string \<Rightarrow> string \<Rightarrow> string + bytes" where
  "BuildSourceJSON url integrity stripPrefix =
     (if url = [] then Inl ''source.json: url required''
      else if integrity = [] then Inl ''source.json: integrity required''
      else if CHR ''-'' \<notin> set integrity then Inl (''source.json: integrity must be SRI-formatted ('' @ [dquote] @ ''sha256-...'' @ [dquote] @ '')'')
      else Inr (MarshalIndent (map_json
        ([(''url'', JStr url), (''integrity'', JStr integrity)] @
         (if stripPrefix \<noteq> [] then [(''strip_prefix'', JStr stripPrefix)] else [])))))"

definition topLevelDir :: "string \<Rightarrow> string" where
  "topLevelDir path =
     (case index_byte path (CHR ''/'') of
        None \<Rightarrow> []
      | Some i \<Rightarrow> if i = 0 then [] else take i path)"

definition DetectStripPrefix :: "string list \<Rightarrow> string" where
  "DetectStripPrefix entries =
     (case entries of
        [] \<Rightarrow> []
      | e # es \<Rightarrow>
        (let first = topLevelDir e
         in if first = [] then []
         else if \<exists>x \<in> set es. topLevelDir x \<noteq> first then [] else first))"

lemma topLevelDir_iff:
  assumes "d \<noteq> []"
  shows "topLevelDir p = d \<longleftrightarrow> (\<exists>r. p = d @ CHR ''/'' # r) \<and> CHR ''/'' \<notin> set d"
proof
  assume t: "topLevelDir p = d"
  then obtain i where i: "index_byte p (CHR ''/'') = Some i" "d = take i p"
    using assms by (auto simp: topLevelDir_def split: option.splits if_splits)
  from index_byte_split [OF i(1)] show "(\<exists>r. p = d @ CHR ''/'' # r) \<and> CHR ''/'' \<notin> set d"
    unfolding i(2) by blast
next
  assume "(\<exists>r. p = d @ CHR ''/'' # r) \<and> CHR ''/'' \<notin> set d"
  then obtain r where r: "p = d @ CHR ''/'' # r" "CHR ''/'' \<notin> set d" by blast
  then have "index_byte p (CHR ''/'') = Some (length d)" by (simp add: index_byte_append)
  then show "topLevelDir p = d" using assms by (simp add: topLevelDir_def r(1))
qed

text \<open>
  A strip prefix is detected exactly when it is a single non-empty path segment under which
  every one of the archive's entries lies, and the archive has an entry.
\<close>

theorem DetectStripPrefix_exact:
  "DetectStripPrefix entries = d \<and> d \<noteq> [] \<longleftrightarrow>
     entries \<noteq> [] \<and> d \<noteq> [] \<and> CHR ''/'' \<notin> set d \<and> list_all (\<lambda>e. \<exists>r. e = d @ CHR ''/'' # r) entries"
proof (cases "d = [] \<or> entries = []")
  case True
  then show ?thesis by (auto simp: DetectStripPrefix_def)
next
  case False
  then obtain e es where e: "entries = e # es" by (cases entries) auto
  have "DetectStripPrefix entries = d \<longleftrightarrow> list_all (\<lambda>x. topLevelDir x = d) entries"
    using False by (auto simp: e DetectStripPrefix_def Let_def list_all_iff)
  then show ?thesis using False topLevelDir_iff [of d] by (auto simp: list_all_iff e)
qed

text \<open>
  The source.json of an entry parses back to the object with exactly its location, its
  integrity and, when there is one, its strip prefix; without a location or an SRI integrity
  none is written.
\<close>

theorem BuildSourceJSON_readback:
  assumes "valid_utf8 url" and "valid_utf8 integrity" and "valid_utf8 strip"
  shows "case BuildSourceJSON url integrity strip of
     Inl err \<Rightarrow> url = [] \<or> integrity = [] \<or> CHR ''-'' \<notin> set integrity
   | Inr text \<Rightarrow> url \<noteq> [] \<and> CHR ''-'' \<in> set integrity \<and>
       (\<exists>ms. Unmarshal text = Some (JObj ms) \<and> distinct (map fst ms) \<and>
         map_of ms = [''url'' \<mapsto> JStr url, ''integrity'' \<mapsto> JStr integrity] ++
           (if strip = [] then Map.empty else [''strip_prefix'' \<mapsto> JStr strip]))"
proof (cases "url = [] \<or> integrity = [] \<or> CHR ''-'' \<notin> set integrity")
  case True
  then show ?thesis by (auto simp: BuildSourceJSON_def)
next
  case False
  define ms where "ms = sort_key fst ([(''url'', JStr url), (''integrity'', JStr integrity)] @
    (if strip \<noteq> [] then [(''strip_prefix'', JStr strip)] else []))"
  have ms: "ms = (''integrity'', JStr integrity) # (if strip = [] then [] else [(''strip_prefix'', JStr strip)]) @ [(''url'', JStr url)]"
    by (simp add: ms_def less_list_code)
  have "json_ok (JObj ms)" and "nests maxNestingDepth (JObj ms)"
    using assms by (simp_all add: ms maxNestingDepth_def)
  then have "Unmarshal (MarshalIndent (JObj ms)) = Some (JObj ms)"
    unfolding MarshalIndent_def by (rule Unmarshal_render [OF layout_ok_indented])
  then show ?thesis using False
    by (auto simp: BuildSourceJSON_def map_json_def ms_def [symmetric] ms fun_eq_iff map_add_def)
qed

lemma BuildSourceJSON_readback_witness:
  "\<exists>text ms. BuildSourceJSON ''https://a/b.tar.gz'' ''sha256-x'' ''b'' = Inr text \<and> Unmarshal text = Some (JObj ms)"
proof -
  have "valid_utf8 ''https://a/b.tar.gz''" "valid_utf8 ''sha256-x''" "valid_utf8 ''b''" by simp_all
  from BuildSourceJSON_readback [OF this] show ?thesis by (auto split: sum.splits)
qed

end
