(* ===== verification/Handlers.thy ===== *)
theory Handlers
  imports Middleware RateLimit PreflightRunner Publish
begin

text \<open>
  The procurement endpoints (src/internal/server/request_handlers.go, maintainer_handlers.go,
  jsonbody.go, response.go): submitting, listing, reading, approving and denying requests, the
  grants of maintainers, and the view of the policy.

  A handler is a function of the state of the hub. What other requests and workers do between
  two of its statements is its environment, as are the outcome and the clock of each statement.
\<close>

section \<open>Responses\<close>

datatype reply_body =
    JsonBody json
  | RequestBody request
  | RequestsBody "request list"
  | MaintainersBody "maintainer list"
  | TextBody string
  | DecodeErrorBody

text \<open>A response writer: the first status written counts, and everything written is sent.\<close>

record response =
  rp_Status :: "int option"
  rp_RetryAfter :: string
  rp_Bodies :: "reply_body list"

definition new_response :: response where
  "new_response = \<lparr>rp_Status = None, rp_RetryAfter = [], rp_Bodies = []\<rparr>"

definition WriteHeader :: "int \<Rightarrow> response \<Rightarrow> response" where
  "WriteHeader code w = (case rp_Status w of None \<Rightarrow> w\<lparr>rp_Status := Some code\<rparr> | Some _ \<Rightarrow> w)"

definition setRetryAfter :: "string \<Rightarrow> response \<Rightarrow> response" where
  "setRetryAfter v w = (case rp_Status w of None \<Rightarrow> w\<lparr>rp_RetryAfter := v\<rparr> | Some _ \<Rightarrow> w)"

definition write_body :: "reply_body \<Rightarrow> response \<Rightarrow> response" where
  "write_body b w = w\<lparr>rp_Bodies := rp_Bodies w @ [b]\<rparr>"

definition writeJSON :: "int \<Rightarrow> reply_body \<Rightarrow> response \<Rightarrow> response" where
  "writeJSON status b w = write_body b (WriteHeader status w)"

definition httpError :: "string \<Rightarrow> int \<Rightarrow> response \<Rightarrow> response" where
  "httpError msg code w = write_body (TextBody msg) (WriteHeader code w)"

lemmas response_defs = new_response_def WriteHeader_def setRetryAfter_def write_body_def writeJSON_def httpError_def

definition denyByPolicy :: "string \<Rightarrow> response \<Rightarrow> response" where
  "denyByPolicy action w = writeJSON 403 (JsonBody (map_json [(''error'', JStr (action @ '' denied by policy''))])) w"

section \<open>Request bodies\<close>

definition maxRequestJSONBody :: nat where "maxRequestJSONBody = 256 * 1024"
definition maxTransitionJSONBody :: nat where "maxTransitionJSONBody = 64 * 1024"
definition maxMaintainerJSONBody :: nat where "maxMaintainerJSONBody = 16 * 1024"

text \<open>A decoder with DisallowUnknownFields.\<close>

definition decode_strict ::
  "string list \<Rightarrow> (string \<Rightarrow> json \<Rightarrow> 'a \<Rightarrow> 'a option) \<Rightarrow> json \<Rightarrow> 'a \<Rightarrow> 'a option" where
  "decode_strict names set_field j x =
     (case j of
        JObj ms \<Rightarrow> if \<forall>m \<in> set ms. field_for names (fst m) \<noteq> None then decode_struct names set_field j x else None
      | _ \<Rightarrow> decode_struct names set_field j x)"

text \<open>
  A body over the limit is refused with 413, or with 400 when the bytes up to the limit are
  already no JSON for the struct; \<open>is_cut\<close> says that they are not.
\<close>

definition decodeJSONBody ::
  "bool \<Rightarrow> nat \<Rightarrow> string list \<Rightarrow> (string \<Rightarrow> json \<Rightarrow> 'a \<Rightarrow> 'a option) \<Rightarrow> 'a \<Rightarrow> bytes \<Rightarrow> response \<Rightarrow>
   'a option \<times> response" where
  "decodeJSONBody is_cut maxBytes names set_field dst body w =
     (let refuse = (None, write_body DecodeErrorBody (WriteHeader 400 w))
      in if length body > maxBytes
         then (if is_cut then refuse else (None, httpError ''request body too large'' 413 w))
         else (case parse_value (Suc (length body)) 0 body of
             None \<Rightarrow> refuse
           | Some (v, trailing) \<Rightarrow>
             (case decode_strict names set_field v dst of
                None \<Rightarrow> refuse
              | Some y \<Rightarrow>
                (if skip_ws trailing = [] then (Some y, w)
                 else if parse_value (Suc (length trailing)) 0 trailing \<noteq> None
                 then (None, httpError ''bad request: body must contain exactly one JSON value'' 400 w)
                 else refuse))))"

record submit_body =
  sb_Module :: string
  sb_Version :: string
  sb_SourceURL :: string
  sb_Notes :: string

definition set_submit_field :: "string \<Rightarrow> json \<Rightarrow> submit_body \<Rightarrow> submit_body option" where
  "set_submit_field n j b =
     (if n = ''module'' then map_option (\<lambda>s. b\<lparr>sb_Module := s\<rparr>) (decode_string j (sb_Module b))
      else if n = ''version'' then map_option (\<lambda>s. b\<lparr>sb_Version := s\<rparr>) (decode_string j (sb_Version b))
      else if n = ''source_url'' then map_option (\<lambda>s. b\<lparr>sb_SourceURL := s\<rparr>) (decode_string j (sb_SourceURL b))
      else map_option (\<lambda>s. b\<lparr>sb_Notes := s\<rparr>) (decode_string j (sb_Notes b)))"

definition parseSubmitBody :: "bool \<Rightarrow> bytes \<Rightarrow> response \<Rightarrow> submit_body option \<times> response" where
  "parseSubmitBody is_cut text w =
     (case decodeJSONBody is_cut maxRequestJSONBody [''module'', ''version'', ''source_url'', ''notes''] set_submit_field
         \<lparr>sb_Module = [], sb_Version = [], sb_SourceURL = [], sb_Notes = []\<rparr> text w of
        (None, w) \<Rightarrow> (None, w)
      | (Some body, w) \<Rightarrow>
        (let body = body\<lparr>sb_Module := trim_space (sb_Module body), sb_Version := trim_space (sb_Version body)\<rparr>
         in if sb_Module body = [] \<or> sb_Version body = []
            then (None, httpError ''bad request: module and version are required'' 400 w)
            else (Some body, w)))"

text \<open>A body with one string field.\<close>

definition decode_one_field :: "bool \<Rightarrow> nat \<Rightarrow> string \<Rightarrow> bytes \<Rightarrow> response \<Rightarrow> string option \<times> response" where
  "decode_one_field is_cut maxBytes name text w = decodeJSONBody is_cut maxBytes [name] (\<lambda>_ j s. decode_string j s) [] text w"

section \<open>Submitting\<close>

record hub =
  hb_DB :: hub_db
  hb_Maintainers :: "maintainer list"
  hb_Limiter :: user_limiter

abbreviation hub_requests :: "hub \<Rightarrow> request_store" where
  "hub_requests hb \<equiv> db_requests (hb_DB hb)"

abbreviation set_requests :: "request_store \<Rightarrow> hub \<Rightarrow> hub" where
  "set_requests st hb \<equiv> hb\<lparr>hb_DB := (hb_DB hb)\<lparr>db_requests := st\<rparr>\<rparr>"

definition audit_write :: "string option \<times> int \<Rightarrow> audit_event \<Rightarrow> hub \<Rightarrow> hub" where
  "audit_write outcome ev hb =
     hb\<lparr>hb_DB := (hb_DB hb)\<lparr>db_audit := snd (RecordAudit (fst outcome) (snd outcome) ev (db_audit (hb_DB hb)))\<rparr>\<rparr>"

text \<open>The handlers' fields: the current policy, \<open>None\<close> for nil, and whether a limiter is wired.\<close>

record request_handlers =
  rh_policy :: "policy option"
  rh_userRate :: bool

record handler_env =
  he_Cut :: bool
  he_Clock :: int
  he_Read :: sql_fault
  he_Scan :: "request_row list \<Rightarrow> request_row list"
  he_Count :: sql_fault
  he_Write :: "sql_fault \<times> int"
  he_Audit :: "string option \<times> int"
  he_Others :: "nat \<Rightarrow> hub \<Rightarrow> hub"

definition submitterSub :: "identity \<Rightarrow> string" where
  "submitterSub i = (if id_Email i \<noteq> [] then id_Email i else if id_User i \<noteq> [] then id_User i else ''anonymous'')"

definition newRequestFromBody :: "identity \<Rightarrow> submit_body \<Rightarrow> request" where
  "newRequestFromBody i body =
     \<lparr>rq_ID = 0, rq_SubmitterSub = submitterSub i, rq_SubmitterEmail = id_Email i,
      rq_AuthMethod = (if IsAuthenticated i then id_Source i else ''anonymous''),
      rq_Module = sb_Module body, rq_Version = sb_Version body, rq_SourceURL = sb_SourceURL body,
      rq_SubmitterNotes = sb_Notes body, rq_State = RequestStateOther [], rq_StateChangedAt = 0, rq_CreatedAt = 0,
      rq_PreflightJSON = [], rq_DenialReason = [], rq_FetchedSHA = [], rq_CommittedSHA = [], rq_RetryCount = 0\<rparr>"

definition checkUserRate ::
  "request_handlers \<Rightarrow> handler_env \<Rightarrow> policy \<Rightarrow> identity \<Rightarrow> response \<Rightarrow> hub \<Rightarrow> bool \<times> response \<times> hub" where
  "checkUserRate h env pol i w hb =
     (if \<not> rh_userRate h then (True, w, hb)
      else (case ParseRate (au_PerUserRateLimit (po_Auth pol)) of
          Inl err \<Rightarrow> (True, w, hb)
        | Inr (cnt, per) \<Rightarrow>
          (case allowAt (submitterSub i) cnt per (he_Clock env) (hb_Limiter hb) of
             ((ok, retryAfter), l) \<Rightarrow>
               (let hb = hb\<lparr>hb_Limiter := l\<rparr>
                in if ok then (True, w, hb)
                   else (let secs = - ((- retryAfter) div second);
                             secs = (if secs < 1 then 1 else secs)
                     in (False, httpError (''rate limit exceeded; try again in '' @ int_text secs @ ''s'') 429
                           (setRetryAfter (int_text secs) w), hb))))))"

definition findDedupTarget :: "handler_env \<Rightarrow> submit_body \<Rightarrow> response \<Rightarrow> hub \<Rightarrow> request option \<times> response" where
  "findDedupTarget env body w hb =
     (case FindOpenRequest (he_Read env) (sb_Module body) (sb_Version body) (hub_requests hb) of
        Inr existing \<Rightarrow> (Some existing, w)
      | Inl ErrRequestNotFound \<Rightarrow> (None, w)
      | Inl err \<Rightarrow> (None, httpError ''internal error'' 500 w))"

definition checkPendingCap ::
  "handler_env \<Rightarrow> policy \<Rightarrow> identity \<Rightarrow> response \<Rightarrow> hub \<Rightarrow> bool \<times> response" where
  "checkPendingCap env pol i w hb =
     (let cap = au_MaxPendingPerUser (po_Auth pol)
      in if cap \<le> 0 then (True, w)
         else (case CountOpenRequestsForUser (he_Count env) (submitterSub i) (hub_requests hb) of
             Inl err \<Rightarrow> (True, w)
           | Inr n \<Rightarrow>
             (if int n < cap then (True, w)
              else (False, httpError (''max pending requests exceeded ('' @ int_text (int n) @ ''/'' @ int_text cap @
                      '' open); wait for some to resolve before submitting more'') 429 (setRetryAfter ''60'' w)))))"

definition submit_event :: "identity \<Rightarrow> int \<Rightarrow> submit_body \<Rightarrow> audit_event" where
  "submit_event i newID body =
     \<lparr>ae_ID = 0, ae_Timestamp = None, ae_Kind = ''request_submitted'', ae_Source = ''rest'', ae_Module = sb_Module body,
      ae_Version = sb_Version body, ae_OK = True, ae_DurationMs = 0, ae_Error = [],
      ae_Payload = Marshal (map_json [(''request_id'', JNum (int_text newID)), (''source_url'', JStr (sb_SourceURL body))]),
      ae_UserID = DisplayName i\<rparr>"

definition recordSubmitAudit :: "handler_env \<Rightarrow> identity \<Rightarrow> int \<Rightarrow> submit_body \<Rightarrow> hub \<Rightarrow> hub" where
  "recordSubmitAudit env i newID body hb = audit_write (he_Audit env) (submit_event i newID body) hb"

text \<open>The part after the body has been read: dedup, cap, creation and audit.\<close>

definition admit_submission ::
  "handler_env \<Rightarrow> policy \<Rightarrow> identity \<Rightarrow> submit_body \<Rightarrow> response \<Rightarrow> hub \<Rightarrow> response \<times> hub" where
  "admit_submission env pol i body w hb =
     (let hb = he_Others env 0 hb
      in case findDedupTarget env body w hb of
           (Some existing, w) \<Rightarrow>
             (writeJSON 200 (JsonBody (map_json [(''id'', JNum (int_text (rq_ID existing))),
                (''state'', JStr (state_text (rq_State existing))), (''dedup'', JBool True)])) w, hb)
         | (None, w) \<Rightarrow>
           (let hb = he_Others env 1 hb
            in case checkPendingCap env pol i w hb of
                 (False, w) \<Rightarrow> (w, hb)
               | (True, w) \<Rightarrow>
                 (let hb = he_Others env 2 hb
                  in case CreateRequest (fst (he_Write env)) (snd (he_Write env)) (newRequestFromBody i body) (hub_requests hb) of
                       (Inl err, st) \<Rightarrow> (httpError ''internal error'' 500 w, set_requests st hb)
                     | (Inr newID, st) \<Rightarrow>
                       (writeJSON 201 (JsonBody (map_json [(''id'', JNum (int_text newID)),
                          (''state'', JStr (state_text RequestStatePending))])) w,
                        recordSubmitAudit env i newID body (he_Others env 3 (set_requests st hb))))))"

definition apiSubmitRequest ::
  "request_handlers \<Rightarrow> handler_env \<Rightarrow> identity \<Rightarrow> bytes \<Rightarrow> hub \<Rightarrow> response \<times> hub" where
  "apiSubmitRequest h env i text hb =
     (case rh_policy h of
        None \<Rightarrow> (denyByPolicy ''submit_request'' new_response, hb)
      | Some pol \<Rightarrow>
        (if \<not> Allow (Some pol) i ''submit_request'' then (denyByPolicy ''submit_request'' new_response, hb)
         else (case checkUserRate h env pol i new_response hb of
             (False, w, hb) \<Rightarrow> (w, hb)
           | (True, w, hb) \<Rightarrow>
             (case parseSubmitBody (he_Cut env) text w of
                (None, w) \<Rightarrow> (w, hb)
              | (Some body, w) \<Rightarrow> admit_submission env pol i body w hb))))"

section \<open>Reading\<close>

definition internal_error :: "response \<Rightarrow> response" where
  "internal_error w = httpError ''internal error'' 500 w"

definition apiListRequests ::
  "request_handlers \<Rightarrow> handler_env \<Rightarrow> identity \<Rightarrow> string list \<Rightarrow> string \<Rightarrow> string \<Rightarrow> hub \<Rightarrow> response" where
  "apiListRequests h env i state_params submitter limit_param hb =
     (if \<not> Allow (rh_policy h) i ''view_requests'' then denyByPolicy ''view_requests'' new_response
      else
        (let states = map state_of_text (filter (\<lambda>s. s \<noteq> []) (map trim_space state_params));
             l = trim_space limit_param;
             limit = (if l = [] then 0 else (case Atoi l of None \<Rightarrow> 0 | Some n \<Rightarrow> n))
         in case ListRequests (he_Read env) (he_Scan env)
               \<lparr>qq_States = states, qq_Submitter = trim_space submitter, qq_Limit = limit\<rparr> (hub_requests hb) of
              Inl err \<Rightarrow> internal_error new_response
            | Inr rows \<Rightarrow> writeJSON 200 (RequestsBody rows) new_response))"

text \<open>A path parameter that is a positive 64-bit integer.\<close>

definition path_id :: "string \<Rightarrow> int option" where
  "path_id s = (case Atoi s of None \<Rightarrow> None | Some n \<Rightarrow> if n \<le> 0 then None else Some n)"

definition bad_id :: "response \<Rightarrow> response" where
  "bad_id w = httpError ''bad request: id must be a positive integer'' 400 w"

definition apiGetRequest :: "request_handlers \<Rightarrow> handler_env \<Rightarrow> identity \<Rightarrow> string \<Rightarrow> hub \<Rightarrow> response" where
  "apiGetRequest h env i id_param hb =
     (if \<not> Allow (rh_policy h) i ''view_requests'' then denyByPolicy ''view_requests'' new_response
      else (case path_id id_param of
          None \<Rightarrow> bad_id new_response
        | Some reqID \<Rightarrow>
          (case GetRequest (he_Read env) reqID (hub_requests hb) of
             Inl ErrRequestNotFound \<Rightarrow> httpError ''request not found'' 404 new_response
           | Inl err \<Rightarrow> internal_error new_response
           | Inr got \<Rightarrow> writeJSON 200 (RequestBody got) new_response)))"

section \<open>Approving and denying\<close>

record transition_config =
  tc_action :: string
  tc_auditKind :: string
  tc_toState :: request_state
  tc_allowedFroms :: "request_state list"
  tc_requireReason :: bool

definition approve_config :: transition_config where
  "approve_config = \<lparr>tc_action = ''approve_request'', tc_auditKind = ''request_approved'',
     tc_toState = RequestStateApproved, tc_allowedFroms = [RequestStateNeedsReview], tc_requireReason = False\<rparr>"

definition deny_config :: transition_config where
  "deny_config = \<lparr>tc_action = ''deny_request'', tc_auditKind = ''request_denied'', tc_toState = RequestStateDenied,
     tc_allowedFroms = [RequestStatePending, RequestStatePreflighting, RequestStateNeedsReview], tc_requireReason = True\<rparr>"

definition read_reason :: "handler_env \<Rightarrow> transition_config \<Rightarrow> bytes \<Rightarrow> response \<Rightarrow> string option \<times> response" where
  "read_reason env cfg text w =
     (if \<not> tc_requireReason cfg then (Some [], w)
      else (case decode_one_field (he_Cut env) maxTransitionJSONBody ''reason'' text w of
          (None, w) \<Rightarrow> (None, w)
        | (Some s, w) \<Rightarrow>
          (let reason = trim_space s
           in if reason = [] then (None, httpError ''bad request: reason is required'' 400 w) else (Some reason, w))))"

definition state_json :: "request_state \<Rightarrow> json" where
  "state_json s = JStr (state_text s)"

definition review_event :: "transition_config \<Rightarrow> identity \<Rightarrow> int \<Rightarrow> request \<Rightarrow> string \<Rightarrow> audit_event" where
  "review_event cfg i reqID cur reason =
     \<lparr>ae_ID = 0, ae_Timestamp = None, ae_Kind = tc_auditKind cfg, ae_Source = ''rest'', ae_Module = rq_Module cur,
      ae_Version = rq_Version cur, ae_OK = True, ae_DurationMs = 0, ae_Error = [],
      ae_Payload = Marshal (map_json ([(''request_id'', JNum (int_text reqID)), (''from_state'', state_json (rq_State cur))] @
        (if reason \<noteq> [] then [(''reason'', JStr reason)] else []))),
      ae_UserID = DisplayName i\<rparr>"

definition reason_fields :: "string \<Rightarrow> request_fields" where
  "reason_fields reason = (if reason \<noteq> [] then no_fields\<lparr>ff_DenialReason := reason\<rparr> else no_fields)"

definition conflict :: "string \<Rightarrow> response \<Rightarrow> response" where
  "conflict msg w = writeJSON 409 (JsonBody (map_json [(''error'', JStr msg)])) w"

text \<open>The part that works on the stored request.\<close>

definition transition_stored ::
  "handler_env \<Rightarrow> transition_config \<Rightarrow> identity \<Rightarrow> int \<Rightarrow> string \<Rightarrow> response \<Rightarrow> hub \<Rightarrow> response \<times> hub" where
  "transition_stored env cfg i reqID reason w hb =
     (let hb = he_Others env 0 hb
      in case GetRequest (he_Read env) reqID (hub_requests hb) of
           Inl ErrRequestNotFound \<Rightarrow> (httpError ''request not found'' 404 w, hb)
         | Inl err \<Rightarrow> (internal_error w, hb)
         | Inr cur \<Rightarrow>
           (if rq_State cur \<notin> set (tc_allowedFroms cfg)
            then (writeJSON 409 (JsonBody (map_json
                [(''error'', JStr (''request is in state '' @ state_text (rq_State cur) @ ''; '' @ tc_action cfg @ '' not allowed'')),
                 (''current_state'', state_json (rq_State cur)),
                 (''allowed_from'', JArr (map state_json (tc_allowedFroms cfg)))])) w, hb)
            else
              (let hb = he_Others env 1 hb
               in case TransitionRequest (fst (he_Write env)) (snd (he_Write env)) reqID (rq_State cur) (tc_toState cfg)
                     (Some (reason_fields reason)) (hub_requests hb) of
                    (Some (ErrStateMismatch _ _), st) \<Rightarrow>
                      (conflict ''concurrent modification; re-fetch and retry'' w, set_requests st hb)
                  | (Some (ErrIllegalTransition _ _), st) \<Rightarrow> (conflict ''illegal transition'' w, set_requests st hb)
                  | (Some err, st) \<Rightarrow> (internal_error w, set_requests st hb)
                  | (None, st) \<Rightarrow>
                    (writeJSON 200 (JsonBody (map_json [(''id'', JNum (int_text reqID)), (''state'', state_json (tc_toState cfg))])) w,
                     audit_write (he_Audit env) (review_event cfg i reqID cur reason) (he_Others env 2 (set_requests st hb))))))"

definition transitionByReviewer ::
  "request_handlers \<Rightarrow> handler_env \<Rightarrow> transition_config \<Rightarrow> identity \<Rightarrow> string \<Rightarrow> bytes \<Rightarrow> hub \<Rightarrow> response \<times> hub" where
  "transitionByReviewer h env cfg i id_param text hb =
     (if \<not> Allow (rh_policy h) i (tc_action cfg) then (denyByPolicy (tc_action cfg) new_response, hb)
      else (case path_id id_param of
          None \<Rightarrow> (bad_id new_response, hb)
        | Some reqID \<Rightarrow>
          (case read_reason env cfg text new_response of
             (None, w) \<Rightarrow> (w, hb)
           | (Some reason, w) \<Rightarrow> transition_stored env cfg i reqID reason w hb)))"

definition apiApproveRequest :: "request_handlers \<Rightarrow> handler_env \<Rightarrow> identity \<Rightarrow> string \<Rightarrow> bytes \<Rightarrow> hub \<Rightarrow> response \<times> hub" where
  "apiApproveRequest h env i id_param text hb = transitionByReviewer h env approve_config i id_param text hb"

definition apiDenyRequest :: "request_handlers \<Rightarrow> handler_env \<Rightarrow> identity \<Rightarrow> string \<Rightarrow> bytes \<Rightarrow> hub \<Rightarrow> response \<times> hub" where
  "apiDenyRequest h env i id_param text hb = transitionByReviewer h env deny_config i id_param text hb"

section \<open>The view of the policy\<close>

text \<open>\<open>nil_groups\<close> tells a nil slice of groups from an empty one.\<close>

definition apiPolicyEffective :: "policy \<Rightarrow> bool \<Rightarrow> identity \<Rightarrow> response" where
  "apiPolicyEffective pol nil_groups i =
     (let actions = map (\<lambda>(name, _). (name, JBool (Allow (Some pol) i name))) (au_Actions (po_Auth pol));
          source = (if id_Source i = [] then SourceAnonymous else id_Source i)
      in writeJSON 200 (JsonBody (map_json
           [(''profile'', JStr (po_Profile pol)), (''actions'', map_json actions),
            (''identity'', map_json
               [(''email'', JStr (id_Email i)), (''user'', JStr (id_User i)),
                (''groups'', if nil_groups then JNull else JArr (map JStr (id_Groups i))), (''source'', JStr source)])]))
           new_response)"

section \<open>Maintainers\<close>

definition maintainer_event :: "identity \<Rightarrow> string \<Rightarrow> string \<Rightarrow> string \<Rightarrow> audit_event" where
  "maintainer_event i kind m email =
     \<lparr>ae_ID = 0, ae_Timestamp = None, ae_Kind = kind, ae_Source = ''rest'', ae_Module = m, ae_Version = [], ae_OK = True,
      ae_DurationMs = 0, ae_Error = [], ae_Payload = Marshal (map_json [(''email'', JStr email)]), ae_UserID = DisplayName i\<rparr>"

definition recordMaintainerAudit :: "handler_env \<Rightarrow> identity \<Rightarrow> string \<Rightarrow> string \<Rightarrow> string \<Rightarrow> hub \<Rightarrow> hub" where
  "recordMaintainerAudit env i kind m email hb = audit_write (he_Audit env) (maintainer_event i kind m email) hb"

definition maintainer_reply :: "string \<Rightarrow> string \<Rightarrow> response \<Rightarrow> response" where
  "maintainer_reply m email w = writeJSON 200 (JsonBody (map_json [(''module'', JStr m), (''email'', JStr email)])) w"

definition apiGrantMaintainer ::
  "request_handlers \<Rightarrow> handler_env \<Rightarrow> identity \<Rightarrow> string \<Rightarrow> bytes \<Rightarrow> hub \<Rightarrow> response \<times> hub" where
  "apiGrantMaintainer h env i module_param text hb =
     (if \<not> Allow (rh_policy h) i ''grant_maintainer'' then (denyByPolicy ''grant_maintainer'' new_response, hb)
      else if trim_space module_param = [] then (httpError ''bad request: module path required'' 400 new_response, hb)
      else (case decode_one_field (he_Cut env) maxMaintainerJSONBody ''email'' text new_response of
          (None, w) \<Rightarrow> (w, hb)
        | (Some s, w) \<Rightarrow>
          (let email = trim_space s;
               grantedBy = (if DisplayName i = [] then ''anonymous'' else DisplayName i)
           in if email = [] then (httpError ''bad request: email required'' 400 w, hb)
              else (let hb = he_Others env 0 hb
                in case AddMaintainer (sf_Exec (fst (he_Write env))) (snd (he_Write env)) (trim_space module_param) email grantedBy
                      (hb_Maintainers hb) of
                     (Some err, rows) \<Rightarrow> (internal_error w, hb\<lparr>hb_Maintainers := rows\<rparr>)
                   | (None, rows) \<Rightarrow> (maintainer_reply (trim_space module_param) email w,
                       recordMaintainerAudit env i ''maintainer_granted'' (trim_space module_param) email
                         (he_Others env 1 (hb\<lparr>hb_Maintainers := rows\<rparr>)))))))"

definition apiRevokeMaintainer ::
  "request_handlers \<Rightarrow> handler_env \<Rightarrow> identity \<Rightarrow> string \<Rightarrow> string \<Rightarrow> hub \<Rightarrow> response \<times> hub" where
  "apiRevokeMaintainer h env i module_param email_param hb =
     (if \<not> Allow (rh_policy h) i ''grant_maintainer'' then (denyByPolicy ''grant_maintainer'' new_response, hb)
      else (let m = trim_space module_param; email = trim_space email_param
        in if m = [] \<or> email = [] then (httpError ''bad request: module + email required'' 400 new_response, hb)
           else (let hb = he_Others env 0 hb
             in case RemoveMaintainer (sf_Exec (fst (he_Write env))) m email (hb_Maintainers hb) of
                  (Some err, rows) \<Rightarrow> (internal_error new_response, hb\<lparr>hb_Maintainers := rows\<rparr>)
                | (None, rows) \<Rightarrow> (maintainer_reply m email new_response,
                    recordMaintainerAudit env i ''maintainer_revoked'' m email
                      (he_Others env 1 (hb\<lparr>hb_Maintainers := rows\<rparr>))))))"

definition apiListMaintainers :: "request_handlers \<Rightarrow> handler_env \<Rightarrow> identity \<Rightarrow> string \<Rightarrow> hub \<Rightarrow> response" where
  "apiListMaintainers h env i module_param hb =
     (if \<not> Allow (rh_policy h) i ''view_maintainers'' then denyByPolicy ''view_maintainers'' new_response
      else if trim_space module_param = [] then httpError ''bad request: module path required'' 400 new_response
      else (case ListMaintainers (sf_Exec (he_Read env)) (trim_space module_param) (hb_Maintainers hb) of
          Inl err \<Rightarrow> internal_error new_response
        | Inr rows \<Rightarrow> writeJSON 200 (MaintainersBody rows) new_response))"

end
