(* ===== verification/Procurement.thy ===== *)
theory Procurement
  imports Handlers
begin

text \<open>
  What the procurement endpoints guarantee: who can move a request and when, what a submission
  does, and where the handlers fall short of their description.
\<close>

section \<open>Trimming\<close>

lemma trim_seqs_suffix: "\<exists>t. s = t @ trim_seqs ps s"
proof (induction ps s rule: trim_seqs.induct)
  case (1 ps s)
  show ?case
  proof (cases "find (\<lambda>p. p \<noteq> [] \<and> has_prefix s p) ps")
    case None
    then show ?thesis by (simp add: trim_seqs.simps)
  next
    case (Some p)
    then have "has_prefix s p" by (auto simp: find_Some_iff)
    then have "s = p @ drop (length p) s" by (metis append_take_drop_id has_prefix_def)
    moreover obtain t where "drop (length p) s = t @ trim_seqs ps (drop (length p) s)" using 1 [OF Some] by blast
    moreover have "trim_seqs ps s = trim_seqs ps (drop (length p) s)" by (simp add: trim_seqs.simps [of ps s] Some)
    ultimately have "s = (p @ t) @ trim_seqs ps s" by simp
    then show ?thesis by blast
  qed
qed

lemma trim_seqs_fixed: "find (\<lambda>p. p \<noteq> [] \<and> has_prefix (trim_seqs ps s) p) ps = None"
proof (induction ps s rule: trim_seqs.induct)
  case (1 ps s)
  then show ?case
    by (cases "find (\<lambda>p. p \<noteq> [] \<and> has_prefix s p) ps") (simp_all add: trim_seqs.simps [of ps s])
qed

lemma trim_space_idem [simp]: "trim_space (trim_space s) = trim_space s"
proof -
  let ?a = "trim_seqs space_seqs s"
  let ?b = "trim_seqs (map rev space_seqs) (rev ?a)"
  obtain t where "rev ?a = t @ ?b" using trim_seqs_suffix by blast
  then have a: "?a = rev ?b @ rev t" by (metis rev_append rev_rev_ident)
  have "\<not> (p \<noteq> [] \<and> has_prefix (rev ?b) p)" if "p \<in> set space_seqs" for p
    using trim_seqs_fixed [of space_seqs s] that a by (auto simp: find_None_iff has_prefix_iff)
  then have "find (\<lambda>p. p \<noteq> [] \<and> has_prefix (rev ?b) p) space_seqs = None" by (auto simp: find_None_iff)
  then have left: "trim_seqs space_seqs (rev ?b) = rev ?b" by (simp add: trim_seqs.simps)
  have "trim_seqs (map rev space_seqs) ?b = ?b"
    using trim_seqs_fixed [of "map rev space_seqs" "rev ?a"] by (simp add: trim_seqs.simps)
  then show ?thesis unfolding trim_space_def left rev_rev_ident by simp
qed

section \<open>Responses\<close>

lemma status_first [simp]:
  "rp_Status (WriteHeader code w) = (case rp_Status w of None \<Rightarrow> Some code | Some c \<Rightarrow> Some c)"
  "rp_Status (write_body b w) = rp_Status w"
  "rp_Status (setRetryAfter v w) = rp_Status w"
  "rp_Status (writeJSON code b w) = (case rp_Status w of None \<Rightarrow> Some code | Some c \<Rightarrow> Some c)"
  "rp_Status (httpError msg code w) = (case rp_Status w of None \<Rightarrow> Some code | Some c \<Rightarrow> Some c)"
  "rp_Status (denyByPolicy action w) = (case rp_Status w of None \<Rightarrow> Some 403 | Some c \<Rightarrow> Some c)"
  "rp_Status (internal_error w) = (case rp_Status w of None \<Rightarrow> Some 500 | Some c \<Rightarrow> Some c)"
  "rp_Status (conflict msg w) = (case rp_Status w of None \<Rightarrow> Some 409 | Some c \<Rightarrow> Some c)"
  "rp_Status (bad_id w) = (case rp_Status w of None \<Rightarrow> Some 400 | Some c \<Rightarrow> Some c)"
  by (simp_all add: WriteHeader_def write_body_def setRetryAfter_def writeJSON_def httpError_def denyByPolicy_def
      internal_error_def conflict_def bad_id_def split: option.splits)

lemma status_new [simp]: "rp_Status new_response = None"
  by (simp add: new_response_def)

lemma decodeJSONBody_reply:
  assumes "decodeJSONBody is_cut maxBytes names set_field dst body w = (res, w')"
  shows "case res of Some _ \<Rightarrow> w' = w | None \<Rightarrow> rp_Status w = None \<longrightarrow> rp_Status w' \<in> {Some 400, Some 413}"
  using assms by (auto simp: decodeJSONBody_def Let_def split: option.splits if_splits prod.splits)

lemma read_reason_reply:
  assumes "read_reason env cfg text w = (res, w')"
  shows "case res of Some _ \<Rightarrow> w' = w | None \<Rightarrow> rp_Status w = None \<longrightarrow> rp_Status w' \<in> {Some 400, Some 413}"
proof -
  obtain r w1 where d: "decode_one_field (he_Cut env) maxTransitionJSONBody ''reason'' text w = (r, w1)" by fastforce
  show ?thesis
    using assms decodeJSONBody_reply [OF d [unfolded decode_one_field_def]]
    by (auto simp: read_reason_def d Let_def split: if_splits option.splits)
qed

lemma parseSubmitBody_reply:
  assumes "parseSubmitBody is_cut text w = (res, w')"
  shows "case res of Some _ \<Rightarrow> w' = w | None \<Rightarrow> rp_Status w = None \<longrightarrow> rp_Status w' \<in> {Some 400, Some 413}"
  using assms unfolding parseSubmitBody_def
  by (auto simp: Let_def dest!: decodeJSONBody_reply split: prod.splits option.splits if_splits)

section \<open>Moving a request\<close>

text \<open>The reviewer is allowed, names a request, and states a reason where one is required.\<close>

definition review_ready :: "request_handlers \<Rightarrow> handler_env \<Rightarrow> transition_config \<Rightarrow> identity \<Rightarrow> string \<Rightarrow> bytes \<Rightarrow> int \<Rightarrow> string \<Rightarrow> bool" where
  "review_ready h env cfg i id_param text n reason \<longleftrightarrow>
     Allow (rh_policy h) i (tc_action cfg) \<and> path_id id_param = Some n \<and> fst (read_reason env cfg text new_response) = Some reason"

lemma transitionByReviewer_ready:
  "transitionByReviewer h env cfg i id_param text hb =
     (if \<exists>n reason. review_ready h env cfg i id_param text n reason
      then transition_stored env cfg i (the (path_id id_param)) (the (fst (read_reason env cfg text new_response))) new_response hb
      else (fst (transitionByReviewer h env cfg i id_param text hb), hb)) \<and>
   ((\<exists>n reason. review_ready h env cfg i id_param text n reason) \<or>
     rp_Status (fst (transitionByReviewer h env cfg i id_param text hb)) \<in> {Some 400, Some 403, Some 413})"
proof -
  obtain res w where r: "read_reason env cfg text new_response = (res, w)" by fastforce
  show ?thesis using read_reason_reply [OF r]
    by (auto simp: transitionByReviewer_def review_ready_def r split: option.splits)
qed

lemma transition_stored_cases:
  fixes env cfg reqID hb
  defines "hb1 \<equiv> he_Others env 0 hb"
  defines "hb2 \<equiv> he_Others env 1 hb1"
  assumes "store_ok (hub_requests hb2)" and "rp_Status w = None" and "\<And>x. he_Others env 2 x = x"
    and "transition_stored env cfg i reqID reason w hb = (w', hb')"
  shows "(rp_Status w' = Some 200 \<longleftrightarrow>
      (\<exists>row. sf_Exec (he_Read env) = None \<and> row_of (hub_requests hb1) reqID = Some row \<and> rw_state row \<in> set (tc_allowedFroms cfg) \<and>
         CanTransitionTo (rw_state row) (tc_toState cfg) \<and> sf_Exec (fst (he_Write env)) = None \<and> sf_Result (fst (he_Write env)) = None \<and>
         state_of (hub_requests hb2) reqID = Some (rw_state row))) \<and>
    (rp_Status w' = Some 200 \<longrightarrow>
      row_of (hub_requests hb') = (row_of (hub_requests hb2))(reqID \<mapsto>
        moved (snd (he_Write env)) (tc_toState cfg) (Some (reason_fields reason)) (the (row_of (hub_requests hb2) reqID))) \<and>
      the (state_of (hub_requests hb2) reqID) \<in> set (tc_allowedFroms cfg)) \<and>
    (rp_Status w' \<noteq> Some 200 \<and> sf_Result (fst (he_Write env)) = None \<longrightarrow> hb' \<in> {hb1, hb2})"
proof -
  note d = assms(6) [unfolded transition_stored_def hb1_def [symmetric] Let_def, folded hb2_def]
  show ?thesis
  proof (cases "GetRequest (he_Read env) reqID (hub_requests hb1)")
    case (Inl err)
    then have "rp_Status w' \<noteq> Some 200 \<and> hb' = hb1"
      using d assms(4) by (auto split: store_error.splits)
    moreover have "\<not> (\<exists>row. sf_Exec (he_Read env) = None \<and> row_of (hub_requests hb1) reqID = Some row)"
      using Inl by (auto simp: GetRequest_row split: option.splits)
    ultimately show ?thesis by blast
  next
    case (Inr cur)
    then obtain row where row: "sf_Exec (he_Read env) = None" "row_of (hub_requests hb1) reqID = Some row" "cur = scanRequest row"
      by (auto simp: GetRequest_row split: option.splits)
    have st: "rq_State cur = rw_state row" by (simp add: row(3) scanRequest_def)
    show ?thesis
    proof (cases "rw_state row \<in> set (tc_allowedFroms cfg)")
      case False
      then have "rp_Status w' \<noteq> Some 200 \<and> hb' = hb1" using d Inr assms(4) st by auto
      then show ?thesis using row False by auto
    next
      case True
      obtain err st' where t: "TransitionRequest (fst (he_Write env)) (snd (he_Write env)) reqID (rw_state row) (tc_toState cfg)
          (Some (reason_fields reason)) (hub_requests hb2) = (err, st')" by fastforce
      show ?thesis
      proof (cases err)
        case None
        have s: "rp_Status w' = Some 200" "hub_requests hb' = st'"
          using d Inr True st t None assms(4,5) by (auto simp: audit_write_def)
        have f: "sf_Result (fst (he_Write env)) = None" "sf_Exec (fst (he_Write env)) = None"
          using t None by (auto simp: TransitionRequest_def Let_def split: if_splits option.splits)
        obtain row2 where "row_of (hub_requests hb2) reqID = Some row2" "rw_state row2 = rw_state row"
            "CanTransitionTo (rw_state row) (tc_toState cfg)"
            "row_of st' = (row_of (hub_requests hb2))(reqID \<mapsto> moved (snd (he_Write env)) (tc_toState cfg) (Some (reason_fields reason)) row2)"
          using TransitionRequest_success [OF assms(3) t [unfolded None]] by metis
        then show ?thesis using s f row True by (auto simp: state_of_def)
      next
        case (Some e)
        have s: "rp_Status w' \<noteq> Some 200" "hb' = set_requests st' hb2"
          using d Inr True st t Some assms(4) by (auto split: store_error.splits)
        have "\<not> (CanTransitionTo (rw_state row) (tc_toState cfg) \<and> sf_Exec (fst (he_Write env)) = None \<and>
            sf_Result (fst (he_Write env)) = None \<and> state_of (hub_requests hb2) reqID = Some (rw_state row))"
          using t Some no_hit_iff [OF assms(3), of reqID "rw_state row"]
          by (auto simp: TransitionRequest_cases [OF assms(3)] Let_def split: if_splits option.splits)
        moreover have "sf_Result (fst (he_Write env)) = None \<longrightarrow> hb' = hb2"
          using TransitionRequest_failure [OF assms(3) t [unfolded Some]] s(2) by simp
        ultimately show ?thesis using s row by auto
      qed
    qed
  qed
qed


definition quiet_env :: handler_env where
  "quiet_env = \<lparr>he_Cut = False, he_Clock = 7, he_Read = no_fault, he_Scan = id, he_Count = no_fault,
     he_Write = (no_fault, 9), he_Audit = (None, 9), he_Others = (\<lambda>_ hb. hb)\<rparr>"

definition reviewed_row :: request_row where
  "reviewed_row = (hd (rs_rows one_request))\<lparr>rw_state := RequestStateNeedsReview\<rparr>"

definition reviewed_hub :: hub where
  "reviewed_hub = \<lparr>hb_DB = \<lparr>db_requests = \<lparr>rs_rows = [reviewed_row], rs_seq = 1\<rparr>, db_audit = \<lparr>al_rows = [], al_seq = 0\<rparr>\<rparr>,
     hb_Maintainers = [], hb_Limiter = []\<rparr>"

definition open_gates :: policy where
  "open_gates = edit_policy\<lparr>po_Auth := (po_Auth edit_policy)\<lparr>au_Actions := [(''approve_request'', GateAny), (''submit_request'', GateAny), (''grant_maintainer'', GateAny)],
     au_PerUserRateLimit := [], au_MaxPendingPerUser := 0\<rparr>\<rparr>"

definition open_handlers :: request_handlers where
  "open_handlers = \<lparr>rh_policy = Some open_gates, rh_userRate = True\<rparr>"

lemma reviewed_ok: "store_ok (hub_requests reviewed_hub)"
  by (simp add: store_ok_def reviewed_hub_def reviewed_row_def one_request_def row_ok_def known_state_def)


section \<open>Submitting a request\<close>

definition open_for :: "submit_body \<Rightarrow> request_row \<Rightarrow> bool" where
  "open_for body row \<longleftrightarrow> rw_module row = sb_Module body \<and> rw_version row = sb_Version body \<and>
     rw_state row \<notin> {RequestStateIndexed, RequestStateDenied}"

definition open_by :: "string \<Rightarrow> request_store \<Rightarrow> nat" where
  "open_by sub st = length (filter (\<lambda>row. rw_submitter_sub row = sub \<and> rw_state row \<notin> {RequestStateIndexed, RequestStateDenied}) (rs_rows st))"

text \<open>The caller may submit, is within its rate, and sends a body that names a module version.\<close>

definition submit_ready ::
  "request_handlers \<Rightarrow> handler_env \<Rightarrow> identity \<Rightarrow> bytes \<Rightarrow> hub \<Rightarrow> policy \<Rightarrow> submit_body \<Rightarrow> hub \<Rightarrow> bool" where
  "submit_ready h env i text hb pol body hb0 \<longleftrightarrow>
     rh_policy h = Some pol \<and> Allow (Some pol) i ''submit_request'' \<and>
     checkUserRate h env pol i new_response hb = (True, new_response, hb0) \<and>
     fst (parseSubmitBody (he_Cut env) text new_response) = Some body"

lemma checkUserRate_hub:
  assumes "checkUserRate h env pol i w hb = (ok, w', hb')"
  shows "hb_DB hb' = hb_DB hb \<and> hb_Maintainers hb' = hb_Maintainers hb \<and> (ok \<longrightarrow> w' = w) \<and>
    (\<not> ok \<and> rp_Status w = None \<longrightarrow> rp_Status w' = Some 429)"
  using assms by (auto simp: checkUserRate_def Let_def split: if_splits sum.splits prod.splits)

lemma apiSubmitRequest_ready:
  "(\<exists>pol body hb0. submit_ready h env i text hb pol body hb0 \<and> hb_DB hb0 = hb_DB hb \<and>
      apiSubmitRequest h env i text hb = admit_submission env pol i body new_response hb0) \<or>
   (\<forall>pol body hb0. \<not> submit_ready h env i text hb pol body hb0) \<and>
     rp_Status (fst (apiSubmitRequest h env i text hb)) \<in> {Some 400, Some 403, Some 413, Some 429} \<and>
     hb_DB (snd (apiSubmitRequest h env i text hb)) = hb_DB hb"
proof (cases "\<exists>pol. rh_policy h = Some pol \<and> Allow (Some pol) i ''submit_request''")
  case False
  then show ?thesis by (auto simp: apiSubmitRequest_def submit_ready_def split: option.splits)
next
  case True
  then obtain pol where pol: "rh_policy h = Some pol" "Allow (Some pol) i ''submit_request''" by blast
  obtain ok w hb0 where c: "checkUserRate h env pol i new_response hb = (ok, w, hb0)" by (metis prod_cases3)
  obtain res w' where p: "parseSubmitBody (he_Cut env) text new_response = (res, w')" by fastforce
  note facts = checkUserRate_hub [OF c] parseSubmitBody_reply [OF p]
  show ?thesis
    by (cases ok; cases res; use facts in \<open>auto simp: apiSubmitRequest_def submit_ready_def pol c p\<close>)
qed

lemma FindOpenRequest_open:
  "FindOpenRequest no_fault (sb_Module body) (sb_Version body) st =
     (if \<forall>row \<in> set (rs_rows st). \<not> open_for body row then Inl ErrRequestNotFound
      else Inr (scanRequest (hd (sort_key (\<lambda>row. - rw_id row) (filter (open_for body) (rs_rows st))))))"
proof -
  have o: "filter (\<lambda>row. rw_module row = sb_Module body \<and> rw_version row = sb_Version body \<and>
      rw_state row \<notin> {RequestStateIndexed, RequestStateDenied}) (rs_rows st) = filter (open_for body) (rs_rows st)"
    by (rule filter_cong) (auto simp: open_for_def)
  show ?thesis unfolding FindOpenRequest_def o no_fault_def
    by (cases "sort_key (\<lambda>row. - rw_id row) (filter (open_for body) (rs_rows st))")
       (auto simp: filter_empty_conv, metis filter_empty_conv list.distinct(1) sort_key_Nil_iff)
qed

lemma admit_submission_quiet:
  assumes "\<And>k x. he_Others env k x = x" and "he_Read env = no_fault" and "he_Count env = no_fault"
    and "fst (he_Write env) = no_fault" and "required_fields (trimmed (newRequestFromBody i body))"
  shows "admit_submission env pol i body new_response hb =
    (let st = hub_requests hb; cap = au_MaxPendingPerUser (po_Auth pol); n = open_by (submitterSub i) st
     in if \<exists>row \<in> set (rs_rows st). open_for body row
        then (fst (admit_submission env pol i body new_response hb), hb)
        else if cap > 0 \<and> cap \<le> int n
        then (fst (admit_submission env pol i body new_response hb), hb)
        else (fst (admit_submission env pol i body new_response hb),
          recordSubmitAudit env i (rs_seq st + 1) body (set_requests
            \<lparr>rs_rows = rs_rows st @ [inserted_row (snd (he_Write env)) (rs_seq st + 1) (trimmed (newRequestFromBody i body))],
             rs_seq = rs_seq st + 1\<rparr> hb)))"
    and "rp_Status (fst (admit_submission env pol i body new_response hb)) =
      Some (if \<exists>row \<in> set (rs_rows (hub_requests hb)). open_for body row then 200
       else if au_MaxPendingPerUser (po_Auth pol) > 0 \<and>
         au_MaxPendingPerUser (po_Auth pol) \<le> int (open_by (submitterSub i) (hub_requests hb)) then 429 else 201)"
proof -
  have create: "CreateRequest (fst (he_Write env)) t (newRequestFromBody i body) st =
      (Inr (rs_seq st + 1), \<lparr>rs_rows = rs_rows st @ [inserted_row t (rs_seq st + 1) (trimmed (newRequestFromBody i body))],
         rs_seq = rs_seq st + 1\<rparr>)" for t st
    by (rule CreateRequest_accepts [OF assms(5)]) (simp_all add: assms(4) no_fault_def)
  have cnt: "CountOpenRequestsForUser no_fault sub st = Inr (open_by sub st)" for sub st
    by (simp add: CountOpenRequestsForUser_def no_fault_def open_by_def)
  note d = admit_submission_def findDedupTarget_def checkPendingCap_def assms(1-3) create cnt FindOpenRequest_open Let_def
  show "admit_submission env pol i body new_response hb =
    (let st = hub_requests hb; cap = au_MaxPendingPerUser (po_Auth pol); n = open_by (submitterSub i) st
     in if \<exists>row \<in> set (rs_rows st). open_for body row
        then (fst (admit_submission env pol i body new_response hb), hb)
        else if cap > 0 \<and> cap \<le> int n
        then (fst (admit_submission env pol i body new_response hb), hb)
        else (fst (admit_submission env pol i body new_response hb),
          recordSubmitAudit env i (rs_seq st + 1) body (set_requests
            \<lparr>rs_rows = rs_rows st @ [inserted_row (snd (he_Write env)) (rs_seq st + 1) (trimmed (newRequestFromBody i body))],
             rs_seq = rs_seq st + 1\<rparr> hb)))"
    by (simp add: d)
  show "rp_Status (fst (admit_submission env pol i body new_response hb)) =
      Some (if \<exists>row \<in> set (rs_rows (hub_requests hb)). open_for body row then 200
       else if au_MaxPendingPerUser (po_Auth pol) > 0 \<and>
         au_MaxPendingPerUser (po_Auth pol) \<le> int (open_by (submitterSub i) (hub_requests hb)) then 429 else 201)"
    by (simp add: d)
qed

lemma parsed_body:
  assumes "fst (parseSubmitBody is_cut text w) = Some body"
  shows "sb_Module body \<noteq> []" and "sb_Version body \<noteq> []"
    and "trim_space (sb_Module body) = sb_Module body" and "trim_space (sb_Version body) = sb_Version body"
  using assms by (auto simp: parseSubmitBody_def Let_def split: prod.splits option.splits if_splits)

text \<open>An identity whose fields are trimmed, as the middlewares and the token registry make them.\<close>

definition clean_identity :: "identity \<Rightarrow> bool" where
  "clean_identity i \<longleftrightarrow> trim_space (id_Email i) = id_Email i \<and> trim_space (id_User i) = id_User i \<and>
     id_Source i \<in> {[], SourceAnonymous, SourceHeader, SourceBearer, SourceOIDC}"

lemma submission_fields:
  assumes "clean_identity i" and "sb_Module body \<noteq> []" and "sb_Version body \<noteq> []"
    and "trim_space (sb_Module body) = sb_Module body" and "trim_space (sb_Version body) = sb_Version body"
  shows "trimmed (newRequestFromBody i body) = newRequestFromBody i body" "required_fields (newRequestFromBody i body)"
proof -
  have lits: "trim_space ''anonymous'' = ''anonymous''" "trim_space SourceHeader = SourceHeader"
    "trim_space SourceBearer = SourceBearer" "trim_space SourceOIDC = SourceOIDC"
    by code_simp+
  have a: "trim_space (rq_AuthMethod (newRequestFromBody i body)) = rq_AuthMethod (newRequestFromBody i body)"
    "rq_AuthMethod (newRequestFromBody i body) \<noteq> []"
    using assms(1) lits by (auto simp: newRequestFromBody_def IsAuthenticated_def clean_identity_def)
  have b: "trim_space (submitterSub i) = submitterSub i" "submitterSub i \<noteq> []"
    using assms(1) lits(1) by (auto simp: submitterSub_def clean_identity_def)
  show "trimmed (newRequestFromBody i body) = newRequestFromBody i body"
    using a b assms(4,5) by (simp add: trimmed_def newRequestFromBody_def)
  show "required_fields (newRequestFromBody i body)"
    using a b assms(2,3) by (simp add: required_fields_def newRequestFromBody_def)
qed

text \<open>Nobody else acts, and every statement runs.\<close>

definition undisturbed :: "handler_env \<Rightarrow> bool" where
  "undisturbed env \<longleftrightarrow> he_Others env = (\<lambda>_ x. x) \<and> he_Read env = no_fault \<and> he_Count env = no_fault \<and>
     fst (he_Write env) = no_fault \<and> fst (he_Audit env) = None"

text \<open>
  With the statements running and nobody interfering, a submission that passes the gate, the
  rate limit and the body check answers 200 and changes no request when the version has an open
  one, 429 when the caller has as many open requests as the policy allows, and otherwise 201 after
  storing one pending request of the caller and one audit event; a submission that fails one of
  the three checks is refused with 400, 403, 413 or 429 and changes nothing.
\<close>

theorem submit_exact:
  assumes "undisturbed env" and "clean_identity i" and "apiSubmitRequest h env i text hb = (w, hb')"
  shows "if \<exists>pol body hb0. submit_ready h env i text hb pol body hb0
    then \<exists>pol body hb0. submit_ready h env i text hb pol body hb0 \<and>
      (let st = hub_requests hb; cap = au_MaxPendingPerUser (po_Auth pol);
           new_row = inserted_row (snd (he_Write env)) (rs_seq st + 1) (newRequestFromBody i body)
       in if \<exists>row \<in> set (rs_rows st). open_for body row then rp_Status w = Some 200 \<and> hb_DB hb' = hb_DB hb
          else if cap > 0 \<and> cap \<le> int (open_by (submitterSub i) st) then rp_Status w = Some 429 \<and> hb_DB hb' = hb_DB hb
          else rp_Status w = Some 201 \<and>
            hub_requests hb' = \<lparr>rs_rows = rs_rows st @ [new_row], rs_seq = rs_seq st + 1\<rparr> \<and>
            al_rows (db_audit (hb_DB hb')) = al_rows (db_audit (hb_DB hb)) @
               [audit_row_of (snd (he_Audit env)) (al_seq (db_audit (hb_DB hb)) + 1) (submit_event i (rs_seq st + 1) body)])
    else rp_Status w \<in> {Some 400, Some 403, Some 413, Some 429} \<and> hb_DB hb' = hb_DB hb"
proof (cases "\<exists>pol body hb0. submit_ready h env i text hb pol body hb0")
  case False
  then show ?thesis using apiSubmitRequest_ready [of h env i "text" hb] assms(3) by auto
next
  case True
  then obtain pol body hb0 where r: "submit_ready h env i text hb pol body hb0" "hb_DB hb0 = hb_DB hb"
      and s: "admit_submission env pol i body new_response hb0 = (w, hb')"
    using apiSubmitRequest_ready [of h env i "text" hb] assms(3) by auto
  have others: "he_Others env k x = x" for k x using assms(1) by (simp add: undisturbed_def)
  have b: "fst (parseSubmitBody (he_Cut env) text new_response) = Some body" using r(1) by (simp add: submit_ready_def)
  note fields = submission_fields [OF assms(2) parsed_body [OF b]]
  note q = admit_submission_quiet [of env i body pol hb0, OF others, unfolded fields(1), OF _ _ _ fields(2)]
  have env: "he_Read env = no_fault" "he_Count env = no_fault" "fst (he_Write env) = no_fault" "fst (he_Audit env) = None"
    using assms(1) by (simp_all add: undisturbed_def)
  note q = q [OF env(1-3), unfolded s r(2)]
  have c: "(let st = hub_requests hb; cap = au_MaxPendingPerUser (po_Auth pol);
           new_row = inserted_row (snd (he_Write env)) (rs_seq st + 1) (newRequestFromBody i body)
       in if \<exists>row \<in> set (rs_rows st). open_for body row then rp_Status w = Some 200 \<and> hb_DB hb' = hb_DB hb
          else if cap > 0 \<and> cap \<le> int (open_by (submitterSub i) st) then rp_Status w = Some 429 \<and> hb_DB hb' = hb_DB hb
          else rp_Status w = Some 201 \<and>
            hub_requests hb' = \<lparr>rs_rows = rs_rows st @ [new_row], rs_seq = rs_seq st + 1\<rparr> \<and>
            al_rows (db_audit (hb_DB hb')) = al_rows (db_audit (hb_DB hb)) @
               [audit_row_of (snd (he_Audit env)) (al_seq (db_audit (hb_DB hb)) + 1) (submit_event i (rs_seq st + 1) body)])"
    using q r(2) env(4)
    by (cases "\<exists>row \<in> set (rs_rows (hub_requests hb)). open_for body row";
        cases "au_MaxPendingPerUser (po_Auth pol) > 0 \<and> au_MaxPendingPerUser (po_Auth pol) \<le> int (open_by (submitterSub i) (hub_requests hb))")
       (simp_all only: Let_def if_True if_False fst_conv prod.inject simp_thms,
        simp_all add: recordSubmitAudit_def audit_write_def RecordAudit_def)
  show ?thesis unfolding if_P [OF True] using r(1) c by blast
qed

definition submit_text :: bytes where
  "submit_text = Marshal (JObj [(''module'', JStr ''zlib''), (''version'', JStr ''1.3'')])"

definition zlib_body :: submit_body where
  "zlib_body = \<lparr>sb_Module = ''zlib'', sb_Version = ''1.3'', sb_SourceURL = [], sb_Notes = []\<rparr>"

lemma submit_text_parses: "parseSubmitBody False submit_text new_response = (Some zlib_body, new_response)"
proof -
  let ?v = "JObj [(''module'', JStr ''zlib''), (''version'', JStr ''1.3'')]"
  have v: "json_ok ?v" "length submit_text = 33" by code_simp+
  have "parse_value (Suc (length submit_text)) 0 (submit_text @ []) = Some (?v, [])"
    unfolding submit_text_def Marshal_def
    by (rule parse_render(1)) (use v in \<open>simp_all add: layout_ok_compact number_end_simps maxNestingDepth_def\<close>)
  moreover have "decode_strict [''module'', ''version'', ''source_url'', ''notes''] set_submit_field ?v
      \<lparr>sb_Module = [], sb_Version = [], sb_SourceURL = [], sb_Notes = []\<rparr> = Some zlib_body"
    "trim_space ''zlib'' = ''zlib''" "trim_space ''1.3'' = ''1.3''" "skip_ws [] = []" by code_simp+
  ultimately show ?thesis
    by (simp add: parseSubmitBody_def decodeJSONBody_def v(2) maxRequestJSONBody_def zlib_body_def)
qed

lemma anonymous_clean: "clean_identity Anonymous"
  by code_simp

lemma submit_exact_witness:
  "rp_Status (fst (apiSubmitRequest open_handlers quiet_env Anonymous submit_text reviewed_hub)) = Some 200"
proof -
  obtain w hb' where t: "apiSubmitRequest open_handlers quiet_env Anonymous submit_text reviewed_hub = (w, hb')"
    by fastforce
  have blank: "trim_space [] = []" by code_simp
  have "Allow (Some open_gates) Anonymous ''submit_request''" by code_simp
  moreover have "checkUserRate open_handlers quiet_env open_gates Anonymous new_response reviewed_hub = (True, new_response, reviewed_hub)"
    by (simp add: checkUserRate_def ParseRate_def blank open_gates_def)
  moreover have "he_Cut quiet_env = False" by (simp add: quiet_env_def)
  ultimately have r: "submit_ready open_handlers quiet_env Anonymous submit_text reviewed_hub pol body hb0 \<longleftrightarrow>
      pol = open_gates \<and> body = zlib_body \<and> hb0 = reviewed_hub" for pol body hb0
    by (auto simp: submit_ready_def open_handlers_def submit_text_parses)
  have e: "\<exists>row \<in> set (rs_rows (hub_requests reviewed_hub)). open_for zlib_body row"
    by (simp add: open_for_def zlib_body_def reviewed_row_def one_request_def reviewed_hub_def)
  have "undisturbed quiet_env" by (simp add: undisturbed_def quiet_env_def)
  then show ?thesis using submit_exact [OF _ anonymous_clean t] by (simp add: r Let_def t e)
qed

section \<open>Where dedup falls short\<close>

text \<open>
  C13: when the lookup of an open request fails, the handler answers 500 and goes on: the request
  is created even if the version has an open one, and a second answer follows the first.
\<close>

theorem dedup_error_still_creates:
  assumes "submit_ready h env i text hb pol body hb0" and "clean_identity i" and "he_Others env = (\<lambda>_ x. x)"
    and "sf_Exec (he_Read env) = Some err" and "fst (he_Write env) = no_fault" and "au_MaxPendingPerUser (po_Auth pol) \<le> 0"
    and "apiSubmitRequest h env i text hb = (w, hb')"
  shows "rp_Status w = Some 500 \<and> length (rp_Bodies w) = 2 \<and>
    rs_rows (hub_requests hb') = rs_rows (hub_requests hb) @
      [inserted_row (snd (he_Write env)) (rs_seq (hub_requests hb) + 1) (newRequestFromBody i body)]"
proof -
  obtain pol' body' hb0' where u: "submit_ready h env i text hb pol' body' hb0'" "hb_DB hb0' = hb_DB hb"
      "admit_submission env pol' i body' new_response hb0' = (w, hb')"
    using apiSubmitRequest_ready [of h env i "text" hb] assms(1,7) by auto
  have e: "pol' = pol" "body' = body" "hb0' = hb0" using u(1) assms(1) by (auto simp: submit_ready_def)
  have b: "fst (parseSubmitBody (he_Cut env) text new_response) = Some body" using assms(1) by (simp add: submit_ready_def)
  note fields = submission_fields [OF assms(2) parsed_body [OF b]]
  have create: "CreateRequest (fst (he_Write env)) t (newRequestFromBody i body) st =
      (Inr (rs_seq st + 1), \<lparr>rs_rows = rs_rows st @ [inserted_row t (rs_seq st + 1) (newRequestFromBody i body)],
         rs_seq = rs_seq st + 1\<rparr>)" for t st
    using CreateRequest_accepts [of "newRequestFromBody i body" "fst (he_Write env)" t st] fields assms(5)
    by (simp add: no_fault_def)
  show ?thesis using u(3) u(2) assms(6)
    by (simp add: e admit_submission_def assms(3) findDedupTarget_def FindOpenRequest_def assms(4) checkPendingCap_def create
        response_defs recordSubmitAudit_def audit_write_def Let_def) auto
qed

text \<open>
  Two submissions of one version that both look before either has written are both created:
  the second runs to its end between the lookup and the insert of the first, both answer 201, and
  the version has two open requests.
\<close>

theorem concurrent_submissions_not_collapsed:
  assumes "undisturbed env" and "clean_identity i" and "clean_identity j" and "rh_policy h = Some pol" and "\<not> rh_userRate h"
    and "Allow (Some pol) i ''submit_request''" and "Allow (Some pol) j ''submit_request''"
    and "fst (parseSubmitBody (he_Cut env) text new_response) = Some body" and "au_MaxPendingPerUser (po_Auth pol) \<le> 0"
    and "\<forall>row \<in> set (rs_rows (hub_requests hb)). \<not> open_for body row"
    and "first = apiSubmitRequest h (env\<lparr>he_Others := (\<lambda>k x. if k = 1 then snd (apiSubmitRequest h env j text x) else x)\<rparr>) i text hb"
  shows "rp_Status (fst first) = Some 201 \<and> rp_Status (fst (apiSubmitRequest h env j text hb)) = Some 201 \<and>
    length (filter (open_for body) (rs_rows (hub_requests (snd first)))) = 2"
proof -
  let ?racing = "env\<lparr>he_Others := (\<lambda>k x. if k = 1 then snd (apiSubmitRequest h env j text x) else x)\<rparr>"
  let ?new = "\<lambda>k n. inserted_row (snd (he_Write env)) n (newRequestFromBody k body)"
  have env: "he_Others env = (\<lambda>_ x. x)" "he_Read env = no_fault" "he_Count env = no_fault" "fst (he_Write env) = no_fault"
    using assms(1) by (simp_all add: undisturbed_def)
  have ready: "submit_ready h e k text x pol' body' x' \<longleftrightarrow> pol' = pol \<and> body' = body \<and> x' = x"
    if "e = env \<or> e = ?racing" "k = i \<or> k = j" for e k x pol' body' x'
    using that assms(4-8) by (auto simp: submit_ready_def checkUserRate_def)
  have call: "apiSubmitRequest h e k text x = admit_submission e pol k body new_response x"
    if "e = env \<or> e = ?racing" "k = i \<or> k = j" for e k x
    using apiSubmitRequest_ready [of h e k "text" x] ready [OF that] by auto
  note parsed = parsed_body [OF assms(8)]
  have fields: "trimmed (newRequestFromBody k body) = newRequestFromBody k body" "required_fields (newRequestFromBody k body)"
    if "k = i \<or> k = j" for k
    using submission_fields [OF _ parsed] assms(2,3) that by auto
  have create: "CreateRequest no_fault t (newRequestFromBody k body) st =
      (Inr (rs_seq st + 1), \<lparr>rs_rows = rs_rows st @ [inserted_row t (rs_seq st + 1) (newRequestFromBody k body)],
         rs_seq = rs_seq st + 1\<rparr>)" if "k = i \<or> k = j" for t st k
    using CreateRequest_accepts [of "newRequestFromBody k body" no_fault t st] fields [OF that] by (simp add: no_fault_def)
  note d = admit_submission_def findDedupTarget_def env FindOpenRequest_open checkPendingCap_def assms(9,10) create
    recordSubmitAudit_def audit_write_def Let_def
  have second: "rp_Status (fst (apiSubmitRequest h env j text hb)) = Some 201"
    "hub_requests (snd (apiSubmitRequest h env j text hb)) =
       \<lparr>rs_rows = rs_rows (hub_requests hb) @ [?new j (rs_seq (hub_requests hb) + 1)], rs_seq = rs_seq (hub_requests hb) + 1\<rparr>"
    unfolding call [of env j, simplified] by (simp_all add: d)
  have racing: "first = admit_submission ?racing pol i body new_response hb"
    unfolding assms(11) by (rule call) simp_all
  have "rp_Status (fst first) = Some 201"
    "rs_rows (hub_requests (snd first)) = rs_rows (hub_requests hb) @
       [?new j (rs_seq (hub_requests hb) + 1), ?new i (rs_seq (hub_requests hb) + 2)]"
    unfolding racing by (simp_all add: d second(2), simp add: add.commute)
  moreover have "open_for body (?new k n)" for k n
    by (simp add: open_for_def inserted_row_def newRequestFromBody_def)
  moreover have "filter (open_for body) (rs_rows (hub_requests hb)) = []" using assms(10) by (simp add: filter_empty_conv)
  ultimately show ?thesis using second(1) by simp
qed

definition empty_hub :: hub where
  "empty_hub = reviewed_hub\<lparr>hb_DB := (hb_DB reviewed_hub)\<lparr>db_requests := empty_store\<rparr>\<rparr>"

definition unlimited_handlers :: request_handlers where
  "unlimited_handlers = \<lparr>rh_policy = Some open_gates, rh_userRate = False\<rparr>"

lemma unlimited_ready:
  "Allow (Some open_gates) Anonymous ''submit_request''" "fst (parseSubmitBody (he_Cut quiet_env) submit_text new_response) = Some zlib_body"
  "au_MaxPendingPerUser (po_Auth open_gates) \<le> 0" "undisturbed quiet_env"
  by (code_simp, simp_all add: quiet_env_def submit_text_parses open_gates_def undisturbed_def)

lemma concurrent_submissions_not_collapsed_witness:
  "length (filter (open_for zlib_body) (rs_rows (hub_requests (snd (apiSubmitRequest unlimited_handlers
     (quiet_env\<lparr>he_Others := (\<lambda>k x. if k = 1 then snd (apiSubmitRequest unlimited_handlers quiet_env Anonymous submit_text x) else x)\<rparr>)
     Anonymous submit_text empty_hub))))) = 2"
  using concurrent_submissions_not_collapsed [OF unlimited_ready(4) anonymous_clean anonymous_clean _ _ unlimited_ready(1,1,2,3) _ refl,
      of unlimited_handlers empty_hub]
  by (simp add: unlimited_handlers_def empty_hub_def empty_store_def)

lemma dedup_error_still_creates_witness:
  "rp_Status (fst (apiSubmitRequest unlimited_handlers (quiet_env\<lparr>he_Read := \<lparr>sf_Exec = Some ''locked'', sf_Result = None\<rparr>\<rparr>)
     Anonymous submit_text reviewed_hub)) = Some 500"
proof -
  let ?e = "quiet_env\<lparr>he_Read := \<lparr>sf_Exec = Some ''locked'', sf_Result = None\<rparr>\<rparr>"
  obtain w hb' where t: "apiSubmitRequest unlimited_handlers ?e Anonymous submit_text reviewed_hub = (w, hb')" by fastforce
  have r: "submit_ready unlimited_handlers ?e Anonymous submit_text reviewed_hub open_gates zlib_body reviewed_hub"
    using unlimited_ready(1) by (simp add: submit_ready_def unlimited_handlers_def checkUserRate_def quiet_env_def submit_text_parses)
  have "rp_Status w = Some 500"
    by (rule dedup_error_still_creates [OF r anonymous_clean _ _ _ unlimited_ready(3) t, THEN conjunct1])
       (simp_all add: quiet_env_def)
  then show ?thesis by (simp add: t)
qed

section \<open>Maintainers\<close>

text \<open>
  A grant that answers 200 makes the address a maintainer of the module, a revocation that
  answers 200 ends it, neither touches another grant, and both can be repeated; every other answer
  leaves the grants as they were.
\<close>

theorem maintainer_endpoints_exact:
  assumes "he_Others env = (\<lambda>_ x. x)"
    and "apiGrantMaintainer h env i module_param text hb = (w, hb1)"
    and "apiRevokeMaintainer h env i module_param email_param hb = (w', hb2)"
  shows "(IsMaintainer None m e (hb_Maintainers hb1) = Inr True \<longleftrightarrow>
        IsMaintainer None m e (hb_Maintainers hb) = Inr True \<or>
        rp_Status w = Some 200 \<and> m = trim_space module_param \<and>
        (\<exists>s. fst (decode_one_field (he_Cut env) maxMaintainerJSONBody ''email'' text new_response) = Some s \<and> e = trim_space s)) \<and>
    (IsMaintainer None m e (hb_Maintainers hb2) = Inr True \<longleftrightarrow>
        IsMaintainer None m e (hb_Maintainers hb) = Inr True \<and>
        \<not> (rp_Status w' = Some 200 \<and> m = trim_space module_param \<and> e = trim_space email_param))"
proof
  obtain res w0 where b: "decode_one_field (he_Cut env) maxMaintainerJSONBody ''email'' text new_response = (res, w0)" by fastforce
  note reply = decodeJSONBody_reply [OF b [unfolded decode_one_field_def]]
  have d: "maintainer_reply m e x = writeJSON 200 (JsonBody (map_json [(''module'', JStr m), (''email'', JStr e)])) x" for m e x
    by (simp add: maintainer_reply_def)
  show "IsMaintainer None m e (hb_Maintainers hb1) = Inr True \<longleftrightarrow>
        IsMaintainer None m e (hb_Maintainers hb) = Inr True \<or>
        rp_Status w = Some 200 \<and> m = trim_space module_param \<and>
        (\<exists>s. fst (decode_one_field (he_Cut env) maxMaintainerJSONBody ''email'' text new_response) = Some s \<and> e = trim_space s)"
    using assms(2) reply
    by (auto simp: apiGrantMaintainer_def b assms(1) AddMaintainer_def IsMaintainer_def d Let_def recordMaintainerAudit_def
        audit_write_def split: if_splits option.splits)
  show "IsMaintainer None m e (hb_Maintainers hb2) = Inr True \<longleftrightarrow>
        IsMaintainer None m e (hb_Maintainers hb) = Inr True \<and>
        \<not> (rp_Status w' = Some 200 \<and> m = trim_space module_param \<and> e = trim_space email_param)"
    using assms(3)
    by (auto simp: apiRevokeMaintainer_def assms(1) RemoveMaintainer_def IsMaintainer_def d Let_def recordMaintainerAudit_def
        audit_write_def split: if_splits option.splits)
qed

lemma maintainer_endpoints_exact_witness:
  "IsMaintainer None ''zlib'' ''a@b'' (hb_Maintainers (snd (apiRevokeMaintainer unlimited_handlers quiet_env Anonymous ''zlib'' ''a@b''
     (empty_hub\<lparr>hb_Maintainers := [\<lparr>mn_Module = ''zlib'', mn_UserEmail = ''a@b'', mn_GrantedAt = 1, mn_GrantedBy = ''root''\<rparr>]\<rparr>)))) \<noteq> Inr True"
proof -
  let ?hb = "empty_hub\<lparr>hb_Maintainers := [\<lparr>mn_Module = ''zlib'', mn_UserEmail = ''a@b'', mn_GrantedAt = 1, mn_GrantedBy = ''root''\<rparr>]\<rparr>"
  obtain w hb1 where g: "apiGrantMaintainer unlimited_handlers quiet_env Anonymous ''zlib'' [] ?hb = (w, hb1)" by fastforce
  obtain w' hb2 where r: "apiRevokeMaintainer unlimited_handlers quiet_env Anonymous ''zlib'' ''a@b'' ?hb = (w', hb2)" by fastforce
  have t: "trim_space ''zlib'' = ''zlib''" "trim_space ''a@b'' = ''a@b''" "Allow (Some open_gates) Anonymous ''grant_maintainer''"
    by code_simp+
  have "rp_Status w' = Some 200"
    using r by (auto simp: apiRevokeMaintainer_def unlimited_handlers_def t quiet_env_def no_fault_def RemoveMaintainer_def
        maintainer_reply_def Let_def)
  moreover have "he_Others quiet_env = (\<lambda>_ x. x)" by (simp add: quiet_env_def)
  ultimately show ?thesis
    using maintainer_endpoints_exact [OF _ g r, of "''zlib''" "''a@b''"] by (simp add: r t)
qed

end
