(* ===== verification/Admit.thy ===== *)
theory Admit
  imports Publish PreflightRunner
begin

text \<open>
  Admission of one request (src/internal/admit): the bounded download, the extraction of the
  module file, and the pipeline that turns an approved request into a publish call.

  The network, the extractor of the archive and the publisher are the environment of one
  attempt; an error carries whether it is marked transient.
\<close>

section \<open>The fetcher\<close>

record admit_error =
  ax_Transient :: bool
  ax_Text :: string

definition terminal_error :: "string \<Rightarrow> admit_error" where
  "terminal_error s = \<lparr>ax_Transient = False, ax_Text = s\<rparr>"

definition transient_error :: "string \<Rightarrow> admit_error" where
  "transient_error s = \<lparr>ax_Transient = True, ax_Text = ''admit: transient failure: '' @ s\<rparr>"

text \<open>Wrapping with a prefix keeps the mark.\<close>

definition wrap :: "string \<Rightarrow> admit_error \<Rightarrow> admit_error" where
  "wrap what err = err\<lparr>ax_Text := what @ '': '' @ ax_Text err\<rparr>"

definition IsTransient :: "admit_error \<Rightarrow> bool" where
  "IsTransient err = ax_Transient err"

definition isTransientStatus :: "int \<Rightarrow> bool" where
  "isTransientStatus code =
     (if code = 408 \<or> code = 425 \<or> code = 429 then True else code \<ge> 500 \<and> code \<le> 599)"

text \<open>A sink accepts every byte, or fails with an error after the given number.\<close>

type_synonym sink = "(nat \<times> string) option"

text \<open>
  The result of a download: the bytes written to the sink, and the error, if any. The size
  reported is the number of bytes written.
\<close>

definition copied :: "sink \<Rightarrow> bytes \<Rightarrow> string option \<Rightarrow> bytes \<times> string option" where
  "copied snk src read_err =
     (case snk of
        Some (k, err) \<Rightarrow> if k < length src then (take k src, Some err) else (src, read_err)
      | None \<Rightarrow> (src, read_err))"

definition Fetch :: "int \<Rightarrow> http_client \<Rightarrow> string \<Rightarrow> sink \<Rightarrow> bytes \<times> admit_error option" where
  "Fetch maxBytes client url snk =
     (case hc_NewRequest client url of
        Some err \<Rightarrow> ([], Some (terminal_error (''build request: '' @ err)))
      | None \<Rightarrow>
        (case hc_Do client url of
           Inl err \<Rightarrow> ([], Some (transient_error (''http get '' @ url @ '': '' @ err)))
         | Inr resp \<Rightarrow>
           (if hr_Status resp < 200 \<or> hr_Status resp \<ge> 300
            then (if isTransientStatus (hr_Status resp)
              then ([], Some (transient_error (''HTTP '' @ int_text (hr_Status resp) @ '' from '' @ url)))
              else ([], Some (terminal_error (''HTTP '' @ int_text (hr_Status resp) @ '' from '' @ url))))
            else
              (let limited = (maxBytes > 0 \<and> length (hr_Body resp) \<ge> nat (maxBytes + 1));
                   src = (if limited then take (nat (maxBytes + 1)) (hr_Body resp) else hr_Body resp);
                   read_err = (if limited then None else hr_ReadError resp);
                   (written, err) = copied snk src read_err
               in case err of
                    Some e \<Rightarrow> (written, Some (transient_error (''read body: '' @ e)))
                  | None \<Rightarrow>
                    (if maxBytes > 0 \<and> int (length written) > maxBytes
                     then (written, Some (terminal_error (''response too large (>'' @ int_text maxBytes @ '' bytes) from '' @ url)))
                     else (written, None))))))"

section \<open>The pipeline\<close>

text \<open>\<open>pd_maxBytes\<close> is the cap of the wired HTTPFetcher.\<close>

record pipeline_deps =
  pd_maxBytes :: int
  pd_bot :: pub_identity
  pd_extractMaxBytes :: int

record admit_result =
  am_CommitSHA :: string
  am_Integrity :: string
  am_Bytes :: int

text \<open>
  What extracting an archive leaves on disk: the regular files in the order of the walk, with
  their content, and the directories.
\<close>

record extracted =
  ex_Files :: "(string \<times> bytes) list"
  ex_Dirs :: "string list"

record attempt_env =
  at_Client :: http_client
  at_BeginBlob :: "string \<Rightarrow> admit_error option"
  at_Sink :: sink
  at_Close :: "bytes \<Rightarrow> admit_error + blob_ref"
  at_MkdirTemp :: "admit_error option"
  at_OpenBlob :: "string \<Rightarrow> admit_error option"
  at_Extract :: "string \<Rightarrow> int \<Rightarrow> admit_error + extracted"
  at_Walk :: "admit_error option"
  at_Publish :: "publish_request \<Rightarrow> admit_error + receipt"

definition defaultExtractCap :: int where
  "defaultExtractCap = 1024 * 1024 * 1024"

text \<open>os.ReadFile: \<open>Inr None\<close> when there is no such file, an error for a directory.\<close>

definition read_tree :: "extracted \<Rightarrow> string \<Rightarrow> string + bytes option" where
  "read_tree t p =
     (case map_of (ex_Files t) p of
        Some b \<Rightarrow> Inr (Some b)
      | None \<Rightarrow> if p \<in> set (ex_Dirs t) then Inl ''is a directory'' else Inr None)"

definition topLevelEntries :: "extracted \<Rightarrow> string list" where
  "topLevelEntries t = map fst (ex_Files t)"

definition extractFromBlob :: "attempt_env \<Rightarrow> string \<Rightarrow> int \<Rightarrow> admit_error + (bytes \<times> string)" where
  "extractFromBlob env blobPath maxBytes =
     (let maxBytes = (if maxBytes \<le> 0 then defaultExtractCap else maxBytes)
      in case at_MkdirTemp env of
           Some err \<Rightarrow> Inl (wrap ''mkdir scratch'' err)
         | None \<Rightarrow>
           (case at_OpenBlob env blobPath of
              Some err \<Rightarrow> Inl (wrap ''open blob'' err)
            | None \<Rightarrow>
              (case at_Extract env blobPath maxBytes of
                 Inl err \<Rightarrow> Inl (wrap ''extract tar.gz'' err)
               | Inr tree \<Rightarrow>
                 (case at_Walk env of
                    Some err \<Rightarrow> Inl err
                  | None \<Rightarrow>
                    (let stripPrefix = DetectStripPrefix (topLevelEntries tree);
                         modulePath = (if stripPrefix \<noteq> [] then stripPrefix @ ''/MODULE.bazel'' else ''MODULE.bazel'')
                     in case read_tree tree modulePath of
                          Inl err \<Rightarrow> Inl (terminal_error (''read MODULE.bazel: '' @ err))
                        | Inr None \<Rightarrow> Inr ([], stripPrefix)
                        | Inr (Some b) \<Rightarrow> Inr (b, stripPrefix))))))"

definition cascadeFromPreflight :: "request \<Rightarrow> cascade_hit option" where
  "cascadeFromPreflight req =
     (if length (rq_PreflightJSON req) = 0 then None
      else (case Option.bind (Unmarshal (rq_PreflightJSON req)) decode_verdict of
          None \<Rightarrow> None
        | Some v \<Rightarrow> vd_CascadeSource v))"

text \<open>The location to fetch from and the strip prefix that comes with it.\<close>

definition admit_source :: "request \<Rightarrow> string \<times> string" where
  "admit_source req =
     (if rq_SourceURL req = []
      then (case cascadeFromPreflight req of Some hit \<Rightarrow> (ch_URL hit, ch_StripPrefix hit) | None \<Rightarrow> ([], []))
      else (rq_SourceURL req, []))"

text \<open>Fetch, extract and publish from a location.\<close>

definition admit_from :: "pipeline_deps \<Rightarrow> attempt_env \<Rightarrow> request \<Rightarrow> string \<Rightarrow> string \<Rightarrow> admit_error + admit_result" where
  "admit_from deps env req url cascadeStrip =
     (case at_BeginBlob env url of
        Some err \<Rightarrow> Inl (wrap ''begin blob'' err)
      | None \<Rightarrow>
        (case Fetch (pd_maxBytes deps) (at_Client env) url (at_Sink env) of
           (written, Some fetchErr) \<Rightarrow> Inl (wrap (''fetch '' @ url) fetchErr)
         | (written, None) \<Rightarrow>
           (case at_Close env written of
              Inl err \<Rightarrow> Inl (wrap ''close blob'' err)
            | Inr blobRef \<Rightarrow>
              (case extractFromBlob env (br_Key blobRef) (pd_extractMaxBytes deps) of
                 Inl err \<Rightarrow> Inl (wrap (''extract '' @ rq_Module req @ ''@'' @ rq_Version req) err)
               | Inr (moduleBazel, stripPrefix) \<Rightarrow>
                 (let stripPrefix = (if cascadeStrip \<noteq> [] then cascadeStrip else stripPrefix)
                  in case BuildSourceJSON url (br_Integrity blobRef) stripPrefix of
                       Inl err \<Rightarrow> Inl (terminal_error (''build source.json: '' @ err))
                     | Inr sourceJSON \<Rightarrow>
                       (let requester = \<lparr>pi_Name = rq_SubmitterSub req, pi_Email = rq_SubmitterEmail req\<rparr>;
                            requester = (if IsZero requester then pd_bot deps else requester)
                        in case at_Publish env
                              \<lparr>pq_Module = rq_Module req, pq_Version = rq_Version req, pq_SourceJSON = sourceJSON,
                               pq_ModuleBazel = moduleBazel, pq_UpstreamMetadata = [], pq_Blob = blobRef,
                               pq_Requester = requester, pq_SourceURL = url\<rparr> of
                             Inl err \<Rightarrow> Inl (wrap ''publish'' err)
                           | Inr rcpt \<Rightarrow> Inr \<lparr>am_CommitSHA = rc_Commit rcpt, am_Integrity = br_Integrity blobRef,
                               am_Bytes = int (length written)\<rparr>))))))"

definition admitOne :: "pipeline_deps \<Rightarrow> attempt_env \<Rightarrow> request \<Rightarrow> admit_error + admit_result" where
  "admitOne deps env req =
     (let (url, cascadeStrip) = admit_source req
      in if url = [] then Inl (terminal_error ''no source_url on request and preflight found no cascade source'')
      else admit_from deps env req url cascadeStrip)"

section \<open>The download\<close>

definition sink_takes :: "sink \<Rightarrow> bytes \<Rightarrow> bool" where
  "sink_takes snk b = (case snk of None \<Rightarrow> True | Some (k, _) \<Rightarrow> length b \<le> k)"

lemma copied_ok: "snd (copied snk src e) = None \<longleftrightarrow> e = None \<and> sink_takes snk src"
  by (auto simp: copied_def sink_takes_def split: option.splits)

lemma copied_all: "snd (copied snk src e) = None \<Longrightarrow> fst (copied snk src e) = src"
  by (auto simp: copied_def split: option.splits if_splits)

lemma copied_length: "length (fst (copied snk src e)) \<le> length src"
  by (auto simp: copied_def split: option.splits)

lemma Fetch_response:
  assumes "hc_NewRequest client url = None" and "hc_Do client url = Inr resp" and "ok_status (hr_Status resp)"
    and over_def: "over = (maxBytes > 0 \<and> length (hr_Body resp) > nat maxBytes)"
  shows "Fetch maxBytes client url snk =
    (let c = copied snk (if over then take (nat (maxBytes + 1)) (hr_Body resp) else hr_Body resp)
               (if over then None else hr_ReadError resp)
     in (fst c, case snd c of
          Some e \<Rightarrow> Some (transient_error (''read body: '' @ e))
        | None \<Rightarrow> if over then Some (terminal_error (''response too large (>'' @ int_text maxBytes @ '' bytes) from '' @ url))
                   else None))"
proof -
  define src where "src = (if over then take (nat (maxBytes + 1)) (hr_Body resp) else hr_Body resp)"
  define e where "e = (if over then None else hr_ReadError resp)"
  have l: "(maxBytes > 0 \<and> length (hr_Body resp) \<ge> nat (maxBytes + 1)) = over" by (auto simp: over_def)
  have big: "(maxBytes > 0 \<and> int (length src) > maxBytes) = over" by (auto simp: over_def src_def)
  obtain written err where c: "copied snk src e = (written, err)" by fastforce
  have w: "err = None \<Longrightarrow> written = src" using copied_all [of snk src e] c by simp
  have "Fetch maxBytes client url snk = (written, case err of
          Some e \<Rightarrow> Some (transient_error (''read body: '' @ e))
        | None \<Rightarrow> if over then Some (terminal_error (''response too large (>'' @ int_text maxBytes @ '' bytes) from '' @ url))
                   else None)"
    using assms(1-3) c w big
    by (cases err) (simp_all add: Fetch_def ok_status_def l src_def [symmetric] e_def [symmetric] Let_def)
  then show ?thesis by (simp add: src_def [symmetric] e_def [symmetric] c)
qed

text \<open>
  A download succeeds exactly when the server answers with a success status, the body ends
  cleanly, fits the cap and is taken by the sink, and then the sink holds the whole body. With
  a cap, no answer puts more than one byte beyond it into the sink. An error is retried only
  for the network, the transient statuses and a body or sink that broke off; a body above the
  cap is terminal.
\<close>

theorem Fetch_exact:
  "(snd (Fetch maxBytes client url snk) = None \<longleftrightarrow>
      hc_NewRequest client url = None \<and>
      (\<exists>resp. hc_Do client url = Inr resp \<and> ok_status (hr_Status resp) \<and> hr_ReadError resp = None \<and>
        sink_takes snk (hr_Body resp) \<and> (maxBytes \<le> 0 \<or> int (length (hr_Body resp)) \<le> maxBytes) \<and>
        fst (Fetch maxBytes client url snk) = hr_Body resp)) \<and>
   (maxBytes \<le> 0 \<or> int (length (fst (Fetch maxBytes client url snk))) \<le> maxBytes + 1)"
proof (cases "hc_NewRequest client url = None \<and> (\<exists>resp. hc_Do client url = Inr resp \<and> ok_status (hr_Status resp))")
  case False
  then have "\<exists>e. Fetch maxBytes client url snk = ([], Some e)"
    by (auto simp: Fetch_def ok_status_def split: option.splits sum.splits)
  with False show ?thesis by auto
next
  case True
  then obtain resp where r: "hc_NewRequest client url = None" "hc_Do client url = Inr resp" "ok_status (hr_Status resp)"
    by blast
  define over where "over \<longleftrightarrow> maxBytes > 0 \<and> length (hr_Body resp) > nat maxBytes"
  define src where "src = (if over then take (nat (maxBytes + 1)) (hr_Body resp) else hr_Body resp)"
  define c where "c = copied snk src (if over then None else hr_ReadError resp)"
  have f: "fst (Fetch maxBytes client url snk) = fst c"
    and s: "snd (Fetch maxBytes client url snk) = None \<longleftrightarrow> snd c = None \<and> \<not> over"
    using Fetch_response [OF r, of over maxBytes snk] over_def by (auto simp: c_def src_def Let_def split: option.splits)
  have ok: "snd c = None \<and> \<not> over \<longleftrightarrow> hr_ReadError resp = None \<and> sink_takes snk (hr_Body resp) \<and> \<not> over"
    by (auto simp: c_def copied_ok src_def)
  have body: "snd c = None \<and> \<not> over \<Longrightarrow> fst c = hr_Body resp"
    using copied_all [of snk src "if over then None else hr_ReadError resp"] by (auto simp: c_def src_def)
  have "length (fst c) \<le> length src" by (simp add: c_def copied_length)
  then have len: "maxBytes \<le> 0 \<or> int (length (fst c)) \<le> maxBytes + 1"
    by (auto simp: src_def over_def split: if_splits)
  have nl: "\<not> over \<longleftrightarrow> maxBytes \<le> 0 \<or> int (length (hr_Body resp)) \<le> maxBytes" by (auto simp: over_def)
  show ?thesis using f s ok body len nl r by auto
qed

section \<open>From preflight to admission\<close>

lemma json_text_not_Nil: "Marshal (verdict_json v) \<noteq> []"
  by (simp add: Marshal_def verdict_json_def)

lemma stored_hit:
  assumes "rq_PreflightJSON req = Marshal (verdict_json v)" and "verdict_storable v"
  shows "cascadeFromPreflight req = vd_CascadeSource v"
  using assms Unmarshal_render [OF layout_ok_compact verdict_json_ok [OF assms(2)]] decode_verdict_json [OF assms(2)]
    json_text_not_Nil [of v]
  by (simp add: cascadeFromPreflight_def Marshal_def)

lemma stored_verdict_row:
  "rq_PreflightJSON (scanRequest (moved now s flds (moved now' s' (Some (verdict_fields v)) row))) =
     (case flds of None \<Rightarrow> Marshal (verdict_json v)
      | Some f \<Rightarrow> if ff_PreflightJSON f = [] then Marshal (verdict_json v) else ff_PreflightJSON f)"
  by (simp add: scanRequest_def moved_def apply_fields_def verdict_fields_def no_fields_def Let_def
      json_text_not_Nil split: option.splits)

lemma Check_verdict_ok:
  assumes "upstream_hit c pol req = Some hit" and "hit_ok hit" and "dc_policy c = Some pol"
    and "\<not> refused_by (dc_Hostname c) pol (rq_SourceURL req)"
  shows "verdict_storable (Check c req)" and "vd_CascadeSource (Check c req) = Some hit"
proof -
  have "valid_utf8 auto_pass_notes" by (simp add: auto_pass_notes_def valid_utf8.simps(2) multibyte_def in_range_def second_range_def)
  then show "verdict_storable (Check c req)" and "vd_CascadeSource (Check c req) = Some hit"
    using assms by (cases rule: Check_cases [of c req]; simp add: verdict_storable_def verdict_of_def valid_next_iff)+
qed

lemma admit_from_simps [simp]:
  "admit_from deps env (req\<lparr>rq_SourceURL := u\<rparr>) = admit_from deps env req"
  "admit_from deps env (req\<lparr>rq_PreflightJSON := j\<rparr>) = admit_from deps env req"
  by (intro ext; simp add: admit_from_def cong: option.case_cong sum.case_cong prod.case_cong)+

text \<open>What a successful attempt has published.\<close>

definition published :: "attempt_env \<Rightarrow> request \<Rightarrow> string \<Rightarrow> string \<Rightarrow> admit_result \<Rightarrow> bool" where
  "published env req url strip res \<longleftrightarrow>
     (\<exists>pq rcpt. at_Publish env pq = Inr rcpt \<and> pq_Module pq = rq_Module req \<and> pq_Version pq = rq_Version req \<and>
        pq_SourceURL pq = url \<and> am_CommitSHA res = rc_Commit rcpt \<and> am_Integrity res = br_Integrity (pq_Blob pq) \<and>
        (\<exists>detected. BuildSourceJSON url (am_Integrity res) (if strip \<noteq> [] then strip else detected) = Inr (pq_SourceJSON pq)))"

lemma admit_from_published:
  assumes "admit_from deps env req url strip = Inr res"
  shows "published env req url strip res"
  using assms unfolding admit_from_def published_def Let_def
  by (auto split: option.splits sum.splits prod.splits if_splits) (force | blast)+

text \<open>
  C7: a request without a source of its own that preflight passed because the upstream has the
  version is admitted from the upstream's location: the verdict stored in its row yields the
  hit, the pipeline behaves as if the request had named the hit's URL, and what is published
  names that URL and, where the upstream declares one, its strip prefix.
\<close>

theorem upstream_pass_admits_upstream:
  assumes "dc_policy c = Some pol" and "\<not> refused_by (dc_Hostname c) pol []"
    and "upstream_hit c pol (scanRequest row) = Some hit" and "hit_ok hit" and "ch_URL hit \<noteq> []"
    and "rw_source_url row = None"
    and "req = scanRequest (moved now RequestStateAutoPass (Some (verdict_fields (Check c (scanRequest row))))
           (moved now' RequestStatePreflighting None row))"
  shows "cascadeFromPreflight req = Some hit \<and>
    (ch_StripPrefix hit = [] \<longrightarrow> admitOne deps env req = admitOne deps env (req\<lparr>rq_SourceURL := ch_URL hit\<rparr>)) \<and>
    (\<forall>res. admitOne deps env req = Inr res \<longrightarrow> published env req (ch_URL hit) (ch_StripPrefix hit) res)"
proof -
  have url: "rq_SourceURL (scanRequest row) = []" using assms(6) by (simp add: scanRequest_def)
  note v = Check_verdict_ok [OF assms(3,4,1), unfolded url, OF assms(2)]
  have "rq_PreflightJSON req = Marshal (verdict_json (Check c (scanRequest row)))"
    using json_text_not_Nil by (simp add: assms(7) scanRequest_def moved_def apply_fields_def verdict_fields_def no_fields_def Let_def)
  then have hit: "cascadeFromPreflight req = Some hit" using stored_hit v by metis
  moreover have "rq_SourceURL req = []" using assms(6) by (simp add: assms(7) scanRequest_def)
  ultimately have "admitOne deps env req = admit_from deps env req (ch_URL hit) (ch_StripPrefix hit)"
    "cascadeFromPreflight req = Some hit"
    using assms(5) by (simp_all add: admitOne_def admit_source_def)
  then show ?thesis using assms(5) admit_from_published by (simp add: admitOne_def admit_source_def)
qed

text \<open>
  The integrity the upstream declares takes no part in admission: two stored verdicts whose
  hits differ only in it are admitted alike, whatever was downloaded.
\<close>

theorem upstream_integrity_unused:
  assumes "verdict_storable v" and "vd_CascadeSource v = Some hit" and "hit_ok (hit\<lparr>ch_Integrity := other\<rparr>)"
  shows "admitOne deps env (req\<lparr>rq_PreflightJSON := Marshal (verdict_json v)\<rparr>) =
    admitOne deps env (req\<lparr>rq_PreflightJSON :=
      Marshal (verdict_json (v\<lparr>vd_CascadeSource := Some (hit\<lparr>ch_Integrity := other\<rparr>)\<rparr>))\<rparr>)"
proof -
  have "verdict_storable (v\<lparr>vd_CascadeSource := Some (hit\<lparr>ch_Integrity := other\<rparr>)\<rparr>)"
    using assms(1,3) by (simp add: verdict_storable_def)
  then have "cascadeFromPreflight (req\<lparr>rq_PreflightJSON :=
      Marshal (verdict_json (v\<lparr>vd_CascadeSource := Some (hit\<lparr>ch_Integrity := other\<rparr>)\<rparr>))\<rparr>) = Some (hit\<lparr>ch_Integrity := other\<rparr>)"
    using stored_hit [of _ "v\<lparr>vd_CascadeSource := Some (hit\<lparr>ch_Integrity := other\<rparr>)\<rparr>"] by simp
  moreover have "cascadeFromPreflight (req\<lparr>rq_PreflightJSON := Marshal (verdict_json v)\<rparr>) = Some hit"
    using stored_hit [OF _ assms(1)] assms(2) by simp
  ultimately show ?thesis by (simp add: admitOne_def admit_source_def)
qed

definition mirror_hit :: cascade_hit where
  "mirror_hit = \<lparr>ch_URL = ''https://a/b.tgz'', ch_Integrity = ''sha256-x'', ch_StripPrefix = []\<rparr>"

definition mirror_checker :: default_checker where
  "mirror_checker = \<lparr>dc_policy = Some edit_policy, dc_Cascade = Some (\<lambda>m v. Inr (Some mirror_hit)), dc_Hostname = (\<lambda>_. None)\<rparr>"

lemma upstream_pass_admits_upstream_witness:
  "cascadeFromPreflight (scanRequest (moved 2 RequestStateAutoPass
     (Some (verdict_fields (Check mirror_checker (scanRequest (hd (rs_rows one_request))))))
     (moved 1 RequestStatePreflighting None (hd (rs_rows one_request))))) = Some mirror_hit"
proof -
  have h: "upstream_hit mirror_checker edit_policy (scanRequest (hd (rs_rows one_request))) = Some mirror_hit"
    by (simp add: upstream_hit_def mirror_checker_def edit_policy_def)
  have "\<not> refused_by (dc_Hostname mirror_checker) edit_policy []"
    by (simp add: refused_by_def edit_policy_def hostOf_def Let_def)
  then show ?thesis
    using upstream_pass_admits_upstream [OF _ _ h _ _ _ refl]
    by (simp add: mirror_checker_def mirror_hit_def hit_ok_def one_request_def)
qed

lemma Fetch_exact_witness:
  "snd (Fetch 3 \<lparr>hc_NewRequest = (\<lambda>_. None), hc_Do = (\<lambda>_. Inr \<lparr>hr_Status = 200, hr_Body = ''abc'', hr_ReadError = None\<rparr>)\<rparr>
     ''u'' None) = None"
  using Fetch_exact [of 3 "\<lparr>hc_NewRequest = (\<lambda>_. None), hc_Do = (\<lambda>_. Inr \<lparr>hr_Status = 200, hr_Body = ''abc'', hr_ReadError = None\<rparr>)\<rparr>"
      "''u''" None]
  by (simp add: Fetch_def copied_def Let_def)

lemma upstream_integrity_unused_witness:
  "\<forall>deps env req. admitOne deps env (req\<lparr>rq_PreflightJSON := Marshal (verdict_json sample_verdict)\<rparr>) =
    admitOne deps env (req\<lparr>rq_PreflightJSON := Marshal (verdict_json (sample_verdict\<lparr>vd_CascadeSource :=
      Some \<lparr>ch_URL = ''https://a/b'', ch_Integrity = ''sha256-other'', ch_StripPrefix = ''b''\<rparr>\<rparr>))\<rparr>)"
  using upstream_integrity_unused [of sample_verdict "\<lparr>ch_URL = ''https://a/b'', ch_Integrity = ''sha256-x'', ch_StripPrefix = ''b''\<rparr>"
      "''sha256-other''"]
  by (simp add: sample_verdict_def verdict_storable_def verdict_of_def hit_ok_def valid_next_iff)

end
