(* ===== verification/AdmitRunner.thy ===== *)
theory AdmitRunner
  imports Admit
begin

text \<open>
  The admission runner (src/internal/admit/runner.go) and the CDN purge it triggers
  (src/internal/purge): claiming a vetted request, the retry loop around the pipeline, and
  the transition, audit event and purge that follow.

  Durations are \<^typ>\<open>int\<close> nanoseconds.
\<close>

section \<open>Purging\<close>

definition URLsForModule :: "string \<Rightarrow> string \<Rightarrow> string list" where
  "URLsForModule baseURL m =
     (let base = trim_right_byte (trim_space baseURL) (CHR ''/'');
          m = trim_space m
      in if base = [] \<or> m = [] then []
      else [base @ ''/modules/'' @ m @ ''/metadata.json'', base @ ''/bazel_registry.json''])"

text \<open>
  A provider: none, or an adapter around a vendor's client, of which the outcome of a purge
  call matters.
\<close>

datatype purge_provider =
    NoOp
  | Adapter string "string list \<Rightarrow> string option"

fun provider_Name :: "purge_provider \<Rightarrow> string" where
  "provider_Name NoOp = ''noop''"
| "provider_Name (Adapter vendor call) = vendor"

fun Purge :: "purge_provider \<Rightarrow> string list \<Rightarrow> string option" where
  "Purge NoOp urls = None"
| "Purge (Adapter vendor call) urls = (if length urls = 0 then None else call urls)"

record purge_config =
  pg_Vendor :: string
  pg_CloudflareAPIToken :: string
  pg_CloudflareZoneID :: string
  pg_FastlyAPIToken :: string
  pg_FastlyServiceID :: string

text \<open>The constructors of the vendor library are parameters; each may refuse its settings.\<close>

definition Build ::
  "(string \<Rightarrow> string \<Rightarrow> string + purge_provider) \<Rightarrow> (string \<Rightarrow> string \<Rightarrow> string + purge_provider) \<Rightarrow>
   purge_config \<Rightarrow> purge_provider \<times> string option" where
  "Build newCloudflare newFastly cfg =
     (let vendor = to_lower (trim_space (pg_Vendor cfg))
      in if vendor = [] \<or> vendor = ''noop'' then (NoOp, None)
      else if vendor = ''cloudflare'' then
        (if pg_CloudflareAPIToken cfg = [] then (NoOp, Some ''purge: cloudflare vendor needs CloudflareAPIToken'')
         else if pg_CloudflareZoneID cfg = [] then (NoOp, Some ''purge: cloudflare vendor needs CloudflareZoneID'')
         else (case newCloudflare (pg_CloudflareAPIToken cfg) (pg_CloudflareZoneID cfg) of
             Inl err \<Rightarrow> (NoOp, Some (''purge: cloudflare init: '' @ err))
           | Inr p \<Rightarrow> (p, None)))
      else if vendor = ''fastly'' then
        (if pg_FastlyAPIToken cfg = [] then (NoOp, Some ''purge: fastly vendor needs FastlyAPIToken'')
         else if pg_FastlyServiceID cfg = [] then (NoOp, Some ''purge: fastly vendor needs FastlyServiceID'')
         else (case newFastly (pg_FastlyAPIToken cfg) (pg_FastlyServiceID cfg) of
             Inl err \<Rightarrow> (NoOp, Some (''purge: fastly init: '' @ err))
           | Inr p \<Rightarrow> (p, None)))
      else (NoOp, Some (''purge: unknown vendor '' @ quoted (pg_Vendor cfg) @ '' (want one of: noop, cloudflare, fastly)'')))"

section \<open>The runner\<close>

definition defaultAdmitWorkers :: int where "defaultAdmitWorkers = 1"
definition defaultAdmitPollEvery :: int where "defaultAdmitPollEvery = 5 * second"
definition defaultMaxRetries :: int where "defaultMaxRetries = 2"
definition defaultSweepStaleness :: int where "defaultSweepStaleness = 5 * 60 * second"

fun backoff_steps :: "nat \<Rightarrow> int \<Rightarrow> int" where
  "backoff_steps 0 d = d"
| "backoff_steps (Suc n) d =
     (let d = d * 5 in if d \<ge> 5 * 60 * second then 5 * 60 * second else backoff_steps n d)"

definition defaultRetryBackoff :: "int \<Rightarrow> int" where
  "defaultRetryBackoff attempt =
     (if attempt \<le> 0 then 0 else backoff_steps (nat (attempt - 1)) (5 * second))"

text \<open>The options; a missing function, purger or collaborator is \<open>None\<close> or False.\<close>

record admit_options =
  ao_HasStore :: bool
  ao_HasPublisher :: bool
  ao_HasFetcher :: bool
  ao_FetchMaxBytes :: int
  ao_BotIdent :: pub_identity
  ao_Workers :: int
  ao_PollEvery :: int
  ao_ExtractMaxBytes :: int
  ao_MaxRetries :: int
  ao_RetryBackoff :: "(int \<Rightarrow> int) option"
  ao_Purger :: "purge_provider option"
  ao_SweepStaleness :: int
  ao_CDNBaseURL :: string

record admit_runner =
  rn_deps :: pipeline_deps
  rn_workers :: int
  rn_pollEvery :: int
  rn_maxRetries :: int
  rn_retryBackoff :: "int \<Rightarrow> int"
  rn_purger :: purge_provider
  rn_cdnBaseURL :: string
  rn_sweepStaleness :: int

text \<open>\<open>None\<close> is the panic on a missing collaborator.\<close>

definition NewAdmitRunner :: "admit_options \<Rightarrow> admit_runner option" where
  "NewAdmitRunner opts =
     (if \<not> ao_HasStore opts then None
      else if \<not> ao_HasPublisher opts then None
      else if \<not> ao_HasFetcher opts then None
      else
        (let maxRetries = (if ao_MaxRetries opts = 0 then defaultMaxRetries else ao_MaxRetries opts);
             maxRetries = (if maxRetries < 0 then 0 else maxRetries)
         in Some
           \<lparr>rn_deps = \<lparr>pd_maxBytes = ao_FetchMaxBytes opts, pd_bot = ao_BotIdent opts, pd_extractMaxBytes = ao_ExtractMaxBytes opts\<rparr>,
            rn_workers = (if ao_Workers opts \<le> 0 then defaultAdmitWorkers else ao_Workers opts),
            rn_pollEvery = (if ao_PollEvery opts \<le> 0 then defaultAdmitPollEvery else ao_PollEvery opts),
            rn_maxRetries = maxRetries,
            rn_retryBackoff = (case ao_RetryBackoff opts of None \<Rightarrow> defaultRetryBackoff | Some f \<Rightarrow> f),
            rn_purger = (case ao_Purger opts of None \<Rightarrow> NoOp | Some p \<Rightarrow> p),
            rn_cdnBaseURL = ao_CDNBaseURL opts,
            rn_sweepStaleness = (if ao_SweepStaleness opts = 0 then defaultSweepStaleness else ao_SweepStaleness opts)\<rparr>))"

section \<open>One request\<close>

text \<open>
  What holds during the processing of one request: the environment of each attempt, the
  attempts before which the context is done while the worker waits, and the statements.
\<close>

record admit_env =
  av_Tick :: tick_env
  av_Attempt :: "nat \<Rightarrow> attempt_env"
  av_Interrupted :: "nat \<Rightarrow> bool"
  av_PurgeAudit :: "string option \<times> int"

text \<open>How the retry loop ends: with a result or an error of the given attempt, or interrupted.\<close>

datatype outcome =
    Succeeded admit_result nat
  | Failed admit_error nat
  | Interrupted

text \<open>\<open>retry_loop run intr m a\<close>: the loop at attempt \<open>a\<close> with \<open>m\<close> retries left after it.\<close>

fun retry_loop :: "(nat \<Rightarrow> admit_error + admit_result) \<Rightarrow> (nat \<Rightarrow> bool) \<Rightarrow> nat \<Rightarrow> nat \<Rightarrow> outcome" where
  "retry_loop run intr m a =
     (if a > 0 \<and> intr a then Interrupted
      else (case run a of
          Inr res \<Rightarrow> Succeeded res a
        | Inl err \<Rightarrow>
          (if \<not> IsTransient err then Failed err a
           else (case m of 0 \<Rightarrow> Failed err a | Suc m' \<Rightarrow> retry_loop run intr m' (Suc a)))))"

declare retry_loop.simps [simp del]

definition retry_count :: "nat \<Rightarrow> int option" where
  "retry_count retries = (if retries > 0 then Some (int retries) else None)"

definition success_event :: "request \<Rightarrow> admit_result \<Rightarrow> nat \<Rightarrow> audit_event" where
  "success_event req res retries =
     \<lparr>ae_ID = 0, ae_Timestamp = None, ae_Kind = ''admit_success'', ae_Source = ''admit'', ae_Module = rq_Module req,
      ae_Version = rq_Version req, ae_OK = True, ae_DurationMs = 0, ae_Error = [],
      ae_Payload = Marshal (map_json
        [(''request_id'', JNum (int_text (rq_ID req))), (''integrity'', JStr (am_Integrity res)),
         (''committed_sha'', JStr (am_CommitSHA res)), (''bytes'', JNum (int_text (am_Bytes res))),
         (''retries'', JNum (int_text (int retries)))]),
      ae_UserID = []\<rparr>"

definition failure_event :: "request \<Rightarrow> admit_error \<Rightarrow> nat \<Rightarrow> audit_event" where
  "failure_event req cause retries =
     \<lparr>ae_ID = 0, ae_Timestamp = None, ae_Kind = ''admit_failure'', ae_Source = ''admit'', ae_Module = rq_Module req,
      ae_Version = rq_Version req, ae_OK = False, ae_DurationMs = 0, ae_Error = ax_Text cause,
      ae_Payload = Marshal (map_json
        [(''request_id'', JNum (int_text (rq_ID req))), (''error'', JStr (ax_Text cause)),
         (''retries'', JNum (int_text (int retries))), (''transient'', JBool (IsTransient cause))]),
      ae_UserID = []\<rparr>"

definition errString :: "string option \<Rightarrow> string" where
  "errString err = (case err of None \<Rightarrow> [] | Some e \<Rightarrow> e)"

definition purge_event :: "request \<Rightarrow> purge_provider \<Rightarrow> string list \<Rightarrow> string option \<Rightarrow> audit_event" where
  "purge_event req p urls err =
     \<lparr>ae_ID = 0, ae_Timestamp = None, ae_Kind = ''cdn_purge'', ae_Source = ''admit'', ae_Module = rq_Module req,
      ae_Version = rq_Version req, ae_OK = (err = None), ae_DurationMs = 0, ae_Error = errString err,
      ae_Payload = Marshal (map_json
        [(''request_id'', JNum (int_text (rq_ID req))), (''vendor'', JStr (provider_Name p)),
         (''urls'', JArr (map JStr urls)), (''ok'', JBool (err = None)), (''err'', JStr (errString err))]),
      ae_UserID = []\<rparr>"

definition record_event :: "string option \<times> int \<Rightarrow> audit_event \<Rightarrow> hub_db \<Rightarrow> hub_db" where
  "record_event env ev db = db\<lparr>db_audit := snd (RecordAudit (fst env) (snd env) ev (db_audit db))\<rparr>"

definition purgeAfterIndex :: "admit_runner \<Rightarrow> admit_env \<Rightarrow> request \<Rightarrow> hub_db \<Rightarrow> hub_db" where
  "purgeAfterIndex r env req db =
     (if provider_Name (rn_purger r) = ''noop'' \<or> rn_cdnBaseURL r = [] then db
      else (let urls = URLsForModule (rn_cdnBaseURL r) (rq_Module req)
        in if urls = [] then db
        else record_event (av_PurgeAudit env)
          (purge_event req (rn_purger r) urls (Purge (rn_purger r) urls)) db))"

definition succeed :: "admit_runner \<Rightarrow> admit_env \<Rightarrow> request \<Rightarrow> admit_result \<Rightarrow> nat \<Rightarrow> hub_db \<Rightarrow> hub_db" where
  "succeed r env req res retries db =
     (case te_Apply (av_Tick env) of (fault, now) \<Rightarrow>
       (case TransitionRequest fault now (rq_ID req) RequestStateFetching RequestStateIndexed
           (Some (no_fields\<lparr>ff_FetchedSHA := am_Integrity res, ff_CommittedSHA := am_CommitSHA res,
              ff_RetryCount := retry_count retries\<rparr>)) (db_requests db) of
          (Some err, st') \<Rightarrow> db\<lparr>db_requests := st'\<rparr>
        | (None, st') \<Rightarrow> purgeAfterIndex r env req
            (record_event (te_Audit (av_Tick env)) (success_event req res retries) (db\<lparr>db_requests := st'\<rparr>))))"

definition fail :: "admit_env \<Rightarrow> request \<Rightarrow> admit_error \<Rightarrow> nat \<Rightarrow> hub_db \<Rightarrow> hub_db" where
  "fail env req cause retries db =
     (case te_Apply (av_Tick env) of (fault, now) \<Rightarrow>
       (case TransitionRequest fault now (rq_ID req) RequestStateFetching RequestStateDenied
           (Some (no_fields\<lparr>ff_DenialReason := ax_Text cause, ff_RetryCount := retry_count retries\<rparr>)) (db_requests db) of
          (Some err, st') \<Rightarrow> db\<lparr>db_requests := st'\<rparr>
        | (None, st') \<Rightarrow>
            record_event (te_Audit (av_Tick env)) (failure_event req cause retries) (db\<lparr>db_requests := st'\<rparr>)))"

definition admit_outcome :: "admit_runner \<Rightarrow> admit_env \<Rightarrow> request \<Rightarrow> outcome" where
  "admit_outcome r env req =
     retry_loop (\<lambda>a. admitOne (rn_deps r) (av_Attempt env a) req) (av_Interrupted env) (nat (rn_maxRetries r)) 0"

definition admit_processOwned :: "admit_runner \<Rightarrow> admit_env \<Rightarrow> request \<Rightarrow> hub_db \<Rightarrow> hub_db" where
  "admit_processOwned r env req db =
     (case admit_outcome r env req of
        Succeeded res a \<Rightarrow> succeed r env req res a db
      | Failed err a \<Rightarrow> fail env req err a db
      | Interrupted \<Rightarrow> db)"

definition admit_tryProcessOne :: "admit_runner \<Rightarrow> admit_env \<Rightarrow> hub_db \<Rightarrow> hub_db" where
  "admit_tryProcessOne r env db =
     (case ListRequests (te_List (av_Tick env)) (te_Scan (av_Tick env))
         \<lparr>qq_States = [RequestStateAutoPass, RequestStateApproved], qq_Submitter = [], qq_Limit = rn_workers r * 2\<rparr>
         (db_requests db) of
        Inl err \<Rightarrow> db
      | Inr candidates \<Rightarrow>
        (case claim_first rq_State RequestStateFetching (av_Tick env) 0 candidates (db_requests db) of
           (None, st') \<Rightarrow> db\<lparr>db_requests := st'\<rparr>
         | (Some req, st') \<Rightarrow> admit_processOwned r env req (db\<lparr>db_requests := st'\<rparr>)))"

definition sweepStuckFetching :: "admit_runner \<Rightarrow> bool \<Rightarrow> sql_fault \<Rightarrow> int \<Rightarrow> int \<Rightarrow> hub_db \<Rightarrow> hub_db" where
  "sweepStuckFetching r cancelled fault now store_now db =
     (if cancelled then db
      else db\<lparr>db_requests := snd (ReclaimStuckFetching fault store_now (now - rn_sweepStaleness r) (db_requests db))\<rparr>)"

section \<open>The backoff\<close>

lemma backoff_steps_min:
  assumes "0 < d" and "d \<le> 5 * 60 * second"
  shows "backoff_steps n d = min (d * 5 ^ n) (5 * 60 * second)"
  using assms
proof (induction n arbitrary: d)
  case (Suc n)
  have pow: "d * 5 * 1 \<le> d * 5 * 5 ^ n" using Suc.prems(1) by (intro mult_left_mono) simp_all
  show ?case
  proof (cases "d * 5 \<ge> 5 * 60 * second")
    case True
    then have "5 * 60 * second \<le> d * 5 * 5 ^ n" using pow by linarith
    then show ?thesis using True by (simp add: min_def mult.assoc)
  next
    case False
    then have "backoff_steps n (d * 5) = min (d * 5 * 5 ^ n) (5 * 60 * second)"
      using Suc by simp
    then show ?thesis using False by (simp add: Let_def mult.assoc)
  qed
qed simp

text \<open>
  The default wait before retry n is five seconds times 5 to the n minus one, capped at five
  minutes, so it never shrinks and never exceeds the cap; the cap is the age after which the
  boot sweep takes a fetching request for stuck.
\<close>

theorem backoff_exact:
  "defaultRetryBackoff a =
     (if a \<le> 0 then 0 else min (5 * second * 5 ^ nat (a - 1)) defaultSweepStaleness)"
  by (simp add: defaultRetryBackoff_def backoff_steps_min defaultSweepStaleness_def second_def)

section \<open>The retry loop\<close>

text \<open>The attempts before \<open>b\<close>, from \<open>a\<close> on, fail transiently, and no wait is interrupted.\<close>

definition retries_to :: "(nat \<Rightarrow> admit_error + admit_result) \<Rightarrow> (nat \<Rightarrow> bool) \<Rightarrow> nat \<Rightarrow> nat \<Rightarrow> bool" where
  "retries_to run intr a b \<longleftrightarrow> (\<forall>k \<in> {a..<b}. \<exists>e. run k = Inl e \<and> IsTransient e) \<and> (\<forall>k \<in> {a..b}. \<not> (k > 0 \<and> intr k))"

lemma retries_to_refl: "retries_to run intr a a \<longleftrightarrow> \<not> (a > 0 \<and> intr a)"
  by (auto simp: retries_to_def)

lemma retries_to_Suc:
  "a < b \<Longrightarrow> retries_to run intr a b \<longleftrightarrow>
     \<not> (a > 0 \<and> intr a) \<and> (\<exists>e. run a = Inl e \<and> IsTransient e) \<and> retries_to run intr (Suc a) b"
proof -
  assume "a < b"
  then have "{a..<b} = insert a {Suc a..<b}" "{a..b} = insert a {Suc a..b}" by auto
  then show ?thesis by (auto simp: retries_to_def)
qed

lemma retry_loop_result:
  "(retry_loop run intr m a = Succeeded res b \<longleftrightarrow>
      a \<le> b \<and> b \<le> a + m \<and> run b = Inr res \<and> retries_to run intr a b) \<and>
   (retry_loop run intr m a = Failed err b \<longleftrightarrow>
      a \<le> b \<and> b \<le> a + m \<and> run b = Inl err \<and> (b = a + m \<or> \<not> IsTransient err) \<and> retries_to run intr a b)"
proof (induction m arbitrary: a)
  case 0
  show ?case
    by (subst (1 2) retry_loop.simps) (auto simp: retries_to_refl le_antisym split: sum.splits if_splits)
next
  case (Suc m)
  have later: "P b \<and> retries_to run intr a b \<and> a \<le> b \<longleftrightarrow>
      (b = a \<and> P a \<and> \<not> (a > 0 \<and> intr a)) \<or>
      (\<not> (a > 0 \<and> intr a) \<and> (\<exists>e. run a = Inl e \<and> IsTransient e) \<and> Suc a \<le> b \<and> P b \<and> retries_to run intr (Suc a) b)"
    for P
    using retries_to_Suc [of a b run intr] by (cases "a = b") (auto simp: retries_to_refl)
  show ?case
  proof (cases "a > 0 \<and> intr a")
    case True
    then show ?thesis using later [of "\<lambda>_. True"] by (subst (1 2) retry_loop.simps) auto
  next
    case False
    show ?thesis
    proof (cases "run a")
      case (Inr r)
      then show ?thesis using False later [of "\<lambda>_. True"] by (subst (1 2) retry_loop.simps) auto
    next
      case (Inl e)
      show ?thesis
      proof (cases "IsTransient e")
        case True
        then have "retry_loop run intr (Suc m) a = retry_loop run intr m (Suc a)"
          using False Inl by (subst retry_loop.simps) auto
        then show ?thesis using Suc.IH [of "Suc a"] False Inl True later [of "\<lambda>_. True"] by auto
      next
        case False
        then have "retry_loop run intr (Suc m) a = Failed e a"
          using \<open>\<not> (a > 0 \<and> intr a)\<close> Inl by (subst retry_loop.simps) auto
        then show ?thesis using False \<open>\<not> (a > 0 \<and> intr a)\<close> Inl later [of "\<lambda>_. True"] by auto
      qed
    qed
  qed
qed

lemma retry_loop_interrupted:
  "retry_loop run intr m a = Interrupted \<longleftrightarrow>
     (\<exists>b \<in> {a..a + m}. 0 < b \<and> intr b \<and> (\<forall>k \<in> {a..<b}. \<exists>e. run k = Inl e \<and> IsTransient e))"
proof (induction m arbitrary: a)
  case 0
  show ?case by (subst retry_loop.simps) (auto split: sum.splits if_splits)
next
  case (Suc m)
  have step: "(\<exists>b \<in> {a..a + Suc m}. Q b) \<longleftrightarrow> Q a \<or> (\<exists>b \<in> {Suc a..Suc a + m}. Q b)" for Q
    by (metis (no_types, lifting) atLeastAtMost_iff add_Suc_right add_Suc le_Suc_eq le_add1 not_less_eq_eq le_antisym)
  have range: "(\<forall>k \<in> {a..<b}. R k) \<longleftrightarrow> R a \<and> (\<forall>k \<in> {Suc a..<b}. R k)" if "Suc a \<le> b" for R b
    using that by (metis Suc_le_eq atLeastLessThan_iff le_eq_less_or_eq order_refl)
  show ?case
    by (subst retry_loop.simps, subst step) (auto simp: Suc.IH range split: sum.splits)
qed

abbreviation attempt :: "admit_runner \<Rightarrow> admit_env \<Rightarrow> request \<Rightarrow> nat \<Rightarrow> admit_error + admit_result" where
  "attempt r env req a \<equiv> admitOne (rn_deps r) (av_Attempt env a) req"

definition fails_transiently :: "(nat \<Rightarrow> admit_error + admit_result) \<Rightarrow> nat \<Rightarrow> bool" where
  "fails_transiently run n \<longleftrightarrow> (\<forall>k \<in> {0..<n}. \<exists>e. run k = Inl e \<and> IsTransient e)"

text \<open>
  C8: a request is admitted with the result of the first attempt that does not fail transiently,
  after at most the configured number of retries; it is denied with the error of the first
  terminal failure, or of the last permitted attempt; it is left alone when, and only when,
  the context ends in one of the waits before that.
\<close>

theorem admit_outcome_exact:
  "(admit_outcome r env req = Succeeded res a \<longleftrightarrow>
      a \<le> nat (rn_maxRetries r) \<and> attempt r env req a = Inr res \<and>
      retries_to (attempt r env req) (av_Interrupted env) 0 a) \<and>
   (admit_outcome r env req = Failed err a \<longleftrightarrow>
      a \<le> nat (rn_maxRetries r) \<and> attempt r env req a = Inl err \<and>
      (a = nat (rn_maxRetries r) \<or> \<not> IsTransient err) \<and>
      retries_to (attempt r env req) (av_Interrupted env) 0 a) \<and>
   (admit_outcome r env req = Interrupted \<longleftrightarrow>
      (\<exists>a \<in> {1..nat (rn_maxRetries r)}. av_Interrupted env a \<and> fails_transiently (attempt r env req) a))"
  using retry_loop_result [of "attempt r env req" "av_Interrupted env" "nat (rn_maxRetries r)" 0 res a err]
    retry_loop_interrupted [of "attempt r env req" "av_Interrupted env" "nat (rn_maxRetries r)" 0]
  unfolding admit_outcome_def by (auto simp: fails_transiently_def Bex_def Suc_le_eq)

definition plain_runner :: admit_runner where
  "plain_runner = \<lparr>rn_deps = \<lparr>pd_maxBytes = 0, pd_bot = \<lparr>pi_Name = ''bot'', pi_Email = []\<rparr>, pd_extractMaxBytes = 0\<rparr>,
     rn_workers = 1, rn_pollEvery = 1, rn_maxRetries = 2, rn_retryBackoff = defaultRetryBackoff,
     rn_purger = NoOp, rn_cdnBaseURL = [], rn_sweepStaleness = defaultSweepStaleness\<rparr>"

definition down_attempt :: attempt_env where
  "down_attempt = \<lparr>at_Client = \<lparr>hc_NewRequest = (\<lambda>_. None), hc_Do = (\<lambda>_. Inl ''refused'')\<rparr>, at_BeginBlob = (\<lambda>_. None),
     at_Sink = None, at_Close = (\<lambda>b. Inr \<lparr>br_Key = ''k'', br_Integrity = ''sha256-x'', br_Bytes = 0\<rparr>),
     at_MkdirTemp = None, at_OpenBlob = (\<lambda>_. None), at_Extract = (\<lambda>_ _. Inr \<lparr>ex_Files = [], ex_Dirs = []\<rparr>),
     at_Walk = None, at_Publish = (\<lambda>_. Inl (terminal_error ''x''))\<rparr>"

definition down_env :: admit_env where
  "down_env = \<lparr>av_Tick = ideal_env, av_Attempt = (\<lambda>_. down_attempt), av_Interrupted = (\<lambda>_. False), av_PurgeAudit = (None, 0)\<rparr>"

definition zlib_request :: request where
  "zlib_request = (scanRequest (hd (rs_rows one_request)))\<lparr>rq_SourceURL := ''https://a/b.tgz''\<rparr>"

lemma down_attempt_fails:
  "attempt plain_runner down_env zlib_request a =
     Inl (wrap ''fetch https://a/b.tgz'' (transient_error ''http get https://a/b.tgz: refused''))"
  by (simp add: admitOne_def admit_source_def admit_from_def zlib_request_def down_env_def down_attempt_def Fetch_def)

lemma admit_outcome_exact_witness:
  "admit_outcome plain_runner down_env zlib_request =
     Failed (wrap ''fetch https://a/b.tgz'' (transient_error ''http get https://a/b.tgz: refused'')) 2"
  using admit_outcome_exact [of plain_runner down_env zlib_request undefined 2
      "wrap ''fetch https://a/b.tgz'' (transient_error ''http get https://a/b.tgz: refused'')"] down_attempt_fails
  by (simp add: retries_to_def plain_runner_def IsTransient_def wrap_def transient_error_def down_env_def)

section \<open>What a tick does\<close>

definition fetching_row :: "int \<Rightarrow> request_row \<Rightarrow> request_row" where
  "fetching_row now row = moved now RequestStateFetching None row"

definition indexed_fields :: "admit_result \<Rightarrow> nat \<Rightarrow> request_fields" where
  "indexed_fields res retries = no_fields\<lparr>ff_FetchedSHA := am_Integrity res, ff_CommittedSHA := am_CommitSHA res,
     ff_RetryCount := retry_count retries\<rparr>"

definition denied_fields :: "admit_error \<Rightarrow> nat \<Rightarrow> request_fields" where
  "denied_fields cause retries = no_fields\<lparr>ff_DenialReason := ax_Text cause, ff_RetryCount := retry_count retries\<rparr>"

lemma purge_keeps_requests [simp]: "db_requests (purgeAfterIndex r env req db) = db_requests db"
  by (simp add: purgeAfterIndex_def record_event_def Let_def)

lemma record_keeps_requests [simp]: "db_requests (record_event e ev db) = db_requests db"
  by (simp add: record_event_def)

text \<open>Applying the result of an owned request.\<close>

lemma finish_result:
  assumes "store_ok (db_requests db)" and "row_of (db_requests db) (rq_ID req) = Some row"
    and "rw_state row = RequestStateFetching" and "sf_Result (fst (te_Apply (av_Tick env))) = None"
  shows "succeed r env req res a db =
      (if sf_Exec (fst (te_Apply (av_Tick env))) \<noteq> None then db
       else purgeAfterIndex r env req (record_event (te_Audit (av_Tick env)) (success_event req res a)
         (db\<lparr>db_requests := db_requests (succeed r env req res a db)\<rparr>)))" (is ?A)
    and "sf_Exec (fst (te_Apply (av_Tick env))) = None \<Longrightarrow>
      row_of (db_requests (succeed r env req res a db)) = (row_of (db_requests db))(rq_ID req \<mapsto>
        moved (snd (te_Apply (av_Tick env))) RequestStateIndexed (Some (indexed_fields res a)) row)" (is "_ \<Longrightarrow> ?B")
    and "fail env req err a db =
      (if sf_Exec (fst (te_Apply (av_Tick env))) \<noteq> None then db
       else record_event (te_Audit (av_Tick env)) (failure_event req err a)
         (db\<lparr>db_requests := db_requests (fail env req err a db)\<rparr>))" (is ?C)
    and "sf_Exec (fst (te_Apply (av_Tick env))) = None \<Longrightarrow>
      row_of (db_requests (fail env req err a db)) = (row_of (db_requests db))(rq_ID req \<mapsto>
        moved (snd (te_Apply (av_Tick env))) RequestStateDenied (Some (denied_fields err a)) row)" (is "_ \<Longrightarrow> ?D")
proof -
  obtain fault now where ap: "te_Apply (av_Tick env) = (fault, now)" by fastforce
  have st: "state_of (db_requests db) (rq_ID req) = Some RequestStateFetching"
    using assms(2,3) by (simp add: state_of_def)
  have legal: "CanTransitionTo RequestStateFetching RequestStateIndexed" "CanTransitionTo RequestStateFetching RequestStateDenied"
    by (simp_all add: CanTransitionTo_iff)
  note tr = TransitionRequest_cases [OF assms(1)] row_of_transition [OF assms(1,2,3)]
  show ?A and ?C
    using assms(4) st legal ap
    by (cases "sf_Exec fault"; simp add: succeed_def fail_def tr(1) Let_def)+
  show ?B and ?D if "sf_Exec (fst (te_Apply (av_Tick env))) = None"
    using that assms(4) st legal ap
    by (simp_all add: succeed_def fail_def tr Let_def indexed_fields_def denied_fields_def)
qed

lemma admit_tick_cases:
  assumes "store_ok (db_requests db)" and "results_read (av_Tick env)"
  obtains (idle) "admit_tryProcessOne r env db = db"
    | (owned) i row now st1 where "row_of (db_requests db) i = Some row"
        "rw_state row \<in> {RequestStateAutoPass, RequestStateApproved}" "store_ok st1"
        "row_of st1 = (row_of (db_requests db))(i \<mapsto> fetching_row now row)" "rq_ID (scanRequest row) = i"
        "admit_tryProcessOne r env db = admit_processOwned r env (scanRequest row) (db\<lparr>db_requests := st1\<rparr>)"
proof -
  define q where "q = \<lparr>qq_States = [RequestStateAutoPass, RequestStateApproved], qq_Submitter = [], qq_Limit = rn_workers r * 2\<rparr>"
  show thesis
  proof (cases "ListRequests (te_List (av_Tick env)) (te_Scan (av_Tick env)) q (db_requests db)")
    case (Inl err)
    then show thesis using idle by (simp add: admit_tryProcessOne_def q_def)
  next
    case (Inr candidates)
    obtain res st1 where c: "claim_first rq_State RequestStateFetching (av_Tick env) 0 candidates (db_requests db) = (res, st1)"
      by fastforce
    have rr: "sf_Result (fst (te_Claim (av_Tick env) k)) = None" for k using assms(2) by (simp add: results_read_def)
    show thesis
    proof (cases res)
      case None
      then have "st1 = db_requests db" using claim_first_None [OF _ assms(1) rr] c by blast
      then show thesis using idle Inr c None by (simp add: admit_tryProcessOne_def q_def)
    next
      case (Some req)
      obtain row now where req: "req \<in> set candidates" "row_of (db_requests db) (rq_ID req) = Some row" "rw_state row = rq_State req"
        "store_ok st1" "row_of st1 = (row_of (db_requests db))(rq_ID req \<mapsto> moved now RequestStateFetching None row)"
        using claim_first_Some [OF c [unfolded Some] assms(1) rr] by blast
      obtain row' where row': "row' \<in> set (rs_rows (db_requests db))" "row_matches q row'" "req = scanRequest row'"
        using ListRequests_member [OF Inr _ req(1)] assms(2) by (auto simp: results_read_def)
      then have "row' = row" using req(2) row_of_iff [OF store_ok_distinct [OF assms(1)]]
        by (metis (no_types, lifting) scanRequest_def request.select_convs(1) option.inject)
      then show thesis using row' req Inr c Some
        by (intro owned [where i = "rq_ID req" and row = row and now = now and ?st1.0 = st1])
           (auto simp: admit_tryProcessOne_def q_def row_matches_def fetching_row_def)
    qed
  qed
qed

definition admitted :: "admit_runner \<Rightarrow> admit_env \<Rightarrow> request \<Rightarrow> request_row \<Rightarrow> request_row \<Rightarrow> bool" where
  "admitted r env req claimed row' \<longleftrightarrow>
     (let ok = (sf_Exec (fst (te_Apply (av_Tick env))) = None); now = snd (te_Apply (av_Tick env))
      in case admit_outcome r env req of
           Succeeded res a \<Rightarrow> row' = (if ok then moved now RequestStateIndexed (Some (indexed_fields res a)) claimed else claimed)
         | Failed err a \<Rightarrow> row' = (if ok then moved now RequestStateDenied (Some (denied_fields err a)) claimed else claimed)
         | Interrupted \<Rightarrow> row' = claimed)"

text \<open>The audit events a finished request adds, in order.\<close>

definition outcome_events :: "admit_runner \<Rightarrow> admit_env \<Rightarrow> request \<Rightarrow> hub_db \<Rightarrow> audit_log" where
  "outcome_events r env req db =
     (if sf_Exec (fst (te_Apply (av_Tick env))) \<noteq> None then db_audit db
      else (case admit_outcome r env req of
          Succeeded res a \<Rightarrow> db_audit (purgeAfterIndex r env req
            (record_event (te_Audit (av_Tick env)) (success_event req res a) db))
        | Failed err a \<Rightarrow> db_audit (record_event (te_Audit (av_Tick env)) (failure_event req err a) db)
        | Interrupted \<Rightarrow> db_audit db))"

lemma purge_audit: "db_audit (purgeAfterIndex r env req (record_event e ev (db\<lparr>db_requests := st\<rparr>))) =
    db_audit (purgeAfterIndex r env req (record_event e ev db))"
  by (simp add: purgeAfterIndex_def record_event_def Let_def)

lemma processOwned_admitted:
  assumes "store_ok (db_requests db)" and "row_of (db_requests db) (rq_ID req) = Some claimed"
    and "rw_state claimed = RequestStateFetching" and "sf_Result (fst (te_Apply (av_Tick env))) = None"
  shows "\<exists>row'. row_of (db_requests (admit_processOwned r env req db)) = (row_of (db_requests db))(rq_ID req \<mapsto> row') \<and>
      admitted r env req claimed row' \<and>
      db_audit (admit_processOwned r env req db) = outcome_events r env req db"
proof (cases "admit_outcome r env req")
  case (Succeeded res a)
  then show ?thesis using finish_result(1,2) [OF assms, of r res a] assms(2)
    by (cases "sf_Exec (fst (te_Apply (av_Tick env)))")
       (auto simp: admit_processOwned_def admitted_def outcome_events_def purge_audit map_upd_triv
         dest: arg_cong [where f = db_audit])
next
  case (Failed err a)
  then show ?thesis using finish_result(3,4) [OF assms, of err a] assms(2)
    by (cases "sf_Exec (fst (te_Apply (av_Tick env)))")
       (auto simp: admit_processOwned_def admitted_def outcome_events_def record_event_def map_upd_triv
         dest: arg_cong [where f = db_audit])
next
  case Interrupted
  then show ?thesis using assms(2)
    by (auto simp: admit_processOwned_def admitted_def outcome_events_def map_upd_triv)
qed

lemma outcome_events_requests: "outcome_events r env req (db\<lparr>db_requests := st\<rparr>) = outcome_events r env req db"
  by (auto simp: outcome_events_def purgeAfterIndex_def record_event_def Let_def split: outcome.splits)

text \<open>
  A tick of the admission runner leaves everything as it is, or takes one auto-passed or
  approved request through fetching and applies the outcome of its attempts: indexed with the
  integrity and commit of the result, denied with the error, or left in fetching when the
  context ended or the final statement failed. The retry count is stored when there was one,
  the log gets the matching events, and no other request is touched.
\<close>

theorem admit_tick_exact:
  assumes "store_ok (db_requests db)" and "results_read (av_Tick env)"
  shows "admit_tryProcessOne r env db = db \<or>
    (\<exists>i row now row'. row_of (db_requests db) i = Some row \<and>
       rw_state row \<in> {RequestStateAutoPass, RequestStateApproved} \<and>
       row_of (db_requests (admit_tryProcessOne r env db)) = (row_of (db_requests db))(i \<mapsto> row') \<and>
       admitted r env (scanRequest row) (fetching_row now row) row' \<and>
       db_audit (admit_tryProcessOne r env db) = outcome_events r env (scanRequest row) db)"
proof (rule admit_tick_cases [OF assms, of r])
  fix i row now st1
  assume o: "row_of (db_requests db) i = Some row" "rw_state row \<in> {RequestStateAutoPass, RequestStateApproved}"
    "store_ok st1" "row_of st1 = (row_of (db_requests db))(i \<mapsto> fetching_row now row)" "rq_ID (scanRequest row) = i"
    "admit_tryProcessOne r env db = admit_processOwned r env (scanRequest row) (db\<lparr>db_requests := st1\<rparr>)"
  have "\<exists>row'. row_of (db_requests (admit_processOwned r env (scanRequest row) (db\<lparr>db_requests := st1\<rparr>))) = (row_of st1)(i \<mapsto> row') \<and>
      admitted r env (scanRequest row) (fetching_row now row) row' \<and>
      db_audit (admit_processOwned r env (scanRequest row) (db\<lparr>db_requests := st1\<rparr>)) =
        outcome_events r env (scanRequest row) (db\<lparr>db_requests := st1\<rparr>)"
    using processOwned_admitted [of "db\<lparr>db_requests := st1\<rparr>" "scanRequest row" "fetching_row now row" env r] o(3-5) assms(2)
    by (simp add: fetching_row_def results_read_def)
  then obtain row' where "row_of (db_requests (admit_processOwned r env (scanRequest row) (db\<lparr>db_requests := st1\<rparr>))) =
        (row_of st1)(i \<mapsto> row')" "admitted r env (scanRequest row) (fetching_row now row) row'"
      "db_audit (admit_processOwned r env (scanRequest row) (db\<lparr>db_requests := st1\<rparr>)) = outcome_events r env (scanRequest row) db"
    unfolding outcome_events_requests by blast
  then show ?thesis using o(1,2,4,6)
    by (intro disjI2 exI [of _ i] exI [of _ row] exI [of _ now] exI [of _ row'] conjI) simp_all
qed simp

section \<open>Progress\<close>

lemma admit_tick_store_ok:
  assumes "store_ok (db_requests db)" and "results_read (av_Tick env)"
  shows "store_ok (db_requests (admit_tryProcessOne r env db))"
proof (rule admit_tick_cases [OF assms, of r])
  fix i row now st1
  assume o: "store_ok st1"
    "admit_tryProcessOne r env db = admit_processOwned r env (scanRequest row) (db\<lparr>db_requests := st1\<rparr>)"
  have "store_ok (db_requests (succeed r env req res a (db\<lparr>db_requests := st1\<rparr>)))"
    and "store_ok (db_requests (fail env req err a (db\<lparr>db_requests := st1\<rparr>)))" for req res a err
    using TransitionRequest_ok [OF o(1)]
    by (auto simp: succeed_def fail_def split: prod.splits option.splits)
  then show ?thesis using o by (auto simp: admit_processOwned_def split: outcome.splits)
qed (use assms in simp)

definition uninterrupted :: "admit_env \<Rightarrow> bool" where
  "uninterrupted env \<longleftrightarrow> faultless (av_Tick env) \<and> scan_ok (te_Scan (av_Tick env)) \<and> (\<forall>a. \<not> av_Interrupted env a)"

lemma uninterrupted_outcome: "uninterrupted env \<Longrightarrow> admit_outcome r env req \<noteq> Interrupted"
  by (simp add: uninterrupted_def admit_outcome_def retry_loop_interrupted)

lemma uninterrupted_reads: "uninterrupted env \<Longrightarrow> results_read (av_Tick env)"
  by (simp add: uninterrupted_def faultless_def results_read_def no_fault_def)

definition vetted :: "request_state \<Rightarrow> bool" where
  "vetted s \<longleftrightarrow> s \<in> {RequestStateAutoPass, RequestStateApproved}"

lemma admit_progress:
  assumes "store_ok (db_requests db)" and "uninterrupted env" and "state_of (db_requests db) i = Some x" and "vetted x"
  shows "\<exists>k y z. state_of (db_requests db) k = Some y \<and> vetted y \<and> IsTerminal z \<and>
    state_of (db_requests (admit_tryProcessOne r env db)) = (state_of (db_requests db))(k \<mapsto> z)"
proof -
  let ?st = "db_requests db"
  let ?q = "\<lparr>qq_States = [RequestStateAutoPass, RequestStateApproved], qq_Submitter = [], qq_Limit = rn_workers r * 2\<rparr>"
  have env: "faultless (av_Tick env)" "scan_ok (te_Scan (av_Tick env))" using assms(2) by (simp_all add: uninterrupted_def)
  obtain row where row: "row_of ?st i = Some row" "row_matches ?q row"
    using assms(3,4) by (auto simp: state_of_def row_matches_def vetted_def)
  obtain req rs st1 row' now where l: "ListRequests (te_List (av_Tick env)) (te_Scan (av_Tick env)) ?q ?st = Inr (req # rs)"
    and c: "claim_first rq_State RequestStateFetching (av_Tick env) 0 (req # rs) ?st = (Some req, st1)"
    and o1: "req = scanRequest row'" "row_matches ?q row'" "row_of ?st (rq_ID req) = Some row'" "store_ok st1"
      "row_of st1 = (row_of ?st)(rq_ID req \<mapsto> moved now RequestStateFetching None row')"
    by (rule list_then_claim [OF assms(1) env row, of rq_State RequestStateFetching])
       (auto simp: row_matches_def CanTransitionTo_iff scanRequest_def)
  have "\<exists>row''. row_of (db_requests (admit_processOwned r env req (db\<lparr>db_requests := st1\<rparr>))) = (row_of st1)(rq_ID req \<mapsto> row'') \<and>
      admitted r env req (moved now RequestStateFetching None row') row''"
    using processOwned_admitted [of "db\<lparr>db_requests := st1\<rparr>" req "moved now RequestStateFetching None row'" env r] o1(4,5) env
    by (auto simp: faultless_def no_fault_def)
  then obtain row'' where r2: "row_of (db_requests (admit_processOwned r env req (db\<lparr>db_requests := st1\<rparr>))) = (row_of st1)(rq_ID req \<mapsto> row'')"
      "admitted r env req (moved now RequestStateFetching None row') row''" by blast
  have "IsTerminal (rw_state row'')"
    using r2(2) uninterrupted_outcome [OF assms(2), of r req] env(1)
    by (auto simp: admitted_def Let_def faultless_def no_fault_def IsTerminal_def legalTransitions_def split: outcome.splits)
  moreover have "state_of (db_requests (admit_processOwned r env req (db\<lparr>db_requests := st1\<rparr>))) =
      (state_of ?st)(rq_ID req \<mapsto> rw_state row'')"
    using state_of_upd [OF r2(1)] state_of_upd [OF o1(5)] by simp
  moreover have "admit_tryProcessOne r env db = admit_processOwned r env req (db\<lparr>db_requests := st1\<rparr>)"
    using l c by (simp add: admit_tryProcessOne_def)
  ultimately show ?thesis using o1(2,3)
    by (intro exI [of _ "rq_ID req"] exI [of _ "rw_state row'"] exI [of _ "rw_state row''"])
       (auto simp: state_of_def row_matches_def vetted_def)
qed

interpretation admission: work_queue "\<lambda>db. store_ok (db_requests db)" "\<lambda>db. state_of (db_requests db)"
  uninterrupted "admit_tryProcessOne r" vetted IsTerminal
proof
  fix db :: hub_db and env i x z
  assume ok: "store_ok (db_requests db)"
  show "finite {i. \<exists>x. state_of (db_requests db) i = Some x \<and> vetted x}" by (rule row_count_card(2) [OF ok])
  assume good: "uninterrupted env"
  note rr = uninterrupted_reads [OF good]
  show "store_ok (db_requests (admit_tryProcessOne r env db))" by (rule admit_tick_store_ok [OF ok rr])
  show "\<exists>k y z. state_of (db_requests db) k = Some y \<and> vetted y \<and> IsTerminal z \<and>
      state_of (db_requests (admit_tryProcessOne r env db)) = (state_of (db_requests db))(k \<mapsto> z)"
    if "state_of (db_requests db) i = Some x" "vetted x"
    using admit_progress [OF ok good that] .
  show "admit_tryProcessOne r env db = db"
    if "\<And>i x. state_of (db_requests db) i = Some x \<Longrightarrow> \<not> vetted x"
    by (rule admit_tick_cases [OF ok rr, of r]) (use that in \<open>auto simp: state_of_def vetted_def\<close>)
qed (auto simp: vetted_def IsTerminal_def legalTransitions_def)

definition vetted_count :: "hub_db \<Rightarrow> nat" where
  "vetted_count db = length (filter (\<lambda>row. vetted (rw_state row)) (rs_rows (db_requests db)))"

text \<open>
  With a working store and no shutdown, every vetted request is finished: as many ticks as
  there are auto-passed and approved requests leave none, each of them is indexed or denied, and
  no other request has changed its state.
\<close>

theorem admission_drains:
  assumes "store_ok (db_requests db)" and "list_all uninterrupted envs" and "vetted_count db \<le> length envs"
  shows "vetted_count (fold (admit_tryProcessOne r) envs db) = 0 \<and>
    (\<forall>i x. state_of (db_requests db) i = Some x \<longrightarrow>
      (\<exists>y. state_of (db_requests (fold (admit_tryProcessOne r) envs db)) i = Some y \<and>
        (if vetted x then IsTerminal y else y = x)))"
proof -
  let ?db' = "fold (admit_tryProcessOne r) envs db"
  have "card (admission.waiting db) \<le> length envs"
    using assms(3) row_count_card(1) [OF assms(1), of vetted] by (simp add: vetted_count_def admission.waiting_def)
  from admission.ticks_settle [OF assms(1,2) this, of r]
  have d: "store_ok (db_requests ?db')" "admission.waiting ?db' = {}" "admission.advances db ?db'" by simp_all
  have "vetted_count ?db' = 0"
    using d(2) [unfolded admission.waiting_def] row_count_card(1) [OF d(1), of vetted]
    by (simp only: vetted_count_def card.empty)
  moreover have "\<exists>y. state_of (db_requests ?db') i = Some y \<and> (if vetted x then IsTerminal y else y = x)"
    if x: "state_of (db_requests db) i = Some x" for i x
  proof (cases "vetted x")
    case True
    then have "state_of (db_requests ?db') i \<noteq> Some x" using d(2) by (auto simp: admission.waiting_def)
    then show ?thesis using d(3) x True unfolding admission.advances_def by metis
  next
    case False
    then show ?thesis using d(3) x unfolding admission.advances_def by (metis option.inject)
  qed
  ultimately show ?thesis by blast
qed

definition approved_db :: hub_db where
  "approved_db = \<lparr>db_requests = one_request\<lparr>rs_rows := map (\<lambda>row. row\<lparr>rw_state := RequestStateApproved\<rparr>) (rs_rows one_request)\<rparr>,
     db_audit = empty_log\<rparr>"

lemma approved_db_ok: "store_ok (db_requests approved_db)"
  unfolding approved_db_def using store_ok_map [OF store_ok_one_request, of "\<lambda>row. row\<lparr>rw_state := RequestStateApproved\<rparr>"]
  by (simp add: row_ok_def known_state_def)

lemma down_env_ok: "uninterrupted down_env" "results_read (av_Tick down_env)"
  using ideal_env_ok by (simp_all add: uninterrupted_def down_env_def results_read_def)

lemma admission_drains_witness:
  "vetted_count approved_db = 1 \<and> vetted_count (fold (admit_tryProcessOne plain_runner) [down_env] approved_db) = 0"
proof -
  have "vetted_count approved_db = 1" by (simp add: vetted_count_def approved_db_def one_request_def vetted_def)
  then show ?thesis using admission_drains [OF approved_db_ok, of "[down_env]" plain_runner] down_env_ok by simp
qed

lemma admit_tick_exact_witness:
  "\<exists>row row' now. row_of (db_requests approved_db) 1 = Some row \<and> rw_state row = RequestStateApproved \<and>
     row_of (db_requests (admit_tryProcessOne plain_runner down_env approved_db)) 1 = Some row' \<and>
     admitted plain_runner down_env (scanRequest row) (fetching_row now row) row'"
proof -
  have "vetted_count (admit_tryProcessOne plain_runner down_env approved_db) \<noteq> vetted_count approved_db" by code_simp
  then have ne: "admit_tryProcessOne plain_runner down_env approved_db \<noteq> approved_db" by force
  have one: "row_of (db_requests approved_db) i = Some row \<Longrightarrow> i = 1 \<and> rw_state row = RequestStateApproved" for i row
    by (auto simp: row_of_def approved_db_def one_request_def split: if_splits)
  from admit_tick_exact [OF approved_db_ok down_env_ok(2), of plain_runner] ne one show ?thesis by fastforce
qed

end
