(* ===== verification/Pool.thy ===== *)
theory Pool
  imports Procurement AdmitRunner
begin

text \<open>
  The runners, the reviewers and the submitters at work on one table: any number of preflight and
  admission workers claim and finish requests in any order while the endpoints create, approve and
  deny them. A worker is between two of its statements while it owns a request; it may also stop
  there, as on a shutdown. The boot sweep of the admission runner runs before its workers start.
\<close>

section \<open>Steps\<close>

datatype worker =
    Checker nat
  | Admitter nat

record pool =
  pl_db :: hub_db
  pl_owned :: "worker \<Rightarrow> request option"

abbreviation pool_requests :: "pool \<Rightarrow> request_store" where
  "pool_requests p \<equiv> db_requests (pl_db p)"

abbreviation request_state_in :: "pool \<Rightarrow> int \<Rightarrow> request_state option" where
  "request_state_in p \<equiv> state_of (pool_requests p)"

abbreviation with_requests :: "request_store \<Rightarrow> pool \<Rightarrow> pool" where
  "with_requests st p \<equiv> p\<lparr>pl_db := (pl_db p)\<lparr>db_requests := st\<rparr>\<rparr>"

inductive pool_step :: "pool \<Rightarrow> pool \<Rightarrow> bool" where
  claim_check: "pl_owned p (Checker n) = None \<Longrightarrow>
     TransitionRequest fault now (rq_ID r) RequestStatePending RequestStatePreflighting None (pool_requests p) = (None, st) \<Longrightarrow>
     pool_step p ((with_requests st p)\<lparr>pl_owned := (pl_owned p)(Checker n \<mapsto> r)\<rparr>)"
| claim_admit: "pl_owned p (Admitter n) = None \<Longrightarrow> rq_State r \<in> {RequestStateAutoPass, RequestStateApproved} \<Longrightarrow>
     TransitionRequest fault now (rq_ID r) (rq_State r) RequestStateFetching None (pool_requests p) = (None, st) \<Longrightarrow>
     pool_step p ((with_requests st p)\<lparr>pl_owned := (pl_owned p)(Admitter n \<mapsto> r)\<rparr>)"
| claim_lost: "t \<in> {RequestStatePreflighting, RequestStateFetching} \<Longrightarrow>
     f \<in> {RequestStatePending, RequestStateAutoPass, RequestStateApproved} \<Longrightarrow>
     TransitionRequest fault now i f t None (pool_requests p) = (Some err, st) \<Longrightarrow> pool_step p (with_requests st p)"
| finish_check: "pl_owned p (Checker n) = Some r \<Longrightarrow>
     pool_step p (p\<lparr>pl_db := preflight_processOwned check env r (pl_db p), pl_owned := (pl_owned p)(Checker n := None)\<rparr>)"
| finish_admit: "pl_owned p (Admitter n) = Some r \<Longrightarrow>
     pool_step p (p\<lparr>pl_db := admit_processOwned runner aenv r (pl_db p), pl_owned := (pl_owned p)(Admitter n := None)\<rparr>)"
| stop: "pool_step p (p\<lparr>pl_owned := (pl_owned p)(w := None)\<rparr>)"
| sweep: "\<forall>n. pl_owned p (Admitter n) = None \<Longrightarrow>
     pool_step p (p\<lparr>pl_db := sweepStuckFetching runner cancelled fault now store_now (pl_db p)\<rparr>)"
| review: "cfg \<in> {approve_config, deny_config} \<Longrightarrow> f \<in> set (tc_allowedFroms cfg) \<Longrightarrow>
     TransitionRequest fault now i f (tc_toState cfg) (Some (reason_fields reason)) (pool_requests p) = (err, st) \<Longrightarrow>
     pool_step p (with_requests st p)"
| submit: "CreateRequest fault now (newRequestFromBody who body) (pool_requests p) = (res, st) \<Longrightarrow>
     pool_step p (with_requests st p)"

inductive pool_reachable :: "pool \<Rightarrow> bool" where
  boot: "store_ok (db_requests db) \<Longrightarrow> pool_reachable \<lparr>pl_db = db, pl_owned = (\<lambda>_. None)\<rparr>"
| steps: "pool_reachable p \<Longrightarrow> pool_step p p' \<Longrightarrow> pool_reachable p'"

section \<open>What a step does to the states\<close>

text \<open>One request may move along a legal edge.\<close>

definition one_move :: "(request_state \<Rightarrow> request_state \<Rightarrow> int \<Rightarrow> bool) \<Rightarrow> request_store \<Rightarrow> request_store \<Rightarrow> bool" where
  "one_move by st st' \<longleftrightarrow> store_ok st' \<and> (state_of st' = state_of st \<or>
     (\<exists>i f t. by f t i \<and> state_of st i = Some f \<and> CanTransitionTo f t \<and> state_of st' = (state_of st)(i \<mapsto> t)))"

lemma Transition_one_move:
  assumes "store_ok st" and "TransitionRequest fault now i f t flds st = (err, st')"
  shows "one_move (\<lambda>f' t' i'. f' = f \<and> t' = t \<and> i' = i) st st'"
    and "err = None \<Longrightarrow> state_of st i = Some f \<and> CanTransitionTo f t \<and> state_of st' = (state_of st)(i \<mapsto> t)"
proof -
  have ok: "store_ok st'" using TransitionRequest_ok [OF assms] .
  let ?st = "st\<lparr>rs_rows := map (\<lambda>row. if hits i f row then moved now t flds row else row) (rs_rows st)\<rparr>"
  have hit: "state_of ?st = (state_of st)(i \<mapsto> t)" if s: "state_of st i = Some f"
  proof -
    from s obtain row where row: "row_of st i = Some row" "rw_state row = f" by (auto simp: state_of_def)
    show ?thesis using state_of_upd [OF row_of_transition [OF assms(1) row]] by simp
  qed
  have miss: "?st = st" if "state_of st i \<noteq> Some f"
    using map_no_hit [of i f "rs_rows st"] no_hit_iff [OF assms(1)] that by simp
  show "one_move (\<lambda>f' t' i'. f' = f \<and> t' = t \<and> i' = i) st st'"
    using assms(2) ok hit miss unfolding one_move_def TransitionRequest_cases [OF assms(1)] Let_def
    by (cases "state_of st i = Some f") (auto split: if_splits option.splits)
  show "state_of st i = Some f \<and> CanTransitionTo f t \<and> state_of st' = (state_of st)(i \<mapsto> t)" if "err = None"
    using assms(2) that hit unfolding TransitionRequest_cases [OF assms(1)] Let_def
    by (auto split: if_splits option.splits)
qed

lemma one_move_mono: "one_move P st st' \<Longrightarrow> (\<And>f t i. P f t i \<Longrightarrow> Q f t i) \<Longrightarrow> one_move Q st st'"
  unfolding one_move_def by blast

lemma one_move_refl: "store_ok st \<Longrightarrow> one_move P st st"
  by (simp add: one_move_def)

lemma finish_check_move:
  assumes "store_ok (db_requests db)"
  shows "one_move (\<lambda>f t i. f = RequestStatePreflighting \<and> i = rq_ID r) (db_requests db) (db_requests (preflight_processOwned check env r db))"
proof -
  obtain fault now where a: "te_Apply env = (fault, now)" by fastforce
  obtain e st' where t: "TransitionRequest fault now (rq_ID r) RequestStatePreflighting (vd_NextState (check r))
      (Some (verdict_fields (check r))) (db_requests db) = (e, st')" by fastforce
  show ?thesis
    using one_move_mono [OF Transition_one_move(1) [OF assms t]] one_move_refl [OF assms]
    by (auto simp: preflight_processOwned_def Let_def a t split: option.splits prod.splits)
qed

lemma finish_admit_move:
  assumes "store_ok (db_requests db)"
  shows "one_move (\<lambda>f t i. f = RequestStateFetching \<and> i = rq_ID r \<and>
      (t = RequestStateIndexed \<longrightarrow> (\<exists>res a. admit_outcome runner env r = Succeeded res a)))
    (db_requests db) (db_requests (admit_processOwned runner env r db))"
proof -
  obtain fault now where a: "te_Apply (av_Tick env) = (fault, now)" by fastforce
  show ?thesis
  proof (cases "admit_outcome runner env r")
    case (Succeeded res n)
    obtain e st' where t: "TransitionRequest fault now (rq_ID r) RequestStateFetching RequestStateIndexed
      (Some (no_fields\<lparr>ff_FetchedSHA := am_Integrity res, ff_CommittedSHA := am_CommitSHA res, ff_RetryCount := retry_count n\<rparr>))
      (db_requests db) = (e, st')" by fastforce
    show ?thesis using one_move_mono [OF Transition_one_move(1) [OF assms t]] Succeeded
      by (auto simp: admit_processOwned_def succeed_def a t split: option.splits)
  next
    case (Failed err n)
    obtain e st' where t: "TransitionRequest fault now (rq_ID r) RequestStateFetching RequestStateDenied
      (Some (no_fields\<lparr>ff_DenialReason := ax_Text err, ff_RetryCount := retry_count n\<rparr>)) (db_requests db) = (e, st')" by fastforce
    show ?thesis using one_move_mono [OF Transition_one_move(1) [OF assms t]] Failed
      by (auto simp: admit_processOwned_def fail_def a t split: option.splits)
  next
    case Interrupted
    then show ?thesis using one_move_refl [OF assms] by (simp add: admit_processOwned_def)
  qed
qed

lemma sweep_states:
  assumes "store_ok (db_requests db)"
  shows "store_ok (db_requests (sweepStuckFetching runner cancelled fault now store_now db)) \<and>
    (\<forall>i. state_of (db_requests (sweepStuckFetching runner cancelled fault now store_now db)) i = state_of (db_requests db) i \<or>
       state_of (db_requests db) i = Some RequestStateFetching \<and>
       state_of (db_requests (sweepStuckFetching runner cancelled fault now store_now db)) i = Some RequestStateApproved)"
proof (cases cancelled)
  case False
  obtain res st' where r: "ReclaimStuckFetching fault store_now (now - rn_sweepStaleness runner) (db_requests db) = (res, st')"
    by fastforce
  have ok: "store_ok st'" using table_step_ok [OF table_step.reclaim [OF r] assms] .
  have "state_of st' i = state_of (db_requests db) i \<or>
      state_of (db_requests db) i = Some RequestStateFetching \<and> state_of st' i = Some RequestStateApproved" for i
    using Reclaim_result [OF r] by (cases "row_of (db_requests db) i") (auto simp: state_of_def row_of_map)
  then show ?thesis using False ok by (simp add: sweepStuckFetching_def r)
qed (use assms in \<open>simp add: sweepStuckFetching_def\<close>)

lemma submit_states:
  assumes "store_ok st" and "CreateRequest fault now r st = (res, st')"
  shows "store_ok st' \<and> (\<forall>i. state_of st' i = state_of st i \<or> state_of st i = None \<and> state_of st' i = Some RequestStatePending)"
proof -
  have s: "table_step st st'" by (rule table_step.create [OF assms(2)])
  have "row_of st (rs_seq st + 1) = None" using row_id_bound [OF assms(1)] by (cases "row_of st (rs_seq st + 1)") fastforce+
  then show ?thesis
    using table_step_ok [OF s assms(1)] CreateRequest_cases [OF assms(2)] row_of_insert [OF assms(1)]
    by (auto simp: state_of_def inserted_row_def split: if_splits)
qed

section \<open>Ownership\<close>

definition being_checked :: "pool \<Rightarrow> int \<Rightarrow> bool" where
  "being_checked p i \<longleftrightarrow> (\<exists>n r. pl_owned p (Checker n) = Some r \<and> rq_ID r = i)"

definition being_admitted :: "pool \<Rightarrow> int \<Rightarrow> bool" where
  "being_admitted p i \<longleftrightarrow> (\<exists>n r. pl_owned p (Admitter n) = Some r \<and> rq_ID r = i)"

definition pool_ok :: "pool \<Rightarrow> bool" where
  "pool_ok p \<longleftrightarrow> store_ok (pool_requests p) \<and>
     (\<forall>i. being_checked p i \<longrightarrow> request_state_in p i \<in> {Some RequestStatePreflighting, Some RequestStateDenied}) \<and>
     (\<forall>i. being_admitted p i \<longrightarrow> request_state_in p i = Some RequestStateFetching) \<and>
     (\<forall>v w r q. pl_owned p v = Some r \<and> pl_owned p w = Some q \<and> rq_ID r = rq_ID q \<longrightarrow> v = w)"

lemma owners_kept [simp]:
  "being_checked (with_requests st p) = being_checked p" "being_admitted (with_requests st p) = being_admitted p"
  by (auto simp: being_checked_def being_admitted_def fun_eq_iff)

lemma owned_iff:
  "pl_owned p w = Some r \<Longrightarrow> (case w of Checker _ \<Rightarrow> being_checked p (rq_ID r) | Admitter _ \<Rightarrow> being_admitted p (rq_ID r))"
  by (cases w) (auto simp: being_checked_def being_admitted_def)

text \<open>Owners only go, and no owned request leaves the states of its owner.\<close>

lemma pool_ok_keep:
  assumes "pool_ok p" and "store_ok (pool_requests p')"
    and "\<And>w. pl_owned p' w = None \<or> pl_owned p' w = pl_owned p w"
    and "\<And>i. request_state_in p' i = request_state_in p i \<or>
      (being_checked p' i \<longrightarrow> request_state_in p' i = Some RequestStateDenied) \<and> \<not> being_admitted p' i"
  shows "pool_ok p'"
proof -
  have o: "pl_owned p w = Some r" if "pl_owned p' w = Some r" for w r using assms(3) [of w] that by auto
  then have "being_checked p' i \<Longrightarrow> being_checked p i" "being_admitted p' i \<Longrightarrow> being_admitted p i" for i
    by (auto simp: being_checked_def being_admitted_def)
  then show ?thesis using assms(1,2,4) o unfolding pool_ok_def by (metis insert_iff)
qed

text \<open>A free request gets an owner.\<close>

lemma pool_ok_claim:
  assumes "pool_ok p" and "store_ok st" and "pl_owned p w = None"
    and "request_state_in p (rq_ID r) = Some f" and "f \<notin> {RequestStatePreflighting, RequestStateDenied, RequestStateFetching}"
    and "state_of st = (request_state_in p)(rq_ID r \<mapsto> t)"
    and "t = (case w of Checker _ \<Rightarrow> RequestStatePreflighting | Admitter _ \<Rightarrow> RequestStateFetching)"
  shows "pool_ok ((with_requests st p)\<lparr>pl_owned := (pl_owned p)(w \<mapsto> r)\<rparr>)"
proof -
  have free: "\<not> being_checked p (rq_ID r)" "\<not> being_admitted p (rq_ID r)"
    using assms(1,4,5) by (force simp: pool_ok_def)+
  then have other: "rq_ID q \<noteq> rq_ID r" if "pl_owned p v = Some q" for v q
    using owned_iff [OF that] by (cases v) auto
  let ?p = "(with_requests st p)\<lparr>pl_owned := (pl_owned p)(w \<mapsto> r)\<rparr>"
  have c: "being_checked ?p i \<Longrightarrow> being_checked p i \<or> (\<exists>n. w = Checker n) \<and> i = rq_ID r"
    and a: "being_admitted ?p i \<Longrightarrow> being_admitted p i \<or> (\<exists>n. w = Admitter n) \<and> i = rq_ID r" for i
    by (auto simp: being_checked_def being_admitted_def split: if_splits)
  have checked: "request_state_in ?p i \<in> {Some RequestStatePreflighting, Some RequestStateDenied}" if "being_checked ?p i" for i
    using c [OF that] assms(1,6,7) free(1) by (auto simp: pool_ok_def)
  have admitted: "request_state_in ?p i = Some RequestStateFetching" if "being_admitted ?p i" for i
    using a [OF that] assms(1,6,7) free(2) by (auto simp: pool_ok_def)
  have "u = v" if "pl_owned ?p u = Some q" "pl_owned ?p v = Some q'" "rq_ID q = rq_ID q'" for u v q q'
  proof -
    consider "u = w" "v = w" | "u = w" "v \<noteq> w" | "u \<noteq> w" "v = w" | "u \<noteq> w" "v \<noteq> w" by blast
    then show ?thesis
    proof cases
      case 2
      then show ?thesis using that other [of v q'] by auto
    next
      case 3
      then show ?thesis using that other [of u q] by auto
    next
      case 4
      then have "pl_owned p u = Some q" "pl_owned p v = Some q'" using that by auto
      then show ?thesis using assms(1) that(3) unfolding pool_ok_def by blast
    qed simp
  qed
  note single = this
  show ?thesis unfolding pool_ok_def
  proof (intro conjI allI impI)
    show "store_ok (pool_requests ?p)" using assms(2) by simp
  qed (use checked admitted single in blast)+
qed

lemma review_move: "cfg \<in> {approve_config, deny_config} \<Longrightarrow> f \<in> set (tc_allowedFroms cfg) \<Longrightarrow>
    f \<in> {RequestStatePending, RequestStatePreflighting, RequestStateNeedsReview} \<and>
    (tc_toState cfg = RequestStateDenied \<or> f = RequestStateNeedsReview \<and> tc_toState cfg = RequestStateApproved)"
  by (auto simp: approve_config_def deny_config_def)

lemma pool_ok_step:
  assumes "pool_step p p'" and "pool_ok p"
  shows "pool_ok p'"
  using assms(1)
proof cases
  case (claim_check n fault now r st)
  have st: "store_ok (pool_requests p)" using assms(2) by (simp add: pool_ok_def)
  note t = Transition_one_move [OF st claim_check(3)]
  show ?thesis unfolding claim_check(1)
    by (rule pool_ok_claim [OF assms(2)]) (use t claim_check(2) in \<open>auto simp: one_move_def\<close>)
next
  case (claim_admit n r fault now st)
  have st: "store_ok (pool_requests p)" using assms(2) by (simp add: pool_ok_def)
  note t = Transition_one_move [OF st claim_admit(4)]
  show ?thesis unfolding claim_admit(1)
    by (rule pool_ok_claim [OF assms(2)]) (use t claim_admit(2,3) in \<open>auto simp: one_move_def\<close>)
next
  case (claim_lost t f fault now i err st)
  have ok: "store_ok (pool_requests p)" using assms(2) by (simp add: pool_ok_def)
  note m = Transition_one_move(1) [OF ok claim_lost(4)]
  have free: "\<not> being_checked p i \<and> \<not> being_admitted p i" if "request_state_in p i = Some f"
    using assms(2) that claim_lost(3) by (force simp: pool_ok_def)
  show ?thesis
    by (rule pool_ok_keep [OF assms(2)])
       (use m free in \<open>auto simp: claim_lost(1) one_move_def split: if_splits\<close>)
next
  case (finish_check n r check env)
  have ok: "store_ok (db_requests (pl_db p))" using assms(2) by (simp add: pool_ok_def)
  note m = finish_check_move [OF ok, of r check env]
  have own: "\<not> being_checked p' (rq_ID r) \<and> \<not> being_admitted p' (rq_ID r)"
    using assms(2) finish_check(2) unfolding pool_ok_def being_checked_def being_admitted_def finish_check(1)
    by (auto split: if_splits) blast+
  show ?thesis
    by (rule pool_ok_keep [OF assms(2)]) (use m own in \<open>auto simp: finish_check(1) one_move_def split: if_splits\<close>)
next
  case (finish_admit n r runner aenv)
  have ok: "store_ok (db_requests (pl_db p))" using assms(2) by (simp add: pool_ok_def)
  note m = finish_admit_move [OF ok, of r runner aenv]
  have own: "\<not> being_checked p' (rq_ID r) \<and> \<not> being_admitted p' (rq_ID r)"
    using assms(2) finish_admit(2) unfolding pool_ok_def being_checked_def being_admitted_def finish_admit(1)
    by (auto split: if_splits) blast+
  show ?thesis
    by (rule pool_ok_keep [OF assms(2)]) (use m own in \<open>auto simp: finish_admit(1) one_move_def split: if_splits\<close>)
next
  case (stop w)
  show ?thesis
    by (rule pool_ok_keep [OF assms(2)]) (use assms(2) in \<open>auto simp: stop pool_ok_def\<close>)
next
  case (sweep runner cancelled fault now store_now)
  have ok: "store_ok (db_requests (pl_db p))" using assms(2) by (simp add: pool_ok_def)
  note s = sweep_states [OF ok, of runner cancelled fault now store_now]
  have none: "\<not> being_admitted p' i" for i using sweep(2) by (simp add: being_admitted_def sweep(1))
  have "\<not> being_checked p' i" if "request_state_in p i = Some RequestStateFetching" for i
    using assms(2) that by (force simp: pool_ok_def being_checked_def sweep(1))
  then show ?thesis
    by (intro pool_ok_keep [OF assms(2)]) (use s none in \<open>auto simp: sweep(1)\<close>)
next
  case (review cfg f fault now i reason err st)
  have ok: "store_ok (pool_requests p)" using assms(2) by (simp add: pool_ok_def)
  note m = Transition_one_move(1) [OF ok review(4)]
  note f = review_move [OF review(2,3)]
  have "\<not> being_admitted p i" if "request_state_in p i = Some f"
    using assms(2) that f by (force simp: pool_ok_def)
  moreover have "\<not> being_checked p i" if "request_state_in p i = Some RequestStateNeedsReview"
    using assms(2) that by (force simp: pool_ok_def)
  ultimately show ?thesis
    by (intro pool_ok_keep [OF assms(2)])
       (use m f in \<open>auto simp: review(1) one_move_def split: if_splits\<close>)
next
  case (submit fault now who body res st)
  have ok: "store_ok (pool_requests p)" using assms(2) by (simp add: pool_ok_def)
  note s = submit_states [OF ok submit(2)]
  have "\<not> being_checked p i \<and> \<not> being_admitted p i" if "request_state_in p i = None" for i
    using assms(2) that by (force simp: pool_ok_def)
  then show ?thesis
    by (intro pool_ok_keep [OF assms(2)]) (use s in \<open>auto simp: submit(1)\<close>)
qed

lemma reachable_ok: "pool_reachable p \<Longrightarrow> pool_ok p"
  by (induction rule: pool_reachable.induct)
     (auto simp: pool_ok_step, simp add: pool_ok_def being_checked_def being_admitted_def)


text \<open>
  C27: the request table stays well typed whatever the endpoints, the workers of both kinds and the
  sweep do in any order, failures included: ids are distinct, positive, ascending and within the
  counter, the columns declared NOT NULL are filled and every state is one the program knows; so an
  id names one row, and the row that a worker holds is still there.
\<close>

theorem table_well_typed:
  assumes "pool_reachable p"
  shows "sorted_wrt (<) (map rw_id (rs_rows (pool_requests p))) \<and> distinct (map rw_id (rs_rows (pool_requests p))) \<and>
    (\<forall>row \<in> set (rs_rows (pool_requests p)). 0 < rw_id row \<and> rw_id row \<le> rs_seq (pool_requests p) \<and> row_ok row) \<and>
    (\<forall>w r. pl_owned p w = Some r \<longrightarrow> (\<exists>row \<in> set (rs_rows (pool_requests p)). rw_id row = rq_ID r))"
proof -
  have ok: "pool_ok p" by (rule reachable_ok [OF assms])
  then have st: "store_ok (pool_requests p)" by (simp add: pool_ok_def)
  have "\<exists>row \<in> set (rs_rows (pool_requests p)). rw_id row = rq_ID r" if "pl_owned p w = Some r" for w r
  proof -
    have "request_state_in p (rq_ID r) \<noteq> None" using ok owned_iff [OF that] that by (cases w) (auto simp: pool_ok_def)
    then show ?thesis using row_of_in by (auto simp: state_of_def)
  qed
  then show ?thesis using st store_ok_distinct [OF st] by (auto simp: store_ok_def)
qed

text \<open>
  How a step can change the state of a request: a submission creates it, the sweep takes it back
  from fetching, or it moves along a legal edge; it leaves preflighting by its owner's verdict or
  by a denial, and becomes indexed when its owner's attempts ended with a success.
\<close>

definition succeeded_for :: "pool \<Rightarrow> int \<Rightarrow> bool" where
  "succeeded_for p i \<longleftrightarrow> (\<exists>n r runner aenv res a. pl_owned p (Admitter n) = Some r \<and> rq_ID r = i \<and>
     admit_outcome runner aenv r = Succeeded res a)"

definition state_change :: "pool \<Rightarrow> int \<Rightarrow> request_state option \<Rightarrow> request_state option \<Rightarrow> bool" where
  "state_change p i s s' \<longleftrightarrow>
     s = None \<and> s' = Some RequestStatePending \<or>
     s = Some RequestStateFetching \<and> s' = Some RequestStateApproved \<or>
     (\<exists>f t. s = Some f \<and> s' = Some t \<and> CanTransitionTo f t \<and>
        (f = RequestStatePreflighting \<longrightarrow> being_checked p i \<or> t = RequestStateDenied) \<and>
        (t = RequestStateIndexed \<longrightarrow> succeeded_for p i))"

lemma one_move_change:
  assumes "one_move P (pool_requests p) st" and "state_of st i \<noteq> request_state_in p i"
    and "\<And>f t. P f t i \<Longrightarrow> CanTransitionTo f t \<Longrightarrow> (f = RequestStatePreflighting \<longrightarrow> being_checked p i \<or> t = RequestStateDenied) \<and>
        (t = RequestStateIndexed \<longrightarrow> succeeded_for p i)"
  shows "state_change p i (request_state_in p i) (state_of st i)"
proof -
  obtain k f t where m: "P f t k" "request_state_in p k = Some f" "CanTransitionTo f t" "state_of st = (request_state_in p)(k \<mapsto> t)"
    using assms(1,2) by (auto simp: one_move_def)
  have k: "k = i" using m(4) assms(2) by (auto split: if_splits)
  then have "request_state_in p i = Some f" "state_of st i = Some t" using m by simp_all
  moreover have "P f t i" using m(1) k by simp
  ultimately show ?thesis using m(3) assms(3) unfolding state_change_def by blast
qed

lemma step_change:
  assumes "pool_step p p'" and "pool_ok p" and "request_state_in p' i \<noteq> request_state_in p i"
  shows "state_change p i (request_state_in p i) (request_state_in p' i)"
proof -
  have ok: "store_ok (pool_requests p)" using assms(2) by (simp add: pool_ok_def)
  show ?thesis
    using assms(1)
  proof cases
    case (claim_check n fault now r st)
    show ?thesis
      using one_move_change [OF Transition_one_move(1) [OF ok claim_check(3)], of i] assms(3) by (simp add: claim_check(1))
  next
    case (claim_admit n r fault now st)
    show ?thesis
      using one_move_change [OF Transition_one_move(1) [OF ok claim_admit(4)], of i] assms(3) claim_admit(3) by (auto simp: claim_admit(1))
  next
    case (claim_lost t f fault now k err st)
    show ?thesis
      using one_move_change [OF Transition_one_move(1) [OF ok claim_lost(4)], of i] assms(3) claim_lost(2,3) by (auto simp: claim_lost(1))
  next
    case (finish_check n r check env)
    show ?thesis
      using one_move_change [OF finish_check_move [OF ok, of r check env], of i] assms(3) finish_check(2)
      by (auto simp: finish_check(1) being_checked_def CanTransitionTo_iff)
  next
    case (finish_admit n r runner aenv)
    have won: "succeeded_for p (rq_ID r)" if "\<exists>res a. admit_outcome runner aenv r = Succeeded res a"
      using finish_admit(2) that unfolding succeeded_for_def by blast
    show ?thesis
      using one_move_change [OF finish_admit_move [OF ok, of r runner aenv], of i] assms(3) won
      by (auto simp: finish_admit(1))
  next
    case (stop w)
    then show ?thesis using assms(3) by simp
  next
    case (sweep runner cancelled fault now store_now)
    show ?thesis
      using sweep_states [OF ok, of runner cancelled fault now store_now] assms(3) by (auto simp: sweep(1) state_change_def)
  next
    case (review cfg f fault now k reason err st)
    show ?thesis
      using one_move_change [OF Transition_one_move(1) [OF ok review(4)], of i] assms(3) review_move [OF review(2,3)]
      by (auto simp: review(1))
  next
    case (submit fault now who body res st)
    show ?thesis
      using submit_states [OF ok submit(2)] assms(3) by (auto simp: submit(1) state_change_def)
  qed
qed

lemma new_check:
  assumes "pool_step p p'" and "pool_ok p" and "being_checked p' i" and "\<not> being_checked p i"
  shows "request_state_in p i = Some RequestStatePending"
  using assms(1)
proof cases
  case (claim_check n fault now r st)
  have "store_ok (pool_requests p)" using assms(2) by (simp add: pool_ok_def)
  from Transition_one_move(2) [OF this claim_check(3)]
  show ?thesis using assms(3,4) by (auto simp: claim_check(1) being_checked_def split: if_splits)
qed (use assms(3,4) in \<open>auto simp: being_checked_def split: if_splits\<close>)

text \<open>
  C11: a request that is in preflighting while no worker checks it, as after a verdict that could
  not be stored or a worker that stopped, is never checked again: from then on it is in
  preflighting or a reviewer has denied it, and it is never admitted.
\<close>

theorem abandoned_check_is_stuck:
  assumes "pool_step\<^sup>*\<^sup>* p p'" and "pool_reachable p"
    and "request_state_in p i = Some RequestStatePreflighting" and "\<not> being_checked p i"
  shows "request_state_in p' i \<in> {Some RequestStatePreflighting, Some RequestStateDenied} \<and> \<not> being_checked p' i"
proof -
  have "pool_reachable p' \<and> request_state_in p' i \<in> {Some RequestStatePreflighting, Some RequestStateDenied} \<and> \<not> being_checked p' i"
    using assms(1)
  proof induction
    case base
    then show ?case using assms(2-4) by simp
  next
    case (step q q')
    then have ok: "pool_ok q" using reachable_ok by blast
    have "request_state_in q' i \<in> {Some RequestStatePreflighting, Some RequestStateDenied}"
    proof (cases "request_state_in q' i = request_state_in q i")
      case False
      then show ?thesis using step_change [OF step.hyps(2) ok False] step.IH
        by (auto simp: state_change_def CanTransitionTo_iff)
    qed (use step.IH in simp)
    moreover have "\<not> being_checked q' i" using new_check [OF step.hyps(2) ok] step.IH by auto
    ultimately show ?case using pool_reachable.steps step by blast
  qed
  then show ?thesis by blast
qed


section \<open>Instances\<close>

text \<open>One request with a source, and the worker that owns it.\<close>

definition sourced_row :: "request_state \<Rightarrow> request_row" where
  "sourced_row s = (hd (rs_rows one_request))\<lparr>rw_state := s, rw_source_url := Some ''https://a/b.tgz''\<rparr>"

definition sourced_pool :: "request_state \<Rightarrow> pool" where
  "sourced_pool s = \<lparr>pl_db = \<lparr>db_requests = one_request\<lparr>rs_rows := [sourced_row s]\<rparr>, db_audit = empty_log\<rparr>,
     pl_owned = (\<lambda>_. None)\<rparr>"

definition claimed_pool :: "worker \<Rightarrow> request_state \<Rightarrow> request_state \<Rightarrow> pool" where
  "claimed_pool w f t =
     (with_requests (snd (TransitionRequest no_fault 9 1 f t None (pool_requests (sourced_pool f)))) (sourced_pool f))
       \<lparr>pl_owned := (pl_owned (sourced_pool f))(w \<mapsto> scanRequest (sourced_row f))\<rparr>"

lemma sourced_pool_reachable: "known_state s \<Longrightarrow> pool_reachable (sourced_pool s)"
  unfolding sourced_pool_def
  by (rule pool_reachable.boot) (simp add: store_ok_def one_request_def sourced_row_def row_ok_def)

lemma sourced_request [simp]: "rq_ID (scanRequest (sourced_row s)) = 1" "rq_State (scanRequest (sourced_row s)) = s"
  by (simp_all add: scanRequest_def sourced_row_def one_request_def)

lemma sourced_claim:
  "CanTransitionTo f t \<Longrightarrow> TransitionRequest no_fault 9 1 f t None (pool_requests (sourced_pool f)) =
     (None, snd (TransitionRequest no_fault 9 1 f t None (pool_requests (sourced_pool f))))"
  by (simp add: TransitionRequest_def sourced_pool_def sourced_row_def one_request_def no_fault_def)

lemma claimed_reachable:
  "pool_reachable (claimed_pool (Checker 0) RequestStatePending RequestStatePreflighting)"
  "pool_reachable (claimed_pool (Admitter 0) RequestStateApproved RequestStateFetching)"
proof -
  have free: "pl_owned (sourced_pool s) w = None" for s w by (simp add: sourced_pool_def)
  show "pool_reachable (claimed_pool (Checker 0) RequestStatePending RequestStatePreflighting)"
    unfolding claimed_pool_def
    by (rule pool_reachable.steps [OF sourced_pool_reachable pool_step.claim_check [OF free]])
       (use sourced_claim in \<open>simp_all add: CanTransitionTo_iff known_state_def\<close>)
  show "pool_reachable (claimed_pool (Admitter 0) RequestStateApproved RequestStateFetching)"
    unfolding claimed_pool_def
    by (rule pool_reachable.steps [OF sourced_pool_reachable pool_step.claim_admit [OF free]])
       (use sourced_claim in \<open>simp_all add: CanTransitionTo_iff known_state_def\<close>)
qed

lemma claimed_states [simp]:
  "request_state_in (claimed_pool (Checker 0) RequestStatePending RequestStatePreflighting) 1 = Some RequestStatePreflighting"
  "request_state_in (claimed_pool (Admitter 0) RequestStateApproved RequestStateFetching) 1 = Some RequestStateFetching"
  by (simp_all add: claimed_pool_def sourced_pool_def sourced_row_def one_request_def TransitionRequest_def
      CanTransitionTo_iff no_fault_def state_of_def row_of_def)


lemma table_well_typed_witness:
  "\<exists>row \<in> set (rs_rows (pool_requests (claimed_pool (Admitter 0) RequestStateApproved RequestStateFetching))). rw_id row = 1 \<and> row_ok row"
proof -
  have "pl_owned (claimed_pool (Admitter 0) RequestStateApproved RequestStateFetching) (Admitter 0) =
      Some (scanRequest (sourced_row RequestStateApproved))"
    "rq_ID (scanRequest (sourced_row RequestStateApproved)) = 1"
    by (simp_all add: claimed_pool_def)
  then show ?thesis using table_well_typed [OF claimed_reachable(2)] by fastforce
qed

text \<open>The worker stops between the claim and the verdict; the reviewer denies the request.\<close>

lemma abandoned_check_is_stuck_witness:
  "let p = (claimed_pool (Checker 0) RequestStatePending RequestStatePreflighting)\<lparr>pl_owned := (\<lambda>_. None)\<rparr> in
   pool_reachable p \<and> request_state_in p 1 = Some RequestStatePreflighting \<and>
   (\<forall>p'. pool_step\<^sup>*\<^sup>* p p' \<longrightarrow> request_state_in p' 1 \<in> {Some RequestStatePreflighting, Some RequestStateDenied})"
proof -
  let ?c = "claimed_pool (Checker 0) RequestStatePending RequestStatePreflighting"
  let ?p = "?c\<lparr>pl_owned := (\<lambda>_. None)\<rparr>"
  have "pl_owned ?c = (\<lambda>_. None)(Checker 0 \<mapsto> scanRequest (sourced_row RequestStatePending))"
    by (simp add: claimed_pool_def sourced_pool_def)
  then have e: "?c\<lparr>pl_owned := (pl_owned ?c)(Checker 0 := None)\<rparr> = ?p" by simp
  have r: "pool_reachable ?p"
    using pool_reachable.steps [OF claimed_reachable(1) pool_step.stop [of _ "Checker 0"]] unfolding e .
  have "request_state_in ?p 1 = Some RequestStatePreflighting" "\<not> being_checked ?p 1" by (simp_all add: being_checked_def)
  then show ?thesis using abandoned_check_is_stuck [OF _ r] r unfolding Let_def by blast
qed

definition serving_attempt :: attempt_env where
  "serving_attempt = down_attempt\<lparr>
     at_Client := \<lparr>hc_NewRequest = (\<lambda>_. None), hc_Do = (\<lambda>_. Inr \<lparr>hr_Status = 200, hr_Body = ''abc'', hr_ReadError = None\<rparr>)\<rparr>,
     at_Publish := (\<lambda>_. Inr \<lparr>rc_Strategy = ''git'', rc_DiskPath = [], rc_Commit = ''c0ffee'', rc_PRURL = [], rc_PRNumber = 0,
       rc_Diff = [], rc_PublishedAt = 0\<rparr>)\<rparr>"

definition serving_env :: admit_env where
  "serving_env = down_env\<lparr>av_Attempt := (\<lambda>_. serving_attempt)\<rparr>"

lemma serving_outcome:
  "admit_outcome plain_runner serving_env (scanRequest (sourced_row RequestStateApproved)) =
     Succeeded \<lparr>am_CommitSHA = ''c0ffee'', am_Integrity = ''sha256-x'', am_Bytes = 3\<rparr> 0"
proof -
  have f: "Fetch 0 (at_Client serving_attempt) ''https://a/b.tgz'' None = (''abc'', None)"
    by (simp add: Fetch_def copied_def serving_attempt_def)
  have x: "extractFromBlob serving_attempt ''k'' 0 = Inr ([], [])"
    by (simp add: extractFromBlob_def serving_attempt_def down_attempt_def topLevelEntries_def DetectStripPrefix_def read_tree_def)
  have e: "at_BeginBlob serving_attempt u = None" "at_Sink serving_attempt = None"
    "at_Close serving_attempt w = Inr \<lparr>br_Key = ''k'', br_Integrity = ''sha256-x'', br_Bytes = 0\<rparr>"
    "at_Publish serving_attempt q = Inr \<lparr>rc_Strategy = ''git'', rc_DiskPath = [], rc_Commit = ''c0ffee'', rc_PRURL = [],
       rc_PRNumber = 0, rc_Diff = [], rc_PublishedAt = 0\<rparr>" for u w q
    by (simp_all add: serving_attempt_def down_attempt_def)
  have src: "rq_SourceURL (scanRequest (sourced_row RequestStateApproved)) = ''https://a/b.tgz''"
    by (simp add: scanRequest_def sourced_row_def)
  have deps: "pd_maxBytes (rn_deps plain_runner) = 0" "pd_extractMaxBytes (rn_deps plain_runner) = 0"
    by (simp_all add: plain_runner_def)
  obtain j where b: "BuildSourceJSON ''https://a/b.tgz'' ''sha256-x'' [] = Inr j" by (simp add: BuildSourceJSON_def)
  have "admitOne (rn_deps plain_runner) serving_attempt (scanRequest (sourced_row RequestStateApproved)) =
      Inr \<lparr>am_CommitSHA = ''c0ffee'', am_Integrity = ''sha256-x'', am_Bytes = 3\<rparr>"
    using f x e src deps b by (simp add: admitOne_def admit_source_def admit_from_def Let_def)
  then show ?thesis
    by (simp add: admit_outcome_def serving_env_def plain_runner_def retry_loop.simps)
qed


end
