(* ===== verification/Paths.thy ===== *)
theory Paths
  imports Prelude
begin

text \<open>
  Lexical paths as Go's packages path and path/filepath have them on Unix: Clean and Join, and what
  an element can be after them. A path is a byte string; a plain element is a name that Clean keeps.
\<close>

fun join_with :: "char \<Rightarrow> string list \<Rightarrow> string" where
  "join_with c [] = []"
| "join_with c [e] = e"
| "join_with c (e # f # es) = e @ c # join_with c (f # es)"

abbreviation slash :: char where "slash \<equiv> CHR ''/''"

text \<open>One element of the path; \<open>out\<close> is what has been kept so far, last element first.\<close>

definition clean_step :: "bool \<Rightarrow> string \<Rightarrow> string list \<Rightarrow> string list" where
  "clean_step rooted e out =
     (if e = [] \<or> e = ''.'' then out
      else if e = ''..''
        then (case out of
            [] \<Rightarrow> if rooted then [] else [e]
          | x # rest \<Rightarrow> if x = ''..'' then e # out else rest)
      else e # out)"

definition Clean :: "string \<Rightarrow> string" where
  "Clean p =
     (if p = [] then ''.''
      else (let rooted = (hd p = slash);
                out = rev (fold (clean_step rooted) (split_byte p slash) [])
        in if rooted then slash # join_with slash out
           else if out = [] then ''.'' else join_with slash out))"

definition path_Join :: "string list \<Rightarrow> string" where
  "path_Join es = (case dropWhile (\<lambda>e. e = []) es of [] \<Rightarrow> [] | es' \<Rightarrow> Clean (join_with slash es'))"

section \<open>Elements\<close>

definition plain_elem :: "string \<Rightarrow> bool" where
  "plain_elem e \<longleftrightarrow> e \<noteq> [] \<and> e \<noteq> ''.'' \<and> e \<noteq> ''..'' \<and> slash \<notin> set e"

text \<open>A name of one segment of a URL path.\<close>

definition segment :: "string \<Rightarrow> bool" where
  "segment e \<longleftrightarrow> slash \<notin> set e"

lemma plain_segment: "plain_elem e \<Longrightarrow> segment e"
  by (simp add: plain_elem_def segment_def)

lemma split_append_sep: "split_byte (s @ c # t) c = split_byte s c @ split_byte t c"
proof (induction s)
  case (Cons x s)
  obtain p ps where "split_byte s c = p # ps" by (metis neq_Nil_conv split_byte_not_Nil)
  then show ?case using Cons by auto
qed simp

lemma split_join: "es \<noteq> [] \<Longrightarrow> split_byte (join_with c es) c = concat (map (\<lambda>e. split_byte e c) es)"
  by (induction c es rule: join_with.induct) (simp_all add: split_append_sep)

lemma split_segments: "es \<noteq> [] \<Longrightarrow> \<forall>e \<in> set es. segment e \<Longrightarrow> split_byte (join_with slash es) slash = es"
  by (induction slash es rule: join_with.induct) (simp_all add: split_append_sep split_byte_no_sep segment_def)

lemma clean_step_plain: "plain_elem e \<Longrightarrow> clean_step r e out = e # out"
  by (simp add: plain_elem_def clean_step_def)

lemma fold_clean_plain: "\<forall>e \<in> set es. plain_elem e \<Longrightarrow> fold (clean_step r) es out = rev es @ out"
  by (induction es arbitrary: out) (simp_all add: clean_step_plain)

text \<open>What is kept of a relative path: some \<open>..\<close> and then plain elements; of a rooted one, plain elements.\<close>

definition kept :: "bool \<Rightarrow> string list \<Rightarrow> bool" where
  "kept r out \<longleftrightarrow> (\<exists>k ps. out = rev ps @ replicate k ''..'' \<and> (\<forall>p \<in> set ps. plain_elem p) \<and> (r \<longrightarrow> k = 0))"

lemma kept_step:
  assumes "kept r out" and "segment e"
  shows "kept r (clean_step r e out)"
proof -
  obtain k ps where o: "out = rev ps @ replicate k ''..''" "\<forall>p \<in> set ps. plain_elem p" "r \<longrightarrow> k = 0"
    using assms(1) by (auto simp: kept_def)
  consider "e = [] \<or> e = ''.''" | "e = ''..''" | "plain_elem e" using assms(2) by (auto simp: plain_elem_def segment_def)
  then show ?thesis
  proof cases
    case 1
    then show ?thesis using assms(1) by (simp add: clean_step_def)
  next
    case 2
    show ?thesis
    proof (cases ps rule: rev_cases)
      case Nil
      then have "clean_step r e out = replicate (if r then 0 else Suc k) ''..''"
        using 2 o(1,3) by (cases k) (auto simp: clean_step_def)
      then show ?thesis unfolding kept_def by (intro exI [of _ "if r then 0 else Suc k"] exI [of _ "[]"]) simp
    next
      case (snoc qs q)
      then have "q \<noteq> ''..''" using o(2) by (simp add: plain_elem_def)
      then have "clean_step r e out = rev qs @ replicate k ''..''" using 2 o(1) snoc by (simp add: clean_step_def)
      then show ?thesis using o(2,3) snoc by (force simp: kept_def)
    qed
  next
    case 3
    then have "clean_step r e out = rev (ps @ [e]) @ replicate k ''..''" using o(1) by (simp add: clean_step_plain)
    moreover have "\<forall>p \<in> set (ps @ [e]). plain_elem p" using o(2) 3 by simp
    ultimately show ?thesis using o(3) unfolding kept_def by blast
  qed
qed

lemma kept_fold: "kept r out \<Longrightarrow> \<forall>e \<in> set es. segment e \<Longrightarrow> kept r (fold (clean_step r) es out)"
  by (induction es arbitrary: out) (simp_all add: kept_step)

lemma split_segment: "e \<in> set (split_byte s slash) \<Longrightarrow> segment e"
  using split_byte_parts by (simp add: segment_def)

text \<open>A relative path that does not climb is a list of plain elements, or the dot.\<close>

lemma Clean_relative:
  assumes "\<not> has_prefix (Clean p) ''..''" and "\<not> has_prefix (Clean p) ''/''"
  obtains ps where "\<forall>e \<in> set ps. plain_elem e" "Clean p = (if ps = [] then ''.'' else join_with slash ps)"
proof (cases "p = []")
  case False
  let ?out = "fold (clean_step False) (split_byte p slash) []"
  have r: "hd p \<noteq> slash" using assms(2) False by (auto simp: Clean_def Let_def has_prefix_def split: if_splits)
  then have c: "Clean p = (if ?out = [] then ''.'' else join_with slash (rev ?out))" using False by (simp add: Clean_def Let_def)
  have "kept False []" by (auto simp: kept_def)
  then have "kept False ?out" by (intro kept_fold) (use split_segment in blast)+
  then obtain k ps where o: "?out = rev ps @ replicate k ''..''" "\<forall>e \<in> set ps. plain_elem e" by (auto simp: kept_def)
  have "k = 0"
  proof (rule ccontr)
    assume "k \<noteq> 0"
    then obtain n where "k = Suc n" by (cases k) simp_all
    then have "rev ?out = ''..'' # (replicate n ''..'' @ ps)" using o(1) by (simp add: replicate_append_same)
    then have "\<exists>t. join_with slash (rev ?out) = ''..'' @ t"
      by (cases "replicate n ''..'' @ ps") auto
    then have "has_prefix (Clean p) ''..''" using c o(1) \<open>k \<noteq> 0\<close> by (auto simp: has_prefix_iff)
    then show False using assms(1) by simp
  qed
  then have "Clean p = (if ps = [] then ''.'' else join_with slash ps)" using c o(1) by auto
  then show ?thesis using that o(2) by blast
qed (use that [of "[]"] in \<open>simp add: Clean_def\<close>)

section \<open>Staying below a directory\<close>

text \<open>A cleaned absolute path other than the root directory.\<close>

definition clean_root :: "string \<Rightarrow> bool" where
  "clean_root d \<longleftrightarrow> (\<exists>es. es \<noteq> [] \<and> (\<forall>e \<in> set es. plain_elem e) \<and> d = slash # join_with slash es)"

definition inside :: "string \<Rightarrow> string \<Rightarrow> bool" where
  "inside d p \<longleftrightarrow> p = d \<or> (\<exists>es. es \<noteq> [] \<and> (\<forall>e \<in> set es. plain_elem e) \<and> p = d @ slash # join_with slash es)"

lemma join_with_append: "es \<noteq> [] \<Longrightarrow> fs \<noteq> [] \<Longrightarrow> join_with c (es @ fs) = join_with c es @ c # join_with c fs"
  by (induction c es rule: join_with.induct) (auto simp: neq_Nil_conv)

lemma Join_root:
  assumes "\<forall>e \<in> set es. plain_elem e" and "es \<noteq> []" and "rel \<noteq> []"
  shows "path_Join [slash # join_with slash es, rel] =
    slash # join_with slash (rev (fold (clean_step True) (split_byte rel slash) (rev es)))"
proof -
  have "split_byte (slash # join_with slash es @ slash # rel) slash = [] # es @ split_byte rel slash"
    using split_append_sep [of "[]" slash] split_append_sep [of "join_with slash es"] split_segments [of es] assms(1,2) plain_segment
    by (simp add: split_append_sep)
  then show ?thesis
    using fold_clean_plain [OF assms(1), of True "[]"] by (simp add: path_Join_def Clean_def Let_def clean_step_def [of _ "[]"])
qed

lemma Join_root_plain:
  assumes "clean_root d" and "\<forall>e \<in> set ps. plain_elem e" and "ps \<noteq> []"
  shows "path_Join [d, join_with slash ps] = d @ slash # join_with slash ps"
proof -
  obtain es where es: "es \<noteq> []" "\<forall>e \<in> set es. plain_elem e" "d = slash # join_with slash es" using assms(1) by (auto simp: clean_root_def)
  have "join_with slash ps \<noteq> []" using assms(2,3) by (cases "(slash, ps)" rule: join_with.cases) (auto simp: plain_elem_def)
  then show ?thesis
    using Join_root [OF es(2,1)] split_segments [OF assms(3)] assms(2,3) es plain_segment fold_clean_plain [of ps True "rev es"]
    by (simp add: join_with_append)
qed

lemma Join_root_dot: "clean_root d \<Longrightarrow> path_Join [d, ''.''] = d"
  using Join_root [of _ "''.''"] by (auto simp: clean_root_def clean_step_def)

end
