(* ===== verification/Backends.thy ===== *)
theory Backends
  imports Paths
begin

text \<open>
  The storage backends of the registry (src/internal/backend): the interface, the one over a
  directory, and the ones over the mirror, bundle and HTTP-store libraries, which are parameters.
  A backend is what its calls return at one moment. A body is what reading gives: the bytes and,
  when the stream breaks, the error after them.
\<close>

section \<open>The interface\<close>

datatype read_error = NotFound | Unavailable nat | BackendError string

type_synonym body = "bytes \<times> string option"

record backend =
  be_BazelRegistryJSON :: "read_error + body"
  be_Metadata :: "string \<Rightarrow> read_error + body"
  be_ModuleBazel :: "string \<Rightarrow> string \<Rightarrow> read_error + body"
  be_SourceJSON :: "string \<Rightarrow> string \<Rightarrow> read_error + body"
  be_Patch :: "string \<Rightarrow> string \<Rightarrow> string \<Rightarrow> read_error + body"
  be_Overlay :: "string \<Rightarrow> string \<Rightarrow> string \<Rightarrow> read_error + body"
  be_Blob :: "string \<Rightarrow> read_error + body"

section \<open>A directory\<close>

text \<open>os.Open: what the operating system answers for a path.\<close>

datatype open_error = NotExist | OpenFailed string

type_synonym file_tree = "string \<Rightarrow> open_error + body"

definition openFile :: "file_tree \<Rightarrow> string \<Rightarrow> read_error + body" where
  "openFile fs path =
     (case fs path of
        Inl NotExist \<Rightarrow> Inl NotFound
      | Inl (OpenFailed err) \<Rightarrow> Inl (BackendError err)
      | Inr b \<Rightarrow> Inr b)"

definition has_separator :: "string \<Rightarrow> bool" where
  "has_separator s \<longleftrightarrow> CHR ''/'' \<in> set s \<or> CHR 0x5C \<in> set s"

definition climbs :: "string \<Rightarrow> bool" where
  "climbs clean \<longleftrightarrow> has_prefix clean ''..'' \<or> has_prefix clean ''/''"

definition file_open :: "string \<Rightarrow> file_tree \<Rightarrow> string \<Rightarrow> read_error + body" where
  "file_open dir fs rel = openFile fs (path_Join [dir, rel])"

text \<open>The paths that a call opens below the root, None where it refuses to.\<close>

definition file_Metadata :: "string \<Rightarrow> string" where
  "file_Metadata m = path_Join [''modules'', m, ''metadata.json'']"

definition file_Version :: "string \<Rightarrow> string \<Rightarrow> string \<Rightarrow> string" where
  "file_Version m v name = path_Join [''modules'', m, v, name]"

definition file_Patch :: "string \<Rightarrow> string \<Rightarrow> string \<Rightarrow> string option" where
  "file_Patch m v filename =
     (if has_separator filename then None else Some (path_Join [''modules'', m, v, ''patches'', filename]))"

definition file_Overlay :: "string \<Rightarrow> string \<Rightarrow> string \<Rightarrow> string option" where
  "file_Overlay m v path =
     (let clean = Clean path
      in if climbs clean then None else Some (path_Join [''modules'', m, v, ''overlay'', clean]))"

definition file_Blob :: "string \<Rightarrow> string option" where
  "file_Blob key = (if has_separator key then None else Some (path_Join [''blobs'', key]))"

definition open_some :: "string \<Rightarrow> file_tree \<Rightarrow> string option \<Rightarrow> read_error + body" where
  "open_some dir fs rel = (case rel of None \<Rightarrow> Inl NotFound | Some p \<Rightarrow> file_open dir fs p)"

definition NewFile :: "string \<Rightarrow> file_tree \<Rightarrow> backend" where
  "NewFile dir fs =
     \<lparr>be_BazelRegistryJSON = file_open dir fs ''bazel_registry.json'',
      be_Metadata = (\<lambda>m. file_open dir fs (file_Metadata m)),
      be_ModuleBazel = (\<lambda>m v. file_open dir fs (file_Version m v ''MODULE.bazel'')),
      be_SourceJSON = (\<lambda>m v. file_open dir fs (file_Version m v ''source.json'')),
      be_Patch = (\<lambda>m v f. open_some dir fs (file_Patch m v f)),
      be_Overlay = (\<lambda>m v p. open_some dir fs (file_Overlay m v p)),
      be_Blob = (\<lambda>k. open_some dir fs (file_Blob k))\<rparr>"

section \<open>The mirror library\<close>

datatype bcrmirror_error =
    ErrModuleNotFound
  | ErrVersionNotFound
  | ErrPatchNotFound
  | ErrInvalidName
  | ErrNoMirror
  | MirrorOther string

record bcrmirror =
  bm_Path :: string
  bm_ReadModuleMetadata :: "string \<Rightarrow> bcrmirror_error + bytes"
  bm_ReadModuleBazel :: "string \<Rightarrow> string \<Rightarrow> bcrmirror_error + bytes"
  bm_ReadSourceJSON :: "string \<Rightarrow> string \<Rightarrow> bcrmirror_error + bytes"
  bm_ReadPatch :: "string \<Rightarrow> string \<Rightarrow> string \<Rightarrow> bcrmirror_error + bytes"

definition translateBCRMirrorErr :: "bcrmirror_error \<Rightarrow> read_error" where
  "translateBCRMirrorErr err = (case err of MirrorOther s \<Rightarrow> BackendError s | _ \<Rightarrow> NotFound)"

definition of_mirror :: "bcrmirror_error + bytes \<Rightarrow> read_error + body" where
  "of_mirror r = (case r of Inl err \<Rightarrow> Inl (translateBCRMirrorErr err) | Inr b \<Rightarrow> Inr (b, None))"

text \<open>True where the segment is rejected.\<close>

definition validateBCRSegment :: "string \<Rightarrow> bool" where
  "validateBCRSegment s \<longleftrightarrow>
     (if s = [] \<or> has_prefix s ''.'' then True
      else if has_separator s \<or> contains_sub s ''..'' then True
      else CHR 0x00 \<in> set s)"

definition mirror_Overlay :: "string \<Rightarrow> string \<Rightarrow> string \<Rightarrow> string \<Rightarrow> string option" where
  "mirror_Overlay dir m v path =
     (if validateBCRSegment m then None
      else if validateBCRSegment v then None
      else (let clean = Clean path
        in if climbs clean then None else Some (path_Join [dir, ''modules'', m, v, ''overlay'', clean])))"

definition mirror_Blob :: "string \<Rightarrow> string \<Rightarrow> string option" where
  "mirror_Blob dir key = (if has_separator key then None else Some (path_Join [dir, ''blobs'', key]))"

definition NewBCRMirror :: "bcrmirror \<Rightarrow> file_tree \<Rightarrow> backend" where
  "NewBCRMirror m fs =
     \<lparr>be_BazelRegistryJSON = openFile fs (path_Join [bm_Path m, ''bazel_registry.json'']),
      be_Metadata = (\<lambda>n. of_mirror (bm_ReadModuleMetadata m n)),
      be_ModuleBazel = (\<lambda>n v. of_mirror (bm_ReadModuleBazel m n v)),
      be_SourceJSON = (\<lambda>n v. of_mirror (bm_ReadSourceJSON m n v)),
      be_Patch = (\<lambda>n v f. of_mirror (bm_ReadPatch m n v f)),
      be_Overlay = (\<lambda>n v p. case mirror_Overlay (bm_Path m) n v p of None \<Rightarrow> Inl NotFound | Some p \<Rightarrow> openFile fs p),
      be_Blob = (\<lambda>k. case mirror_Blob (bm_Path m) k of None \<Rightarrow> Inl NotFound | Some p \<Rightarrow> openFile fs p)\<rparr>"

section \<open>The bundle and HTTP-store libraries\<close>

datatype bundle_error = BundleNotFound | BundleBlobNotFound | BundleOther string

record bundle_lib =
  bl_Read :: "string \<Rightarrow> bundle_error + bytes"
  bl_ReadBlob :: "string \<Rightarrow> bundle_error + body"

definition translateBundleErr :: "bundle_error \<Rightarrow> read_error" where
  "translateBundleErr err = (case err of BundleOther s \<Rightarrow> BackendError s | _ \<Rightarrow> NotFound)"

definition of_bundle :: "bundle_error + bytes \<Rightarrow> read_error + body" where
  "of_bundle r = (case r of Inl err \<Rightarrow> Inl (translateBundleErr err) | Inr b \<Rightarrow> Inr (b, None))"

definition NewBundle :: "bundle_lib \<Rightarrow> backend" where
  "NewBundle b =
     \<lparr>be_BazelRegistryJSON = of_bundle (bl_Read b ''bazel_registry.json''),
      be_Metadata = (\<lambda>m. of_bundle (bl_Read b (path_Join [''modules'', m, ''metadata.json'']))),
      be_ModuleBazel = (\<lambda>m v. of_bundle (bl_Read b (path_Join [''modules'', m, v, ''MODULE.bazel'']))),
      be_SourceJSON = (\<lambda>m v. of_bundle (bl_Read b (path_Join [''modules'', m, v, ''source.json'']))),
      be_Patch = (\<lambda>m v f. of_bundle (bl_Read b (path_Join [''modules'', m, v, ''patches'', f]))),
      be_Overlay = (\<lambda>m v p. of_bundle (bl_Read b (path_Join [''modules'', m, v, ''overlay'', p]))),
      be_Blob = (\<lambda>k. case bl_ReadBlob b k of Inl err \<Rightarrow> Inl (translateBundleErr err) | Inr rc \<Rightarrow> Inr rc)\<rparr>"

datatype httpstore_error =
    StoreModuleNotFound
  | StoreVersionNotFound
  | StorePatchNotFound
  | StoreOverlayNotFound
  | StoreBlobNotFound
  | StoreRegistryJSONNotFound
  | StoreIndexUnreadable
  | StoreOther string

record httpstore_lib =
  hs_ReadBazelRegistryJSON :: "httpstore_error + bytes"
  hs_ReadMetadataJSON :: "string \<Rightarrow> httpstore_error + bytes"
  hs_ReadModuleBazel :: "string \<Rightarrow> string \<Rightarrow> httpstore_error + bytes"
  hs_ReadSourceJSON :: "string \<Rightarrow> string \<Rightarrow> httpstore_error + bytes"
  hs_ReadPatch :: "string \<Rightarrow> string \<Rightarrow> string \<Rightarrow> httpstore_error + bytes"
  hs_ReadOverlay :: "string \<Rightarrow> string \<Rightarrow> string \<Rightarrow> httpstore_error + bytes"
  hs_ReadBlob :: "string \<Rightarrow> httpstore_error + body"

definition translateHTTPStoreErr :: "httpstore_error \<Rightarrow> read_error" where
  "translateHTTPStoreErr err = (case err of StoreOther s \<Rightarrow> BackendError s | _ \<Rightarrow> NotFound)"

definition of_store :: "httpstore_error + bytes \<Rightarrow> read_error + body" where
  "of_store r = (case r of Inl err \<Rightarrow> Inl (translateHTTPStoreErr err) | Inr b \<Rightarrow> Inr (b, None))"

definition NewHTTPStore :: "httpstore_lib \<Rightarrow> backend" where
  "NewHTTPStore h =
     \<lparr>be_BazelRegistryJSON = of_store (hs_ReadBazelRegistryJSON h),
      be_Metadata = (\<lambda>m. of_store (hs_ReadMetadataJSON h m)),
      be_ModuleBazel = (\<lambda>m v. of_store (hs_ReadModuleBazel h m v)),
      be_SourceJSON = (\<lambda>m v. of_store (hs_ReadSourceJSON h m v)),
      be_Patch = (\<lambda>m v f. of_store (hs_ReadPatch h m v f)),
      be_Overlay = (\<lambda>m v p. of_store (hs_ReadOverlay h m v p)),
      be_Blob = (\<lambda>k. case hs_ReadBlob h k of Inl err \<Rightarrow> Inl (translateHTTPStoreErr err) | Inr rc \<Rightarrow> Inr rc)\<rparr>"

text \<open>
  The choice for a root directory: \<open>stat\<close> answers os.Stat, \<open>open_mirror\<close> the library's New and Open.
\<close>

definition NewFromRoot ::
  "(string \<Rightarrow> open_error option) \<Rightarrow> (string \<Rightarrow> string + bcrmirror) \<Rightarrow> file_tree \<Rightarrow> string \<Rightarrow> string + backend" where
  "NewFromRoot stat open_mirror fs dir =
     (case stat dir of
        Some NotExist \<Rightarrow> Inl (''backend.NewFromRoot: '' @ dir)
      | Some (OpenFailed err) \<Rightarrow> Inl (''backend.NewFromRoot: stat '' @ dir @ '': '' @ err)
      | None \<Rightarrow>
        (if stat (path_Join [dir, ''.git'']) = None
         then (case open_mirror dir of
             Inl err \<Rightarrow> Inl (''backend.NewFromRoot: open mirror at '' @ dir @ '': '' @ err)
           | Inr m \<Rightarrow> Inr (NewBCRMirror m fs))
         else Inr (NewFile dir fs)))"

section \<open>Confinement\<close>

text \<open>The paths of a call on the directory backend.\<close>

datatype read_call =
    CallRegistry
  | CallMetadata string
  | CallModuleBazel string string
  | CallSourceJSON string string
  | CallPatch string string string
  | CallOverlay string string string
  | CallBlob string

fun be_read :: "backend \<Rightarrow> read_call \<Rightarrow> read_error + body" where
  "be_read b CallRegistry = be_BazelRegistryJSON b"
| "be_read b (CallMetadata m) = be_Metadata b m"
| "be_read b (CallModuleBazel m v) = be_ModuleBazel b m v"
| "be_read b (CallSourceJSON m v) = be_SourceJSON b m v"
| "be_read b (CallPatch m v f) = be_Patch b m v f"
| "be_read b (CallOverlay m v p) = be_Overlay b m v p"
| "be_read b (CallBlob k) = be_Blob b k"

fun file_path :: "read_call \<Rightarrow> string option" where
  "file_path CallRegistry = Some ''bazel_registry.json''"
| "file_path (CallMetadata m) = Some (file_Metadata m)"
| "file_path (CallModuleBazel m v) = Some (file_Version m v ''MODULE.bazel'')"
| "file_path (CallSourceJSON m v) = Some (file_Version m v ''source.json'')"
| "file_path (CallPatch m v f) = file_Patch m v f"
| "file_path (CallOverlay m v p) = file_Overlay m v p"
| "file_path (CallBlob k) = file_Blob k"

text \<open>The module and version of a call, as a router gives them: single segments.\<close>

fun call_segments :: "read_call \<Rightarrow> string list" where
  "call_segments CallRegistry = []"
| "call_segments (CallMetadata m) = [m]"
| "call_segments (CallModuleBazel m v) = [m, v]"
| "call_segments (CallSourceJSON m v) = [m, v]"
| "call_segments (CallPatch m v f) = [m, v]"
| "call_segments (CallOverlay m v p) = [m, v]"
| "call_segments (CallBlob k) = []"

lemma be_read_file: "be_read (NewFile dir fs) c = open_some dir fs (file_path c)"
  by (cases c) (simp_all add: NewFile_def open_some_def)

lemma Join_segments:
  assumes "es \<noteq> []" and "\<forall>e \<in> set es. segment e" and "hd es = x" "x \<noteq> []"
  shows "path_Join es = (let out = rev (fold (clean_step False) es []) in if out = [] then ''.'' else join_with slash out)"
proof -
  obtain es' where es: "es = x # es'" using assms(1,3) by (cases es) auto
  have n: "join_with slash es \<noteq> []" using es assms(4) by (cases "(slash, es)" rule: join_with.cases) auto
  have "segment x" using es assms(2) by simp
  then have "hd x \<noteq> slash" using hd_in_set [OF assms(4)] by (metis segment_def)
  then have h: "hd (join_with slash es) \<noteq> slash"
    using es assms(4) by (cases "(slash, es)" rule: join_with.cases) (auto simp: segment_def hd_append)
  show ?thesis
    using n h split_segments [OF assms(1,2)] es assms(4) by (simp add: path_Join_def Clean_def Let_def)
qed

abbreviation plain_stack :: "string list \<Rightarrow> bool" where
  "plain_stack out \<equiv> (\<forall>e \<in> set out. plain_elem e)"

lemma clean_step_plain_stack: "plain_stack out \<Longrightarrow> segment e \<Longrightarrow> out \<noteq> [] \<or> e \<noteq> ''..'' \<Longrightarrow> plain_stack (clean_step False e out)"
  by (auto simp: clean_step_def plain_elem_def segment_def split: list.splits)

lemma version_stack:
  assumes "segment m" and "segment v" and "\<not> (m = ''..'' \<and> v = ''..'')"
  shows "plain_stack (fold (clean_step False) [''modules'', m, v] [])"
proof -
  have "plain_elem ''modules''" by (simp add: plain_elem_def)
  then show ?thesis using assms by (auto simp: clean_step_def plain_elem_def segment_def)
qed

lemma inside_Join:
  assumes "clean_root dir" and "es \<noteq> []" and "\<forall>e \<in> set es. segment e" and "hd es \<noteq> []" and "plain_stack (fold (clean_step False) es [])"
  shows "inside dir (path_Join [dir, path_Join es])"
proof (cases "fold (clean_step False) es [] = []")
  case True
  then have "path_Join es = ''.''" using Join_segments [OF assms(2,3) refl assms(4)] by simp
  then show ?thesis using Join_root_dot [OF assms(1)] by (simp add: inside_def)
next
  case False
  let ?ps = "rev (fold (clean_step False) es [])"
  have "path_Join es = join_with slash ?ps" using Join_segments [OF assms(2,3) refl assms(4)] False by (simp add: Let_def)
  moreover have "\<forall>e \<in> set ?ps. plain_elem e" using assms(5) by simp
  moreover have "?ps \<noteq> []" using False by simp
  ultimately show ?thesis using Join_root_plain [OF assms(1)] unfolding inside_def by metis
qed

text \<open>An overlay path as the segments it has after cleaning.\<close>

lemma overlay_segments:
  assumes "\<not> climbs (Clean p)"
  obtains ps where "ps \<noteq> []" "\<forall>e \<in> set ps. segment e \<and> e \<noteq> ''..''" "Clean p = join_with slash ps"
proof -
  obtain ps where ps: "\<forall>e \<in> set ps. plain_elem e" "Clean p = (if ps = [] then ''.'' else join_with slash ps)"
    by (rule Clean_relative [of p]) (use assms in \<open>simp_all add: climbs_def\<close>)
  show ?thesis
  proof (cases "ps = []")
    case True
    then show ?thesis using that [of "[''.'']"] ps(2) by (simp add: segment_def)
  next
    case False
    have "segment e \<and> e \<noteq> ''..''" if "e \<in> set ps" for e using ps(1) that by (auto simp: plain_elem_def segment_def)
    then show ?thesis using that [of ps] ps(2) False by simp
  qed
qed

lemma join_last: "ps \<noteq> [] \<Longrightarrow> es \<noteq> [] \<Longrightarrow> join_with c (es @ [join_with c ps]) = join_with c (es @ ps)"
  by (simp add: join_with_append)

lemma path_Join_last: "hd es \<noteq> [] \<Longrightarrow> es \<noteq> [] \<Longrightarrow> ps \<noteq> [] \<Longrightarrow> path_Join (es @ [join_with slash ps]) = path_Join (es @ ps)"
  using join_last [of ps es slash] by (cases es) (simp_all add: path_Join_def)

lemma fold_plain_stack: "plain_stack out \<Longrightarrow> \<forall>e \<in> set es. segment e \<and> e \<noteq> ''..'' \<Longrightarrow> plain_stack (fold (clean_step False) es out)"
  by (induction es arbitrary: out) (auto dest: clean_step_plain_stack)

lemma version_inside:
  assumes "clean_root dir" and "segment m" and "segment v" and "\<not> (m = ''..'' \<and> v = ''..'')"
    and "es \<noteq> []" and "\<forall>e \<in> set es. segment e" and "plain_stack (fold (clean_step False) es (fold (clean_step False) [''modules'', m, v] []))"
  shows "inside dir (path_Join [dir, path_Join (''modules'' # m # v # es)])"
  using assms by (intro inside_Join) (auto simp: segment_def)

text \<open>A directory of a version, a file in it, and one entry of the directory.\<close>

lemma version_tree:
  assumes "clean_root dir" and "segment m" and "segment v" and "\<not> (m = ''..'' \<and> v = ''..'')"
    and "plain_elem x" and "\<forall>e \<in> set es. segment e \<and> e \<noteq> ''..''"
  shows "inside dir (path_Join [dir, path_Join (''modules'' # m # v # x # es)])"
proof (rule version_inside [OF assms(1-4)])
  show "plain_stack (fold (clean_step False) (x # es) (fold (clean_step False) [''modules'', m, v] []))"
  proof (rule fold_plain_stack)
    show "plain_stack (fold (clean_step False) [''modules'', m, v] [])" by (rule version_stack [OF assms(2-4)])
    show "\<forall>e \<in> set (x # es). segment e \<and> e \<noteq> ''..''" using assms(5,6) plain_segment by (auto simp: plain_elem_def)
  qed
  show "\<forall>e \<in> set (x # es). segment e" using assms(5,6) plain_segment by auto
qed simp

lemmas version_file = version_tree [where es = "[]", simplified]

lemma version_dir:
  assumes "clean_root dir" and "segment m" and "segment v" and "\<not> (m = ''..'' \<and> v = ''..'')" and "plain_elem x" and "segment f"
  shows "inside dir (path_Join [dir, path_Join [''modules'', m, v, x, f]])"
proof (rule version_inside [OF assms(1-4)])
  let ?out = "fold (clean_step False) [''modules'', m, v] []"
  have "plain_stack ?out" by (rule version_stack [OF assms(2-4)])
  then have "plain_stack (x # ?out)" using assms(5) by simp
  then have "plain_stack (clean_step False f (x # ?out))" by (rule clean_step_plain_stack) (use assms(6) in simp_all)
  then show "plain_stack (fold (clean_step False) [x, f] ?out)"
    using clean_step_plain [OF assms(5)] by (simp only: fold_simps)
  show "\<forall>e \<in> set [x, f]. segment e" using assms(5,6) plain_segment by simp
qed simp

lemma parent_Join:
  assumes "clean_root dir"
  shows "path_Join [dir, join_with slash (''..'' # es)] = path_Join (dir # ''..'' # es)"
proof -
  have "dir \<noteq> []" using assms by (auto simp: clean_root_def)
  then show ?thesis by (cases es) (simp_all add: path_Join_def)
qed

text \<open>
  C26: with a cleaned root and single-segment module and version names, as the router gives them,
  every file that the directory backend opens lies below its root, whatever the overlay path, the
  patch name or the blob key is, unless module and version are both the parent directory: that one
  name climbs out of the root, and the version's files are read beside it.
\<close>

theorem file_confined:
  assumes "clean_root dir" and "\<forall>s \<in> set (call_segments c). segment s" and "file_path c = Some rel"
  shows "(call_segments c \<noteq> [''..'', ''..''] \<longrightarrow> inside dir (path_Join [dir, rel])) \<and>
    (c = CallModuleBazel ''..'' ''..'' \<longrightarrow> path_Join [dir, rel] = path_Join [dir, ''..'', ''MODULE.bazel''])"
proof (intro conjI impI)
  have names: "plain_elem ''MODULE.bazel''" "plain_elem ''source.json''" "plain_elem ''metadata.json''"
    "plain_elem ''patches''" "plain_elem ''overlay''" "plain_elem ''blobs''" "plain_elem ''bazel_registry.json''"
    by (simp_all add: plain_elem_def)
  note seg = names [THEN plain_segment]
  assume nc: "call_segments c \<noteq> [''..'', ''..'']"
  show "inside dir (path_Join [dir, rel])"
  proof (cases c)
    case CallRegistry
    then have "path_Join [dir, rel] = dir @ slash # join_with slash [''bazel_registry.json'']"
      using assms(3) Join_root_plain [OF assms(1), of "[''bazel_registry.json'']"] names(7) by simp
    then show ?thesis unfolding inside_def by (intro disjI2 exI [of _ "[''bazel_registry.json'']"]) (simp add: names(7))
  next
    case (CallMetadata m)
    have "plain_stack (fold (clean_step False) [''modules'', m, ''metadata.json''] [])"
      using assms(2) CallMetadata by (auto simp: clean_step_def plain_elem_def segment_def)
    moreover have "\<forall>e \<in> set [''modules'', m, ''metadata.json'']. segment e" using assms(2) CallMetadata by (simp add: segment_def)
    ultimately have "inside dir (path_Join [dir, path_Join [''modules'', m, ''metadata.json'']])" by (intro inside_Join [OF assms(1)]) simp_all
    then show ?thesis using assms(3) CallMetadata by (simp add: file_Metadata_def)
  next
    case (CallModuleBazel m v)
    then have "inside dir (path_Join [dir, path_Join [''modules'', m, v, ''MODULE.bazel'']])"
      by (intro version_file [OF assms(1)]) (use assms(2) nc names in simp_all)
    then show ?thesis using assms(3) CallModuleBazel by (simp add: file_Version_def)
  next
    case (CallSourceJSON m v)
    then have "inside dir (path_Join [dir, path_Join [''modules'', m, v, ''source.json'']])"
      by (intro version_file [OF assms(1)]) (use assms(2) nc names in simp_all)
    then show ?thesis using assms(3) CallSourceJSON by (simp add: file_Version_def)
  next
    case (CallPatch m v f)
    have f: "segment f" using assms(3) CallPatch by (auto simp: file_Patch_def has_separator_def segment_def split: if_splits)
    have "inside dir (path_Join [dir, path_Join [''modules'', m, v, ''patches'', f]])"
      by (intro version_dir [OF assms(1)]) (use assms(2) nc names f CallPatch in simp_all)
    then show ?thesis using assms(3) CallPatch by (simp add: file_Patch_def split: if_splits)
  next
    case (CallOverlay m v p)
    then have "\<not> climbs (Clean p)" "rel = path_Join [''modules'', m, v, ''overlay'', Clean p]"
      using assms(3) by (auto simp: file_Overlay_def Let_def split: if_splits)
    then obtain ps where ps: "ps \<noteq> []" "\<forall>e \<in> set ps. segment e \<and> e \<noteq> ''..''" "rel = path_Join ([''modules'', m, v, ''overlay''] @ ps)"
      using overlay_segments [of p] path_Join_last [of "[''modules'', m, v, ''overlay'']"] by (metis append_Cons append_Nil list.distinct(1) list.sel(1))
    have "inside dir (path_Join [dir, path_Join (''modules'' # m # v # ''overlay'' # ps)])"
      by (intro version_tree [OF assms(1)]) (use assms(2) nc names ps CallOverlay in simp_all)
    then show ?thesis using ps(3) by simp
  next
    case (CallBlob k)
    have k: "segment k" using assms(3) CallBlob by (auto simp: file_Blob_def has_separator_def segment_def split: if_splits)
    have "plain_stack (fold (clean_step False) [''blobs'', k] [])" using k by (auto simp: clean_step_def plain_elem_def segment_def)
    then have "inside dir (path_Join [dir, path_Join [''blobs'', k]])"
      by (intro inside_Join [OF assms(1)]) (use k seg in simp_all)
    then show ?thesis using assms(3) CallBlob by (simp add: file_Blob_def split: if_splits)
  qed
next
  have "path_Join [''modules'', ''..'', ''..'', ''MODULE.bazel''] = join_with slash [''..'', ''MODULE.bazel'']" by code_simp
  moreover assume "c = CallModuleBazel ''..'' ''..''"
  ultimately show "path_Join [dir, rel] = path_Join [dir, ''..'', ''MODULE.bazel'']"
    using assms(3) parent_Join [OF assms(1), of "[''MODULE.bazel'']"] by (simp add: file_Version_def)
qed

lemma file_confined_witness:
  "inside ''/srv/m'' (path_Join [''/srv/m'', file_Version ''rules_go'' ''..'' ''MODULE.bazel'']) \<and>
   path_Join [''/srv/m'', file_Version ''..'' ''..'' ''MODULE.bazel''] = ''/srv/MODULE.bazel''"
proof -
  have r: "clean_root ''/srv/m''"
    unfolding clean_root_def by (intro exI [of _ "[''srv'', ''m'']"]) (simp add: plain_elem_def)
  have s: "segment ''rules_go''" "segment ''..''" by (simp_all add: segment_def)
  have "path_Join [''/srv/m'', ''..'', ''MODULE.bazel''] = ''/srv/MODULE.bazel''" by code_simp
  then show ?thesis
    using file_confined [OF r, of "CallModuleBazel ''rules_go'' ''..''"] file_confined [OF r, of "CallModuleBazel ''..'' ''..''"] s
    by simp
qed

end
