(* ===== verification/Cascade.thy ===== *)
theory Cascade
  imports Backends Policy Publish
begin

text \<open>
  Federation (src/internal/backend/cascade.go, probe.go, probe_boot.go): a read goes to the primary
  and, when that does not have the file, to every upstream at once; the first success wins. The
  probes run concurrently: a probe is two atomic operations, the look into the cache and the
  handling of the answer, and the coordinator takes results in the order they arrive. Hooks run
  detached; their calls are recorded. Log lines are left out.
\<close>

section \<open>Construction\<close>

record upstream =
  us_URL :: string
  us_authHeader :: string
  us_reachable :: bool
  us_lastProbe :: int
  us_lastProbeLatency :: int
  us_lastProbeErrorMsg :: string

definition setReachable :: "int \<Rightarrow> bool \<Rightarrow> int \<Rightarrow> string \<Rightarrow> upstream \<Rightarrow> upstream" where
  "setReachable now r latency errMsg u =
     u\<lparr>us_reachable := r, us_lastProbe := now, us_lastProbeLatency := latency, us_lastProbeErrorMsg := errMsg\<rparr>"

text \<open>
  url.Parse gives an error, or the user and password of a URL that has them and the text of the URL
  without them.
\<close>

type_synonym url_parser = "string \<Rightarrow> string + ((string \<times> string) option \<times> string)"

definition splitURLUserinfo :: "url_parser \<Rightarrow> string \<Rightarrow> string + (string \<times> string)" where
  "splitURLUserinfo parse raw =
     (case parse raw of
        Inl err \<Rightarrow> Inl err
      | Inr (None, _) \<Rightarrow> Inr (raw, [])
      | Inr (Some (user, pass), stripped) \<Rightarrow>
        (let creds = base64 (user @ '':'' @ pass) in Inr (stripped, ''Basic '' @ creds)))"

text \<open>The promote hook and the collision logger are set or not; their calls, with the time of a logger's.\<close>

record cascade =
  ca_upstreams :: "upstream list"
  ca_cache :: response_cache
  ca_disableShadowDetection :: bool
  ca_promote :: bool
  ca_collisionLogger :: bool
  ca_collisionCoalesce :: "int gomap"
  ca_promoted :: "(string \<times> string) list"
  ca_logged :: "(int \<times> string \<times> string \<times> string \<times> string) list"

definition normalizeUpstream :: "url_parser \<Rightarrow> upstream \<Rightarrow> string + upstream" where
  "normalizeUpstream parse u =
     (case splitURLUserinfo parse (us_URL u) of
        Inl err \<Rightarrow> Inl (''backend: upstream '' @ quoted (us_URL u) @ '': '' @ err)
      | Inr (stripped, header) \<Rightarrow> Inr (u\<lparr>us_URL := trim_right_byte stripped (CHR ''/''), us_authHeader := header\<rparr>))"

fun normalizeUpstreams :: "url_parser \<Rightarrow> upstream list \<Rightarrow> string + upstream list" where
  "normalizeUpstreams parse [] = Inr []"
| "normalizeUpstreams parse (u # us) =
     (case normalizeUpstream parse u of
        Inl err \<Rightarrow> Inl err
      | Inr v \<Rightarrow> (case normalizeUpstreams parse us of Inl err \<Rightarrow> Inl err | Inr vs \<Rightarrow> Inr (v # vs)))"

definition NewCascade :: "url_parser \<Rightarrow> bool \<Rightarrow> upstream list \<Rightarrow> int \<Rightarrow> bool \<Rightarrow> string + cascade" where
  "NewCascade parse has_primary upstreams cacheCapacity disableShadow =
     (if \<not> has_primary then Inl ''backend: Cascade requires Primary''
      else (let capacity = (if cacheCapacity = 0 then 1000 else cacheCapacity)
        in case normalizeUpstreams parse upstreams of
             Inl err \<Rightarrow> Inl err
           | Inr us \<Rightarrow> Inr \<lparr>ca_upstreams = us, ca_cache = newResponseCache capacity, ca_disableShadowDetection = disableShadow,
               ca_promote = False, ca_collisionLogger = False, ca_collisionCoalesce = [], ca_promoted = [], ca_logged = []\<rparr>))"

definition SetPromoteHook :: "bool \<Rightarrow> cascade \<Rightarrow> cascade" where
  "SetPromoteHook hook c = c\<lparr>ca_promote := hook\<rparr>"

definition SetCollisionLogger :: "bool \<Rightarrow> cascade \<Rightarrow> cascade" where
  "SetCollisionLogger hook c = c\<lparr>ca_collisionLogger := hook\<rparr>"

section \<open>The hooks\<close>

definition extractModuleVersion :: "string \<Rightarrow> (string \<times> string) option" where
  "extractModuleVersion relPath =
     (if \<not> has_prefix relPath ''modules/'' then None
      else (let rest = drop (length ''modules/'') relPath
        in case index_byte rest (CHR ''/'') of
             None \<Rightarrow> None
           | Some i \<Rightarrow>
             (if i = 0 then None
              else (let m = take i rest; rest = drop (i + 1) rest
                in case index_byte rest (CHR ''/'') of
                     None \<Rightarrow> None
                   | Some j \<Rightarrow>
                     (if j = 0 then None
                      else (let version = take j rest
                        in if m = [] \<or> version = [] then None else Some (m, version)))))))"

definition collisionCoalesceWindow :: int where
  "collisionCoalesceWindow = 5 * 60 * second"

definition collision_key :: "string \<Rightarrow> string \<Rightarrow> string \<Rightarrow> string \<Rightarrow> string" where
  "collision_key m version sourceURL kind = m @ ''@'' @ version @ '':'' @ sourceURL @ '':'' @ kind"

definition logCollision :: "int \<Rightarrow> string \<Rightarrow> string \<Rightarrow> string \<Rightarrow> string \<Rightarrow> cascade \<Rightarrow> cascade" where
  "logCollision now m version sourceURL kind c =
     (if \<not> ca_collisionLogger c then c
      else (let key = collision_key m version sourceURL kind
        in if (case map_of (ca_collisionCoalesce c) key of None \<Rightarrow> False | Some t \<Rightarrow> now - t < collisionCoalesceWindow) then c
           else c\<lparr>ca_collisionCoalesce := AList.update key now (ca_collisionCoalesce c),
                  ca_logged := ca_logged c @ [(now, m, version, sourceURL, kind)]\<rparr>))"

section \<open>One probe\<close>

text \<open>An error of the request, or the answer.\<close>

datatype probe_error = Canceled | ProbeFailed string | BodyTooLarge string nat | BadStatus string int

record upstream_result =
  pr_Upstream :: string
  pr_Body :: "body option"
  pr_Status :: int
  pr_Err :: "probe_error option"

definition MaxCascadeBodyBytes :: nat where
  "MaxCascadeBodyBytes = 16 * 1024 * 1024"

definition probe_key :: "upstream \<Rightarrow> string \<Rightarrow> string" where
  "probe_key up relPath = us_URL up @ '':'' @ relPath"

definition served_result :: "upstream \<Rightarrow> bytes \<Rightarrow> upstream_result" where
  "served_result up b = \<lparr>pr_Upstream = us_URL up, pr_Body = Some (b, None), pr_Status = 200, pr_Err = None\<rparr>"

definition failed_result :: "upstream \<Rightarrow> int \<Rightarrow> probe_error \<Rightarrow> upstream_result" where
  "failed_result up status err = \<lparr>pr_Upstream = us_URL up, pr_Body = None, pr_Status = status, pr_Err = Some err\<rparr>"

text \<open>The look into the cache: a hit is the result of the probe.\<close>

definition probe_lookup :: "int \<Rightarrow> upstream \<Rightarrow> string \<Rightarrow> cascade \<Rightarrow> upstream_result option \<times> cascade" where
  "probe_lookup now up relPath c =
     (case cacheGet now (probe_key up relPath) (ca_cache c) of
        (hit, cache) \<Rightarrow> (map_option (served_result up) hit, c\<lparr>ca_cache := cache\<rparr>))"

text \<open>The URL of the request and its Authorization header, if any.\<close>

definition probe_request :: "upstream \<Rightarrow> string \<Rightarrow> string \<times> string option" where
  "probe_request up relPath =
     (us_URL up @ ''/'' @ trim_left_byte relPath (CHR ''/''), if us_authHeader up \<noteq> [] then Some (us_authHeader up) else None)"

text \<open>The handling of the answer to that request.\<close>

definition promote_hook :: "string \<Rightarrow> cascade \<Rightarrow> cascade" where
  "promote_hook relPath c =
     (case extractModuleVersion relPath of
        Some (m, version) \<Rightarrow> if ca_promote c then c\<lparr>ca_promoted := ca_promoted c @ [(m, version)]\<rparr> else c
      | None \<Rightarrow> c)"

definition probe_answer :: "int \<Rightarrow> upstream \<Rightarrow> string \<Rightarrow> probe_error + http_response \<Rightarrow> cascade \<Rightarrow> upstream_result \<times> cascade" where
  "probe_answer now up relPath answer c =
     (case answer of
        Inl err \<Rightarrow> (failed_result up 0 err, c)
      | Inr resp \<Rightarrow>
        (if hr_Status resp = 200
         then (case read_limited (MaxCascadeBodyBytes + 1) resp of
             Inl readErr \<Rightarrow> (failed_result up 0 (ProbeFailed readErr), c)
           | Inr b \<Rightarrow>
             (if length b > MaxCascadeBodyBytes then (failed_result up 0 (BodyTooLarge (us_URL up) (length b)), c)
              else (served_result up b,
                promote_hook relPath (c\<lparr>ca_cache := cachePut now (probe_key up relPath) b (cacheTTLFor relPath) (ca_cache c)\<rparr>))))
         else if hr_Status resp = 404 then (\<lparr>pr_Upstream = us_URL up, pr_Body = None, pr_Status = 404, pr_Err = None\<rparr>, c)
         else (failed_result up (hr_Status resp) (BadStatus (us_URL up) (hr_Status resp)), c)))"

text \<open>A probe on its own, from its start to its answer.\<close>

definition probeOne :: "int \<Rightarrow> int \<Rightarrow> upstream \<Rightarrow> string \<Rightarrow> probe_error + http_response \<Rightarrow> cascade \<Rightarrow> upstream_result \<times> cascade" where
  "probeOne start end_time up relPath answer c =
     (case probe_lookup start up relPath c of
        (Some res, c) \<Rightarrow> (res, c)
      | (None, c) \<Rightarrow> probe_answer end_time up relPath answer c)"

section \<open>The tally\<close>

fun tally :: "nat \<Rightarrow> nat \<Rightarrow> upstream_result list \<Rightarrow> read_error + (upstream_result \<times> upstream_result list)" where
  "tally sawNotFound sawError [] = Inl (if sawNotFound > 0 then NotFound else Unavailable sawError)"
| "tally sawNotFound sawError (res # rs) =
     (if pr_Err res = None \<and> pr_Status res = 200 then Inr (res, rs)
      else if pr_Err res = None \<and> pr_Status res = 404 then tally (sawNotFound + 1) sawError rs
      else tally sawNotFound (sawError + 1) rs)"

definition log_result :: "int \<Rightarrow> string \<Rightarrow> string \<Rightarrow> upstream_result \<Rightarrow> cascade \<Rightarrow> cascade" where
  "log_result now kind relPath res c =
     (case extractModuleVersion relPath of
        Some (m, version) \<Rightarrow> logCollision now m version (pr_Upstream res) kind c
      | None \<Rightarrow> c)"

text \<open>The results behind the winner, each when it arrives.\<close>

definition drainShadowed :: "string \<Rightarrow> (int \<times> upstream_result) list \<Rightarrow> cascade \<Rightarrow> cascade" where
  "drainShadowed relPath rs c =
     fold (\<lambda>(now, res) c. if pr_Err res = None \<and> pr_Status res = 200 then log_result now ''collision-shadowed'' relPath res c else c) rs c"

text \<open>
  The results come with their times, in the order of arrival: the answer to the caller, and the
  cascade after the detached drain.
\<close>

definition probeUpstreams :: "string \<Rightarrow> (int \<times> upstream_result) list \<Rightarrow> cascade \<Rightarrow> (read_error + body) \<times> cascade" where
  "probeUpstreams relPath rs c =
     (case tally 0 0 (map snd rs) of
        Inl err \<Rightarrow> (Inl err, c)
      | Inr (res, rest) \<Rightarrow>
        (let consumed = length rs - length rest;
             c = log_result (fst (rs ! (consumed - 1))) ''http-upstream'' relPath res c
         in (Inr (case pr_Body res of Some b \<Rightarrow> b | None \<Rightarrow> ([], None)),
             if ca_disableShadowDetection c then c else drainShadowed relPath (drop consumed rs) c)))"

definition cascadeGet ::
  "int \<Rightarrow> read_error + body \<Rightarrow> string \<Rightarrow> (int \<times> upstream_result) list \<Rightarrow> cascade \<Rightarrow> (read_error + body) \<times> cascade" where
  "cascadeGet now primary relPath rs c =
     (case primary of
        Inr rc \<Rightarrow>
          (Inr rc, case extractModuleVersion relPath of
             Some (m, v) \<Rightarrow> logCollision now m v ''local'' ''local'' c
           | None \<Rightarrow> c)
      | Inl err \<Rightarrow>
        (if err \<noteq> NotFound then (Inl err, c)
         else if ca_upstreams c = [] then (Inl NotFound, c)
         else probeUpstreams relPath rs c))"

text \<open>The path a call asks the upstreams for; None where it is refused first.\<close>

fun upstream_path :: "read_call \<Rightarrow> string option" where
  "upstream_path CallRegistry = Some ''bazel_registry.json''"
| "upstream_path (CallMetadata m) = Some (path_Join [''modules'', m, ''metadata.json''])"
| "upstream_path (CallModuleBazel m v) = Some (path_Join [''modules'', m, v, ''MODULE.bazel''])"
| "upstream_path (CallSourceJSON m v) = Some (path_Join [''modules'', m, v, ''source.json''])"
| "upstream_path (CallPatch m v f) = (if has_separator f then None else Some (path_Join [''modules'', m, v, ''patches'', f]))"
| "upstream_path (CallOverlay m v p) =
     (let clean = Clean p in if climbs clean then None else Some (path_Join [''modules'', m, v, ''overlay'', clean]))"
| "upstream_path (CallBlob k) = None"

definition cascade_read ::
  "int \<Rightarrow> backend \<Rightarrow> read_call \<Rightarrow> (int \<times> upstream_result) list \<Rightarrow> cascade \<Rightarrow> (read_error + body) \<times> cascade" where
  "cascade_read now primary call rs c =
     (case call of
        CallBlob k \<Rightarrow> (be_Blob primary k, c)
      | _ \<Rightarrow>
        (case upstream_path call of
           None \<Rightarrow> (Inl NotFound, c)
         | Some p \<Rightarrow> cascadeGet now (be_read primary call) p rs c))"

section \<open>Health checks\<close>

datatype ProbeErrorKind = ProbeNotBCR | ProbeTransientErr

text \<open>\<open>built\<close> is the error of building the request; the answer is the error of the round trip or the status.\<close>

definition ProbeUpstream ::
  "int \<Rightarrow> int \<Rightarrow> string option \<Rightarrow> string + int \<Rightarrow> upstream \<Rightarrow> (ProbeErrorKind \<times> string) option \<times> upstream" where
  "ProbeUpstream now latency built answer up =
     (case built of
        Some err \<Rightarrow> (Some (ProbeNotBCR, err), setReachable now False 0 err up)
      | None \<Rightarrow>
        (case answer of
           Inl err \<Rightarrow> (Some (ProbeTransientErr, err), setReachable now False latency err up)
         | Inr status \<Rightarrow>
           (if status = 200 then (None, setReachable now True latency [] up)
            else if status \<ge> 500 \<and> status < 600
              then (let msg = ''HTTP '' @ int_text status
                in (Some (ProbeTransientErr, msg), setReachable now False latency msg up))
            else (let msg = ''HTTP '' @ int_text status @ '' (not a BCR-shape registry)''
              in (Some (ProbeNotBCR, msg), setReachable now False latency msg up)))))"

definition IsProbeTransient :: "(ProbeErrorKind \<times> string) option \<Rightarrow> bool" where
  "IsProbeTransient err = (case err of Some (kind, _) \<Rightarrow> kind = ProbeTransientErr | None \<Rightarrow> False)"

text \<open>One tick of the loop: every upstream in its order, with the time and the answer of its probe.\<close>

definition probe_tick :: "(upstream \<Rightarrow> int \<times> int \<times> string option \<times> (string + int)) \<Rightarrow> cascade \<Rightarrow> cascade" where
  "probe_tick env c = c\<lparr>ca_upstreams := map (\<lambda>up. case env up of
     (now, latency, built, answer) \<Rightarrow> snd (ProbeUpstream now latency built answer up)) (ca_upstreams c)\<rparr>"

section \<open>What a read answers\<close>

definition won :: "upstream_result \<Rightarrow> bool" where
  "won r \<longleftrightarrow> pr_Err r = None \<and> pr_Status r = 200"

definition said_no :: "upstream_result \<Rightarrow> bool" where
  "said_no r \<longleftrightarrow> pr_Err r = None \<and> pr_Status r = 404"

lemma tally_exact:
  "tally nf er rs =
     (case find won rs of
        Some r \<Rightarrow> Inr (r, tl (dropWhile (\<lambda>r. \<not> won r) rs))
      | None \<Rightarrow> Inl (if 0 < nf \<or> (\<exists>r \<in> set rs. said_no r) then NotFound else Unavailable (er + length rs)))"
  by (induction nf er rs rule: tally.induct) (auto simp: won_def said_no_def split: option.splits)

text \<open>The answer to the caller in terms of the results in their order of arrival.\<close>

definition outcome :: "upstream_result list \<Rightarrow> read_error + body" where
  "outcome rs =
     (case find won rs of
        Some r \<Rightarrow> Inr (case pr_Body r of Some b \<Rightarrow> b | None \<Rightarrow> ([], None))
      | None \<Rightarrow> Inl (if \<exists>r \<in> set rs. said_no r then NotFound else Unavailable (length rs)))"

lemma probeUpstreams_outcome: "fst (probeUpstreams relPath rs c) = outcome (map snd rs)"
  by (auto simp: probeUpstreams_def outcome_def tally_exact Let_def split: option.splits)

lemma cascadeGet_outcome:
  "ca_upstreams c \<noteq> [] \<Longrightarrow> fst (cascadeGet now primary relPath rs c) =
     (case primary of Inr rc \<Rightarrow> Inr rc | Inl err \<Rightarrow> if err = NotFound then outcome (map snd rs) else Inl err)"
  by (auto simp: cascadeGet_def probeUpstreams_outcome split: sum.splits)

text \<open>
  C24: the kind of answer does not depend on the order in which the upstreams respond: a file that
  the primary has, or fails on, is answered without them; otherwise, in every order, the caller gets
  the body of one of the successes when there is one, "not found" when nobody had it and somebody
  said so, and "unavailable" only when every upstream failed.
\<close>

theorem cascade_order_independent:
  assumes "ca_upstreams c \<noteq> []" and "mset (map snd rs) = mset (map snd rs')"
  shows "(case fst (cascadeGet now primary relPath rs c) of
      Inl err \<Rightarrow> fst (cascadeGet now' primary relPath rs' c) = Inl err
    | Inr b \<Rightarrow> (primary = Inr b \<and> fst (cascadeGet now' primary relPath rs' c) = Inr b) \<or>
        primary = Inl NotFound \<and> (\<exists>r \<in> snd ` set rs. won r \<and> b = (case pr_Body r of Some b \<Rightarrow> b | None \<Rightarrow> ([], None))) \<and>
        (\<exists>b'. fst (cascadeGet now' primary relPath rs' c) = Inr b')) \<and>
    (\<forall>n. fst (cascadeGet now primary relPath rs c) = Inl (Unavailable n) \<longrightarrow>
      primary = Inl (Unavailable n) \<or> n = length rs \<and> (\<forall>r \<in> snd ` set rs. \<not> won r \<and> \<not> said_no r))"
proof -
  have s: "snd ` set rs = snd ` set rs'" using assms(2) by (metis list.set_map set_mset_mset)
  have l: "length rs = length rs'" using assms(2) by (metis length_map mset_eq_length)
  have f: "find won (map snd xs) = None \<longleftrightarrow> (\<forall>r \<in> snd ` set xs. \<not> won r)" for xs :: "(int \<times> upstream_result) list"
    by (auto simp: find_None_iff)
  show ?thesis
  proof (cases "find won (map snd rs)")
    case None
    then have "find won (map snd rs') = None" using f s by blast
    then have "outcome (map snd rs) = outcome (map snd rs')" using None s l by (simp add: outcome_def)
    then show ?thesis using None f [of rs] assms(1)
      by (auto simp: cascadeGet_outcome outcome_def split: sum.splits if_splits)
  next
    case (Some r)
    then have "find won (map snd rs') \<noteq> None" using f [of rs] f [of rs'] s by force
    then obtain r' where r': "find won (map snd rs') = Some r'" by blast
    have "r \<in> snd ` set rs" "won r" using Some by (auto simp: find_Some_iff)
    then show ?thesis using Some r' assms(1)
      by (cases primary) (auto simp: cascadeGet_outcome outcome_def)
  qed
qed

section \<open>What the cache serves\<close>

text \<open>The atomic operations of any number of probes, of any requests, in their order, with their times.\<close>

datatype fed_event =
    Look int upstream string
  | Reply int upstream string "probe_error + http_response"

fun fed_step :: "fed_event \<Rightarrow> cascade \<Rightarrow> cascade" where
  "fed_step (Look now up relPath) c = snd (probe_lookup now up relPath c)"
| "fed_step (Reply now up relPath a) c = snd (probe_answer now up relPath a c)"

definition backed :: "fed_event list \<Rightarrow> string \<times> bytes \<times> int \<Rightarrow> bool" where
  "backed es x \<longleftrightarrow> (case x of (k, v, d) \<Rightarrow> \<exists>t up relPath resp. Reply t up relPath (Inr resp) \<in> set es \<and> k = probe_key up relPath \<and>
     hr_Status resp = 200 \<and> hr_ReadError resp = None \<and> v = hr_Body resp \<and> d = t + cacheTTLFor relPath)"

definition fed_ok :: "fed_event list \<Rightarrow> cascade \<Rightarrow> bool" where
  "fed_ok es c \<longleftrightarrow> rc_capacity (ca_cache c) \<le> 0 \<or>
     response_ok (ca_cache c) \<and> (\<forall>x \<in> set (contents (rc_lru (ca_cache c))). backed es x)"

lemma cacheTTLFor_pos: "0 < cacheTTLFor p"
  by (simp add: cacheTTLFor_def second_def)

lemma cacheGet_contents:
  assumes "response_ok c"
  shows "set (contents (rc_lru (snd (cacheGet now k c)))) \<subseteq> set (contents (rc_lru c))"
    and "fst (cacheGet now k c) = Some v \<Longrightarrow> \<exists>x. (k, v, x) \<in> set (contents (rc_lru c)) \<and> now \<le> x"
proof -
  have w: "set (without k xs) \<subseteq> set xs" for xs :: "(string, bytes) contents" by (auto simp: without_def)
  show "set (contents (rc_lru (snd (cacheGet now k c)))) \<subseteq> set (contents (rc_lru c))"
    using responses.get_view [OF assms, of now k] w by (auto split: option.splits prod.splits if_splits dest!: map_of_SomeD)
  show "\<exists>x. (k, v, x) \<in> set (contents (rc_lru c)) \<and> now \<le> x" if "fst (cacheGet now k c) = Some v"
    using responses.get_hit [OF assms, of now k v] that by (auto dest!: map_of_SomeD)
qed

lemma backed_mono: "backed es x \<Longrightarrow> set es \<subseteq> set fs \<Longrightarrow> backed fs x"
  unfolding backed_def by (auto split: prod.splits) blast

lemma fed_step_ok:
  assumes "fed_ok es c"
  shows "fed_ok (es @ [e]) (fed_step e c)"
proof -
  have mono: "fed_ok es c' \<Longrightarrow> fed_ok (es @ [e]) c'" for c' using backed_mono [of es _ "es @ [e]"] by (auto simp: fed_ok_def)
  show ?thesis
  proof (cases e)
    case (Look now up relPath)
    have "fed_ok es (c\<lparr>ca_cache := snd (cacheGet now (probe_key up relPath) (ca_cache c))\<rparr>)"
    proof (cases "rc_capacity (ca_cache c) \<le> 0")
      case True
      then show ?thesis by (simp add: fed_ok_def cacheGet_def)
    next
      case False
      then have ok: "response_ok (ca_cache c)" using assms by (simp add: fed_ok_def)
      then show ?thesis
        using assms False cacheGet_contents(1) [OF ok] responses.get_ok [OF ok] by (auto simp: fed_ok_def)
    qed
    then show ?thesis using Look mono by (simp add: probe_lookup_def case_prod_beta)
  next
    case (Reply now up relPath a)
    have hook: "ca_cache (promote_hook relPath c') = ca_cache c'" for c'
      by (simp add: promote_hook_def split: option.splits prod.splits)
    show ?thesis
    proof (cases "\<exists>b. snd (probe_answer now up relPath a c) =
        promote_hook relPath (c\<lparr>ca_cache := cachePut now (probe_key up relPath) b (cacheTTLFor relPath) (ca_cache c)\<rparr>) \<and>
        (\<exists>resp. a = Inr resp \<and> hr_Status resp = 200 \<and> hr_ReadError resp = None \<and> b = hr_Body resp)")
      case False
      then have "snd (probe_answer now up relPath a c) = c"
        by (auto simp: probe_answer_def read_limited_def split: sum.splits option.splits if_splits)
      then show ?thesis using Reply assms mono by simp
    next
      case True
      then obtain b resp where b: "ca_cache (snd (probe_answer now up relPath a c)) = cachePut now (probe_key up relPath) b (cacheTTLFor relPath) (ca_cache c)"
        "a = Inr resp" "hr_Status resp = 200" "hr_ReadError resp = None" "b = hr_Body resp" using hook by force
      have new: "backed (es @ [e]) (probe_key up relPath, b, now + cacheTTLFor relPath)"
        unfolding backed_def prod.case by (intro exI [of _ now] exI [of _ up] exI [of _ relPath] exI [of _ resp]) (use Reply b in simp)
      show ?thesis
      proof (cases "rc_capacity (ca_cache c) \<le> 0")
        case True
        then show ?thesis using Reply b(1) by (simp add: fed_ok_def cachePut_def)
      next
        case False
        then have ok: "response_ok (ca_cache c)" "\<forall>x \<in> set (contents (rc_lru (ca_cache c))). backed es x"
          using assms by (simp_all add: fed_ok_def)
        have "backed (es @ [e]) x" if "x \<in> set (take n (y # without k (contents (rc_lru (ca_cache c)))))" "backed (es @ [e]) y" for x y n k
          using set_take_subset that ok(2) backed_mono [of es x "es @ [e]"] by (fastforce simp: without_def)
        then show ?thesis
          using Reply b(1) new cachePut_refines [OF ok(1) cacheTTLFor_pos] by (simp add: fed_ok_def)
      qed
    qed
  qed
qed


section \<open>The collision log\<close>

type_synonym collision_call = "int \<times> string \<times> string \<times> string \<times> string"

definition call_key :: "collision_call \<Rightarrow> string" where
  "call_key x = (case x of (t, m, v, src, kind) \<Rightarrow> collision_key m v src kind)"

definition log_call :: "collision_call \<Rightarrow> cascade \<Rightarrow> cascade" where
  "log_call x c = (case x of (t, m, v, src, kind) \<Rightarrow> logCollision t m v src kind c)"

definition last_logged :: "collision_call list \<Rightarrow> string \<Rightarrow> int option" where
  "last_logged xs k = (let ys = filter (\<lambda>x. call_key x = k) xs in if ys = [] then None else Some (fst (last ys)))"

definition spaced :: "collision_call list \<Rightarrow> bool" where
  "spaced xs \<longleftrightarrow> sorted_wrt (\<lambda>a b. fst a \<le> fst b \<and> (call_key a = call_key b \<longrightarrow> collisionCoalesceWindow \<le> fst b - fst a)) xs"

definition recorded :: "collision_call list \<Rightarrow> collision_call \<Rightarrow> bool" where
  "recorded logs x \<longleftrightarrow> (\<exists>y \<in> set logs. call_key y = call_key x \<and> fst y \<le> fst x \<and> fst x - fst y < collisionCoalesceWindow)"

lemma last_logged_append:
  "last_logged (xs @ [x]) k = (if call_key x = k then Some (fst x) else last_logged xs k)"
  by (simp add: last_logged_def)

lemma last_logged_Some:
  assumes "last_logged xs k = Some t"
  shows "\<exists>y \<in> set xs. call_key y = k \<and> fst y = t"
proof -
  let ?ys = "filter (\<lambda>x. call_key x = k) xs"
  have "?ys \<noteq> []" "fst (last ?ys) = t" using assms by (auto simp: last_logged_def Let_def split: if_splits)
  then show ?thesis using last_in_set [of ?ys] by auto
qed

lemma last_logged_latest:
  assumes "sorted_wrt (\<lambda>a b. fst a \<le> fst b) xs" and "y \<in> set xs" and "call_key y = k"
  shows "\<exists>t. last_logged xs k = Some t \<and> fst y \<le> t"
  using assms
proof (induction xs rule: rev_induct)
  case (snoc x xs)
  then show ?case by (auto simp: last_logged_append sorted_wrt_append)
qed simp

definition log_ok :: "collision_call list \<Rightarrow> cascade \<Rightarrow> bool" where
  "log_ok calls c \<longleftrightarrow> ca_collisionLogger c \<and> map_of (ca_collisionCoalesce c) = last_logged (ca_logged c) \<and>
     spaced (ca_logged c) \<and> set (ca_logged c) \<subseteq> set calls \<and> (\<forall>x \<in> set calls. recorded (ca_logged c) x)"

lemma log_call_ok:
  assumes ok: "log_ok calls c" and late: "\<forall>y \<in> set calls. fst y \<le> fst x"
  shows "log_ok (calls @ [x]) (log_call x c)"
proof -
  let ?logs = "ca_logged c"
  obtain t m v src kind where x: "x = (t, m, v, src, kind)" by (cases x)
  have lg: "ca_collisionLogger c" "map_of (ca_collisionCoalesce c) = last_logged ?logs" "spaced ?logs"
    "set ?logs \<subseteq> set calls" "\<forall>x \<in> set calls. recorded ?logs x" using ok by (simp_all add: log_ok_def)
  have key: "collision_key m v src kind = call_key x" by (simp add: x call_key_def)
  have before: "\<forall>y \<in> set ?logs. fst y \<le> t" using lg(4) late x by auto
  show ?thesis
  proof (cases "\<exists>s. last_logged ?logs (call_key x) = Some s \<and> t - s < collisionCoalesceWindow")
    case True
    then obtain s where s: "last_logged ?logs (call_key x) = Some s" "t - s < collisionCoalesceWindow" by blast
    then have "recorded ?logs x" using last_logged_Some [OF s(1)] before x unfolding recorded_def by force
    moreover have "log_call x c = c" using lg(1,2) s key by (simp add: x log_call_def logCollision_def Let_def)
    ultimately show ?thesis using lg by (auto simp: log_ok_def)
  next
    case False
    then have c: "log_call x c = c\<lparr>ca_collisionCoalesce := AList.update (call_key x) t (ca_collisionCoalesce c), ca_logged := ?logs @ [x]\<rparr>"
      using lg(1,2) key by (auto simp: x log_call_def logCollision_def Let_def split: option.splits)
    have sorted: "sorted_wrt (\<lambda>a b. fst a \<le> fst b) ?logs" using lg(3) unfolding spaced_def by (rule sorted_wrt_mono_rel [rotated]) simp
    have "collisionCoalesceWindow \<le> t - fst y" if "y \<in> set ?logs" "call_key y = call_key x" for y
      using last_logged_latest [OF sorted that] False by force
    then have "spaced (?logs @ [x])" using lg(3) before x by (auto simp: spaced_def sorted_wrt_append)
    moreover have "map_of (AList.update (call_key x) t (ca_collisionCoalesce c)) = last_logged (?logs @ [x])"
      using lg(2) x by (auto simp: fun_eq_iff update_conv' last_logged_append)
    moreover have "recorded (?logs @ [x]) y" if "y \<in> set calls" for y using lg(5) that by (auto simp: recorded_def)
    moreover have "recorded (?logs @ [x]) x" by (auto simp: recorded_def collisionCoalesceWindow_def second_def)
    ultimately show ?thesis using lg c by (auto simp: log_ok_def)
  qed
qed

text \<open>
  Of the calls to the collision logger, in any order that time allows, two that are let through
  for one version, source and kind lie at least five minutes apart, and every call that is not let
  through has one that was less than five minutes before; nothing else reaches the log.
\<close>

theorem collisions_coalesced:
  assumes "NewCascade parse True ups capacity d = Inr c" and "sorted (map fst calls)"
  shows "spaced (ca_logged (fold log_call calls (SetCollisionLogger True c))) \<and>
    set (ca_logged (fold log_call calls (SetCollisionLogger True c))) \<subseteq> set calls \<and>
    (\<forall>x \<in> set calls. recorded (ca_logged (fold log_call calls (SetCollisionLogger True c))) x)"
proof -
  have "log_ok [] (SetCollisionLogger True c)"
    using assms(1) by (auto simp: NewCascade_def Let_def SetCollisionLogger_def log_ok_def last_logged_def spaced_def fun_eq_iff split: sum.splits)
  then have "log_ok calls (fold log_call calls (SetCollisionLogger True c))"
    using assms(2)
  proof (induction calls rule: rev_induct)
    case (snoc x xs)
    then have "log_ok xs (fold log_call xs (SetCollisionLogger True c))" by (simp add: sorted_append)
    moreover have "\<forall>y \<in> set xs. fst y \<le> fst x" using snoc.prems(2) by (simp add: sorted_append)
    ultimately show ?case using log_call_ok by simp
  qed simp
  then show ?thesis by (simp add: log_ok_def)
qed

section \<open>A federation of two\<close>

definition plain_upstream :: "string \<Rightarrow> upstream" where
  "plain_upstream u = \<lparr>us_URL = u, us_authHeader = [], us_reachable = False, us_lastProbe = 0, us_lastProbeLatency = 0, us_lastProbeErrorMsg = []\<rparr>"

definition two_upstreams :: cascade where
  "two_upstreams = \<lparr>ca_upstreams = [plain_upstream ''https://a'', plain_upstream ''https://b''], ca_cache = newResponseCache 1000,
     ca_disableShadowDetection = False, ca_promote = False, ca_collisionLogger = False, ca_collisionCoalesce = [], ca_promoted = [], ca_logged = []\<rparr>"

lemma two_upstreams_new:
  "NewCascade (\<lambda>u. Inr (None, u)) True [plain_upstream ''https://a/'', plain_upstream ''https://b''] 0 False = Inr two_upstreams"
  by (simp add: NewCascade_def two_upstreams_def plain_upstream_def normalizeUpstream_def splitURLUserinfo_def trim_right_byte_def)

definition said_no_result :: "upstream \<Rightarrow> upstream_result" where
  "said_no_result up = \<lparr>pr_Upstream = us_URL up, pr_Body = None, pr_Status = 404, pr_Err = None\<rparr>"

lemma cascade_order_independent_witness:
  "fst (cascadeGet 0 (Inl NotFound) ''modules/m/1/source.json''
     [(1, failed_result (plain_upstream ''https://a'') 0 Canceled), (2, said_no_result (plain_upstream ''https://b''))] two_upstreams) = Inl NotFound \<and>
   fst (cascadeGet 0 (Inl NotFound) ''modules/m/1/source.json''
     [(1, said_no_result (plain_upstream ''https://b'')), (2, failed_result (plain_upstream ''https://a'') 0 Canceled)] two_upstreams) = Inl NotFound"
proof -
  let ?f = "failed_result (plain_upstream ''https://a'') 0 Canceled" and ?n = "said_no_result (plain_upstream ''https://b'')"
  have "ca_upstreams two_upstreams \<noteq> []" by (simp add: two_upstreams_def)
  moreover have "mset (map snd [(1 :: int, ?f), (2, ?n)]) = mset (map snd [(1 :: int, ?n), (2, ?f)])" by simp
  moreover have "fst (cascadeGet 0 (Inl NotFound) ''modules/m/1/source.json'' [(1, ?f), (2, ?n)] two_upstreams) = Inl NotFound" by code_simp
  ultimately show ?thesis
    using cascade_order_independent [of two_upstreams "[(1, ?f), (2, ?n)]" "[(1, ?n), (2, ?f)]" 0 "Inl NotFound" "''modules/m/1/source.json''" 0]
    by simp
qed


lemma collisions_coalesced_witness:
  "ca_logged (fold log_call [(0, ''m'', ''1'', ''https://a'', ''http-upstream''), (second, ''m'', ''1'', ''https://a'', ''http-upstream'')]
     (SetCollisionLogger True two_upstreams)) = [(0, ''m'', ''1'', ''https://a'', ''http-upstream'')] \<and>
   recorded [(0, ''m'', ''1'', ''https://a'', ''http-upstream'')] (second, ''m'', ''1'', ''https://a'', ''http-upstream'')"
proof -
  let ?x = "(0, ''m'', ''1'', ''https://a'', ''http-upstream'')" and ?y = "(second, ''m'', ''1'', ''https://a'', ''http-upstream'')"
  have l: "ca_logged (fold log_call [?x, ?y] (SetCollisionLogger True two_upstreams)) = [?x]" by code_simp
  have "sorted (map fst [?x, ?y])" by (simp add: second_def)
  from collisions_coalesced [OF two_upstreams_new this] show ?thesis using l by auto
qed

end
