(* ===== verification/Egress.thy ===== *)
theory Egress
  imports Http Policy
begin

text \<open>
  Outbound requests (src/internal/egress, src/internal/fetch/allowlist.go): the process-wide
  policy that every client consults, the audit events it emits, and the host allowlist of the
  registry client inside it. A request carries the text of its URL and the host of it as net/url
  gives them; the network answers the k-th request of a redirect chain.
\<close>

section \<open>The policy\<close>

datatype egress_mode = ModeAllow | ModeDeny | ModeAudit

definition mode_String :: "egress_mode \<Rightarrow> string" where
  "mode_String m = (case m of ModeAllow \<Rightarrow> ''allow'' | ModeDeny \<Rightarrow> ''deny'' | ModeAudit \<Rightarrow> ''audit'')"

definition ParseMode :: "string \<Rightarrow> string + egress_mode" where
  "ParseMode s =
     (if s = ''allow'' then Inr ModeAllow
      else if s = ''deny'' then Inr ModeDeny
      else if s = ''audit'' then Inr ModeAudit
      else Inl (''unknown egress mode '' @ quoted s @ '' (valid: allow, deny, audit)''))"

record egress_policy =
  ep_Mode :: egress_mode
  ep_Allow :: "string list"

record out_request =
  oq_Method :: string
  oq_URL :: string
  oq_Hostname :: string

text \<open>Each denial wraps ErrEgressForbidden.\<close>

datatype egress_denial =
    NilRequest
  | DeniesAll string
  | NotListed string

definition pattern_matches :: "string \<Rightarrow> string \<Rightarrow> bool" where
  "pattern_matches pat host \<longleftrightarrow> pat = host \<or> has_prefix pat ''*.'' \<and> has_suffix host (drop 1 pat)"

definition policy_Check :: "egress_policy \<Rightarrow> out_request option \<Rightarrow> egress_denial option" where
  "policy_Check p req =
     (case req of
        None \<Rightarrow> Some NilRequest
      | Some r \<Rightarrow>
        (if ep_Mode p = ModeDeny then Some (DeniesAll (oq_Hostname r))
         else if length (ep_Allow p) = 0 then None
         else (let host = to_lower (oq_Hostname r)
           in if list_ex (\<lambda>pat. pattern_matches (to_lower (trim_space pat)) host) (ep_Allow p) then None
           else Some (NotListed host))))"

section \<open>The audit trail\<close>

record egress_event =
  eg_TS :: string
  eg_Kind :: string
  eg_Verb :: string
  eg_Host :: string
  eg_URL :: string
  eg_Actor :: string
  eg_Outcome :: string
  eg_Reason :: string
  eg_Stack :: string
  eg_BytesIn :: int
  eg_Duration :: int

definition omit_zero :: "string \<Rightarrow> int \<Rightarrow> (string \<times> json) list" where
  "omit_zero k n = (if n = 0 then [] else [(k, JNum (int_text n))])"

text \<open>The outer duration_ms hides the one of the alias; a duration is truncated to milliseconds.\<close>

definition event_json :: "egress_event \<Rightarrow> json" where
  "event_json e = JObj
     ([(''ts'', JStr (eg_TS e)), (''kind'', JStr (eg_Kind e)), (''verb'', JStr (eg_Verb e)), (''host'', JStr (eg_Host e))]
      @ omit_empty ''url'' (eg_URL e) @ omit_empty ''actor'' (eg_Actor e) @ [(''outcome'', JStr (eg_Outcome e))]
      @ omit_empty ''reason'' (eg_Reason e) @ omit_empty ''stack'' (eg_Stack e) @ omit_zero ''bytes_in'' (eg_BytesIn e)
      @ omit_zero ''duration_ms'' (sgn (eg_Duration e) * (\<bar>eg_Duration e\<bar> div 1000000)))"

text \<open>A sink: none, or a stream to which each event is written as a line.\<close>

datatype egress_sink = NopSink | JSONLSink

definition Emit :: "egress_sink \<Rightarrow> egress_event \<Rightarrow> string \<Rightarrow> string" where
  "Emit s ev w = (case s of NopSink \<Rightarrow> w | JSONLSink \<Rightarrow> w @ Marshal (event_json ev) @ [CHR 0x0A])"

definition redactURL :: "string \<Rightarrow> string" where
  "redactURL u =
     (case index_sub u ''://'' of
        None \<Rightarrow> u
      | Some scheme \<Rightarrow>
        (case index_sub (drop (scheme + 3) u) ''@'' of
           None \<Rightarrow> u
         | Some i \<Rightarrow> take (scheme + 3) u @ drop (scheme + 3 + i + 1) u))"

definition httpVerb :: "out_request option \<Rightarrow> string" where
  "httpVerb req = (case req of None \<Rightarrow> ''http-unknown'' | Some r \<Rightarrow> ''http-'' @ to_lower (oq_Method r))"

text \<open>A frame of the call stack: its function, file and line.\<close>

definition isFrameSkipped :: "string \<Rightarrow> bool" where
  "isFrameSkipped name =
     (if has_prefix name ''net/http'' then True else contains_sub name ''/bzlhub/internal/egress.'')"

definition shortFile :: "string \<Rightarrow> string" where
  "shortFile path =
     (case last_index_sub path ''/bzlhub/'' of
        Some i \<Rightarrow> drop (i + length ''/bzlhub/'') path
      | None \<Rightarrow> (case last_index_sub path ''/'' of Some i \<Rightarrow> drop (i + 1) path | None \<Rightarrow> path))"

text \<open>Digits are written from the end of the buffer; \<open>acc\<close> is what has been written.\<close>

function int_digits :: "int \<Rightarrow> string \<Rightarrow> string" where
  "int_digits n acc = (if n > 0 then int_digits (n div 10) (char_of (48 + nat (n mod 10)) # acc) else acc)"
  by auto
termination by (relation "measure (\<lambda>(n, _). nat n)") auto

declare int_digits.simps [simp del]

definition intStr :: "int \<Rightarrow> string" where
  "intStr n =
     (if n = 0 then ''0''
      else (let neg = (n < 0);
                n = (if neg then (if n = - (2 ^ 63) then n else - n) else n);
                buf = int_digits n []
        in if neg then CHR ''-'' # buf else buf))"

definition callerStack :: "(string \<times> string \<times> int) list \<Rightarrow> string" where
  "callerStack frames =
     (case find (\<lambda>f. \<not> isFrameSkipped (fst f)) frames of
        None \<Rightarrow> []
      | Some (_, file, line) \<Rightarrow> shortFile file @ '':'' @ intStr line)"

section \<open>The transport\<close>

record transport_response = http_response +
  tr_Location :: string
  tr_ContentLength :: int
  tr_ContentType :: string

datatype transport_error =
    Forbidden egress_denial
  | HostDenied string string
  | NetworkError string
  | TooManyRedirects
  | BadLocation string

definition transport_text :: "transport_error \<Rightarrow> string" where
  "transport_text e =
     (case e of
        Forbidden NilRequest \<Rightarrow> ''egress forbidden by policy: nil request or URL''
      | Forbidden (DeniesAll host) \<Rightarrow> ''egress forbidden by policy: profile denies all egress (host='' @ host @ '')''
      | Forbidden (NotListed host) \<Rightarrow> ''egress forbidden by policy: host '' @ host @ '' not in allowlist''
      | HostDenied m u \<Rightarrow> m @ '' '' @ u @ '': egress: destination host not in allowlist''
      | NetworkError t \<Rightarrow> t
      | TooManyRedirects \<Rightarrow> ''stopped after 10 redirects''
      | BadLocation t \<Rightarrow> ''failed to parse Location header '' @ t)"

text \<open>What a round trip leaves: its result, the events emitted and the requests that reached the network.\<close>

type_synonym trip = "(transport_error + transport_response) \<times> egress_event list \<times> out_request list"

record egress_env =
  ev_TS :: string
  ev_Duration :: int
  ev_Frames :: "(string \<times> string \<times> int) list"

record policy_transport =
  pt_policy :: egress_policy
  pt_sink :: egress_sink

definition denialReason :: "transport_error \<Rightarrow> string" where
  "denialReason e = (case e of Forbidden _ \<Rightarrow> ''egress-policy-deny'' | _ \<Rightarrow> transport_text e)"

definition emitDenial :: "policy_transport \<Rightarrow> egress_env \<Rightarrow> out_request \<Rightarrow> transport_error \<Rightarrow> egress_event list" where
  "emitDenial t env req err =
     (if pt_sink t = NopSink then []
      else [\<lparr>eg_TS = ev_TS env, eg_Kind = ''egress'', eg_Verb = httpVerb (Some req), eg_Host = oq_Hostname req,
             eg_URL = redactURL (oq_URL req), eg_Actor = [], eg_Outcome = ''denied'', eg_Reason = denialReason err,
             eg_Stack = callerStack (ev_Frames env), eg_BytesIn = 0, eg_Duration = 0\<rparr>])"

definition emitOutcome ::
  "policy_transport \<Rightarrow> egress_env \<Rightarrow> out_request \<Rightarrow> transport_error + transport_response \<Rightarrow> egress_event list" where
  "emitOutcome t env req res =
     (if pt_sink t = NopSink then []
      else (let e = \<lparr>eg_TS = ev_TS env, eg_Kind = ''egress'', eg_Verb = httpVerb (Some req), eg_Host = oq_Hostname req,
             eg_URL = redactURL (oq_URL req), eg_Actor = [], eg_Outcome = [], eg_Reason = [], eg_Stack = [], eg_BytesIn = 0,
             eg_Duration = ev_Duration env\<rparr>
        in [case res of
              Inl err \<Rightarrow> e\<lparr>eg_Outcome := ''error'', eg_Reason := transport_text err\<rparr>
            | Inr resp \<Rightarrow> e\<lparr>eg_Outcome := ''ok'', eg_BytesIn := tr_ContentLength resp\<rparr>]))"

definition policy_RoundTrip :: "policy_transport \<Rightarrow> egress_env \<Rightarrow> (out_request \<Rightarrow> trip) \<Rightarrow> out_request \<Rightarrow> trip" where
  "policy_RoundTrip t env inner req =
     (case policy_Check (pt_policy t) (Some req) of
        Some d \<Rightarrow> (Inl (Forbidden d), emitDenial t env req (Forbidden d), [])
      | None \<Rightarrow>
        (case inner req of
           (res, evs, sent) \<Rightarrow>
             (res, evs @ (if ep_Mode (pt_policy t) = ModeAudit then emitOutcome t env req res else []), sent)))"

section \<open>The host allowlist\<close>

definition ParseAllowedHosts :: "string \<Rightarrow> string list" where
  "ParseAllowedHosts csv =
     (if trim_space csv = [] then [] else filter (\<lambda>p. p \<noteq> []) (map trim_space (split_byte csv (CHR '',''))))"

text \<open>\<open>hostname\<close> is the host of a parsed URL, \<open>None\<close> where net/url refuses it.\<close>

definition hostAllowed :: "(string \<Rightarrow> string option) \<Rightarrow> string \<Rightarrow> string list \<Rightarrow> bool" where
  "hostAllowed hostname rawURL allowedHosts =
     (if length allowedHosts = 0 then True
      else (case hostname rawURL of
          None \<Rightarrow> False
        | Some h \<Rightarrow>
          (let host = to_lower h
           in if host = [] then False
           else list_ex (\<lambda>p. let pat = to_lower (trim_space p) in pat \<noteq> [] \<and> pattern_matches pat host) allowedHosts)))"

definition network_trip :: "(out_request \<Rightarrow> string + transport_response) \<Rightarrow> out_request \<Rightarrow> trip" where
  "network_trip net req = (case net req of Inl err \<Rightarrow> Inl (NetworkError err) | Inr resp \<Rightarrow> Inr resp, [], [req])"

definition allowlist_RoundTrip :: "(string \<Rightarrow> string option) \<Rightarrow> string list \<Rightarrow> (out_request \<Rightarrow> trip) \<Rightarrow> out_request \<Rightarrow> trip" where
  "allowlist_RoundTrip hostname allowedHosts base req =
     (if \<not> hostAllowed hostname (oq_URL req) allowedHosts
      then (Inl (HostDenied (oq_Method req) (oq_URL req)), [], [])
      else base req)"

section \<open>Redirects\<close>

text \<open>
  http.Client.Do without a CheckRedirect: at most ten requests, each through the transport.
  \<open>resolve\<close> gives the next request, None for a Location that does not parse.
\<close>

definition is_redirect :: "int \<Rightarrow> bool" where
  "is_redirect code \<longleftrightarrow> code \<in> {301, 302, 303, 307, 308}"

fun follow :: "(nat \<Rightarrow> out_request \<Rightarrow> trip) \<Rightarrow> (out_request \<Rightarrow> string \<Rightarrow> out_request option) \<Rightarrow> nat \<Rightarrow> out_request \<Rightarrow> trip" where
  "follow send resolve 0 req = (Inl TooManyRedirects, [], [])"
| "follow send resolve (Suc k) req =
     (case send k req of
        (Inl err, evs, sent) \<Rightarrow> (Inl err, evs, sent)
      | (Inr resp, evs, sent) \<Rightarrow>
        (if \<not> is_redirect (hr_Status resp) \<or> tr_Location resp = [] then (Inr resp, evs, sent)
         else (case resolve req (tr_Location resp) of
             None \<Rightarrow> (Inl (BadLocation (quoted (tr_Location resp))), evs, sent)
           | Some req' \<Rightarrow>
             (case follow send resolve k req' of (res, evs', sent') \<Rightarrow> (res, evs @ evs', sent @ sent')))))"

text \<open>The client of fetch.NewClient: the policy outside, the allowlist inside.\<close>

record fetch_lib =
  fl_Hostname :: "string \<Rightarrow> string option"
  fl_Resolve :: "out_request \<Rightarrow> string \<Rightarrow> out_request option"
  fl_Net :: "nat \<Rightarrow> out_request \<Rightarrow> string + transport_response"
  fl_Env :: "nat \<Rightarrow> egress_env"

definition client_Do :: "fetch_lib \<Rightarrow> policy_transport \<Rightarrow> string list \<Rightarrow> out_request \<Rightarrow> trip" where
  "client_Do lib t allowed req =
     follow (\<lambda>k. policy_RoundTrip t (fl_Env lib k) (allowlist_RoundTrip (fl_Hostname lib) allowed (network_trip (fl_Net lib k))))
       (fl_Resolve lib) 10 req"

section \<open>What reaches the network\<close>

definition listed :: "string list \<Rightarrow> string \<Rightarrow> bool" where
  "listed pats host \<longleftrightarrow> (\<exists>pat \<in> set pats. to_lower (trim_space pat) = to_lower host \<or>
     (\<exists>dom. to_lower (trim_space pat) = CHR ''*'' # CHR ''.'' # dom \<and> (\<exists>sub. to_lower host = sub @ CHR ''.'' # dom)))"

lemma pattern_matches_iff:
  "pattern_matches pat host \<longleftrightarrow> pat = host \<or> (\<exists>dom. pat = CHR ''*'' # CHR ''.'' # dom \<and> (\<exists>sub. host = sub @ CHR ''.'' # dom))"
  by (auto simp: pattern_matches_def has_prefix_iff has_suffix_iff)

lemma policy_Check_None:
  "policy_Check p (Some r) = None \<longleftrightarrow> ep_Mode p \<noteq> ModeDeny \<and> (ep_Allow p = [] \<or> listed (ep_Allow p) (oq_Hostname r))"
  by (auto simp: policy_Check_def list_ex_iff listed_def pattern_matches_iff Let_def)

lemma hostAllowed_D:
  assumes "hostAllowed hostname u allowed"
  shows "allowed = [] \<or> (\<exists>h. hostname u = Some h \<and> h \<noteq> [] \<and> listed allowed h)"
proof (cases "hostname u")
  case (Some h)
  then have "allowed \<noteq> [] \<Longrightarrow> to_lower h \<noteq> [] \<and> listed allowed h"
    using assms by (auto simp: hostAllowed_def list_ex_iff listed_def pattern_matches_iff Let_def split: if_splits)
  then show ?thesis using Some by (auto simp: to_lower_def)
qed (use assms in \<open>simp add: hostAllowed_def split: if_splits\<close>)

lemma follow_sent:
  assumes "\<And>k r res evs sent. send k r = (res, evs, sent) \<Longrightarrow> (\<forall>x \<in> set sent. P x) \<and> length sent \<le> 1"
  shows "follow send resolve n req = (res, evs, sent) \<Longrightarrow> (\<forall>x \<in> set sent. P x) \<and> length sent \<le> n"
proof (induction n arbitrary: req res evs sent)
  case (Suc n)
  obtain r e s where st: "send n req = (r, e, s)" by (cases "send n req") auto
  note one = assms [OF st]
  show ?case
  proof (cases "\<exists>resp req'. r = Inr resp \<and> is_redirect (hr_Status resp) \<and> tr_Location resp \<noteq> [] \<and> resolve req (tr_Location resp) = Some req'")
    case True
    then obtain resp req' where t: "r = Inr resp" "is_redirect (hr_Status resp)" "tr_Location resp \<noteq> []"
        "resolve req (tr_Location resp) = Some req'" by blast
    obtain res' evs' sent' where f: "follow send resolve n req' = (res', evs', sent')" by (cases "follow send resolve n req'") auto
    show ?thesis using Suc.IH [OF f] Suc.prems st t f one by auto
  next
    case False
    then have "sent = s" using Suc.prems st by (cases r) (auto split: if_splits option.splits)
    then show ?thesis using one by simp
  qed
qed simp

text \<open>
  C22: whatever the servers answer and redirect to, a registry client sends at most ten requests,
  and every one of them goes to a host that the policy and the allowlist admit; under the deny
  mode nothing is sent at all.
\<close>

theorem redirects_stay_allowed:
  assumes "client_Do lib t allowed req = (res, evs, sent)"
  shows "length sent \<le> 10 \<and>
    (\<forall>r \<in> set sent. ep_Mode (pt_policy t) \<noteq> ModeDeny \<and>
      (ep_Allow (pt_policy t) = [] \<or> listed (ep_Allow (pt_policy t)) (oq_Hostname r)) \<and>
      (allowed = [] \<or> (\<exists>h. fl_Hostname lib (oq_URL r) = Some h \<and> h \<noteq> [] \<and> listed allowed h)))"
proof -
  let ?P = "\<lambda>r. ep_Mode (pt_policy t) \<noteq> ModeDeny \<and>
      (ep_Allow (pt_policy t) = [] \<or> listed (ep_Allow (pt_policy t)) (oq_Hostname r)) \<and>
      (allowed = [] \<or> (\<exists>h. fl_Hostname lib (oq_URL r) = Some h \<and> h \<noteq> [] \<and> listed allowed h))"
  have one: "(\<forall>x \<in> set sent. ?P x) \<and> length sent \<le> 1"
    if "policy_RoundTrip t (fl_Env lib k) (allowlist_RoundTrip (fl_Hostname lib) allowed (network_trip (fl_Net lib k))) r = (res, evs, sent)"
    for k r res evs sent
    using that hostAllowed_D [of "fl_Hostname lib" "oq_URL r" allowed]
    by (auto simp: policy_RoundTrip_def allowlist_RoundTrip_def network_trip_def policy_Check_None split: option.splits if_splits)
  have "(\<forall>x \<in> set sent. ?P x) \<and> length sent \<le> 10"
    by (rule follow_sent [OF _ assms [unfolded client_Do_def]]) (rule one)
  then show ?thesis by simp
qed

section \<open>What the audit log says\<close>

lemma follow_events:
  assumes "\<And>k r res evs sent. send k r = (res, evs, sent) \<Longrightarrow>
      (map eg_Host evs = map oq_Hostname sent \<or> sent = [] \<and> length evs \<le> 1 \<and> isl res)"
  shows "follow send resolve n req = (res, evs, sent) \<Longrightarrow>
    \<exists>rest. map eg_Host evs = map oq_Hostname sent @ rest \<and> length rest \<le> 1"
proof (induction n arbitrary: req res evs sent)
  case (Suc n)
  obtain r e s where st: "send n req = (r, e, s)" by (cases "send n req") auto
  note one = assms [OF st]
  show ?case
  proof (cases "\<exists>resp req'. r = Inr resp \<and> is_redirect (hr_Status resp) \<and> tr_Location resp \<noteq> [] \<and> resolve req (tr_Location resp) = Some req'")
    case True
    then obtain resp req' where t: "r = Inr resp" "is_redirect (hr_Status resp)" "tr_Location resp \<noteq> []"
        "resolve req (tr_Location resp) = Some req'" by blast
    obtain res' evs' sent' where f: "follow send resolve n req' = (res', evs', sent')" by (cases "follow send resolve n req'") auto
    show ?thesis using Suc.IH [OF f] Suc.prems st t f one by auto
  next
    case False
    then have "sent = s" "evs = e" using Suc.prems st by (cases r; auto split: if_splits option.splits)+
    then show ?thesis using one by auto
  qed
qed simp

lemma follow_quiet:
  assumes "\<And>k r res evs sent. send k r = (res, evs, sent) \<Longrightarrow>
      evs = [] \<or> isl res \<and> (\<exists>ev. evs = [ev] \<and> eg_Outcome ev = ''denied'')"
  shows "follow send resolve n req = (res, evs, sent) \<Longrightarrow> evs = [] \<or> (\<exists>ev. evs = [ev] \<and> eg_Outcome ev = ''denied'')"
proof (induction n arbitrary: req res evs sent)
  case (Suc n)
  obtain r e s where st: "send n req = (r, e, s)" by (cases "send n req") auto
  note one = assms [OF st]
  show ?case
  proof (cases r)
    case (Inr resp)
    then have "e = []" using one by auto
    then show ?thesis using Suc.prems Suc.IH st Inr by (auto split: if_splits option.splits prod.splits)
  qed (use Suc.prems st one in auto)
qed simp

lemma emit_hosts [simp]:
  "map eg_Host (emitOutcome t env r res) = (if pt_sink t = NopSink then [] else [oq_Hostname r])"
  "map eg_Host (emitDenial t env r err) = (if pt_sink t = NopSink then [] else [oq_Hostname r])"
  by (simp_all add: emitOutcome_def emitDenial_def Let_def split: sum.splits)

lemma emit_length [simp]: "length (emitOutcome t env r res) \<le> Suc 0" "length (emitDenial t env r err) \<le> Suc 0"
  by (simp_all add: emitOutcome_def emitDenial_def Let_def)

lemma emit_denied: "emitDenial t env r err = [] \<or> (\<exists>ev. emitDenial t env r err = [ev] \<and> eg_Outcome ev = ''denied'')"
  by (simp add: emitDenial_def)

text \<open>
  With a sink, the log of a request and its redirects accounts for everything that left: under
  the audit mode it names the hosts of the requests sent, in order, and at most one more that was
  refused; under the other modes it holds at most one event, a denial, and under the deny mode
  exactly one.
\<close>

theorem audit_log_complete:
  assumes "client_Do lib t allowed req = (res, evs, sent)" and "pt_sink t = JSONLSink"
  shows "case ep_Mode (pt_policy t) of
      ModeAudit \<Rightarrow> \<exists>rest. map eg_Host evs = map oq_Hostname sent @ rest \<and> length rest \<le> 1
    | ModeAllow \<Rightarrow> evs = [] \<or> (\<exists>ev. evs = [ev] \<and> eg_Outcome ev = ''denied'')
    | ModeDeny \<Rightarrow> sent = [] \<and> (\<exists>ev. evs = [ev] \<and> eg_Outcome ev = ''denied'' \<and> eg_Host ev = oq_Hostname req)"
proof -
  note defs = policy_RoundTrip_def allowlist_RoundTrip_def network_trip_def
  note run = assms(1) [unfolded client_Do_def]
  show ?thesis
  proof (cases "ep_Mode (pt_policy t)")
    case ModeAudit
    have "\<exists>rest. map eg_Host evs = map oq_Hostname sent @ rest \<and> length rest \<le> 1"
    proof (rule follow_events [OF _ run])
      fix k r res evs sent
      assume "policy_RoundTrip t (fl_Env lib k) (allowlist_RoundTrip (fl_Hostname lib) allowed (network_trip (fl_Net lib k))) r
        = (res, evs, sent)"
      then show "map eg_Host evs = map oq_Hostname sent \<or> sent = [] \<and> length evs \<le> 1 \<and> isl res"
        using ModeAudit assms(2)
        by (auto simp: defs split: option.splits if_splits)
    qed
    then show ?thesis using ModeAudit by simp
  next
    case ModeAllow
    have "evs = [] \<or> (\<exists>ev. evs = [ev] \<and> eg_Outcome ev = ''denied'')"
    proof (rule follow_quiet [OF _ run])
      fix k r res evs sent
      assume "policy_RoundTrip t (fl_Env lib k) (allowlist_RoundTrip (fl_Hostname lib) allowed (network_trip (fl_Net lib k))) r
        = (res, evs, sent)"
      then show "evs = [] \<or> isl res \<and> (\<exists>ev. evs = [ev] \<and> eg_Outcome ev = ''denied'')"
        using ModeAllow emit_denied [of t "fl_Env lib k" r] by (auto simp: defs split: option.splits if_splits)
    qed
    then show ?thesis using ModeAllow by simp
  next
    case ModeDeny
    then show ?thesis using run assms(2)
      by (auto simp: eval_nat_numeral defs policy_Check_def emitDenial_def)
  qed
qed

text \<open>
  Of a URL with a scheme, the audit log loses everything between the scheme and the first at
  sign: the credentials of a URL that carries some, but of a URL without any whose path or query has
  an at sign, the host and the beginning of the path.
\<close>

theorem redactURL_exact:
  assumes "CHR '':'' \<notin> set scheme" and "CHR ''@'' \<notin> set a"
  shows "redactURL (scheme @ ''://'' @ a @ CHR ''@'' # b) = scheme @ ''://'' @ b \<and>
    redactURL (scheme @ ''://'' @ a) = scheme @ ''://'' @ a"
proof -
  let ?u = "\<lambda>r. scheme @ CHR '':'' # CHR ''/'' # CHR ''/'' # r"
  have i: "index_sub (?u r) ''://'' = Some (length scheme)" for r
    using assms(1)
  proof (induction scheme)
    case (Cons c cs)
    then show ?case by (auto simp: has_prefix_def)
  qed (simp add: has_prefix_def)
  have d: "drop (length scheme + 3 + n) (?u r) = drop n r" "take (length scheme + 3) (?u r) = scheme @ ''://''" for r n
    by (simp_all add: eval_nat_numeral)
  have f: "index_sub (a @ CHR ''@'' # b) ''@'' = Some (length a)" "index_sub a ''@'' = None"
    using assms(2) by (induction a) (auto simp: has_prefix_def)
  have "redactURL (?u (a @ CHR ''@'' # b)) = take (length scheme + 3) (?u (a @ CHR ''@'' # b)) @
      drop (length scheme + 3 + (length a + 1)) (?u (a @ CHR ''@'' # b))"
    unfolding redactURL_def i option.case using d(1) [of 0 "a @ CHR ''@'' # b"] f(1) by (simp add: add.assoc)
  then have "redactURL (scheme @ ''://'' @ a @ CHR ''@'' # b) = scheme @ ''://'' @ b"
    by (simp only: d) simp
  moreover have "redactURL (scheme @ ''://'' @ a) = scheme @ ''://'' @ a"
    using d(1) [of 0 a] f(2) i [of a] by (simp add: redactURL_def)
  ultimately show ?thesis by blast
qed

section \<open>Instances\<close>

definition bcr_lib :: fetch_lib where
  "bcr_lib = \<lparr>fl_Hostname = (\<lambda>u. if u = ''https://bcr/x'' then Some ''bcr'' else Some ''evil''),
     fl_Resolve = (\<lambda>r l. Some \<lparr>oq_Method = ''GET'', oq_URL = l, oq_Hostname = ''evil''\<rparr>),
     fl_Net = (\<lambda>k r. Inr \<lparr>hr_Status = 302, hr_Body = [], hr_ReadError = None, tr_Location = ''https://evil/x'', tr_ContentLength = 0, tr_ContentType = []\<rparr>),
     fl_Env = (\<lambda>k. \<lparr>ev_TS = ''t'', ev_Duration = 5, ev_Frames = []\<rparr>)\<rparr>"

definition bcr_request :: out_request where
  "bcr_request = \<lparr>oq_Method = ''GET'', oq_URL = ''https://bcr/x'', oq_Hostname = ''bcr''\<rparr>"

abbreviation audit_transport :: policy_transport where
  "audit_transport \<equiv> \<lparr>pt_policy = \<lparr>ep_Mode = ModeAudit, ep_Allow = []\<rparr>, pt_sink = JSONLSink\<rparr>"

lemma bcr_chain:
  "fst (client_Do bcr_lib audit_transport [''bcr''] bcr_request) = Inl (HostDenied ''GET'' ''https://evil/x'')"
  "snd (snd (client_Do bcr_lib audit_transport [''bcr''] bcr_request)) = [bcr_request]"
  by code_simp+

text \<open>A listed host redirects to one that is not: one request is sent and two events are written.\<close>

lemma redirects_stay_allowed_witness:
  "snd (snd (client_Do bcr_lib audit_transport [''bcr''] bcr_request)) = [bcr_request] \<and> listed [''bcr''] ''bcr''"
proof -
  obtain res evs sent where r: "client_Do bcr_lib audit_transport [''bcr''] bcr_request = (res, evs, sent)"
    by (metis prod_cases3)
  then have "sent = [bcr_request]" using bcr_chain(2) by simp
  then show ?thesis using redirects_stay_allowed [OF r] r by (simp add: bcr_lib_def bcr_request_def)
qed

lemma audit_log_complete_witness:
  "\<exists>rest. map eg_Host (fst (snd (client_Do bcr_lib audit_transport [''bcr''] bcr_request))) = ''bcr'' # rest \<and> length rest \<le> 1"
proof -
  obtain res evs sent where r: "client_Do bcr_lib audit_transport [''bcr''] bcr_request = (res, evs, sent)"
    by (metis prod_cases3)
  then have "sent = [bcr_request]" using bcr_chain(2) by simp
  then show ?thesis using audit_log_complete [OF r] r by (simp add: bcr_request_def)
qed

lemma redactURL_exact_witness:
  "redactURL ''https://u:p@h/x'' = ''https://h/x'' \<and> redactURL ''https://h/rules@1.0/x'' = ''https://1.0/x''"
  using redactURL_exact [of "''https''" "''u:p''" "''h/x''"] redactURL_exact [of "''https''" "''h/rules''" "''1.0/x''"]
  by simp

end
