(* ===== verification/Registry.thy ===== *)
theory Registry
  imports Egress Publish
begin

text \<open>
  The registry client (src/internal/fetch/registry.go): the JSON documents and archives of a
  registry over the gated HTTP client. The joining of URLs is net/url's, a parameter; an error
  carries the sentinel it wraps; the text of a JSON decoder's error and the "Get ..." prefix of
  net/http's are left out.
\<close>

section \<open>Documents\<close>

record source_json =
  sj_Type :: string
  sj_URL :: string
  sj_Integrity :: string
  sj_StripPrefix :: string
  sj_ArchiveType :: string
  sj_Patches :: "string gomap"
  sj_PatchStrip :: int

record metadata_json =
  mj_Versions :: "string list"
  mj_YankedVersions :: "string gomap"
  mj_Homepage :: string

text \<open>Decoding into a map keeps its old entries; a null value is the zero string.\<close>

fun decode_map_members :: "(string \<times> json) list \<Rightarrow> string gomap \<Rightarrow> string gomap option" where
  "decode_map_members [] m = Some m"
| "decode_map_members ((k, j) # ms) m =
     (case decode_string j [] of None \<Rightarrow> None | Some s \<Rightarrow> decode_map_members ms (AList.update k s m))"

definition decode_string_map :: "json \<Rightarrow> string gomap \<Rightarrow> string gomap option" where
  "decode_string_map j old =
     (case j of JNull \<Rightarrow> Some [] | JObj ms \<Rightarrow> decode_map_members ms old | _ \<Rightarrow> None)"

definition decode_strings :: "json \<Rightarrow> string list option" where
  "decode_strings j =
     (case j of
        JNull \<Rightarrow> Some []
      | JArr js \<Rightarrow> those (map (\<lambda>e. decode_string e []) js)
      | _ \<Rightarrow> None)"

definition set_source_field :: "string \<Rightarrow> json \<Rightarrow> source_json \<Rightarrow> source_json option" where
  "set_source_field n j s =
     (if n = ''type'' then map_option (\<lambda>v. s\<lparr>sj_Type := v\<rparr>) (decode_string j (sj_Type s))
      else if n = ''url'' then map_option (\<lambda>v. s\<lparr>sj_URL := v\<rparr>) (decode_string j (sj_URL s))
      else if n = ''integrity'' then map_option (\<lambda>v. s\<lparr>sj_Integrity := v\<rparr>) (decode_string j (sj_Integrity s))
      else if n = ''strip_prefix'' then map_option (\<lambda>v. s\<lparr>sj_StripPrefix := v\<rparr>) (decode_string j (sj_StripPrefix s))
      else if n = ''archive_type'' then map_option (\<lambda>v. s\<lparr>sj_ArchiveType := v\<rparr>) (decode_string j (sj_ArchiveType s))
      else if n = ''patches'' then map_option (\<lambda>v. s\<lparr>sj_Patches := v\<rparr>) (decode_string_map j (sj_Patches s))
      else map_option (\<lambda>v. s\<lparr>sj_PatchStrip := v\<rparr>) (decode_int64 j (sj_PatchStrip s)))"

definition empty_source :: source_json where
  "empty_source = \<lparr>sj_Type = [], sj_URL = [], sj_Integrity = [], sj_StripPrefix = [], sj_ArchiveType = [],
     sj_Patches = [], sj_PatchStrip = 0\<rparr>"

definition decode_source :: "json \<Rightarrow> source_json option" where
  "decode_source j = decode_struct
     [''type'', ''url'', ''integrity'', ''strip_prefix'', ''archive_type'', ''patches'', ''patch_strip''] set_source_field j empty_source"

definition set_metadata_field :: "string \<Rightarrow> json \<Rightarrow> metadata_json \<Rightarrow> metadata_json option" where
  "set_metadata_field n j m =
     (if n = ''versions'' then map_option (\<lambda>v. m\<lparr>mj_Versions := v\<rparr>) (decode_strings j)
      else if n = ''yanked_versions'' then map_option (\<lambda>v. m\<lparr>mj_YankedVersions := v\<rparr>) (decode_string_map j (mj_YankedVersions m))
      else map_option (\<lambda>v. m\<lparr>mj_Homepage := v\<rparr>) (decode_string j (mj_Homepage m)))"

definition decode_metadata :: "json \<Rightarrow> metadata_json option" where
  "decode_metadata j = decode_struct [''versions'', ''yanked_versions'', ''homepage''] set_metadata_field j
     \<lparr>mj_Versions = [], mj_YankedVersions = [], mj_Homepage = []\<rparr>"

section \<open>The client\<close>

datatype fetch_sentinel = EgressDenied | EgressForbidden | FetchNotFound | ResponseTooLarge | OtherFailure

record fetch_error =
  fe_Is :: fetch_sentinel
  fe_Text :: string

definition plain_error :: "string \<Rightarrow> fetch_error" where
  "plain_error s = \<lparr>fe_Is = OtherFailure, fe_Text = s\<rparr>"

definition prefix_error :: "string \<Rightarrow> fetch_error \<Rightarrow> fetch_error" where
  "prefix_error what e = e\<lparr>fe_Text := what @ '': '' @ fe_Text e\<rparr>"

definition of_transport :: "transport_error \<Rightarrow> fetch_error" where
  "of_transport e =
     \<lparr>fe_Is = (case e of Forbidden _ \<Rightarrow> EgressForbidden | HostDenied _ _ \<Rightarrow> EgressDenied | _ \<Rightarrow> OtherFailure),
      fe_Text = transport_text e\<rparr>"

definition MaxJSONResponseBytes :: nat where
  "MaxJSONResponseBytes = 16 * 1024 * 1024"

definition readAllCapped :: "nat \<Rightarrow> transport_response \<Rightarrow> fetch_error + bytes" where
  "readAllCapped maxBytes resp =
     (case read_limited (maxBytes + 1) (http_response.truncate resp) of
        Inl err \<Rightarrow> Inl (plain_error err)
      | Inr body \<Rightarrow>
        (if length body > maxBytes
         then Inl \<lparr>fe_Is = ResponseTooLarge, fe_Text = ''fetch: response body exceeded cap: '' @ nat_text (length body) @ '' > '' @ nat_text maxBytes\<rparr>
         else Inr body))"

record registry_client =
  rg_Lib :: fetch_lib
  rg_Transport :: policy_transport
  rg_AllowedHosts :: "string list"
  rg_NewRequest :: "string \<Rightarrow> string + out_request"
  rg_JoinPath :: "string \<Rightarrow> string list \<Rightarrow> string + string"

definition client_get :: "registry_client \<Rightarrow> string \<Rightarrow> fetch_error + transport_response" where
  "client_get c u =
     (if \<not> hostAllowed (fl_Hostname (rg_Lib c)) u (rg_AllowedHosts c)
      then Inl \<lparr>fe_Is = EgressDenied, fe_Text = ''GET '' @ u @ '': egress: destination host not in allowlist''\<rparr>
      else (case rg_NewRequest c u of
          Inl err \<Rightarrow> Inl (plain_error err)
        | Inr req \<Rightarrow>
          (case fst (client_Do (rg_Lib c) (rg_Transport c) (rg_AllowedHosts c) req) of
             Inl err \<Rightarrow> Inl (of_transport err)
           | Inr resp \<Rightarrow>
             (if hr_Status resp < 200 \<or> hr_Status resp \<ge> 300
              then (if hr_Status resp = 404
                then Inl \<lparr>fe_Is = FetchNotFound, fe_Text = ''GET '' @ u @ '': registry: not found''\<rparr>
                else Inl (plain_error (''GET '' @ u @ '': HTTP '' @ int_text (hr_Status resp))))
              else Inr resp))))"

definition getRaw :: "registry_client \<Rightarrow> string \<Rightarrow> fetch_error + bytes" where
  "getRaw c u = (case client_get c u of Inl err \<Rightarrow> Inl err | Inr resp \<Rightarrow> readAllCapped MaxJSONResponseBytes resp)"

definition before_byte :: "string \<Rightarrow> char \<Rightarrow> string" where
  "before_byte s c = (case index_byte s c of None \<Rightarrow> s | Some i \<Rightarrow> take i s)"

definition getJSON :: "registry_client \<Rightarrow> string \<Rightarrow> fetch_error + bytes" where
  "getJSON c u =
     (case client_get c u of
        Inl err \<Rightarrow> Inl err
      | Inr resp \<Rightarrow>
        (let ct = tr_ContentType resp;
             mt = trim_space (to_lower (before_byte ct (CHR '';'')))
         in if ct \<noteq> [] \<and> (contains_sub mt ''html'' \<or> contains_sub mt ''xml'')
            then Inl (plain_error (''GET '' @ u @ '': unexpected Content-Type '' @ quoted ct @ '' (want JSON)''))
            else readAllCapped MaxJSONResponseBytes resp))"

definition joinURL :: "registry_client \<Rightarrow> string \<Rightarrow> string list \<Rightarrow> fetch_error + string" where
  "joinURL c registry segs =
     (case rg_JoinPath c (trim_right_byte registry (CHR ''/'')) segs of
        Inl err \<Rightarrow> Inl (plain_error (''invalid registry URL '' @ quoted registry @ '': '' @ err))
      | Inr u \<Rightarrow> Inr u)"

definition relabel :: "string \<Rightarrow> fetch_error + 'a \<Rightarrow> fetch_error + 'a" where
  "relabel what r = (case r of Inl err \<Rightarrow> Inl (prefix_error what err) | Inr x \<Rightarrow> Inr x)"

definition GetMetadataBytes :: "registry_client \<Rightarrow> string \<Rightarrow> string \<Rightarrow> fetch_error + bytes" where
  "GetMetadataBytes c registryURL m =
     (case joinURL c registryURL [''modules'', m, ''metadata.json''] of
        Inl err \<Rightarrow> Inl err
      | Inr u \<Rightarrow> relabel (''get metadata '' @ m) (getRaw c u))"

definition GetMetadata :: "registry_client \<Rightarrow> string \<Rightarrow> string \<Rightarrow> fetch_error + metadata_json" where
  "GetMetadata c registryURL m =
     (case joinURL c registryURL [''modules'', m, ''metadata.json''] of
        Inl err \<Rightarrow> Inl err
      | Inr u \<Rightarrow>
        (case relabel (''get metadata '' @ m) (getJSON c u) of
           Inl err \<Rightarrow> Inl err
         | Inr b \<Rightarrow>
           (case Option.bind (Unmarshal b) decode_metadata of
              None \<Rightarrow> Inl (plain_error (''parse metadata '' @ m))
            | Some md \<Rightarrow> Inr md)))"

definition ParseSourceJSON :: "bytes \<Rightarrow> fetch_error + source_json" where
  "ParseSourceJSON b =
     (case Option.bind (Unmarshal b) decode_source of
        None \<Rightarrow> Inl (plain_error ''parse source.json'')
      | Some s \<Rightarrow> Inr s)"

definition GetSourceJSONBytes :: "registry_client \<Rightarrow> string \<Rightarrow> string \<Rightarrow> string \<Rightarrow> fetch_error + bytes" where
  "GetSourceJSONBytes c registryURL m v =
     (case joinURL c registryURL [''modules'', m, v, ''source.json''] of
        Inl err \<Rightarrow> Inl err
      | Inr u \<Rightarrow> relabel (''get source.json '' @ m @ ''@'' @ v) (getRaw c u))"

definition GetSourceJSON :: "registry_client \<Rightarrow> string \<Rightarrow> string \<Rightarrow> string \<Rightarrow> fetch_error + source_json" where
  "GetSourceJSON c registryURL m v =
     (case GetSourceJSONBytes c registryURL m v of Inl err \<Rightarrow> Inl err | Inr b \<Rightarrow> ParseSourceJSON b)"

definition GetModuleBazel :: "registry_client \<Rightarrow> string \<Rightarrow> string \<Rightarrow> string \<Rightarrow> fetch_error + bytes" where
  "GetModuleBazel c registryURL m v =
     (case joinURL c registryURL [''modules'', m, v, ''MODULE.bazel''] of Inl err \<Rightarrow> Inl err | Inr u \<Rightarrow> getRaw c u)"

text \<open>The open body and the reader that verifies it as it is read.\<close>

definition FetchArchive :: "registry_client \<Rightarrow> source_json \<Rightarrow> fetch_error + (transport_response \<times> verifying_reader)" where
  "FetchArchive c src =
     (if sj_URL src = [] then Inl (plain_error ''source.json has no url'')
      else (case client_get c (sj_URL src) of
          Inl err \<Rightarrow> Inl (prefix_error (''fetch '' @ sj_URL src) err)
        | Inr resp \<Rightarrow> Inr (resp, NewVerifyingReader (sj_Integrity src))))"

section \<open>What a fetch returns\<close>

text \<open>The answer behind all redirects.\<close>

definition answers :: "registry_client \<Rightarrow> string \<Rightarrow> transport_response \<Rightarrow> bool" where
  "answers c u resp \<longleftrightarrow> hostAllowed (fl_Hostname (rg_Lib c)) u (rg_AllowedHosts c) \<and>
     (\<exists>req. rg_NewRequest c u = Inr req \<and> fst (client_Do (rg_Lib c) (rg_Transport c) (rg_AllowedHosts c) req) = Inr resp)"

lemma client_get_Inr: "client_get c u = Inr resp \<longleftrightarrow> answers c u resp \<and> ok_status (hr_Status resp)"
  by (auto simp: client_get_def answers_def ok_status_def split: sum.splits)

lemma readAllCapped_Inr:
  "readAllCapped cap resp = Inr b \<longleftrightarrow> b = hr_Body resp \<and> length b \<le> cap \<and> (hr_ReadError resp = None)"
  by (auto simp: readAllCapped_def read_limited_def http_response.truncate_def split: option.splits)

lemma client_get_Inl:
  "client_get c u = Inl e \<Longrightarrow> fe_Is e = FetchNotFound \<longleftrightarrow> (\<exists>resp. answers c u resp \<and> hr_Status resp = 404)"
  by (auto simp: client_get_def answers_def plain_error_def of_transport_def split: sum.splits if_splits transport_error.splits)

text \<open>
  A document is the whole body of a success answer of an admitted host that ended cleanly and fits
  the cap; "not found" is reported exactly when such a host answered 404, so a refusal by the
  policy, a broken body, an oversized body or another status is never taken for an absent module.
\<close>

theorem document_exact:
  "(getRaw c u = Inr b \<longleftrightarrow>
      (\<exists>resp. answers c u resp \<and> ok_status (hr_Status resp) \<and> hr_ReadError resp = None \<and>
        b = hr_Body resp \<and> length b \<le> MaxJSONResponseBytes)) \<and>
   ((\<exists>e. getRaw c u = Inl e \<and> fe_Is e = FetchNotFound) \<longleftrightarrow> (\<exists>resp. answers c u resp \<and> hr_Status resp = 404))"
proof -
  have one: "answers c u r \<Longrightarrow> answers c u r' \<Longrightarrow> r = r'" for r r' by (auto simp: answers_def)
  have cap: "readAllCapped n resp = Inl e \<Longrightarrow> fe_Is e \<noteq> FetchNotFound" for n resp e
    by (auto simp: readAllCapped_def plain_error_def split: sum.splits if_splits)
  show ?thesis
  proof (cases "client_get c u")
    case (Inl e)
    then have "\<not> (answers c u resp \<and> ok_status (hr_Status resp))" for resp using client_get_Inr [of c u resp] by simp
    then show ?thesis using Inl client_get_Inl [OF Inl] by (auto simp: getRaw_def)
  next
    case (Inr resp)
    then have a: "answers c u resp" "ok_status (hr_Status resp)" by (simp_all add: client_get_Inr)
    then have "hr_Status resp \<noteq> 404" by (auto simp: ok_status_def)
    then show ?thesis using Inr a one cap by (auto simp: getRaw_def readAllCapped_Inr)
  qed
qed

end
