(* ===== verification/Mirror.thy ===== *)
theory Mirror
  imports Registry
begin

text \<open>
  The mirror tree (src/internal/mirror/mirror.go): atomic file writes, the content-addressed blob
  sink and the merge of metadata.json. A disk maps paths to contents; a path is one of the places
  the writer uses, with module names, versions and blob names as single path segments. What each
  system call does is the environment of an operation.
\<close>

section \<open>The tree\<close>

datatype mirror_path =
    RegistryFile
  | MetadataFile string
  | SourceFile string string
  | ModuleFile string string
  | BlobFile string
  | TempFile string

type_synonym disk = "mirror_path \<Rightarrow> bytes option"

text \<open>
  The outcome of the calls of one write: the name CreateTemp picks, the bytes written before an
  error, and whether a Remove succeeds.
\<close>

record file_io =
  io_Stat :: "string option"
  io_Read :: "string option"
  io_MkdirAll :: "string option"
  io_CreateTemp :: "string + string"
  io_Write :: "(nat \<times> string) option"
  io_Sync :: "string option"
  io_Close :: "string option"
  io_Rename :: "string option"
  io_Removed :: bool

definition remove_temp :: "file_io \<Rightarrow> string \<Rightarrow> disk \<Rightarrow> disk" where
  "remove_temp io tmp d = (if io_Removed io then d(TempFile tmp := None) else d)"

text \<open>The disks a reader, or a crash, can see during the write, and its error.\<close>

definition atomicWrite_states :: "file_io \<Rightarrow> mirror_path \<Rightarrow> bytes \<Rightarrow> disk \<Rightarrow> string option \<times> disk list" where
  "atomicWrite_states io target data d =
     (case io_MkdirAll io of
        Some err \<Rightarrow> (Some err, [d])
      | None \<Rightarrow>
        (case io_CreateTemp io of
           Inl err \<Rightarrow> (Some err, [d])
         | Inr tmp \<Rightarrow>
           (let d1 = d(TempFile tmp \<mapsto> [])
            in case io_Write io of
                 Some (k, err) \<Rightarrow>
                   (let d2 = d(TempFile tmp \<mapsto> take k data) in (Some err, [d, d1, d2, remove_temp io tmp d2]))
               | None \<Rightarrow>
                 (let d2 = d(TempFile tmp \<mapsto> data)
                  in case io_Sync io of
                       Some err \<Rightarrow> (Some err, [d, d1, d2, remove_temp io tmp d2])
                     | None \<Rightarrow>
                       (case io_Close io of
                          Some err \<Rightarrow> (Some err, [d, d1, d2, remove_temp io tmp d2])
                        | None \<Rightarrow>
                          (case io_Rename io of
                             Some err \<Rightarrow> (Some err, [d, d1, d2, remove_temp io tmp d2])
                           | None \<Rightarrow> (None, [d, d1, d2, d2(TempFile tmp := None, target \<mapsto> data)])))))))"

definition atomicWrite :: "file_io \<Rightarrow> mirror_path \<Rightarrow> bytes \<Rightarrow> disk \<Rightarrow> string option \<times> disk" where
  "atomicWrite io target data d = map_prod id last (atomicWrite_states io target data d)"

definition EnsureRegistryJSON :: "file_io \<Rightarrow> disk \<Rightarrow> string option \<times> disk" where
  "EnsureRegistryJSON io d =
     (if io_Stat io = None \<and> d RegistryFile \<noteq> None then (None, d)
      else atomicWrite io RegistryFile (''{}'' @ [CHR 0x0A]) d)"

definition WriteSource :: "file_io \<Rightarrow> string \<Rightarrow> string \<Rightarrow> bytes \<Rightarrow> disk \<Rightarrow> string option \<times> disk" where
  "WriteSource io name version b d =
     (case io_MkdirAll io of Some err \<Rightarrow> (Some err, d) | None \<Rightarrow> atomicWrite io (SourceFile name version) b d)"

definition WriteModuleBazel :: "file_io \<Rightarrow> string \<Rightarrow> string \<Rightarrow> bytes \<Rightarrow> disk \<Rightarrow> string option \<times> disk" where
  "WriteModuleBazel io name version b d =
     (case io_MkdirAll io of Some err \<Rightarrow> (Some err, d) | None \<Rightarrow> atomicWrite io (ModuleFile name version) b d)"

section \<open>Blobs\<close>

record blob_sink =
  bs_tmp :: string
  bs_hashed :: bytes
  bs_bytes :: int

definition BlobWriter :: "file_io \<Rightarrow> disk \<Rightarrow> (string + blob_sink) \<times> disk" where
  "BlobWriter io d =
     (case io_MkdirAll io of
        Some err \<Rightarrow> (Inl err, d)
      | None \<Rightarrow>
        (case io_CreateTemp io of
           Inl err \<Rightarrow> (Inl err, d)
         | Inr tmp \<Rightarrow> (Inr \<lparr>bs_tmp = tmp, bs_hashed = [], bs_bytes = 0\<rparr>, d(TempFile tmp \<mapsto> []))))"

text \<open>One Write: the file takes the first n bytes of p.\<close>

definition sink_Write :: "nat \<Rightarrow> bytes \<Rightarrow> blob_sink \<times> disk \<Rightarrow> blob_sink \<times> disk" where
  "sink_Write n p sd =
     (case sd of (s, d) \<Rightarrow>
       (s\<lparr>bs_hashed := bs_hashed s @ take n p, bs_bytes := bs_bytes s + int (length (take n p))\<rparr>,
        d(TempFile (bs_tmp s) \<mapsto> (case d (TempFile (bs_tmp s)) of None \<Rightarrow> [] | Some b \<Rightarrow> b) @ take n p)))"

definition hex_text :: "bytes \<Rightarrow> string" where
  "hex_text bs = concat (map (\<lambda>c. [hex_lower (of_char c div 16), hex_lower (of_char c mod 16)]) bs)"

definition sink_Close ::
  "(bytes \<Rightarrow> bytes) \<Rightarrow> file_io \<Rightarrow> blob_sink \<Rightarrow> disk \<Rightarrow> (string + mirror_path \<times> string \<times> int) \<times> disk" where
  "sink_Close sha256 io s d =
     (case io_Sync io of
        Some err \<Rightarrow> (Inl err, remove_temp io (bs_tmp s) d)
      | None \<Rightarrow>
        (case io_Close io of
           Some err \<Rightarrow> (Inl err, remove_temp io (bs_tmp s) d)
         | None \<Rightarrow>
           (let sum = sha256 (bs_hashed s);
                final = BlobFile (hex_text sum);
                integrity = SRI sum
            in if io_Stat io = None \<and> d final \<noteq> None
               then (Inr (final, integrity, bs_bytes s), remove_temp io (bs_tmp s) d)
               else (case io_Rename io of
                   Some err \<Rightarrow> (Inl err, remove_temp io (bs_tmp s) d)
                 | None \<Rightarrow> (Inr (final, integrity, bs_bytes s),
                     d(TempFile (bs_tmp s) := None, final := d (TempFile (bs_tmp s))))))))"

definition sink_Abort :: "file_io \<Rightarrow> blob_sink \<Rightarrow> disk \<Rightarrow> disk" where
  "sink_Abort io s d = (if bs_tmp s \<noteq> [] then remove_temp io (bs_tmp s) d else d)"

section \<open>metadata.json\<close>

text \<open>
  A raw message is the value it parses to. \<open>Panicked\<close> is the assignment to a nil map.
\<close>

datatype merge_error = MergeFailed string | Panicked

definition upstreamMetadataLiftedFields :: "string list" where
  "upstreamMetadataLiftedFields = [''homepage'', ''maintainers'', ''repository'', ''yanked_versions'']"

text \<open>json.Unmarshal into a map of raw messages: \<open>Some None\<close> is the nil map that null leaves.\<close>

definition decode_raw_map :: "bytes \<Rightarrow> json gomap option option" where
  "decode_raw_map b =
     (case Unmarshal b of
        Some (JObj ms) \<Rightarrow> Some (Some (fold (\<lambda>(k, j) m. AList.update k j m) ms []))
      | Some JNull \<Rightarrow> Some None
      | _ \<Rightarrow> None)"

definition lift_fields :: "json gomap \<Rightarrow> json gomap \<Rightarrow> json gomap" where
  "lift_fields upstream m =
     fold (\<lambda>k m. case map_of upstream k of Some raw \<Rightarrow> AList.update k raw m | None \<Rightarrow> m) upstreamMetadataLiftedFields m"

definition merge_version :: "string \<Rightarrow> json gomap \<Rightarrow> merge_error + json gomap" where
  "merge_version version m =
     (case (case map_of m ''versions'' of None \<Rightarrow> Some [] | Some raw \<Rightarrow> decode_strings raw) of
        None \<Rightarrow> Inl (MergeFailed ''parse versions'')
      | Some versions \<Rightarrow>
        (let versions = (if version \<in> set versions then versions else sort (versions @ [version]))
         in Inr (AList.update ''versions'' (JArr (map JStr versions)) m)))"

definition MergeMetadataWithUpstream ::
  "file_io \<Rightarrow> string \<Rightarrow> string \<Rightarrow> bytes \<Rightarrow> disk \<Rightarrow> merge_error option \<times> disk" where
  "MergeMetadataWithUpstream io name version upstreamBytes d =
     (case io_MkdirAll io of
        Some err \<Rightarrow> (Some (MergeFailed err), d)
      | None \<Rightarrow>
        (case (case io_Read io of
               Some err \<Rightarrow> Inl (MergeFailed err)
             | None \<Rightarrow>
               (case d (MetadataFile name) of
                  None \<Rightarrow> Inr (Some [])
                | Some b \<Rightarrow> (case decode_raw_map b of None \<Rightarrow> Inl (MergeFailed ''parse existing metadata.json'') | Some m \<Rightarrow> Inr m))) of
           Inl err \<Rightarrow> (Some err, d)
         | Inr m \<Rightarrow>
           (case (if length upstreamBytes > 0 then decode_raw_map upstreamBytes else Some None) of
              None \<Rightarrow> (Some (MergeFailed ''parse upstream metadata.json''), d)
            | Some up \<Rightarrow>
              (case m of
                 None \<Rightarrow> (Some Panicked, d)
               | Some m \<Rightarrow>
                 (case merge_version version (lift_fields (case up of None \<Rightarrow> [] | Some u \<Rightarrow> u) m) of
                    Inl err \<Rightarrow> (Some err, d)
                  | Inr m \<Rightarrow>
                    (case atomicWrite io (MetadataFile name) (MarshalIndent (map_json m) @ [CHR 0x0A]) d of
                       (Some err, d) \<Rightarrow> (Some (MergeFailed err), d)
                     | (None, d) \<Rightarrow> (None, d)))))))"

definition MergeMetadata :: "file_io \<Rightarrow> string \<Rightarrow> string \<Rightarrow> disk \<Rightarrow> merge_error option \<times> disk" where
  "MergeMetadata io name version d = MergeMetadataWithUpstream io name version [] d"

section \<open>Atomicity\<close>

text \<open>A write names a temporary file that does not exist yet.\<close>

definition fresh_temp :: "file_io \<Rightarrow> disk \<Rightarrow> bool" where
  "fresh_temp io d \<longleftrightarrow> (\<forall>tmp. io_CreateTemp io = Inr tmp \<longrightarrow> d (TempFile tmp) = None)"

abbreviation served :: "mirror_path \<Rightarrow> bool" where
  "served p \<equiv> (\<forall>t. p \<noteq> TempFile t)"

lemma write_is_atomic_facts:
  assumes "atomicWrite_states io target data d = (err, ds)" and "fresh_temp io d" and "served target"
  shows "(\<forall>d' \<in> set ds. (d' target = d target \<or> d' target = Some data) \<and> (\<forall>p. served p \<and> p \<noteq> target \<longrightarrow> d' p = d p)) \<and>
    (err = None \<longrightarrow> last ds = d(target \<mapsto> data)) \<and>
    (err \<noteq> None \<longrightarrow> (\<forall>p. served p \<longrightarrow> last ds p = d p) \<and> (io_Removed io \<longrightarrow> last ds = d))"
proof (cases "io_CreateTemp io")
  case (Inl e)
  then show ?thesis using assms(1) by (auto simp: atomicWrite_states_def split: option.splits)
next
  case (Inr tmp)
  then have f: "d (TempFile tmp) = None" "target \<noteq> TempFile tmp" using assms(2,3) by (auto simp: fresh_temp_def)
  then have drop: "(d(TempFile tmp \<mapsto> x))(TempFile tmp := None) = d" for x by (auto simp: fun_eq_iff)
  have put: "(d(TempFile tmp \<mapsto> data))(TempFile tmp := None, target \<mapsto> data) = d(target \<mapsto> data)"
    using f by (auto simp: fun_eq_iff)
  show ?thesis
    using assms(1,3) Inr f put drop
    by (auto simp: atomicWrite_states_def remove_temp_def Let_def split: option.splits prod.splits if_splits)
qed

text \<open>
  C18: at every moment of a write, and so after a crash, the target holds its old content or the
  whole new one and no other served file has changed; the write reports success exactly when the
  new content is in place, and then nothing else is left behind, nor is there after a failure
  whose cleanup succeeds.
\<close>

theorem write_is_atomic:
  assumes "atomicWrite_states io target data d = (err, ds)" and "fresh_temp io d" and "served target"
  shows "(\<forall>d' \<in> set ds. (d' target = d target \<or> d' target = Some data) \<and> (\<forall>p. served p \<and> p \<noteq> target \<longrightarrow> d' p = d p)) \<and>
    (err = None \<longrightarrow> last ds = d(target \<mapsto> data)) \<and>
    (err \<noteq> None \<longrightarrow> (\<forall>p. served p \<longrightarrow> last ds p = d p) \<and> (io_Removed io \<longrightarrow> last ds = d))"
  by (rule write_is_atomic_facts [OF assms])

lemma atomicWrite_effect:
  assumes "atomicWrite io target data d = (err, d')" and "fresh_temp io d" and "served target"
  shows "err = None \<Longrightarrow> d' = d(target \<mapsto> data)" and "err \<noteq> None \<Longrightarrow> served p \<Longrightarrow> d' p = d p"
proof -
  obtain ds where ds: "atomicWrite_states io target data d = (err, ds)" "d' = last ds"
    using assms(1) by (cases "atomicWrite_states io target data d") (auto simp: atomicWrite_def)
  from write_is_atomic_facts [OF ds(1) assms(2,3)] ds(2)
  show "err = None \<Longrightarrow> d' = d(target \<mapsto> data)" and "err \<noteq> None \<Longrightarrow> served p \<Longrightarrow> d' p = d p" by auto
qed

section \<open>The merge\<close>

lemma fold_update_distinct:
  "distinct (map fst (acc @ ms)) \<Longrightarrow> fold (\<lambda>(k, j) m. AList.update k j m) ms acc = acc @ ms"
proof (induction ms arbitrary: acc)
  case (Cons x ms)
  obtain k j where x: "x = (k, j)" by (cases x)
  have "k \<notin> fst ` set acc" using Cons.prems x by auto
  then have "AList.update k j acc = acc @ [(k, j)]" by (induction acc) auto
  then show ?case using Cons x by simp
qed simp

abbreviation lift_keys :: "string list \<Rightarrow> json gomap \<Rightarrow> json gomap \<Rightarrow> json gomap" where
  "lift_keys ks u m \<equiv> fold (\<lambda>k m. case map_of u k of Some raw \<Rightarrow> AList.update k raw m | None \<Rightarrow> m) ks m"

lemma map_of_lift_keys:
  "map_of (lift_keys ks u m) k = (if k \<in> set ks \<and> map_of u k \<noteq> None then map_of u k else map_of m k)"
  by (induction ks arbitrary: m) (auto simp: update_conv' split: option.splits)

lemma distinct_lift_keys: "distinct (map fst m) \<Longrightarrow> distinct (map fst (lift_keys ks u m))"
  by (induction ks arbitrary: m) (auto simp: distinct_update split: option.splits)

lemmas map_of_lift_fields = map_of_lift_keys [where ks = upstreamMetadataLiftedFields, folded lift_fields_def]
lemmas distinct_lift_fields = distinct_lift_keys [where ks = upstreamMetadataLiftedFields, folded lift_fields_def]

definition merged_versions :: "string \<Rightarrow> string list \<Rightarrow> string list" where
  "merged_versions v vs = (if v \<in> set vs then vs else sort (vs @ [v]))"

definition versions_of :: "json gomap \<Rightarrow> string list option" where
  "versions_of m = (case map_of m ''versions'' of None \<Rightarrow> Some [] | Some raw \<Rightarrow> decode_strings raw)"

lemma merge_version_Inr:
  "merge_version v m = Inr m' \<longleftrightarrow>
     (\<exists>vs. versions_of m = Some vs \<and> m' = AList.update ''versions'' (JArr (map JStr (merged_versions v vs))) m)"
proof -
  have "merge_version v m = (case versions_of m of None \<Rightarrow> Inl (MergeFailed ''parse versions'')
      | Some vs \<Rightarrow> Inr (AList.update ''versions'' (JArr (map JStr (merged_versions v vs))) m))"
    by (simp only: merge_version_def versions_of_def merged_versions_def Let_def)
  then show ?thesis by (cases "versions_of m") auto
qed

lemma versions_of_lift [simp]: "versions_of (lift_fields u m) = versions_of m"
  by (simp add: versions_of_def map_of_lift_fields upstreamMetadataLiftedFields_def)

definition local_fields :: "string \<Rightarrow> disk \<Rightarrow> json gomap option" where
  "local_fields name d =
     (case d (MetadataFile name) of None \<Rightarrow> Some [] | Some b \<Rightarrow> (case decode_raw_map b of Some m \<Rightarrow> m | None \<Rightarrow> None))"

definition upstream_fields :: "bytes \<Rightarrow> json gomap" where
  "upstream_fields b = (if b = [] then [] else (case decode_raw_map b of Some (Some u) \<Rightarrow> u | _ \<Rightarrow> []))"

definition metadata_text :: "json gomap \<Rightarrow> bytes" where
  "metadata_text m = MarshalIndent (map_json m) @ [CHR 0x0A]"

lemma merge_success:
  assumes "MergeMetadataWithUpstream io name version up d = (None, d')" and "fresh_temp io d"
  obtains m vs where "local_fields name d = Some m" "versions_of m = Some vs"
    "d' = d(MetadataFile name \<mapsto> metadata_text (AList.update ''versions'' (JArr (map JStr (merged_versions version vs)))
       (lift_fields (upstream_fields up) m)))"
  using assms atomicWrite_effect(1) [OF _ assms(2)]
  by (fastforce simp: MergeMetadataWithUpstream_def local_fields_def upstream_fields_def metadata_text_def merge_version_Inr
      split: option.splits sum.splits prod.splits if_splits)

lemma merge_failure:
  assumes "MergeMetadataWithUpstream io name version up d = (Some e, d')" and "fresh_temp io d" and "served p"
  shows "d' p = d p"
  using assms atomicWrite_effect(2) [OF _ assms(2) _ _ assms(3)]
  by (fastforce simp: MergeMetadataWithUpstream_def split: option.splits sum.splits prod.splits if_splits)

section \<open>Reading it back\<close>

lemma decode_strings_map [simp]: "decode_strings (JArr (map JStr vs)) = Some vs"
proof -
  have "those (map (\<lambda>e. decode_string e []) (map JStr vs)) = Some vs" by (induction vs) simp_all
  then show ?thesis by (simp add: decode_strings_def)
qed

lemma distinct_local_fields: "local_fields name d = Some m \<Longrightarrow> distinct (map fst m)"
proof -
  have "distinct (map fst acc) \<Longrightarrow> distinct (map fst (fold (\<lambda>(k, j) m. AList.update k j m) ms acc))"
    for ms and acc :: "json gomap"
    by (induction ms arbitrary: acc) (auto simp: distinct_update)
  from this [of "[]"] show "local_fields name d = Some m \<Longrightarrow> distinct (map fst m)"
    by (auto simp: local_fields_def decode_raw_map_def split: option.splits json.splits)
qed

lemma map_of_sort_key:
  assumes "distinct (map fst m)"
  shows "map_of (sort_key fst m) = map_of m"
proof -
  have "distinct (map fst (sort_key fst m))"
    using assms by (simp add: distinct_map)
  then show ?thesis using assms by (metis map_of_inject_set set_sort)
qed

definition readable :: "json gomap \<Rightarrow> bool" where
  "readable m \<longleftrightarrow> json_ok (JObj m) \<and> nests maxNestingDepth (JObj m)"

lemma decode_metadata_text:
  assumes "distinct (map fst m)" and "readable m"
  shows "decode_raw_map (metadata_text m) = Some (Some (sort_key fst m))"
proof -
  have "distinct (map fst (sort_key fst m))"
    using assms(1) by (simp add: distinct_map)
  moreover have "parse_value (Suc (length (metadata_text m))) 0 (metadata_text m) = Some (map_json m, [CHR 0x0A])"
    unfolding metadata_text_def MarshalIndent_def
    by (rule parse_render(1)) (use assms(2) in \<open>simp_all add: readable_def map_json_def list_all_iff number_end_def is_digit_def in_range_def\<close>)
  ultimately show ?thesis
    using fold_update_distinct [of "[]" "sort_key fst m"]
    by (simp add: decode_raw_map_def Unmarshal_def map_json_def skip_ws_def json_space_def)
qed

text \<open>
  C19: a successful merge replaces metadata.json and nothing else: the version is listed and no
  other is lost, the four lifted fields are the upstream's where it has them, every other field is
  kept; and what was written reads back as that map whenever it is one the reader can read.
\<close>

theorem metadata_merge_exact:
  assumes "MergeMetadataWithUpstream io name version up d = (None, d')" and "fresh_temp io d"
  shows "\<exists>m vs m'. local_fields name d = Some m \<and> versions_of m = Some vs \<and>
    d' = d(MetadataFile name \<mapsto> metadata_text m') \<and>
    versions_of m' = Some (if version \<in> set vs then vs else sort (vs @ [version])) \<and>
    (\<forall>k. k \<noteq> ''versions'' \<longrightarrow> map_of m' k =
      (if k \<in> set upstreamMetadataLiftedFields \<and> map_of (upstream_fields up) k \<noteq> None
       then map_of (upstream_fields up) k else map_of m k)) \<and>
    (readable m' \<longrightarrow> (\<exists>r. local_fields name d' = Some r \<and> map_of r = map_of m'))"
proof -
  obtain m vs where m: "local_fields name d = Some m" "versions_of m = Some vs"
    "d' = d(MetadataFile name \<mapsto> metadata_text (AList.update ''versions'' (JArr (map JStr (merged_versions version vs)))
       (lift_fields (upstream_fields up) m)))"
    by (rule merge_success [OF assms])
  let ?m = "AList.update ''versions'' (JArr (map JStr (merged_versions version vs))) (lift_fields (upstream_fields up) m)"
  have "distinct (map fst ?m)"
    by (intro distinct_update distinct_lift_fields distinct_local_fields [OF m(1)])
  then have "readable ?m \<longrightarrow> local_fields name d' = Some (sort_key fst ?m) \<and> map_of (sort_key fst ?m) = map_of ?m"
    using decode_metadata_text [of ?m] map_of_sort_key [of ?m] by (simp add: local_fields_def m(3))
  moreover have "versions_of ?m = Some (if version \<in> set vs then vs else sort (vs @ [version]))"
    by (simp add: versions_of_def update_conv' merged_versions_def)
  moreover have "\<forall>k. k \<noteq> ''versions'' \<longrightarrow> map_of ?m k =
      (if k \<in> set upstreamMetadataLiftedFields \<and> map_of (upstream_fields up) k \<noteq> None
       then map_of (upstream_fields up) k else map_of m k)"
    by (simp add: update_conv' map_of_lift_fields)
  ultimately show ?thesis using m by blast
qed

text \<open>The calls of a write that all succeed, with a given temporary name, and one whose rename fails.\<close>

definition sound_io :: "string \<Rightarrow> file_io" where
  "sound_io tmp = \<lparr>io_Stat = None, io_Read = None, io_MkdirAll = None, io_CreateTemp = Inr tmp, io_Write = None,
     io_Sync = None, io_Close = None, io_Rename = None, io_Removed = True\<rparr>"

lemma sound_io_fresh [simp]: "fresh_temp (sound_io tmp) d \<longleftrightarrow> d (TempFile tmp) = None"
  by (simp add: fresh_temp_def sound_io_def)

lemma write_is_atomic_witness:
  "atomicWrite_states (sound_io ''t'') RegistryFile ''{}'' (\<lambda>_. None) =
     (None, [\<lambda>_. None, [TempFile ''t'' \<mapsto> []], [TempFile ''t'' \<mapsto> ''{}''], [RegistryFile \<mapsto> ''{}'']])"
proof -
  let ?ds = "[\<lambda>_. None, [TempFile ''t'' \<mapsto> []], [TempFile ''t'' \<mapsto> ''{}''],
     [TempFile ''t'' \<mapsto> ''{}''](TempFile ''t'' := None, RegistryFile \<mapsto> ''{}'')]"
  have r: "atomicWrite_states (sound_io ''t'') RegistryFile ''{}'' (\<lambda>_. None) = (None, ?ds)"
    by (simp add: atomicWrite_states_def sound_io_def Let_def)
  have "last ?ds = (\<lambda>_. None)(RegistryFile \<mapsto> ''{}'')" using write_is_atomic [OF r] by simp
  then show ?thesis using r by simp
qed

lemma metadata_merge_exact_witness:
  "\<exists>d' m. MergeMetadataWithUpstream (sound_io ''t'') ''a'' ''1.0'' [] (\<lambda>_. None) = (None, d') \<and>
     d' = [MetadataFile ''a'' \<mapsto> metadata_text m] \<and> versions_of m = Some [''1.0'']"
proof -
  obtain e d' where r: "MergeMetadataWithUpstream (sound_io ''t'') ''a'' ''1.0'' [] (\<lambda>_. None) = (e, d')" by fastforce
  moreover have "e = None"
    using r by (simp add: MergeMetadataWithUpstream_def sound_io_def merge_version_def lift_fields_def
        upstreamMetadataLiftedFields_def atomicWrite_def atomicWrite_states_def Let_def)
  ultimately have r: "MergeMetadataWithUpstream (sound_io ''t'') ''a'' ''1.0'' [] (\<lambda>_. None) = (None, d')" by simp
  then show ?thesis using metadata_merge_exact [OF r] by (auto simp: local_fields_def versions_of_def)
qed

end
