(* ===== verification/ClosureWalk.thy ===== *)
theory ClosureWalk
  imports Mirror
begin

text \<open>
  The recursive walk that mirrors a dependency closure (src/internal/ingest/recursive.go): what one
  worker does for one module version, and the coordinator with its queue, its workers and its two
  bounded channels as a step relation. The parser of MODULE.bazel and the table of Bazel's own
  dependencies are third-party code and parameters.
\<close>

section \<open>One module version\<close>

record module_key =
  mk_name :: string
  mk_version :: string

text \<open>What moduledeps.FromModuleBazel reports of one bazel_dep.\<close>

record dep_entry =
  de_Name :: string
  de_Version :: string
  de_DevDependency :: bool

definition filter_deps :: "dep_entry list \<Rightarrow> module_key list" where
  "filter_deps ds = map (\<lambda>d. \<lparr>mk_name = de_Name d, mk_version = de_Version d\<rparr>)
     (filter (\<lambda>d. \<not> de_DevDependency d \<and> trim_space (de_Name d) \<noteq> [] \<and> trim_space (de_Version d) \<noteq> []) ds)"

text \<open>
  The environment of a worker: the client, the hash function, the parser, how io.Copy splits the
  body and where the blob file fails, and the system calls of each of the five writes.
\<close>

record walk_env =
  we_Client :: registry_client
  we_URL :: string
  we_sha256 :: "bytes \<Rightarrow> bytes"
  we_Parse :: "bytes \<Rightarrow> string + dep_entry list"
  we_Chunks :: "bytes \<Rightarrow> bytes list"
  we_BlobFault :: "nat \<Rightarrow> (nat \<times> string) option"
  we_RegistryIO :: file_io
  we_BlobIO :: file_io
  we_SourceIO :: file_io
  we_ModuleIO :: file_io
  we_MetadataIO :: file_io

definition parseDeps :: "walk_env \<Rightarrow> bytes \<Rightarrow> string + module_key list" where
  "parseDeps env modBytes = (case we_Parse env modBytes of Inl err \<Rightarrow> Inl err | Inr ds \<Rightarrow> Inr (filter_deps ds))"

definition depsFromRegistry :: "walk_env \<Rightarrow> module_key \<Rightarrow> string + module_key list" where
  "depsFromRegistry env k =
     (case GetModuleBazel (we_Client env) (we_URL env) (mk_name k) (mk_version k) of
        Inl err \<Rightarrow> Inl (fe_Text err)
      | Inr modBytes \<Rightarrow> parseDeps env modBytes)"

text \<open>io.Copy: every chunk passes the hash of the reader, then goes to the sink.\<close>

fun copy_chunks ::
  "(nat \<Rightarrow> (nat \<times> string) option) \<Rightarrow> nat \<Rightarrow> bytes list \<Rightarrow> verifying_reader \<Rightarrow> blob_sink \<times> disk \<Rightarrow>
   string option \<times> verifying_reader \<times> blob_sink \<times> disk" where
  "copy_chunks fault j [] vr sd = (None, vr, sd)"
| "copy_chunks fault j (c # cs) vr sd =
     (case fault j of
        Some (n, err) \<Rightarrow> (Some err, vr_Read c vr, sink_Write n c sd)
      | None \<Rightarrow> copy_chunks fault (Suc j) cs (vr_Read c vr) (sink_Write (length c) c sd))"

definition verify_text :: "verify_error \<Rightarrow> string" where
  "verify_text e =
     (case e of
        MalformedIntegrity s \<Rightarrow> ''malformed integrity '' @ quoted s
      | UnsupportedAlgorithm s \<Rightarrow> ''unsupported integrity algorithm '' @ quoted s
      | IntegrityMismatch want got \<Rightarrow> ''integrity mismatch'')"

definition merge_text :: "merge_error \<Rightarrow> string" where
  "merge_text e = (case e of MergeFailed s \<Rightarrow> s | Panicked \<Rightarrow> ''panic: assignment to entry in nil map'')"

text \<open>Fetching the archive of a source into the blob store.\<close>

definition store_archive :: "walk_env \<Rightarrow> source_json \<Rightarrow> disk \<Rightarrow> string option \<times> disk" where
  "store_archive env src d =
     (case BlobWriter (we_BlobIO env) d of
        (Inl err, d) \<Rightarrow> (Some err, d)
      | (Inr sink, d) \<Rightarrow>
        (case FetchArchive (we_Client env) src of
           Inl err \<Rightarrow> (Some (fe_Text err), sink_Abort (we_BlobIO env) sink d)
         | Inr (body, vr) \<Rightarrow>
           (case copy_chunks (we_BlobFault env) 0 (we_Chunks env (hr_Body body)) vr (sink, d) of
              (err, vr, sink, d) \<Rightarrow>
                (case (case err of Some e \<Rightarrow> Some e | None \<Rightarrow> hr_ReadError body) of
                   Some err \<Rightarrow> (Some (''stream tarball: '' @ err), sink_Abort (we_BlobIO env) sink d)
                 | None \<Rightarrow>
                   (case Verify (we_sha256 env) vr of
                      Some err \<Rightarrow> (Some (''integrity: '' @ verify_text err), sink_Abort (we_BlobIO env) sink d)
                    | None \<Rightarrow>
                      (case sink_Close (we_sha256 env) (we_BlobIO env) sink d of
                         (Inl err, d) \<Rightarrow> (Some (''finalize blob: '' @ err), d)
                       | (Inr _, d) \<Rightarrow> (None, d)))))))"

text \<open>The documents of an entry: the raw source.json, what it says, and the raw MODULE.bazel.\<close>

definition fetch_documents :: "walk_env \<Rightarrow> module_key \<Rightarrow> string + (bytes \<times> source_json \<times> bytes)" where
  "fetch_documents env k =
     (case GetSourceJSONBytes (we_Client env) (we_URL env) (mk_name k) (mk_version k) of
        Inl err \<Rightarrow> Inl (fe_Text err)
      | Inr srcBytes \<Rightarrow>
        (case ParseSourceJSON srcBytes of
           Inl err \<Rightarrow> Inl (fe_Text err)
         | Inr src \<Rightarrow>
           (if sj_URL src = [] then Inl ''source.json missing url''
            else (case GetModuleBazel (we_Client env) (we_URL env) (mk_name k) (mk_version k) of
                Inl err \<Rightarrow> Inl (fe_Text err)
              | Inr modBytes \<Rightarrow> Inr (srcBytes, src, modBytes)))))"

definition upstream_metadata :: "walk_env \<Rightarrow> module_key \<Rightarrow> bytes" where
  "upstream_metadata env k =
     (case GetMetadataBytes (we_Client env) (we_URL env) (mk_name k) of Inl _ \<Rightarrow> [] | Inr b \<Rightarrow> b)"

text \<open>The files of an entry, metadata.json last.\<close>

definition write_entry :: "walk_env \<Rightarrow> module_key \<Rightarrow> bytes \<Rightarrow> bytes \<Rightarrow> disk \<Rightarrow> (string + module_key list) \<times> disk" where
  "write_entry env k srcBytes modBytes d =
     (case WriteSource (we_SourceIO env) (mk_name k) (mk_version k) srcBytes d of
        (Some err, d) \<Rightarrow> (Inl err, d)
      | (None, d) \<Rightarrow>
        (case WriteModuleBazel (we_ModuleIO env) (mk_name k) (mk_version k) modBytes d of
           (Some err, d) \<Rightarrow> (Inl err, d)
         | (None, d) \<Rightarrow>
           (case MergeMetadataWithUpstream (we_MetadataIO env) (mk_name k) (mk_version k) (upstream_metadata env k) d of
              (Some err, d) \<Rightarrow> (Inl (merge_text err), d)
            | (None, d) \<Rightarrow> (parseDeps env modBytes, d))))"

definition walkOneMirrored :: "walk_env \<Rightarrow> module_key \<Rightarrow> disk \<Rightarrow> (string + module_key list) \<times> disk" where
  "walkOneMirrored env k d =
     (case EnsureRegistryJSON (we_RegistryIO env) d of
        (Some err, d) \<Rightarrow> (Inl err, d)
      | (None, d) \<Rightarrow>
        (case fetch_documents env k of
           Inl err \<Rightarrow> (Inl err, d)
         | Inr (srcBytes, src, modBytes) \<Rightarrow>
           (case store_archive env src d of
              (Some err, d) \<Rightarrow> (Inl err, d)
            | (None, d) \<Rightarrow> write_entry env k srcBytes modBytes d)))"

definition walkOne :: "walk_env \<Rightarrow> bool \<Rightarrow> module_key \<Rightarrow> disk \<Rightarrow> (string + module_key list) \<times> disk" where
  "walkOne env has_mirror k d = (if \<not> has_mirror then (depsFromRegistry env k, d) else walkOneMirrored env k d)"

section \<open>The coordinator\<close>

datatype walk_event =
    Skip module_key
  | Enter module_key
  | Done module_key nat
  | Error module_key string

record walk_result =
  wr_Visited :: nat
  wr_Mirrored :: nat
  wr_Errors :: "(module_key \<times> string) list"

record discovery =
  dc_Key :: module_key
  dc_Deps :: "module_key list"
  dc_Err :: "string option"

text \<open>
  The coordinator's variables and the two channels; a worker is idle, walking a key, or holds a
  discovery it could not send yet.
\<close>

datatype walker = Idle | Walking module_key | Sending discovery

record walk_state =
  wk_visited :: "string set"
  wk_pending :: "module_key list"
  wk_inflight :: int
  wk_res :: walk_result
  wk_events :: "walk_event list"
  wk_bus :: "module_key list"
  wk_jobs :: "module_key list"
  wk_discoveries :: "discovery list"
  wk_walkers :: "walker list"

definition key_text :: "module_key \<Rightarrow> string" where
  "key_text k = mk_name k @ ''@'' @ mk_version k"

definition walk_enqueue :: "module_key \<Rightarrow> walk_state \<Rightarrow> walk_state" where
  "walk_enqueue k s =
     (if key_text k \<in> wk_visited s then s\<lparr>wk_events := wk_events s @ [Skip k]\<rparr>
      else s\<lparr>wk_visited := insert (key_text k) (wk_visited s),
             wk_res := (wk_res s)\<lparr>wr_Visited := wr_Visited (wk_res s) + 1\<rparr>,
             wk_events := wk_events s @ [Enter k],
             wk_pending := wk_pending s @ [k],
             wk_inflight := wk_inflight s + 1\<rparr>)"

definition walk_handle :: "discovery \<Rightarrow> walk_state \<Rightarrow> walk_state" where
  "walk_handle d s =
     (case dc_Err d of
        Some err \<Rightarrow> s\<lparr>wk_res := (wk_res s)\<lparr>wr_Errors := wr_Errors (wk_res s) @ [(dc_Key d, err)]\<rparr>,
            wk_events := wk_events s @ [Error (dc_Key d) err]\<rparr>
      | None \<Rightarrow> fold walk_enqueue (dc_Deps d)
          (s\<lparr>wk_res := (wk_res s)\<lparr>wr_Mirrored := wr_Mirrored (wk_res s) + 1\<rparr>,
             wk_events := wk_events s @ [Done (dc_Key d) (length (dc_Deps d))],
             wk_bus := wk_bus s @ [dc_Key d]\<rparr>))"

definition walk_workers :: "int \<Rightarrow> nat" where
  "walk_workers w = (if w \<le> 0 then 8 else nat w)"

definition walk_start :: "int \<Rightarrow> module_key \<Rightarrow> module_key list \<Rightarrow> walk_state" where
  "walk_start w k tools =
     fold walk_enqueue (k # tools)
       \<lparr>wk_visited = {}, wk_pending = [], wk_inflight = 0, wk_res = \<lparr>wr_Visited = 0, wr_Mirrored = 0, wr_Errors = []\<rparr>,
        wk_events = [], wk_bus = [], wk_jobs = [], wk_discoveries = [], wk_walkers = replicate (walk_workers w) Idle\<rparr>"

text \<open>The capacity of both channels.\<close>

abbreviation channel_cap :: "walk_state \<Rightarrow> nat" where
  "channel_cap s \<equiv> length (wk_walkers s) * 2"

text \<open>
  One step, of the coordinator while something is in flight or of a worker. \<open>walk\<close> is what walkOne
  answers for a key.
\<close>

inductive walk_step :: "(module_key \<Rightarrow> string + module_key list) \<Rightarrow> walk_state \<Rightarrow> walk_state \<Rightarrow> bool"
  for walk :: "module_key \<Rightarrow> string + module_key list" where
  send_job: "wk_inflight s > 0 \<Longrightarrow> wk_pending s = k # ks \<Longrightarrow> length (wk_jobs s) < channel_cap s \<Longrightarrow>
     walk_step walk s (s\<lparr>wk_pending := ks, wk_jobs := wk_jobs s @ [k]\<rparr>)"
| absorb: "wk_inflight s > 0 \<Longrightarrow> wk_discoveries s = d # ds \<Longrightarrow>
     walk_step walk s (walk_handle d (s\<lparr>wk_discoveries := ds, wk_inflight := wk_inflight s - 1\<rparr>))"
| take_job: "i < length (wk_walkers s) \<Longrightarrow> wk_walkers s ! i = Idle \<Longrightarrow> wk_jobs s = k # ks \<Longrightarrow>
     walk_step walk s (s\<lparr>wk_jobs := ks, wk_walkers := (wk_walkers s)[i := Walking k]\<rparr>)"
| found: "i < length (wk_walkers s) \<Longrightarrow> wk_walkers s ! i = Walking k \<Longrightarrow>
     walk_step walk s (s\<lparr>wk_walkers := (wk_walkers s)[i := Sending
       (case walk k of Inl err \<Rightarrow> \<lparr>dc_Key = k, dc_Deps = [], dc_Err = Some err\<rparr>
                     | Inr deps \<Rightarrow> \<lparr>dc_Key = k, dc_Deps = deps, dc_Err = None\<rparr>)]\<rparr>)"
| report: "i < length (wk_walkers s) \<Longrightarrow> wk_walkers s ! i = Sending d \<Longrightarrow> length (wk_discoveries s) < channel_cap s \<Longrightarrow>
     walk_step walk s (s\<lparr>wk_walkers := (wk_walkers s)[i := Idle], wk_discoveries := wk_discoveries s @ [d]\<rparr>)"

section \<open>The bookkeeping\<close>

inductive in_closure :: "(module_key \<Rightarrow> string + module_key list) \<Rightarrow> module_key list \<Rightarrow> module_key \<Rightarrow> bool"
  for walk :: "module_key \<Rightarrow> string + module_key list" and roots :: "module_key list" where
  root: "k \<in> set roots \<Longrightarrow> in_closure walk roots k"
| dep: "in_closure walk roots k \<Longrightarrow> walk k = Inr deps \<Longrightarrow> d \<in> set deps \<Longrightarrow> in_closure walk roots d"

definition walker_keys :: "walker \<Rightarrow> module_key multiset" where
  "walker_keys w = (case w of Idle \<Rightarrow> {#} | Walking k \<Rightarrow> {#k#} | Sending d \<Rightarrow> {#dc_Key d#})"

text \<open>The keys on their way, and the keys that have arrived.\<close>

definition under_way :: "walk_state \<Rightarrow> module_key multiset" where
  "under_way s = mset (wk_pending s) + mset (wk_jobs s) + (\<Sum>w \<in># mset (wk_walkers s). walker_keys w) +
     mset (map dc_Key (wk_discoveries s))"

definition arrived :: "walk_state \<Rightarrow> module_key multiset" where
  "arrived s = mset (wk_bus s) + mset (map fst (wr_Errors (wk_res s)))"

definition true_discovery :: "(module_key \<Rightarrow> string + module_key list) \<Rightarrow> discovery \<Rightarrow> bool" where
  "true_discovery walk d \<longleftrightarrow>
     (case dc_Err d of None \<Rightarrow> walk (dc_Key d) = Inr (dc_Deps d) | Some e \<Rightarrow> walk (dc_Key d) = Inl e)"

definition walk_ok :: "(module_key \<Rightarrow> string + module_key list) \<Rightarrow> module_key list \<Rightarrow> walk_state \<Rightarrow> bool" where
  "walk_ok walk roots s \<longleftrightarrow>
     wk_inflight s = int (size (under_way s)) \<and>
     wk_visited s = key_text ` set_mset (under_way s + arrived s) \<and>
     inj_on key_text (set_mset (under_way s + arrived s)) \<and>
     (\<forall>k. count (under_way s + arrived s) k \<le> 1) \<and>
     wr_Visited (wk_res s) = size (under_way s + arrived s) \<and>
     wr_Mirrored (wk_res s) = length (wk_bus s) \<and>
     (\<forall>k \<in># under_way s + arrived s. in_closure walk roots k) \<and>
     (\<forall>k \<in> set (wk_bus s). \<exists>deps. walk k = Inr deps) \<and>
     (\<forall>(k, e) \<in> set (wr_Errors (wk_res s)). walk k = Inl e) \<and>
     (\<forall>d \<in> set (wk_discoveries s). true_discovery walk d) \<and>
     (\<forall>d. Sending d \<in> set (wk_walkers s) \<longrightarrow> true_discovery walk d)"

text \<open>Everything that was found has been entered.\<close>

definition walk_covered :: "(module_key \<Rightarrow> string + module_key list) \<Rightarrow> module_key list \<Rightarrow> walk_state \<Rightarrow> bool" where
  "walk_covered walk roots s \<longleftrightarrow> key_text ` set roots \<subseteq> wk_visited s \<and>
     (\<forall>k deps. k \<in> set (wk_bus s) \<and> walk k = Inr deps \<longrightarrow> key_text ` set deps \<subseteq> wk_visited s)"

text \<open>What an enqueue changes: the new keys, each once.\<close>

lemma enqueue_fields [simp]:
  "wk_jobs (walk_enqueue k s) = wk_jobs s" "wk_walkers (walk_enqueue k s) = wk_walkers s"
  "wk_discoveries (walk_enqueue k s) = wk_discoveries s" "wk_bus (walk_enqueue k s) = wk_bus s"
  "wr_Errors (wk_res (walk_enqueue k s)) = wr_Errors (wk_res s)"
  "wr_Mirrored (wk_res (walk_enqueue k s)) = wr_Mirrored (wk_res s)"
  "wk_visited (walk_enqueue k s) = insert (key_text k) (wk_visited s)"
  "arrived (walk_enqueue k s) = arrived s"
  by (auto simp: walk_enqueue_def arrived_def)

lemma enqueue_under_way:
  "under_way (walk_enqueue k s) = (if key_text k \<in> wk_visited s then under_way s else add_mset k (under_way s))"
  by (simp add: walk_enqueue_def under_way_def)

lemma enqueue_ok:
  assumes "walk_ok walk roots s" and "in_closure walk roots k"
  shows "walk_ok walk roots (walk_enqueue k s)"
proof (cases "key_text k \<in> wk_visited s")
  case True
  then have "walk_enqueue k s = s\<lparr>wk_events := wk_events s @ [Skip k]\<rparr>" by (simp add: walk_enqueue_def)
  then show ?thesis using assms(1) by (simp add: walk_ok_def under_way_def arrived_def)
next
  case False
  have ok: "wk_visited s = key_text ` set_mset (under_way s + arrived s)" using assms(1) by (simp add: walk_ok_def)
  then have new: "k \<notin># under_way s + arrived s" "key_text k \<notin> key_text ` set_mset (under_way s + arrived s)"
    using False by auto
  have f: "wk_inflight (walk_enqueue k s) = wk_inflight s + 1" "wr_Visited (wk_res (walk_enqueue k s)) = wr_Visited (wk_res s) + 1"
    using False by (simp_all add: walk_enqueue_def)
  have u: "under_way (walk_enqueue k s) = add_mset k (under_way s)" using False by (simp add: enqueue_under_way)
  show ?thesis using assms new unfolding walk_ok_def u f enqueue_fields
    by (auto simp: inj_on_insert not_in_iff)
qed

lemma enqueues_ok:
  assumes "walk_ok walk roots s" and "\<forall>k \<in> set ks. in_closure walk roots k"
  shows "walk_ok walk roots (fold walk_enqueue ks s) \<and> wk_visited (fold walk_enqueue ks s) = key_text ` set ks \<union> wk_visited s \<and>
    wk_bus (fold walk_enqueue ks s) = wk_bus s"
  using assms by (induction ks arbitrary: s) (simp_all add: enqueue_ok)

lemma start_ok: "walk_ok walk (k # tools) (walk_start w k tools) \<and> walk_covered walk (k # tools) (walk_start w k tools)"
proof -
  let ?s = "\<lparr>wk_visited = {}, wk_pending = [], wk_inflight = 0, wk_res = \<lparr>wr_Visited = 0, wr_Mirrored = 0, wr_Errors = []\<rparr>,
        wk_events = [], wk_bus = [], wk_jobs = [], wk_discoveries = [], wk_walkers = replicate (walk_workers w) Idle\<rparr>"
  have z: "\<Sum>\<^sub># (replicate_mset n {#}) = ({#} :: module_key multiset)" for n by (induction n) simp_all
  have "walk_ok walk (k # tools) ?s"
    by (simp add: walk_ok_def under_way_def arrived_def walker_keys_def z)
  then have "walk_ok walk (k # tools) (fold walk_enqueue (k # tools) ?s) \<and>
      wk_visited (fold walk_enqueue (k # tools) ?s) = key_text ` set (k # tools) \<union> wk_visited ?s \<and>
      wk_bus (fold walk_enqueue (k # tools) ?s) = wk_bus ?s"
    by (rule enqueues_ok) (simp add: in_closure.root)
  then show ?thesis unfolding walk_start_def walk_covered_def by simp
qed

lemma walkers_update:
  "i < length ws \<Longrightarrow> (\<Sum>w \<in># mset (ws[i := w']). walker_keys w) + walker_keys (ws ! i) = (\<Sum>w \<in># mset ws. walker_keys w) + walker_keys w'"
proof (induction ws arbitrary: i)
  case (Cons x ws)
  show ?case
  proof (cases i)
    case (Suc j)
    then show ?thesis using Cons.IH [of j] Cons.prems by (simp add: add.assoc)
  qed (simp add: ac_simps)
qed simp

text \<open>A step that moves a key keeps both collections.\<close>

lemma moved_ok:
  assumes "walk_ok walk roots s" and "under_way s' = under_way s" and "wk_visited s' = wk_visited s" and "wk_res s' = wk_res s"
    and "wk_bus s' = wk_bus s" and "wk_inflight s' = wk_inflight s"
    and "\<forall>d \<in> set (wk_discoveries s'). true_discovery walk d" and "\<forall>d. Sending d \<in> set (wk_walkers s') \<longrightarrow> true_discovery walk d"
  shows "walk_ok walk roots s'"
  using assms unfolding walk_ok_def arrived_def by simp

lemma handled_ok:
  assumes ok: "walk_ok walk roots s" "walk_covered walk roots s" and d: "wk_discoveries s = d # ds"
  shows "walk_ok walk roots (walk_handle d (s\<lparr>wk_discoveries := ds, wk_inflight := wk_inflight s - 1\<rparr>)) \<and>
    walk_covered walk roots (walk_handle d (s\<lparr>wk_discoveries := ds, wk_inflight := wk_inflight s - 1\<rparr>))"
proof -
  have t: "true_discovery walk d" using ok(1) d by (simp add: walk_ok_def)
  have u: "under_way s = add_mset (dc_Key d) (under_way (s\<lparr>wk_discoveries := ds\<rparr>))" by (simp add: under_way_def d)
  have c: "in_closure walk roots (dc_Key d)" using ok(1) u by (simp add: walk_ok_def)
  show ?thesis
  proof (cases "dc_Err d")
    case (Some e)
    let ?s = "walk_handle d (s\<lparr>wk_discoveries := ds, wk_inflight := wk_inflight s - 1\<rparr>)"
    have f: "under_way ?s = under_way (s\<lparr>wk_discoveries := ds\<rparr>)" "arrived ?s = add_mset (dc_Key d) (arrived s)"
      "wk_inflight ?s = wk_inflight s - 1" "wk_visited ?s = wk_visited s" "wk_bus ?s = wk_bus s"
      "wr_Errors (wk_res ?s) = wr_Errors (wk_res s) @ [(dc_Key d, e)]" "wk_discoveries ?s = ds" "wk_walkers ?s = wk_walkers s"
      "wr_Visited (wk_res ?s) = wr_Visited (wk_res s)" "wr_Mirrored (wk_res ?s) = wr_Mirrored (wk_res s)"
      by (simp_all add: walk_handle_def Some under_way_def arrived_def)
    have "walk (dc_Key d) = Inl e" using t Some by (simp add: true_discovery_def)
    then show ?thesis using ok unfolding walk_ok_def walk_covered_def f by (auto simp: u d)
  next
    case None
    let ?s = "s\<lparr>wk_discoveries := ds, wk_inflight := wk_inflight s - 1,
        wk_res := (wk_res s)\<lparr>wr_Mirrored := wr_Mirrored (wk_res s) + 1\<rparr>,
        wk_events := wk_events s @ [Done (dc_Key d) (length (dc_Deps d))], wk_bus := wk_bus s @ [dc_Key d]\<rparr>"
    have deps: "walk (dc_Key d) = Inr (dc_Deps d)" using t None by (simp add: true_discovery_def)
    have f: "under_way ?s = under_way (s\<lparr>wk_discoveries := ds\<rparr>)" "arrived ?s = add_mset (dc_Key d) (arrived s)"
      by (simp_all add: under_way_def arrived_def)
    have ok': "walk_ok walk roots ?s" using ok(1) deps unfolding walk_ok_def f by (auto simp: u d)
    have e: "walk_handle d (s\<lparr>wk_discoveries := ds, wk_inflight := wk_inflight s - 1\<rparr>) = fold walk_enqueue (dc_Deps d) ?s"
      by (simp add: walk_handle_def None)
    have w: "walk_ok walk roots (fold walk_enqueue (dc_Deps d) ?s) \<and>
        wk_visited (fold walk_enqueue (dc_Deps d) ?s) = key_text ` set (dc_Deps d) \<union> wk_visited s \<and>
        wk_bus (fold walk_enqueue (dc_Deps d) ?s) = wk_bus s @ [dc_Key d]"
      using enqueues_ok [OF ok', of "dc_Deps d"] in_closure.dep [OF c deps] by simp
    have old: "key_text ` set roots \<subseteq> wk_visited s" "k \<in> set (wk_bus s) \<Longrightarrow> walk k = Inr ds' \<Longrightarrow> key_text ` set ds' \<subseteq> wk_visited s"
      for k ds' using ok(2) by (auto simp: walk_covered_def)
    have "walk_covered walk roots (fold walk_enqueue (dc_Deps d) ?s)"
      unfolding walk_covered_def
    proof (intro conjI allI impI)
      fix k ds' assume k: "k \<in> set (wk_bus (fold walk_enqueue (dc_Deps d) ?s)) \<and> walk k = Inr ds'"
      then consider "k \<in> set (wk_bus s)" | "k = dc_Key d" using w by auto
      then show "key_text ` set ds' \<subseteq> wk_visited (fold walk_enqueue (dc_Deps d) ?s)"
      proof cases
        case 1
        then show ?thesis using old(2) k w by blast
      next
        case 2
        then have "ds' = dc_Deps d" using k deps by simp
        then show ?thesis using w by blast
      qed
    qed (use old(1) w in auto)
    then show ?thesis unfolding e using w by simp
  qed
qed

lemma walk_step_ok:
  assumes "walk_step walk s s'" and ok: "walk_ok walk roots s" "walk_covered walk roots s"
  shows "walk_ok walk roots s' \<and> walk_covered walk roots s'"
  using assms(1)
proof cases
  case (send_job k ks)
  have "walk_ok walk roots s'"
    by (rule moved_ok [OF ok(1)]) (use ok(1) send_job in \<open>simp_all add: under_way_def walk_ok_def\<close>)
  then show ?thesis using ok(2) by (simp add: send_job walk_covered_def)
next
  case (absorb d ds)
  then show ?thesis using handled_ok [OF ok] by simp
next
  case (take_job i k ks)
  have "walk_ok walk roots s'"
    by (rule moved_ok [OF ok(1)])
       (use ok(1) take_job walkers_update [of i "wk_walkers s" "Walking k"] in
        \<open>auto simp: under_way_def walk_ok_def walker_keys_def dest!: set_update_subset_insert [THEN subsetD]\<close>)
  then show ?thesis using ok(2) by (simp add: take_job walk_covered_def)
next
  case (found i k)
  let ?d = "case walk k of Inl err \<Rightarrow> \<lparr>dc_Key = k, dc_Deps = [], dc_Err = Some err\<rparr>
    | Inr deps \<Rightarrow> \<lparr>dc_Key = k, dc_Deps = deps, dc_Err = None\<rparr>"
  have d: "true_discovery walk ?d" "dc_Key ?d = k" by (auto simp: true_discovery_def split: sum.splits)
  have "walk_ok walk roots s'"
    by (rule moved_ok [OF ok(1)])
       (use ok(1) found d walkers_update [of i "wk_walkers s" "Sending ?d"] in
        \<open>auto simp: under_way_def walk_ok_def walker_keys_def dest!: set_update_subset_insert [THEN subsetD]\<close>)
  then show ?thesis using ok(2) by (simp add: found walk_covered_def)
next
  case (report i d)
  have t: "true_discovery walk d" using ok(1) report(2,3) nth_mem by (fastforce simp: walk_ok_def)
  have "walk_ok walk roots s'"
    by (rule moved_ok [OF ok(1)])
       (use ok(1) report t walkers_update [of i "wk_walkers s" Idle] in
        \<open>auto simp: under_way_def walk_ok_def walker_keys_def dest!: set_update_subset_insert [THEN subsetD]\<close>)
  then show ?thesis using ok(2) by (simp add: report walk_covered_def)
qed

section \<open>What the walk has done at the end\<close>

lemma walk_step_walkers: "walk_step walk s s' \<Longrightarrow> length (wk_walkers s') = length (wk_walkers s)"
proof (induction rule: walk_step.induct)
  case (absorb s d ds)
  have "wk_walkers (fold walk_enqueue ks s) = wk_walkers s" for ks s by (induction ks arbitrary: s) simp_all
  then show ?case by (simp add: walk_handle_def split: option.splits)
qed simp_all

lemma walk_reach_ok:
  assumes "(walk_step walk)\<^sup>*\<^sup>* (walk_start w k tools) s"
  shows "walk_ok walk (k # tools) s \<and> walk_covered walk (k # tools) s \<and> length (wk_walkers s) = walk_workers w"
  using assms
proof induction
  case base
  have "wk_walkers (fold walk_enqueue ks s) = wk_walkers s" for ks s by (induction ks arbitrary: s) simp_all
  then have "length (wk_walkers (walk_start w k tools)) = walk_workers w" by (simp add: walk_start_def)
  then show ?case using start_ok by blast
next
  case (step s s')
  then show ?case using walk_step_ok walk_step_walkers by metis
qed

lemma key_text_inject:
  assumes "CHR ''@'' \<notin> set (mk_name a)" and "CHR ''@'' \<notin> set (mk_name b)" and "key_text a = key_text b"
  shows "a = (b :: module_key)"
proof -
  have c: "index_byte (key_text x) (CHR ''@'') = Some (length (mk_name x))" if "CHR ''@'' \<notin> set (mk_name x)" for x :: module_key
    using index_byte_append [OF that] by (simp add: key_text_def)
  have "length (mk_name a) = length (mk_name b)" using c [OF assms(1)] c [OF assms(2)] assms(3) by simp
  then show ?thesis using assms(3) by (simp add: key_text_def)
qed

text \<open>
  C20: for every number of workers and every interleaving, when the coordinator's loop ends it has
  mirrored exactly the reachable versions that could be walked and recorded an error for exactly
  the others, each once: nothing reachable is left out, nothing is walked twice, and the counts of
  the result are those of the closure. (The names of modules have no at sign.)
\<close>

theorem walk_exact:
  assumes "(walk_step walk)\<^sup>*\<^sup>* (walk_start w k tools) s" and "wk_inflight s = 0"
    and "\<forall>x. in_closure walk (k # tools) x \<longrightarrow> CHR ''@'' \<notin> set (mk_name x)"
  shows "set (wk_bus s) = {x. in_closure walk (k # tools) x \<and> (\<exists>deps. walk x = Inr deps)} \<and>
    set (wr_Errors (wk_res s)) = {(x, e). in_closure walk (k # tools) x \<and> walk x = Inl e} \<and>
    distinct (wk_bus s @ map fst (wr_Errors (wk_res s))) \<and>
    wr_Visited (wk_res s) = card {x. in_closure walk (k # tools) x} \<and>
    wr_Mirrored (wk_res s) = length (wk_bus s)"
proof -
  have inv: "walk_ok walk (k # tools) s" "walk_covered walk (k # tools) s" using walk_reach_ok [OF assms(1)] by simp_all
  let ?A = "set (wk_bus s) \<union> fst ` set (wr_Errors (wk_res s))"
  have u: "under_way s = {#}" using inv(1) assms(2) by (simp add: walk_ok_def)
  have a: "arrived s = mset (wk_bus s @ map fst (wr_Errors (wk_res s)))" by (simp add: arrived_def)
  have vis: "wk_visited s = key_text ` ?A" and sound: "\<forall>x \<in> ?A. in_closure walk (k # tools) x"
    using inv(1) unfolding walk_ok_def u a by auto
  have bus: "x \<in> set (wk_bus s) \<Longrightarrow> \<exists>deps. walk x = Inr deps" and err: "(x, e) \<in> set (wr_Errors (wk_res s)) \<Longrightarrow> walk x = Inl e" for x e
    using inv(1) by (auto simp: walk_ok_def)
  have known: "x \<in> ?A" if "in_closure walk (k # tools) x" "key_text x \<in> wk_visited s" for x
  proof -
    note x = that
    have "key_text x \<in> key_text ` ?A" using x(2) vis by simp
    then obtain y where y: "y \<in> ?A" "key_text y = key_text x" by (metis imageE)
    then have "y = x" using key_text_inject [of y x] sound x(1) assms(3) by blast
    then show ?thesis using y(1) by simp
  qed
  have complete: "x \<in> ?A" if "in_closure walk (k # tools) x" for x
    using that
  proof induction
    case (root x)
    then show ?case using known [of x] inv(2) in_closure.root [of x "k # tools" walk] by (auto simp: walk_covered_def)
  next
    case (dep x deps d)
    then have "x \<in> set (wk_bus s)" using err by fastforce
    then have "key_text d \<in> wk_visited s" using inv(2) dep.hyps unfolding walk_covered_def by blast
    then show ?case using known in_closure.dep [OF dep.hyps] by blast
  qed
  have dist: "distinct (wk_bus s @ map fst (wr_Errors (wk_res s)))"
    using inv(1) unfolding walk_ok_def u a by (simp add: distinct_count_atmost_1 le_Suc_eq count_mset_0_iff del: mset_append) (metis count_eq_zero_iff set_mset_mset le_Suc_eq One_nat_def)
  have all: "?A = {x. in_closure walk (k # tools) x}" using sound complete by auto
  have "wr_Visited (wk_res s) = length (wk_bus s @ map fst (wr_Errors (wk_res s)))"
    using inv(1) unfolding walk_ok_def u a by (simp del: mset_append)
  then have "wr_Visited (wk_res s) = card ?A" using distinct_card [OF dist] by simp
  moreover have "set (wk_bus s) = {x. in_closure walk (k # tools) x \<and> (\<exists>deps. walk x = Inr deps)}"
    using all bus err by fastforce
  moreover have "set (wr_Errors (wk_res s)) = {(x, e). in_closure walk (k # tools) x \<and> walk x = Inl e}"
  proof (intro set_eqI iffI; clarify)
    fix x e assume x: "(x, e) \<in> set (wr_Errors (wk_res s))"
    then show "in_closure walk (k # tools) x \<and> walk x = Inl e" using sound err [OF x] by force
  next
    fix x e assume x: "in_closure walk (k # tools) x" "walk x = Inl e"
    then have "x \<in> fst ` set (wr_Errors (wk_res s))" using complete bus by fastforce
    then show "(x, e) \<in> set (wr_Errors (wk_res s))" using err x(2) by fastforce
  qed
  moreover have "wr_Mirrored (wk_res s) = length (wk_bus s)" using inv(1) by (simp add: walk_ok_def)
  ultimately show ?thesis using dist all by simp
qed

section \<open>It ends\<close>

definition walker_weight :: "walker \<Rightarrow> nat" where
  "walker_weight w = (case w of Idle \<Rightarrow> 0 | Walking _ \<Rightarrow> 3 | Sending _ \<Rightarrow> 2)"

text \<open>The steps left for the keys under way, and five for every key text not entered yet.\<close>

definition steps_left :: "string set \<Rightarrow> walk_state \<Rightarrow> nat" where
  "steps_left K s = 5 * length (wk_pending s) + 4 * length (wk_jobs s) + sum_list (map walker_weight (wk_walkers s)) +
     length (wk_discoveries s) + 5 * card (K - wk_visited s)"

lemma enqueue_steps_left:
  assumes "finite K" and "key_text k \<in> K"
  shows "steps_left K (walk_enqueue k s) = steps_left K s"
proof (cases "key_text k \<in> wk_visited s")
  case False
  have "K - wk_visited s = insert (key_text k) (K - insert (key_text k) (wk_visited s))" using False assms(2) by auto
  then have "card (K - wk_visited s) = Suc (card (K - insert (key_text k) (wk_visited s)))"
    using assms(1) by (metis Diff_iff card_insert_disjoint finite_Diff insertI1)
  then show ?thesis using False by (simp add: steps_left_def walk_enqueue_def)
qed (simp add: steps_left_def walk_enqueue_def)

lemma enqueues_steps_left:
  "finite K \<Longrightarrow> key_text ` set ks \<subseteq> K \<Longrightarrow> steps_left K (fold walk_enqueue ks s) = steps_left K s"
  by (induction ks arbitrary: s) (simp_all add: enqueue_steps_left)

lemma walker_weight_update:
  assumes "i < length ws"
  shows "sum_list (map walker_weight (ws[i := w])) + walker_weight (ws ! i) = sum_list (map walker_weight ws) + walker_weight w"
proof -
  have "walker_weight (ws ! i) \<le> sum_list (map walker_weight ws)"
    using elem_le_sum_list [of i "map walker_weight ws"] assms by simp
  then show ?thesis using assms by (simp add: map_update sum_list_update)
qed

lemma step_uses_one:
  assumes "walk_step walk s s'" and "walk_ok walk roots s" and "finite K" and "key_text ` Collect (in_closure walk roots) \<subseteq> K"
  shows "steps_left K s = Suc (steps_left K s')"
  using assms(1)
proof cases
  case (send_job k ks)
  then show ?thesis by (simp add: steps_left_def)
next
  case (absorb d ds)
  have t: "true_discovery walk d" using assms(2) absorb by (simp add: walk_ok_def)
  have c: "in_closure walk roots (dc_Key d)" using assms(2) absorb by (simp add: walk_ok_def under_way_def)
  show ?thesis
  proof (cases "dc_Err d")
    case None
    then have "walk (dc_Key d) = Inr (dc_Deps d)" using t by (simp add: true_discovery_def)
    then have "key_text ` set (dc_Deps d) \<subseteq> K" using in_closure.dep [OF c] assms(4) by blast
    from enqueues_steps_left [OF assms(3) this] show ?thesis using absorb None by (simp add: walk_handle_def steps_left_def)
  qed (use absorb in \<open>simp add: walk_handle_def steps_left_def\<close>)
next
  case (take_job i k ks)
  then show ?thesis using walker_weight_update [of i "wk_walkers s" "Walking k"] by (simp add: steps_left_def walker_weight_def)
next
  case (found i k)
  have "sum_list (map walker_weight ((wk_walkers s)[i := Sending d])) + 1 = sum_list (map walker_weight (wk_walkers s))" for d
    using walker_weight_update [OF found(2), of "Sending d"] found(3) by (simp add: walker_weight_def)
  then show ?thesis using found(1) by (simp add: steps_left_def)
next
  case (report i d)
  then show ?thesis using walker_weight_update [of i "wk_walkers s" Idle] by (simp add: steps_left_def walker_weight_def)
qed

lemma in_flight_moves:
  assumes ok: "walk_ok walk roots s" and "0 < wk_inflight s" and "wk_walkers s \<noteq> []"
  shows "\<exists>s'. walk_step walk s s'"
proof -
  have "under_way s \<noteq> {#}" using ok assms(2) by (auto simp: walk_ok_def)
  have cap: "0 < channel_cap s" using assms(3) by simp
  consider d ds where "wk_discoveries s = d # ds" | i d where "wk_discoveries s = []" "i < length (wk_walkers s)" "wk_walkers s ! i = Sending d"
    | i k where "i < length (wk_walkers s)" "wk_walkers s ! i = Walking k"
    | "wk_discoveries s = []" "\<forall>i < length (wk_walkers s). wk_walkers s ! i = Idle"
    by (metis neq_Nil_conv walker.exhaust)
  then show ?thesis
  proof cases
    case 1
    then show ?thesis using walk_step.absorb assms(2) by blast
  next
    case 2
    then show ?thesis using walk_step.report [of i s d walk] cap by force
  next
    case 3
    then show ?thesis using walk_step.found by blast
  next
    case 4
    have "walker_keys w = {#}" if "w \<in> set (wk_walkers s)" for w using 4(2) that by (auto simp: in_set_conv_nth walker_keys_def)
    then have "(\<Sum>w \<in># mset (wk_walkers s). walker_keys w) = {#}" by simp
    then have "wk_pending s \<noteq> [] \<or> wk_jobs s \<noteq> []" using \<open>under_way s \<noteq> {#}\<close> 4(1) by (auto simp: under_way_def)
    moreover have "0 < length (wk_walkers s)" "wk_walkers s ! 0 = Idle" using assms(3) 4(2) by auto
    ultimately show ?thesis
      using walk_step.take_job [of 0 s] walk_step.send_job [of s] assms(2) cap by (metis list.size(3) neq_Nil_conv)
  qed
qed

lemma start_walkers: "walk_ok walk roots s \<Longrightarrow> length (wk_walkers s) = walk_workers w \<Longrightarrow> wk_inflight s = 0 \<or> (\<exists>s'. walk_step walk s s')"
  using in_flight_moves [of walk roots s] by (force simp: walk_ok_def walk_workers_def split: if_splits)

lemma walk_finishes:
  assumes "finite {x. in_closure walk (k # tools) x}"
  obtains s where "(walk_step walk)\<^sup>*\<^sup>* (walk_start w k tools) s" "wk_inflight s = 0"
proof -
  let ?K = "key_text ` {x. in_closure walk (k # tools) x}"
  have "\<exists>s'. (walk_step walk)\<^sup>*\<^sup>* (walk_start w k tools) s' \<and> wk_inflight s' = 0"
    if "(walk_step walk)\<^sup>*\<^sup>* (walk_start w k tools) s" for s
    using that
  proof (induction "steps_left ?K s" arbitrary: s)
    case 0
    then have ok: "walk_ok walk (k # tools) s" "length (wk_walkers s) = walk_workers w" using walk_reach_ok by blast+
    have "\<not> walk_step walk s s'" for s' using step_uses_one [OF _ ok(1), of s' ?K] 0 assms by auto
    then show ?case using start_walkers [OF ok] 0 by blast
  next
    case (Suc n)
    then have ok: "walk_ok walk (k # tools) s" "length (wk_walkers s) = walk_workers w" using walk_reach_ok by blast+
    show ?case
    proof (cases "wk_inflight s = 0")
      case False
      then obtain s' where s': "walk_step walk s s'" using start_walkers [OF ok] by blast
      then have "n = steps_left ?K s'" using step_uses_one [OF s' ok(1), of ?K] Suc.hyps(2) assms by simp
      moreover have "(walk_step walk)\<^sup>*\<^sup>* (walk_start w k tools) s'" using Suc.prems s' by (rule rtranclp.rtrancl_into_rtrancl)
      ultimately show ?thesis using Suc.hyps(1) by blast
    qed (use Suc.prems in blast)
  qed
  then show thesis using that by blast
qed

text \<open>
  C21: the walk of a finite closure ends: it cannot take more than five steps for each name and
  version in the closure, and for every number of workers no interleaving of the coordinator with
  the two bounded channels deadlocks before nothing is in flight any more.
\<close>

theorem walk_terminates:
  assumes "finite {x. in_closure walk (k # tools) x}"
  shows "((walk_step walk ^^ n) (walk_start w k tools) s \<longrightarrow> n \<le> 5 * card (key_text ` {x. in_closure walk (k # tools) x})) \<and>
    ((walk_step walk)\<^sup>*\<^sup>* (walk_start w k tools) s \<longrightarrow> wk_inflight s = 0 \<or> (\<exists>s'. walk_step walk s s'))"
proof (intro conjI impI)
  let ?K = "key_text ` {x. in_closure walk (k # tools) x}"
  have fin: "finite ?K" using assms by simp
  have "key_text ` set (k # tools) \<subseteq> ?K" using in_closure.root [of _ "k # tools" walk] by blast
  from enqueues_steps_left [OF fin this] have start: "steps_left ?K (walk_start w k tools) = 5 * card ?K"
    unfolding walk_start_def by (simp add: steps_left_def walker_weight_def sum_list_replicate)
  assume "(walk_step walk ^^ n) (walk_start w k tools) s"
  then have "steps_left ?K (walk_start w k tools) = n + steps_left ?K s"
  proof (induction n arbitrary: s)
    case (Suc n)
    then obtain r where r: "(walk_step walk ^^ n) (walk_start w k tools) r" "walk_step walk r s" by auto
    then have "(walk_step walk)\<^sup>*\<^sup>* (walk_start w k tools) r" by (simp add: relpowp_imp_rtranclp)
    then have "walk_ok walk (k # tools) r" using walk_reach_ok by blast
    from step_uses_one [OF r(2) this fin] Suc.IH [OF r(1)] show ?case by simp
  qed simp
  then show "n \<le> 5 * card ?K" using start by simp
next
  assume "(walk_step walk)\<^sup>*\<^sup>* (walk_start w k tools) s"
  then show "wk_inflight s = 0 \<or> (\<exists>s'. walk_step walk s s')" using walk_reach_ok start_walkers by blast
qed

text \<open>A module that depends on itself and on one that is missing.\<close>

definition lone_key :: module_key where
  "lone_key = \<lparr>mk_name = ''a'', mk_version = ''1''\<rparr>"

definition absent_key :: module_key where
  "absent_key = \<lparr>mk_name = ''b'', mk_version = ''1''\<rparr>"

definition loop_walk :: "module_key \<Rightarrow> string + module_key list" where
  "loop_walk x = (if x = lone_key then Inr [lone_key, absent_key] else Inl ''registry: not found'')"

lemma loop_closure: "{x. in_closure loop_walk [lone_key] x} = {lone_key, absent_key}"
proof -
  have "x \<in> {lone_key, absent_key}" if "in_closure loop_walk [lone_key] x" for x
    using that by induction (auto simp: loop_walk_def split: if_splits)
  moreover have "in_closure loop_walk [lone_key] lone_key" by (rule in_closure.root) simp
  moreover from this have "in_closure loop_walk [lone_key] absent_key"
    by (rule in_closure.dep [of _ _ _ "[lone_key, absent_key]"]) (simp_all add: loop_walk_def)
  ultimately show ?thesis by auto
qed

lemma lone_not_absent [simp]: "lone_key \<noteq> absent_key" "absent_key \<noteq> lone_key"
  by (simp_all add: lone_key_def absent_key_def)

lemma walk_exact_witness:
  "\<exists>s. (walk_step loop_walk)\<^sup>*\<^sup>* (walk_start 0 lone_key []) s \<and> wk_bus s = [lone_key] \<and>
     wr_Errors (wk_res s) = [(absent_key, ''registry: not found'')] \<and> wr_Visited (wk_res s) = 2"
proof -
  have "finite {x. in_closure loop_walk [lone_key] x}" by (simp add: loop_closure)
  then obtain s where s: "(walk_step loop_walk)\<^sup>*\<^sup>* (walk_start 0 lone_key []) s" "wk_inflight s = 0" by (rule walk_finishes)
  have c: "in_closure loop_walk [lone_key] x \<longleftrightarrow> x = lone_key \<or> x = absent_key" for x using loop_closure by blast
  have single: "xs = [y]" if "distinct xs" "set xs = {y}" for xs and y :: 'x
  proof -
    have "length xs = Suc 0" using distinct_card [OF that(1)] that(2) by simp
    then show ?thesis using that(2) by (cases xs) simp_all
  qed
  have names: "\<forall>x. in_closure loop_walk [lone_key] x \<longrightarrow> CHR ''@'' \<notin> set (mk_name x)"
    unfolding c by (auto simp: lone_key_def absent_key_def)
  note r = walk_exact [OF s names]
  have "{x. in_closure loop_walk [lone_key] x \<and> (\<exists>deps. loop_walk x = Inr deps)} = {lone_key}"
    by (auto simp: c loop_walk_def split: if_splits)
  moreover have "{(x, e). in_closure loop_walk [lone_key] x \<and> loop_walk x = Inl e} = {(absent_key, ''registry: not found'')}"
    by (auto simp: c loop_walk_def split: if_splits)
  ultimately have sets: "set (wk_bus s) = {lone_key}" "set (wr_Errors (wk_res s)) = {(absent_key, ''registry: not found'')}"
    using r by simp_all
  have dist: "distinct (wk_bus s)" "distinct (wr_Errors (wk_res s))" using r by (simp_all add: distinct_map)
  have "wr_Visited (wk_res s) = 2" using r by (simp add: loop_closure)
  then show ?thesis using s(1) single [OF dist(1) sets(1)] single [OF dist(2) sets(2)] by blast
qed

lemma walk_terminates_witness:
  "\<not> (\<exists>s. (walk_step loop_walk ^^ 11) (walk_start 0 lone_key []) s) \<and>
   (\<exists>s'. walk_step loop_walk (walk_start 0 lone_key []) s')"
proof -
  have fin: "finite {x. in_closure loop_walk [lone_key] x}" by (simp add: loop_closure)
  have "card (key_text ` {x. in_closure loop_walk [lone_key] x}) = 2"
    unfolding loop_closure by (simp add: key_text_def lone_key_def absent_key_def)
  moreover have "wk_inflight (walk_start 0 lone_key []) \<noteq> 0" by (simp add: walk_start_def walk_enqueue_def)
  ultimately show ?thesis using walk_terminates [OF fin] by fastforce
qed

end
