(* ===== verification/Publication.thy ===== *)
theory Publication
  imports ClosureWalk
begin

text \<open>
  What a client of the mirror tree may rely on while workers write it: a version that metadata.json
  lists is complete. The workers of a walk, and those of later walks after a crash, take the stages
  of walkOneMirrored in any order.
\<close>

section \<open>What a tree promises\<close>

definition blobs_addressed :: "(bytes \<Rightarrow> bytes) \<Rightarrow> disk \<Rightarrow> bool" where
  "blobs_addressed sha d \<longleftrightarrow> (\<forall>h b. d (BlobFile h) = Some b \<longrightarrow> h = hex_text (sha b))"

definition archive_stored :: "(bytes \<Rightarrow> bytes) \<Rightarrow> disk \<Rightarrow> source_json \<Rightarrow> bool" where
  "archive_stored sha d src \<longleftrightarrow>
     (\<exists>b. d (BlobFile (hex_text (sha b))) \<noteq> None \<and> (sj_Integrity src = [] \<or> sj_Integrity src = SRI (sha b)))"

definition entry_complete :: "(bytes \<Rightarrow> bytes) \<Rightarrow> disk \<Rightarrow> module_key \<Rightarrow> bool" where
  "entry_complete sha d k \<longleftrightarrow>
     (\<exists>sb src mb. d (SourceFile (mk_name k) (mk_version k)) = Some sb \<and> ParseSourceJSON sb = Inr src \<and>
       d (ModuleFile (mk_name k) (mk_version k)) = Some mb \<and> archive_stored sha d src)"

definition lists_version :: "disk \<Rightarrow> module_key \<Rightarrow> bool" where
  "lists_version d k \<longleftrightarrow> (\<exists>m vs. local_fields (mk_name k) d = Some m \<and> versions_of m = Some vs \<and> mk_version k \<in> set vs)"

section \<open>The blob store\<close>

lemma copy_chunks_effect:
  assumes "copy_chunks fault j cs vr (s, d) = (err, vr', s', d')" and "d (TempFile (bs_tmp s)) = Some (bs_hashed s)"
  shows "bs_tmp s' = bs_tmp s \<and> vr_expected vr' = vr_expected vr \<and> (\<forall>p. p \<noteq> TempFile (bs_tmp s) \<longrightarrow> d' p = d p) \<and>
    d' (TempFile (bs_tmp s)) = Some (bs_hashed s') \<and>
    (err = None \<longrightarrow> vr_data vr' = vr_data vr @ concat cs \<and> bs_hashed s' = bs_hashed s @ concat cs)"
  using assms
proof (induction cs arbitrary: j vr s d)
  case (Cons c cs)
  have e: "vr_expected (vr_Read c vr) = vr_expected vr" "vr_data (vr_Read c vr) = vr_data vr @ c" by (auto simp: vr_Read_def)
  show ?case
  proof (cases "fault j")
    case None
    let ?s = "s\<lparr>bs_hashed := bs_hashed s @ c, bs_bytes := bs_bytes s + int (length c)\<rparr>"
    let ?d = "d(TempFile (bs_tmp s) \<mapsto> bs_hashed s @ c)"
    have "copy_chunks fault (Suc j) cs (vr_Read c vr) (?s, ?d) = (err, vr', s', d')"
      using Cons.prems None by (simp add: sink_Write_def)
    from Cons.IH [OF this] show ?thesis using e by simp
  next
    case (Some x)
    then show ?thesis using Cons.prems e by (cases x) (auto simp: sink_Write_def)
  qed
qed simp

lemma sink_Close_effect:
  assumes "sink_Close sha io s d = (res, d')" and "d (TempFile (bs_tmp s)) = Some (bs_hashed s)"
  shows "blobs_addressed sha d \<longrightarrow> blobs_addressed sha d'" and "\<forall>h. d (BlobFile h) \<noteq> None \<longrightarrow> d' (BlobFile h) \<noteq> None"
    and "\<forall>p. p \<noteq> TempFile (bs_tmp s) \<and> (\<forall>h. p \<noteq> BlobFile h) \<longrightarrow> d' p = d p"
    and "\<forall>x. res = Inr x \<longrightarrow> d' (BlobFile (hex_text (sha (bs_hashed s)))) \<noteq> None"
  using assms by (auto simp: sink_Close_def remove_temp_def blobs_addressed_def Let_def split: option.splits if_splits)

text \<open>The paths that storing an archive does not use.\<close>

abbreviation blob_keeps :: "walk_env \<Rightarrow> mirror_path \<Rightarrow> bool" where
  "blob_keeps env p \<equiv> (\<forall>t. p = TempFile t \<longrightarrow> io_CreateTemp (we_BlobIO env) \<noteq> Inr t)"

lemma store_archive_effect:
  assumes "store_archive env src d = (err, d')"
  shows "blobs_addressed (we_sha256 env) d \<longrightarrow> blobs_addressed (we_sha256 env) d'" and "\<forall>h. d (BlobFile h) \<noteq> None \<longrightarrow> d' (BlobFile h) \<noteq> None"
    and "\<forall>p. blob_keeps env p \<and> (\<forall>h. p \<noteq> BlobFile h) \<longrightarrow> d' p = d p"
    and "err = None \<longrightarrow> archive_stored (we_sha256 env) d' src"
proof -
  let ?sha = "we_sha256 env" and ?io = "we_BlobIO env"
  have temp: "(blobs_addressed ?sha d \<longrightarrow> blobs_addressed ?sha e) \<and> (\<forall>h. d (BlobFile h) \<noteq> None \<longrightarrow> e (BlobFile h) \<noteq> None) \<and>
      (\<forall>p. blob_keeps env p \<and> (\<forall>h. p \<noteq> BlobFile h) \<longrightarrow> e p = d p)" if "\<forall>p. blob_keeps env p \<longrightarrow> e p = d p" for e :: disk
    using that by (auto simp: blobs_addressed_def)
  have abort: "p \<noteq> TempFile (bs_tmp s) \<Longrightarrow> sink_Abort ?io s e p = e p" for s e p by (simp add: sink_Abort_def remove_temp_def)
  have "(blobs_addressed ?sha d \<longrightarrow> blobs_addressed ?sha d') \<and> (\<forall>h. d (BlobFile h) \<noteq> None \<longrightarrow> d' (BlobFile h) \<noteq> None) \<and>
      (\<forall>p. blob_keeps env p \<and> (\<forall>h. p \<noteq> BlobFile h) \<longrightarrow> d' p = d p) \<and> (err = None \<longrightarrow> archive_stored ?sha d' src)"
  proof (cases "fst (BlobWriter ?io d)")
    case (Inl e)
    then have "snd (BlobWriter ?io d) = d" by (auto simp: BlobWriter_def split: option.splits sum.splits)
    then have "BlobWriter ?io d = (Inl e, d)" using Inl by (metis prod.collapse)
    then have "err \<noteq> None \<and> d' = d" using assms(1) by (auto simp: store_archive_def)
    then show ?thesis using temp [of d] by auto
  next
    case (Inr s)
    then obtain tmp where s: "s = \<lparr>bs_tmp = tmp, bs_hashed = [], bs_bytes = 0\<rparr>" "BlobWriter ?io d = (Inr s, d(TempFile tmp \<mapsto> []))"
      "io_CreateTemp ?io = Inr tmp"
      by (auto simp: BlobWriter_def split: option.splits sum.splits)
    let ?d = "d(TempFile tmp \<mapsto> [])"
    show ?thesis
    proof (cases "FetchArchive (we_Client env) src")
      case (Inl e)
      then have "err \<noteq> None \<and> d' = sink_Abort ?io s ?d" using assms(1) s by (auto simp: store_archive_def)
      then show ?thesis using temp [of "sink_Abort ?io s ?d"] abort [of _ s ?d] s by auto
    next
      case (Inr x)
      then obtain body where b: "FetchArchive (we_Client env) src = Inr (body, NewVerifyingReader (sj_Integrity src))"
        by (auto simp: FetchArchive_def split: if_splits sum.splits)
      obtain cerr vr s' d2 where c: "copy_chunks (we_BlobFault env) 0 (we_Chunks env (hr_Body body))
          (NewVerifyingReader (sj_Integrity src)) (s, ?d) = (cerr, vr, s', d2)" by (metis prod_cases4)
      note eff = copy_chunks_effect [OF c]
      have e: "bs_tmp s' = tmp" "vr_expected vr = sj_Integrity src" "\<forall>p. p \<noteq> TempFile tmp \<longrightarrow> d2 p = d p"
        "d2 (TempFile (bs_tmp s')) = Some (bs_hashed s')" "cerr = None \<Longrightarrow> vr_data vr = bs_hashed s'"
        using eff by (auto simp: s NewVerifyingReader_def)
      have d2: "\<forall>p. blob_keeps env p \<longrightarrow> d2 p = d p" using e(3) s(3) by auto
      have ab: "\<forall>p. blob_keeps env p \<longrightarrow> sink_Abort ?io s' d2 p = d p"
      proof (intro allI impI)
        fix p assume k: "blob_keeps env p"
        then have "p \<noteq> TempFile (bs_tmp s')" using e(1) s(3) by auto
        then show "sink_Abort ?io s' d2 p = d p" using abort [of p s' d2] d2 k by (metis (no_types))
      qed
      show ?thesis
      proof (cases "cerr = None \<and> hr_ReadError body = None \<and> Verify ?sha vr = None")
        case False
        then have "err \<noteq> None \<and> d' = sink_Abort ?io s' d2"
          using assms(1) s b c by (auto simp: store_archive_def split: option.splits)
        then show ?thesis using temp [OF ab] by auto
      next
        case True
        obtain res d3 where close: "sink_Close ?sha ?io s' d2 = (res, d3)" by fastforce
        have "blobs_addressed ?sha d \<longrightarrow> blobs_addressed ?sha d2" using temp [OF d2] by simp
        note cl = this sink_Close_effect [OF close e(4)]
        have r: "d' = d3 \<and> (err = None \<longleftrightarrow> (\<exists>x. res = Inr x))"
          using assms(1) s b c True close by (auto simp: store_archive_def split: sum.splits)
        have "sj_Integrity src = [] \<or> sj_Integrity src = SRI (?sha (bs_hashed s'))"
          using True Verify_None [of ?sha vr] e(2,5) by auto
        then have "err = None \<longrightarrow> archive_stored ?sha d' src" using cl(5) r unfolding archive_stored_def by blast
        then show ?thesis using cl(1-4) r d2 e(1) s(3) by auto
      qed
    qed
  qed
  then show "blobs_addressed ?sha d \<longrightarrow> blobs_addressed ?sha d'" and "\<forall>h. d (BlobFile h) \<noteq> None \<longrightarrow> d' (BlobFile h) \<noteq> None"
    and "\<forall>p. blob_keeps env p \<and> (\<forall>h. p \<noteq> BlobFile h) \<longrightarrow> d' p = d p" and "err = None \<longrightarrow> archive_stored ?sha d' src"
    by blast+
qed

section \<open>The stages of the workers\<close>

text \<open>How far the worker of a key has come, with the documents it holds.\<close>

datatype stage =
    Starting
  | Fetched bytes source_json bytes
  | Archived bytes source_json bytes
  | SourceWritten bytes source_json bytes
  | ModuleWritten bytes source_json bytes
  | Finished

record mirror_run =
  mr_disk :: disk
  mr_stage :: "module_key \<Rightarrow> stage"

text \<open>A value the parser reads back: valid UTF-8, 64-bit integers, and not nested too deep.\<close>

definition plain_member :: "string \<times> json \<Rightarrow> bool" where
  "plain_member x \<longleftrightarrow> valid_utf8 (fst x) \<and> json_ok (snd x) \<and> nests (maxNestingDepth - 1) (snd x)"

text \<open>
  Every stage may fail, leaving a disk that differs in the temporary files only (\<open>failed\<close>); a crash
  leaves such a disk too and ends every worker.
\<close>

inductive mirror_step :: "(bytes \<Rightarrow> bytes) \<Rightarrow> mirror_run \<Rightarrow> mirror_run \<Rightarrow> bool" for sha :: "bytes \<Rightarrow> bytes" where
  registry: "EnsureRegistryJSON io (mr_disk r) = (None, d) \<Longrightarrow> fresh_temp io (mr_disk r) \<Longrightarrow>
     mirror_step sha r \<lparr>mr_disk = d, mr_stage = mr_stage r\<rparr>"
| fetch: "mr_stage r k = Starting \<Longrightarrow> fetch_documents env k = Inr (sb, src, mb) \<Longrightarrow>
     mirror_step sha r \<lparr>mr_disk = mr_disk r, mr_stage = (mr_stage r)(k := Fetched sb src mb)\<rparr>"
| archive: "mr_stage r k = Fetched sb src mb \<Longrightarrow> we_sha256 env = sha \<Longrightarrow> store_archive env src (mr_disk r) = (None, d) \<Longrightarrow>
     mirror_step sha r \<lparr>mr_disk = d, mr_stage = (mr_stage r)(k := Archived sb src mb)\<rparr>"
| archive_failed: "mr_stage r k = Fetched sb src mb \<Longrightarrow> we_sha256 env = sha \<Longrightarrow> store_archive env src (mr_disk r) = (Some err, d) \<Longrightarrow>
     mirror_step sha r \<lparr>mr_disk = d, mr_stage = (mr_stage r)(k := Finished)\<rparr>"
| write_source: "mr_stage r k = Archived sb src mb \<Longrightarrow> fresh_temp io (mr_disk r) \<Longrightarrow>
     WriteSource io (mk_name k) (mk_version k) sb (mr_disk r) = (None, d) \<Longrightarrow>
     mirror_step sha r \<lparr>mr_disk = d, mr_stage = (mr_stage r)(k := SourceWritten sb src mb)\<rparr>"
| write_module: "mr_stage r k = SourceWritten sb src mb \<Longrightarrow> fresh_temp io (mr_disk r) \<Longrightarrow>
     WriteModuleBazel io (mk_name k) (mk_version k) mb (mr_disk r) = (None, d) \<Longrightarrow>
     mirror_step sha r \<lparr>mr_disk = d, mr_stage = (mr_stage r)(k := ModuleWritten sb src mb)\<rparr>"
| list_version: "mr_stage r k = ModuleWritten sb src mb \<Longrightarrow> fresh_temp io (mr_disk r) \<Longrightarrow>
     list_all plain_member (upstream_fields up) \<Longrightarrow> valid_utf8 (mk_version k) \<Longrightarrow>
     MergeMetadataWithUpstream io (mk_name k) (mk_version k) up (mr_disk r) = (None, d) \<Longrightarrow>
     mirror_step sha r \<lparr>mr_disk = d, mr_stage = (mr_stage r)(k := Finished)\<rparr>"
| failed: "(\<forall>p. served p \<longrightarrow> d p = mr_disk r p) \<Longrightarrow>
     mirror_step sha r \<lparr>mr_disk = d, mr_stage = (mr_stage r)(k := Finished)\<rparr>"
| crash: "(\<forall>p. served p \<longrightarrow> d p = mr_disk r p) \<Longrightarrow> mirror_step sha r \<lparr>mr_disk = d, mr_stage = (\<lambda>_. Starting)\<rparr>"

definition stage_ok :: "(bytes \<Rightarrow> bytes) \<Rightarrow> disk \<Rightarrow> module_key \<Rightarrow> stage \<Rightarrow> bool" where
  "stage_ok sha d k s \<longleftrightarrow>
     (case s of
        Fetched sb src mb \<Rightarrow> ParseSourceJSON sb = Inr src
      | Archived sb src mb \<Rightarrow> ParseSourceJSON sb = Inr src \<and> archive_stored sha d src
      | SourceWritten sb src mb \<Rightarrow> ParseSourceJSON sb = Inr src \<and> archive_stored sha d src \<and>
          d (SourceFile (mk_name k) (mk_version k)) = Some sb
      | ModuleWritten sb src mb \<Rightarrow> entry_complete sha d k
      | _ \<Rightarrow> True)"

definition run_ok :: "(bytes \<Rightarrow> bytes) \<Rightarrow> mirror_run \<Rightarrow> bool" where
  "run_ok sha r \<longleftrightarrow> blobs_addressed sha (mr_disk r) \<and>
     (\<forall>n m. local_fields n (mr_disk r) = Some m \<longrightarrow> list_all plain_member m) \<and>
     (\<forall>k. lists_version (mr_disk r) k \<longrightarrow> entry_complete sha (mr_disk r) k) \<and>
     (\<forall>k. stage_ok sha (mr_disk r) k (mr_stage r k))"

text \<open>Changes of the disk that keep every promise made so far.\<close>

definition only_adds :: "(bytes \<Rightarrow> bytes) \<Rightarrow> disk \<Rightarrow> disk \<Rightarrow> bool" where
  "only_adds sha d d' \<longleftrightarrow> blobs_addressed sha d' \<and> (\<forall>h. d (BlobFile h) \<noteq> None \<longrightarrow> d' (BlobFile h) \<noteq> None) \<and>
     (\<forall>n. d' (MetadataFile n) = d (MetadataFile n)) \<and>
     (\<forall>n v. d' (SourceFile n v) = d (SourceFile n v)) \<and> (\<forall>n v. d' (ModuleFile n v) = d (ModuleFile n v))"

lemma only_adds_served: "blobs_addressed sha d \<Longrightarrow> \<forall>p. served p \<longrightarrow> d' p = d p \<Longrightarrow> only_adds sha d d'"
  by (auto simp: only_adds_def blobs_addressed_def)

lemma archive_stored_mono: "archive_stored sha d src \<Longrightarrow> \<forall>h. d (BlobFile h) \<noteq> None \<longrightarrow> d' (BlobFile h) \<noteq> None \<Longrightarrow> archive_stored sha d' src"
  unfolding archive_stored_def by blast

lemma only_adds_keeps:
  assumes "only_adds sha d d'"
  shows "archive_stored sha d src \<Longrightarrow> archive_stored sha d' src" and "entry_complete sha d k \<Longrightarrow> entry_complete sha d' k"
    and "lists_version d' k = lists_version d k" and "local_fields n d' = local_fields n d" and "stage_ok sha d k s \<Longrightarrow> stage_ok sha d' k s"
proof -
  have a: "archive_stored sha d src \<Longrightarrow> archive_stored sha d' src" for src
    using assms archive_stored_mono by (auto simp: only_adds_def)
  then show "archive_stored sha d src \<Longrightarrow> archive_stored sha d' src" .
  have e: "entry_complete sha d k \<Longrightarrow> entry_complete sha d' k" for k
    using assms a unfolding entry_complete_def only_adds_def by auto
  then show "entry_complete sha d k \<Longrightarrow> entry_complete sha d' k" .
  have l: "local_fields n d' = local_fields n d" for n using assms by (simp add: local_fields_def only_adds_def)
  then show "local_fields n d' = local_fields n d" .
  show "lists_version d' k = lists_version d k" by (simp add: lists_version_def l)
  show "stage_ok sha d k s \<Longrightarrow> stage_ok sha d' k s"
    using assms a e by (cases s) (auto simp: stage_ok_def only_adds_def)
qed

lemma run_ok_adds:
  assumes "run_ok sha r" and "only_adds sha (mr_disk r) d" and "\<forall>j. stage_ok sha d j (st j) \<or> st j = mr_stage r j"
  shows "run_ok sha \<lparr>mr_disk = d, mr_stage = st\<rparr>"
proof -
  have "stage_ok sha d j (st j)" for j
    using assms only_adds_keeps(5) [OF assms(2), of j "mr_stage r j"] by (auto simp: run_ok_def)
  then show ?thesis using assms(1,2) only_adds_keeps [OF assms(2)] by (auto simp: run_ok_def only_adds_def)
qed

section \<open>The metadata\<close>

lemma readable_iff: "readable m \<longleftrightarrow> list_all plain_member m"
  by (auto simp: readable_def plain_member_def list_all_iff maxNestingDepth_def)

lemma plain_update: "list_all plain_member m \<Longrightarrow> plain_member (k, j) \<Longrightarrow> list_all plain_member (AList.update k j m)"
  by (induction m) auto

lemma plain_lift: "list_all plain_member m \<Longrightarrow> list_all plain_member u \<Longrightarrow> list_all plain_member (lift_keys ks u m)"
proof (induction ks arbitrary: m)
  case (Cons k ks)
  have "plain_member (k, j)" if "map_of u k = Some j" for j
    using Cons.prems(2) map_of_SomeD [OF that] by (auto simp: list_all_iff)
  then show ?case using Cons by (auto simp: plain_update split: option.splits)
qed simp

lemma plain_versions:
  assumes "list_all plain_member m" and "versions_of m = Some vs"
  shows "list_all valid_utf8 vs"
proof (cases "map_of m ''versions''")
  case (Some j)
  have j: "json_ok j" using assms(1) map_of_SomeD [OF Some] by (auto simp: list_all_iff plain_member_def)
  have "list_all json_ok js \<Longrightarrow> those (map (\<lambda>e. decode_string e []) js) = Some vs \<Longrightarrow> list_all valid_utf8 vs" for js vs
  proof (induction js arbitrary: vs)
    case (Cons e js)
    then show ?case by (cases e) (auto simp: decode_string_def)
  qed simp
  then show ?thesis using assms(2) j Some by (cases j) (auto simp: versions_of_def decode_strings_def)
qed (use assms(2) in \<open>simp add: versions_of_def\<close>)

lemma merge_listed:
  assumes "MergeMetadataWithUpstream io n v up d = (None, d')" and "fresh_temp io d" and "list_all plain_member (upstream_fields up)"
    and "valid_utf8 v" and "\<forall>n m. local_fields n d = Some m \<longrightarrow> list_all plain_member m"
  obtains m vs m' where "local_fields n d = Some m" "versions_of m = Some vs" "local_fields n d' = Some m'"
    "versions_of m' = Some (merged_versions v vs)" "list_all plain_member m'" "\<forall>p. p \<noteq> MetadataFile n \<longrightarrow> d' p = d p"
proof -
  obtain m vs where m: "local_fields n d = Some m" "versions_of m = Some vs"
    "d' = d(MetadataFile n \<mapsto> metadata_text (AList.update ''versions'' (JArr (map JStr (merged_versions v vs)))
       (lift_fields (upstream_fields up) m)))"
    by (rule merge_success [OF assms(1,2)])
  let ?m = "AList.update ''versions'' (JArr (map JStr (merged_versions v vs))) (lift_fields (upstream_fields up) m)"
  have pm: "list_all plain_member m" using assms(5) m(1) by blast
  have "list_all valid_utf8 (merged_versions v vs)"
    using plain_versions [OF pm m(2)] assms(4) by (auto simp: merged_versions_def list_all_iff)
  then have "plain_member (''versions'', JArr (map JStr (merged_versions v vs)))"
    by (simp add: plain_member_def list_all_iff maxNestingDepth_def)
  then have plain: "list_all plain_member ?m"
    using plain_update plain_lift [OF pm assms(3)] by (simp add: lift_fields_def)
  have dist: "distinct (map fst ?m)" by (intro distinct_update distinct_lift_fields distinct_local_fields [OF m(1)])
  have "local_fields n d' = Some (sort_key fst ?m)"
    using decode_metadata_text [OF dist] plain by (simp add: local_fields_def m(3) readable_iff)
  moreover have "versions_of (sort_key fst ?m) = Some (merged_versions v vs)"
    using map_of_sort_key [OF dist] by (simp add: versions_of_def update_conv')
  moreover have "list_all plain_member (sort_key fst ?m)" using plain by (simp add: list_all_iff)
  moreover have "\<forall>p. p \<noteq> MetadataFile n \<longrightarrow> d' p = d p" by (simp add: m(3))
  ultimately show thesis using that m by blast
qed

section \<open>The promise\<close>

lemma entry_complete_cong:
  assumes "\<forall>p. (\<forall>n v. p \<noteq> MetadataFile n) \<longrightarrow> d' p = d p"
  shows "entry_complete sha d' k = entry_complete sha d k" and "stage_ok sha d' k s = stage_ok sha d k s"
    and "archive_stored sha d' src = archive_stored sha d src" and "blobs_addressed sha d' = blobs_addressed sha d"
proof -
  have p: "d' (SourceFile n v) = d (SourceFile n v)" "d' (ModuleFile n v) = d (ModuleFile n v)" "d' (BlobFile h) = d (BlobFile h)" for n v h
    using assms by simp_all
  show "entry_complete sha d' k = entry_complete sha d k" "archive_stored sha d' src = archive_stored sha d src"
    "blobs_addressed sha d' = blobs_addressed sha d"
    by (simp_all add: entry_complete_def archive_stored_def blobs_addressed_def p)
  show "stage_ok sha d' k s = stage_ok sha d k s"
    by (cases s) (simp_all add: stage_ok_def entry_complete_def archive_stored_def p)
qed

lemma mirror_step_ok:
  assumes "mirror_step sha r r'" and ok: "run_ok sha r"
  shows "run_ok sha r'"
proof -
  have b: "blobs_addressed sha (mr_disk r)" and st: "stage_ok sha (mr_disk r) j (mr_stage r j)" for j
    using ok by (simp_all add: run_ok_def)
  show ?thesis
    using assms(1)
  proof cases
    case (registry io d)
    have "d = mr_disk r \<or> d = (mr_disk r)(RegistryFile \<mapsto> ''{}'' @ [CHR 0x0A])"
      using registry(2) atomicWrite_effect(1) [OF _ registry(3), of RegistryFile]
      by (auto simp: EnsureRegistryJSON_def split: if_splits)
    then have "only_adds sha (mr_disk r) d" using b by (auto simp: only_adds_def blobs_addressed_def)
    then show ?thesis unfolding registry(1) by (intro run_ok_adds [OF ok]) auto
  next
    case (fetch k env sb src mb)
    have "ParseSourceJSON sb = Inr src"
      using fetch(3) by (auto simp: fetch_documents_def split: sum.splits if_splits)
    then show ?thesis unfolding fetch(1) using b
      by (intro run_ok_adds [OF ok]) (auto simp: stage_ok_def only_adds_def)
  next
    case (archive k sb src mb env d)
    note e = store_archive_effect [OF archive(4), unfolded archive(3)]
    have "only_adds sha (mr_disk r) d" using e b by (auto simp: only_adds_def)
    moreover have "stage_ok sha d k (Archived sb src mb)" using e(4) st [of k] archive(2) by (simp add: stage_ok_def)
    ultimately show ?thesis unfolding archive(1) by (intro run_ok_adds [OF ok]) auto
  next
    case (archive_failed k sb src mb env err d)
    note e = store_archive_effect [OF archive_failed(4), unfolded archive_failed(3)]
    have "only_adds sha (mr_disk r) d" using e b by (auto simp: only_adds_def)
    then show ?thesis unfolding archive_failed(1) by (intro run_ok_adds [OF ok]) (auto simp: stage_ok_def)
  next
    case (write_source k sb src mb io d)
    have d: "d = (mr_disk r)(SourceFile (mk_name k) (mk_version k) \<mapsto> sb)"
      using write_source(4) atomicWrite_effect(1) [OF _ write_source(3)] by (auto simp: WriteSource_def split: option.splits)
    have k: "ParseSourceJSON sb = Inr src" "archive_stored sha (mr_disk r) src" using st [of k] write_source(2) by (simp_all add: stage_ok_def)
    have a: "archive_stored sha d x = archive_stored sha (mr_disk r) x" for x by (simp add: archive_stored_def d)
    have e: "entry_complete sha (mr_disk r) j \<Longrightarrow> entry_complete sha d j" for j
      using k a by (auto simp: entry_complete_def d)
    have "stage_ok sha d j (mr_stage r j)" if "j \<noteq> k" for j
    proof -
      have "\<not> (mk_name k = mk_name j \<and> mk_version k = mk_version j)" using that by (metis module_key.equality old.unit.exhaust)
      then show ?thesis using st [of j] a e by (cases "mr_stage r j") (auto simp: stage_ok_def d)
    qed
    moreover have "stage_ok sha d k (SourceWritten sb src mb)" using k a by (simp add: stage_ok_def d)
    moreover have "local_fields n d = local_fields n (mr_disk r)" for n by (simp add: local_fields_def d)
    ultimately show ?thesis using ok e unfolding write_source(1) by (auto simp: run_ok_def lists_version_def blobs_addressed_def d)
  next
    case (write_module k sb src mb io d)
    have d: "d = (mr_disk r)(ModuleFile (mk_name k) (mk_version k) \<mapsto> mb)"
      using write_module(4) atomicWrite_effect(1) [OF _ write_module(3)] by (auto simp: WriteModuleBazel_def split: option.splits)
    have k: "ParseSourceJSON sb = Inr src" "archive_stored sha (mr_disk r) src"
      "mr_disk r (SourceFile (mk_name k) (mk_version k)) = Some sb" using st [of k] write_module(2) by (simp_all add: stage_ok_def)
    have a: "archive_stored sha d x = archive_stored sha (mr_disk r) x" for x by (simp add: archive_stored_def d)
    have e: "entry_complete sha (mr_disk r) j \<Longrightarrow> entry_complete sha d j" for j
      using a by (auto simp: entry_complete_def d)
    have "stage_ok sha d j (mr_stage r j)" for j
      using st [of j] a e by (cases "mr_stage r j") (auto simp: stage_ok_def d)
    moreover have "stage_ok sha d k (ModuleWritten sb src mb)" using k a by (auto simp: stage_ok_def entry_complete_def d)
    moreover have "local_fields n d = local_fields n (mr_disk r)" for n by (simp add: local_fields_def d)
    ultimately show ?thesis using ok e unfolding write_module(1) by (auto simp: run_ok_def lists_version_def blobs_addressed_def d)
  next
    case (list_version k sb src mb io up d)
    have plain: "\<forall>n m. local_fields n (mr_disk r) = Some m \<longrightarrow> list_all plain_member m" using ok by (simp add: run_ok_def)
    obtain m vs m' where m: "local_fields (mk_name k) (mr_disk r) = Some m" "versions_of m = Some vs" "local_fields (mk_name k) d = Some m'"
      "versions_of m' = Some (merged_versions (mk_version k) vs)" "list_all plain_member m'" "\<forall>p. p \<noteq> MetadataFile (mk_name k) \<longrightarrow> d p = mr_disk r p"
      by (rule merge_listed [OF list_version(6,3,4,5) plain])
    have c: "\<forall>p. (\<forall>n v. p \<noteq> MetadataFile n) \<longrightarrow> d p = mr_disk r p" using m(6) by simp
    have other: "local_fields n d = local_fields n (mr_disk r)" if "n \<noteq> mk_name k" for n using m(6) that by (simp add: local_fields_def)
    have new: "lists_version (mr_disk r) j \<or> j = k" if "lists_version d j" for j
    proof (cases "mk_name j = mk_name k")
      case True
      then have "mk_version j \<in> set vs \<or> mk_version j = mk_version k"
        using that m(3,4) by (auto simp: lists_version_def merged_versions_def split: if_splits)
      then show ?thesis using m(1,2) True by (auto simp: lists_version_def intro: module_key.equality)
    qed (use that other in \<open>simp add: lists_version_def\<close>)
    have k: "entry_complete sha (mr_disk r) k" using st [of k] list_version(2) by (simp add: stage_ok_def)
    have "entry_complete sha d j" if "lists_version d j" for j
      using new [OF that] k ok unfolding entry_complete_cong(1) [OF c] run_ok_def by blast
    moreover have "\<forall>n m. local_fields n d = Some m \<longrightarrow> list_all plain_member m" using plain m(3,5) other by (metis option.inject)
    ultimately show ?thesis using st b unfolding list_version(1)
      by (auto simp: run_ok_def entry_complete_cong [OF c]) (simp add: stage_ok_def)
  next
    case (failed d k)
    then show ?thesis using run_ok_adds [OF ok only_adds_served [OF b failed(2)]] by (auto simp: stage_ok_def)
  next
    case (crash d)
    then show ?thesis using run_ok_adds [OF ok only_adds_served [OF b crash(2)]] by (auto simp: stage_ok_def)
  qed
qed

lemma hex_text_inject: "hex_text a = hex_text b \<Longrightarrow> a = b"
proof (induction a arbitrary: b)
  case Nil
  then show ?case by (cases b) (simp_all add: hex_text_def)
next
  case (Cons c a)
  then obtain e b' where b: "b = e # b'" by (cases b) (auto simp: hex_text_def)
  have inj: "hex_lower m = hex_lower n \<Longrightarrow> m < 16 \<Longrightarrow> n < 16 \<Longrightarrow> m = n" for m n
    using hex_val_lower by (metis option.inject)
  have small: "of_char x div 16 < (16 :: nat)" for x :: char
    using nat_of_char_less_256 [of x] by (intro less_mult_imp_div_less) linarith
  have "of_char c div 16 = (of_char e div 16 :: nat)" "of_char c mod 16 = (of_char e mod 16 :: nat)"
    using Cons.prems small [of c] small [of e] by (auto simp: b hex_text_def intro: inj)
  then have "c = e" by (metis char_eq_iff_nat div_mult_mod_eq)
  moreover have "hex_text a = hex_text b'" using Cons.prems by (simp add: b hex_text_def)
  ultimately show ?case using Cons.IH b by simp
qed

lemma mirror_run_ok:
  assumes "(mirror_step sha)\<^sup>*\<^sup>* \<lparr>mr_disk = (\<lambda>_. None), mr_stage = (\<lambda>_. Starting)\<rparr> r"
  shows "run_ok sha r"
  using assms
proof induction
  case base
  then show ?case by (auto simp: run_ok_def blobs_addressed_def lists_version_def local_fields_def versions_of_def stage_ok_def)
qed (rule mirror_step_ok)

lemma complete_entry:
  assumes "run_ok sha r" and "lists_version (mr_disk r) k"
  shows "\<exists>sb src mb b. mr_disk r (SourceFile (mk_name k) (mk_version k)) = Some sb \<and> ParseSourceJSON sb = Inr src \<and>
    mr_disk r (ModuleFile (mk_name k) (mk_version k)) = Some mb \<and>
    mr_disk r (BlobFile (hex_text (sha b))) = Some b \<and> (sj_Integrity src = [] \<or> sj_Integrity src = SRI (sha b))"
proof -
  have "entry_complete sha (mr_disk r) k" "blobs_addressed sha (mr_disk r)" using assms by (simp_all add: run_ok_def)
  then obtain sb src mb b c where e: "mr_disk r (SourceFile (mk_name k) (mk_version k)) = Some sb" "ParseSourceJSON sb = Inr src"
    "mr_disk r (ModuleFile (mk_name k) (mk_version k)) = Some mb" "mr_disk r (BlobFile (hex_text (sha b))) = Some c"
    "sj_Integrity src = [] \<or> sj_Integrity src = SRI (sha b)" "hex_text (sha b) = hex_text (sha c)"
    unfolding entry_complete_def archive_stored_def blobs_addressed_def by blast
  then have "sha b = sha c" using hex_text_inject by blast
  then show ?thesis using e by auto
qed


section \<open>One worker\<close>

text \<open>The temporary names are new, and the blob's is not picked again before it is gone.\<close>

definition fresh_walk :: "walk_env \<Rightarrow> disk \<Rightarrow> bool" where
  "fresh_walk env d \<longleftrightarrow> (\<forall>io \<in> {we_RegistryIO env, we_SourceIO env, we_ModuleIO env, we_MetadataIO env}. \<forall>tmp.
     io_CreateTemp io = Inr tmp \<longrightarrow> d (TempFile tmp) = None \<and> io_CreateTemp (we_BlobIO env) \<noteq> Inr tmp)"

lemma store_archive_temps:
  assumes "store_archive env src d = (err, d')" and "io_CreateTemp (we_BlobIO env) \<noteq> Inr t"
  shows "d' (TempFile t) = d (TempFile t)"
  using store_archive_effect(3) [OF assms(1)] assms(2) by simp

lemma fresh_walk_at:
  assumes "fresh_walk env d" and "io \<in> {we_RegistryIO env, we_SourceIO env, we_ModuleIO env, we_MetadataIO env}"
    and "\<forall>t. io_CreateTemp (we_BlobIO env) \<noteq> Inr t \<longrightarrow> e (TempFile t) = d (TempFile t)"
  shows "fresh_temp io e"
  using assms unfolding fresh_walk_def fresh_temp_def by metis

abbreviation mirror_reach :: "(bytes \<Rightarrow> bytes) \<Rightarrow> mirror_run \<Rightarrow> disk \<Rightarrow> (module_key \<Rightarrow> stage) \<Rightarrow> bool" where
  "mirror_reach sha r0 d g \<equiv> (mirror_step sha)\<^sup>*\<^sup>* r0 \<lparr>mr_disk = d, mr_stage = g\<rparr>"

lemma mirror_more: "mirror_reach sha r0 d g \<Longrightarrow> mirror_step sha \<lparr>mr_disk = d, mr_stage = g\<rparr> \<lparr>mr_disk = d', mr_stage = g'\<rparr> \<Longrightarrow> mirror_reach sha r0 d' g'"
  by (rule rtranclp.rtrancl_into_rtrancl)

lemma mirror_stop: "mirror_reach sha r0 d g \<Longrightarrow> \<forall>p. served p \<longrightarrow> d' p = d p \<Longrightarrow> \<exists>g'. mirror_reach sha r0 d' g'"
  using mirror_more [OF _ mirror_step.failed [of d' "\<lparr>mr_disk = d, mr_stage = g\<rparr>"]] by force

lemma atomicWrite_temps:
  assumes "atomicWrite io p b e = (None, e')" and "fresh_temp io e" and "served p"
  shows "e' (TempFile t) = e (TempFile t)"
  using atomicWrite_effect(1) [OF assms] assms(3) by auto

lemma atomicWrite_served:
  "atomicWrite io p b e = (Some err, e') \<Longrightarrow> fresh_temp io e \<Longrightarrow> served p \<Longrightarrow> \<forall>q. served q \<longrightarrow> e' q = e q"
  using atomicWrite_effect(2) by blast

lemmas mirror_steps = mirror_step.intros [where r = "\<lparr>mr_disk = d, mr_stage = g\<rparr>" for d g, unfolded mirror_run.select_convs]

lemma write_entry_refines:
  assumes w: "write_entry env k sb mb d = (res, d')" and r: "mirror_reach (we_sha256 env) r0 d g" and g: "g k = Archived sb src mb"
    and "fresh_walk env d0" and temps: "\<forall>t. io_CreateTemp (we_BlobIO env) \<noteq> Inr t \<longrightarrow> d (TempFile t) = d0 (TempFile t)"
    and plain: "list_all plain_member (upstream_fields (upstream_metadata env k))" "valid_utf8 (mk_version k)"
  shows "\<exists>g'. mirror_reach (we_sha256 env) r0 d' g'"
proof -
  note fresh = fresh_walk_at [OF assms(4)]
  have f1: "fresh_temp (we_SourceIO env) d" by (rule fresh [OF _ temps]) simp
  obtain e1 d1 where s1: "WriteSource (we_SourceIO env) (mk_name k) (mk_version k) sb d = (e1, d1)" by fastforce
  obtain e2 d2 where s2: "WriteModuleBazel (we_ModuleIO env) (mk_name k) (mk_version k) mb d1 = (e2, d2)" by fastforce
  obtain e3 d3 where s3: "MergeMetadataWithUpstream (we_MetadataIO env) (mk_name k) (mk_version k) (upstream_metadata env k) d2 = (e3, d3)"
    by fastforce
  show ?thesis
  proof (cases e1)
    case (Some err)
    then have "d' = d1" "\<forall>p. served p \<longrightarrow> d1 p = d p"
      using w s1 atomicWrite_served [OF _ f1] by (auto simp: write_entry_def WriteSource_def split: option.splits)
    then show ?thesis using mirror_stop [OF r] by auto
  next
    case None1: None
    note r1 = mirror_more [OF r mirror_steps(5) [where g = g and k = k, OF g f1 s1 [unfolded None1]]]
    have t1: "\<forall>t. io_CreateTemp (we_BlobIO env) \<noteq> Inr t \<longrightarrow> d1 (TempFile t) = d0 (TempFile t)"
      using s1 None1 atomicWrite_temps [OF _ f1] temps by (auto simp: WriteSource_def split: option.splits)
    have f2: "fresh_temp (we_ModuleIO env) d1" by (rule fresh [OF _ t1]) simp
    show ?thesis
    proof (cases e2)
      case (Some err)
      then have "d' = d2" "\<forall>p. served p \<longrightarrow> d2 p = d1 p"
        using w s1 None1 s2 atomicWrite_served [OF _ f2] by (auto simp: write_entry_def WriteModuleBazel_def split: option.splits)
      then show ?thesis using mirror_stop [OF r1] by auto
    next
      case None2: None
      note r2 = mirror_more [OF r1 mirror_steps(6) [where g = "g(k := SourceWritten sb src mb)" and k = k, OF fun_upd_same f2 s2 [unfolded None2]]]
      have t2: "\<forall>t. io_CreateTemp (we_BlobIO env) \<noteq> Inr t \<longrightarrow> d2 (TempFile t) = d0 (TempFile t)"
        using s2 None2 atomicWrite_temps [OF _ f2] t1 by (auto simp: WriteModuleBazel_def split: option.splits)
      have f3: "fresh_temp (we_MetadataIO env) d2" by (rule fresh [OF _ t2]) simp
      have d': "d' = d3" using w s1 None1 s2 None2 s3 by (auto simp: write_entry_def split: option.splits)
      show ?thesis
      proof (cases e3)
        case (Some err)
        then show ?thesis using mirror_stop [OF r2] merge_failure [OF _ f3] s3 d' by blast
      next
        case None3: None
        show ?thesis
          using mirror_more [OF r2 mirror_steps(7) [where g = "g(k := SourceWritten sb src mb, k := ModuleWritten sb src mb)" and k = k, OF fun_upd_same f3 plain s3 [unfolded None3]]] d' by blast
      qed
    qed
  qed
qed

lemma walk_refines:
  assumes "walkOneMirrored env k d = (res, d')" and "fresh_walk env d"
    and "list_all plain_member (upstream_fields (upstream_metadata env k))" and "valid_utf8 (mk_version k)"
    and "st k = Starting"
  shows "\<exists>st'. (mirror_step (we_sha256 env))\<^sup>*\<^sup>* \<lparr>mr_disk = d, mr_stage = st\<rparr> \<lparr>mr_disk = d', mr_stage = st'\<rparr>"
proof -
  let ?r0 = "\<lparr>mr_disk = d, mr_stage = st\<rparr>"
  have f0: "fresh_temp (we_RegistryIO env) d" by (rule fresh_walk_at [OF assms(2)]) simp_all
  obtain e1 d1 where s1: "EnsureRegistryJSON (we_RegistryIO env) d = (e1, d1)" by fastforce
  show ?thesis
  proof (cases e1)
    case (Some err)
    then have "d' = d1" "\<forall>p. served p \<longrightarrow> d1 p = d p"
      using assms(1) s1 atomicWrite_served [OF _ f0] by (auto simp: walkOneMirrored_def EnsureRegistryJSON_def split: if_splits)
    then show ?thesis using mirror_stop [of _ ?r0 d st] by auto
  next
    case None
    have r1: "mirror_reach (we_sha256 env) ?r0 d1 st"
      using mirror_step.registry [of "we_RegistryIO env" ?r0] s1 None f0 by auto
    have t1: "\<forall>t. d1 (TempFile t) = d (TempFile t)"
      using s1 None atomicWrite_temps [OF _ f0] by (auto simp: EnsureRegistryJSON_def split: if_splits)
    show ?thesis
    proof (cases "fetch_documents env k")
      case (Inl err)
      then have "d' = d1" using assms(1) s1 None by (auto simp: walkOneMirrored_def)
      then show ?thesis using r1 by blast
    next
      case (Inr docs)
      then obtain sb src mb where docs: "fetch_documents env k = Inr (sb, src, mb)" by (cases docs) auto
      note r2 = mirror_more [OF r1 mirror_steps(2) [where g = st and k = k, OF assms(5) docs]]
      obtain e3 d3 where s3: "store_archive env src d1 = (e3, d3)" by fastforce
      show ?thesis
      proof (cases e3)
        case (Some err)
        then have "d' = d3" using assms(1) s1 None docs s3 by (auto simp: walkOneMirrored_def)
        then show ?thesis
          using mirror_more [OF r2 mirror_steps(4) [where g = "st(k := Fetched sb src mb)" and k = k, OF fun_upd_same refl s3 [unfolded Some]]] by blast
      next
        case None3: None
        note r3 = mirror_more [OF r2 mirror_steps(3) [where g = "st(k := Fetched sb src mb)" and k = k, OF fun_upd_same refl s3 [unfolded None3]]]
        have "write_entry env k sb mb d3 = (res, d')" using assms(1) s1 None docs s3 None3 by (simp add: walkOneMirrored_def)
        moreover have "\<forall>t. io_CreateTemp (we_BlobIO env) \<noteq> Inr t \<longrightarrow> d3 (TempFile t) = d (TempFile t)"
          using store_archive_temps [OF s3] t1 by simp
        ultimately show ?thesis using write_entry_refines [OF _ r3 _ assms(2)] assms(3,4) by force
      qed
    qed
  qed
qed

text \<open>
  C17: what one worker does is a run of the stages: whatever walkOneMirrored returns and leaves on
  the disk, the stages reach the same disk, so the promise about listed versions holds of it.
\<close>

theorem walkOneMirrored_refines:
  assumes "walkOneMirrored env k d = (res, d')" and "fresh_walk env d"
    and "list_all plain_member (upstream_fields (upstream_metadata env k))" and "valid_utf8 (mk_version k)"
    and "st k = Starting"
  shows "\<exists>st'. (mirror_step (we_sha256 env))\<^sup>*\<^sup>* \<lparr>mr_disk = d, mr_stage = st\<rparr> \<lparr>mr_disk = d', mr_stage = st'\<rparr>"
  using walk_refines [OF assms(1-4), of st] assms(5) by simp

section \<open>A small registry\<close>

text \<open>One module without dependencies, whose archive is one byte; every content has the same digest.\<close>

definition tiny_digest :: bytes where
  "tiny_digest = replicate 32 (CHR ''k'')"

definition tiny_document :: "string \<Rightarrow> bytes" where
  "tiny_document u = (if u = ''source.json'' then ''{'' @ [CHR 0x22] @ ''url'' @ [CHR 0x22] @ '':'' @ [CHR 0x22] @ ''t'' @ [CHR 0x22] @ '','' @
     [CHR 0x22] @ ''integrity'' @ [CHR 0x22] @ '':'' @ [CHR 0x22] @ SRI tiny_digest @ [CHR 0x22] @ ''}'' else ''x'')"

definition tiny_client :: registry_client where
  "tiny_client = \<lparr>rg_Lib = \<lparr>fl_Hostname = (\<lambda>_. Some ''h''), fl_Resolve = (\<lambda>r l. None),
       fl_Net = (\<lambda>k r. Inr \<lparr>hr_Status = (if oq_URL r = ''metadata.json'' then 404 else 200), hr_Body = tiny_document (oq_URL r),
         hr_ReadError = None, tr_Location = [], tr_ContentLength = 0, tr_ContentType = []\<rparr>),
       fl_Env = (\<lambda>k. \<lparr>ev_TS = ''t'', ev_Duration = 5, ev_Frames = []\<rparr>)\<rparr>,
     rg_Transport = audit_transport, rg_AllowedHosts = [''h''],
     rg_NewRequest = (\<lambda>u. Inr \<lparr>oq_Method = ''GET'', oq_URL = u, oq_Hostname = ''h''\<rparr>),
     rg_JoinPath = (\<lambda>u segs. Inr (last segs))\<rparr>"

definition tiny_env :: walk_env where
  "tiny_env = \<lparr>we_Client = tiny_client, we_URL = ''u'', we_sha256 = (\<lambda>_. tiny_digest), we_Parse = (\<lambda>_. Inr []), we_Chunks = (\<lambda>b. [b]),
     we_BlobFault = (\<lambda>_. None), we_RegistryIO = sound_io ''1'', we_BlobIO = sound_io ''2'', we_SourceIO = sound_io ''3'',
     we_ModuleIO = sound_io ''4'', we_MetadataIO = sound_io ''5''\<rparr>"

definition tiny_key :: module_key where
  "tiny_key = \<lparr>mk_name = ''a'', mk_version = ''1.0''\<rparr>"

definition tiny_source :: source_json where
  "tiny_source = empty_source\<lparr>sj_URL := ''t'', sj_Integrity := SRI tiny_digest\<rparr>"

lemma tiny_client_get:
  "client_get tiny_client ''source.json'' = Inr \<lparr>hr_Status = 200, hr_Body = tiny_document ''source.json'', hr_ReadError = None,
     tr_Location = [], tr_ContentLength = 0, tr_ContentType = []\<rparr>"
  "client_get tiny_client ''MODULE.bazel'' = Inr \<lparr>hr_Status = 200, hr_Body = ''x'', hr_ReadError = None,
     tr_Location = [], tr_ContentLength = 0, tr_ContentType = []\<rparr>"
  "client_get tiny_client ''t'' = Inr \<lparr>hr_Status = 200, hr_Body = ''x'', hr_ReadError = None,
     tr_Location = [], tr_ContentLength = 0, tr_ContentType = []\<rparr>"
  "isl (client_get tiny_client ''metadata.json'')"
  by code_simp+

lemma tiny_parse: "ParseSourceJSON (tiny_document ''source.json'') = Inr tiny_source"
  by code_simp

lemma length_tiny: "length (base64 tiny_digest) = 44"
  by code_simp

lemma tiny_documents:
  "fetch_documents tiny_env tiny_key = Inr (tiny_document ''source.json'', tiny_source, ''x'')"
  "upstream_metadata tiny_env tiny_key = []"
proof -
  have j: "joinURL tiny_client ''u'' segs = Inr (last segs)" for segs by (simp add: joinURL_def tiny_client_def)
  have r: "getRaw tiny_client ''source.json'' = Inr (tiny_document ''source.json'')" "getRaw tiny_client ''MODULE.bazel'' = Inr ''x''"
    using readAllCapped_Inr by (auto simp: getRaw_def tiny_client_get MaxJSONResponseBytes_def tiny_document_def SRI_def length_tiny)
  have e: "we_Client tiny_env = tiny_client" "we_URL tiny_env = ''u''" by (simp_all add: tiny_env_def)
  show "fetch_documents tiny_env tiny_key = Inr (tiny_document ''source.json'', tiny_source, ''x'')"
    by (simp add: fetch_documents_def e GetSourceJSONBytes_def GetModuleBazel_def j r relabel_def tiny_parse tiny_source_def empty_source_def)
  show "upstream_metadata tiny_env tiny_key = []"
    using tiny_client_get(4) by (auto simp: upstream_metadata_def e GetMetadataBytes_def j getRaw_def relabel_def split: sum.splits)
qed

definition tiny_disk :: disk where
  "tiny_disk = [RegistryFile \<mapsto> ''{}'' @ [CHR 0x0A], BlobFile (hex_text tiny_digest) \<mapsto> ''x'', SourceFile ''a'' ''1.0'' \<mapsto> tiny_document ''source.json'',
     ModuleFile ''a'' ''1.0'' \<mapsto> ''x'', MetadataFile ''a'' \<mapsto> metadata_text [(''versions'', JArr [JStr ''1.0''])]]"

lemma tiny_walk: "walkOneMirrored tiny_env tiny_key (\<lambda>_. None) = (Inr [], tiny_disk)"
proof -
  have io: "atomicWrite (sound_io t) p b d = (None, (d(TempFile t \<mapsto> b))(TempFile t := None, p \<mapsto> b))" for t p b d
    by (simp add: atomicWrite_def atomicWrite_states_def sound_io_def Let_def)
  have v: "Verify (\<lambda>_. tiny_digest) (vr_Read c (NewVerifyingReader (SRI tiny_digest))) = None" for c
    by (simp add: Verify_None vr_Read_def NewVerifyingReader_def)
  have store: "store_archive tiny_env tiny_source [RegistryFile \<mapsto> ''{}'' @ [CHR 0x0A]] =
      (None, [RegistryFile \<mapsto> ''{}'' @ [CHR 0x0A], BlobFile (hex_text tiny_digest) \<mapsto> ''x''])"
    by (auto simp: store_archive_def tiny_env_def BlobWriter_def sound_io_def FetchArchive_def tiny_source_def empty_source_def
        tiny_client_get v sink_Write_def sink_Close_def Let_def fun_eq_iff)
  have ios: "we_RegistryIO tiny_env = sound_io ''1''" "we_SourceIO tiny_env = sound_io ''3''" "we_ModuleIO tiny_env = sound_io ''4''"
    "we_MetadataIO tiny_env = sound_io ''5''" "mk_name tiny_key = ''a''" "mk_version tiny_key = ''1.0''"
    "io_MkdirAll (sound_io t) = None" "io_Read (sound_io t) = None" "parseDeps tiny_env m = Inr []" for t m
    by (simp_all add: tiny_env_def tiny_key_def sound_io_def parseDeps_def filter_deps_def)
  have gone: "d (TempFile t) = None \<Longrightarrow> (d(TempFile t \<mapsto> b))(TempFile t := None, p \<mapsto> c) = d(p \<mapsto> c)" for t p b c and d :: disk
    by (auto simp: fun_eq_iff)
  have reg: "EnsureRegistryJSON (we_RegistryIO tiny_env) (\<lambda>_. None) = (None, [RegistryFile \<mapsto> ''{}'' @ [CHR 0x0A]])"
    by (simp add: EnsureRegistryJSON_def ios io gone)
  have m: "merge_version ''1.0'' (lift_fields [] []) = Inr [(''versions'', JArr [JStr ''1.0''])]"
    by (simp add: merge_version_def lift_fields_def upstreamMetadataLiftedFields_def)
  have "write_entry tiny_env tiny_key (tiny_document ''source.json'') ''x'' [RegistryFile \<mapsto> ''{}'' @ [CHR 0x0A], BlobFile (hex_text tiny_digest) \<mapsto> ''x''] =
      (Inr [], tiny_disk)"
    by (simp add: write_entry_def ios WriteSource_def WriteModuleBazel_def io gone tiny_documents(2) MergeMetadataWithUpstream_def m
        metadata_text_def tiny_disk_def)
  then show ?thesis using store reg by (simp add: walkOneMirrored_def tiny_documents(1))
qed

lemma tiny_fresh: "fresh_walk tiny_env (\<lambda>_. None)"
  by (simp add: fresh_walk_def tiny_env_def sound_io_def)

lemma walkOneMirrored_refines_witness:
  "\<exists>g. mirror_reach (we_sha256 tiny_env) \<lparr>mr_disk = (\<lambda>_. None), mr_stage = (\<lambda>_. Starting)\<rparr> tiny_disk g"
  by (rule walkOneMirrored_refines [OF tiny_walk tiny_fresh])
    (simp_all add: tiny_documents upstream_fields_def, code_simp)


end
