(* ===== verification/RegistryServer.thy ===== *)
theory RegistryServer
  imports Cascade Publication
begin

text \<open>
  The registry endpoints Bazel reads (src/internal/server/bcr_handlers.go) and the index that maps
  the URL of an archive to its blob (src/internal/server/mirrorindex.go). The parsing of URLs is
  net/url's, a parameter. A response whose body breaks off is marked as cut.
\<close>

section \<open>Answers\<close>

record bcr_response =
  br_Status :: int
  br_ContentType :: string
  br_RetryAfter :: string
  br_Body :: bytes
  br_Cut :: bool

definition plain_reply :: "string \<Rightarrow> int \<Rightarrow> bcr_response" where
  "plain_reply msg code = \<lparr>br_Status = code, br_ContentType = ''text/plain; charset=utf-8'', br_RetryAfter = [],
     br_Body = msg @ [CHR 0x0A], br_Cut = False\<rparr>"

definition contentTypeFor :: "string \<Rightarrow> string" where
  "contentTypeFor name =
     (if has_suffix name ''.json'' then ''application/json''
      else if has_suffix name ''.tar.gz'' \<or> has_suffix name ''.tgz'' then ''application/gzip''
      else if has_suffix name ''.tar'' then ''application/x-tar''
      else if has_suffix name ''.zip'' then ''application/zip''
      else if has_suffix name ''.patch'' \<or> has_suffix name ''.diff'' then ''text/x-patch''
      else if has_suffix name ''.bazel'' \<or> has_suffix name ''.bzl'' then ''text/plain; charset=utf-8''
      else ''application/octet-stream'')"

definition serve :: "string \<Rightarrow> read_error + body \<Rightarrow> bcr_response" where
  "serve contentType fetched =
     (case fetched of
        Inl NotFound \<Rightarrow> plain_reply ''404 page not found'' 404
      | Inl (Unavailable n) \<Rightarrow> (plain_reply ''upstreams unavailable'' 503)\<lparr>br_RetryAfter := ''5''\<rparr>
      | Inl (BackendError err) \<Rightarrow> plain_reply ''internal error'' 500
      | Inr (b, err) \<Rightarrow> \<lparr>br_Status = 200, br_ContentType = contentType, br_RetryAfter = [], br_Body = b, br_Cut = (err \<noteq> None)\<rparr>)"

definition serve_bazelRegistry :: "string \<Rightarrow> read_error + body \<Rightarrow> bcr_response" where
  "serve_bazelRegistry mirrorBaseURL fetched =
     (if mirrorBaseURL \<noteq> []
      then \<lparr>br_Status = 200, br_ContentType = ''application/json'', br_RetryAfter = [],
             br_Body = Marshal (JObj [(''mirrors'', JArr [JStr mirrorBaseURL])]) @ [CHR 0x0A], br_Cut = False\<rparr>
      else serve ''application/json'' fetched)"

text \<open>The endpoints other than the mirror, by the call they make.\<close>

fun call_content_type :: "read_call \<Rightarrow> string" where
  "call_content_type CallRegistry = ''application/json''"
| "call_content_type (CallMetadata m) = ''application/json''"
| "call_content_type (CallModuleBazel m v) = ''text/plain; charset=utf-8''"
| "call_content_type (CallSourceJSON m v) = ''application/json''"
| "call_content_type (CallPatch m v f) = ''text/x-patch''"
| "call_content_type (CallOverlay m v p) = contentTypeFor p"
| "call_content_type (CallBlob k) = contentTypeFor k"

definition bcr_handle :: "string \<Rightarrow> (read_call \<Rightarrow> read_error + body) \<Rightarrow> read_call \<Rightarrow> bcr_response" where
  "bcr_handle mirrorBaseURL fetched call =
     (if call = CallRegistry then serve_bazelRegistry mirrorBaseURL (fetched call)
      else serve (call_content_type call) (fetched call))"

section \<open>The index of the mirror\<close>

text \<open>base64.StdEncoding.DecodeString: line breaks are skipped, unused bits are not looked at.\<close>

definition base64_value :: "char \<Rightarrow> nat option" where
  "base64_value c = index_byte base64_alphabet c"

fun decode_quads :: "string \<Rightarrow> bytes option" where
  "decode_quads [] = Some []"
| "decode_quads (a # b # c # d # s) =
     (case (base64_value a, base64_value b) of
        (Some w, Some x) \<Rightarrow>
          (if c = CHR ''='' then (if d = CHR ''='' \<and> s = [] then Some [char_of (w * 4 + x div 16)] else None)
           else (case base64_value c of
               None \<Rightarrow> None
             | Some y \<Rightarrow>
               (if d = CHR ''='' then (if s = [] then Some [char_of (w * 4 + x div 16), char_of (x mod 16 * 16 + y div 4)] else None)
                else (case base64_value d of
                    None \<Rightarrow> None
                  | Some z \<Rightarrow> map_option (\<lambda>r. char_of (w * 4 + x div 16) # char_of (x mod 16 * 16 + y div 4) # char_of (y mod 4 * 64 + z) # r)
                      (decode_quads s)))))
      | _ \<Rightarrow> None)"
| "decode_quads _ = None"

definition base64_decode :: "string \<Rightarrow> bytes option" where
  "base64_decode s = decode_quads (filter (\<lambda>c. c \<noteq> CHR 0x0A \<and> c \<noteq> CHR 0x0D) s)"

definition integrityToHex :: "string \<Rightarrow> string option" where
  "integrityToHex integrity =
     (case splitSRI integrity of
        None \<Rightarrow> None
      | Some (algo, b64) \<Rightarrow>
        (if algo \<noteq> ''sha256'' then None
         else (case base64_decode b64 of
             None \<Rightarrow> None
           | Some raw \<Rightarrow> if length raw \<noteq> 32 then None else Some (hex_text raw))))"

text \<open>net/url gives the host, the escaped path and the raw query of a URL.\<close>

definition urlKey :: "(string \<Rightarrow> (string \<times> string \<times> string) option) \<Rightarrow> string \<Rightarrow> string option" where
  "urlKey parse s =
     (case parse s of
        None \<Rightarrow> None
      | Some (host, path, query) \<Rightarrow>
        (if host = [] then None
         else (let key = host @ path in Some (if query \<noteq> [] then key @ ''?'' @ query else key))))"

definition urlKeyFromMirrorRequest :: "string \<Rightarrow> string \<Rightarrow> string" where
  "urlKeyFromMirrorRequest rest rawQuery =
     (let rest = trim_prefix rest ''/'' in if rawQuery \<noteq> [] then rest @ ''?'' @ rawQuery else rest)"

text \<open>The fields of source.json that the index reads.\<close>

definition decode_index_source :: "bytes \<Rightarrow> (string \<times> string) option" where
  "decode_index_source b =
     Option.bind (Unmarshal b) (\<lambda>j. decode_struct [''url'', ''integrity'']
       (\<lambda>n j s. if n = ''url'' then map_option (\<lambda>v. (v, snd s)) (decode_string j (fst s))
                else map_option (\<lambda>v. (fst s, v)) (decode_string j (snd s))) j ([], []))"

record mirror_index =
  mx_urlToHex :: "string gomap"
  mx_built :: bool

definition newMirrorIndex :: mirror_index where
  "newMirrorIndex = \<lparr>mx_urlToHex = [], mx_built = False\<rparr>"

definition index_entry :: "(string \<Rightarrow> (string \<times> string \<times> string) option) \<Rightarrow> bytes option \<Rightarrow> (string \<times> string) option" where
  "index_entry parse file =
     (case file of
        None \<Rightarrow> None
      | Some b \<Rightarrow>
        (case decode_index_source b of
           None \<Rightarrow> None
         | Some (url, integrity) \<Rightarrow>
           (if url = [] \<or> integrity = [] then None
            else (case integrityToHex integrity of
                None \<Rightarrow> None
              | Some hex \<Rightarrow> (case urlKey parse url of None \<Rightarrow> None | Some key \<Rightarrow> Some (key, hex))))))"

text \<open>\<open>files\<close> are the files named source.json in the order of the walk, None where one cannot be read.\<close>

definition rebuild :: "(string \<Rightarrow> (string \<times> string \<times> string) option) \<Rightarrow> bytes option list \<Rightarrow> mirror_index \<Rightarrow> mirror_index" where
  "rebuild parse files m =
     \<lparr>mx_urlToHex = fold (\<lambda>f next. case index_entry parse f of None \<Rightarrow> next | Some (key, hex) \<Rightarrow> AList.update key hex next) files [],
      mx_built = True\<rparr>"

definition index_Lookup ::
  "(string \<Rightarrow> (string \<times> string \<times> string) option) \<Rightarrow> bytes option list \<Rightarrow> string \<Rightarrow> mirror_index \<Rightarrow> string option \<times> mirror_index" where
  "index_Lookup parse files key m =
     (let key = trim_prefix key ''/''
      in case map_of (mx_urlToHex m) key of
           Some hex \<Rightarrow> (Some hex, m)
         | None \<Rightarrow> (let m = rebuild parse files m in (map_of (mx_urlToHex m) key, m)))"

definition mirrorServe ::
  "(string \<Rightarrow> (string \<times> string \<times> string) option) \<Rightarrow> bytes option list \<Rightarrow> (string \<Rightarrow> read_error + body) \<Rightarrow> string \<Rightarrow> string \<Rightarrow>
   mirror_index \<Rightarrow> bcr_response \<times> mirror_index" where
  "mirrorServe parse files getBlob rest rawQuery m =
     (let key = urlKeyFromMirrorRequest rest rawQuery
      in case index_Lookup parse files key m of
           (None, m) \<Rightarrow> (plain_reply (''not in mirror: '' @ key) 404, m)
         | (Some blobHex, m) \<Rightarrow> (serve (contentTypeFor rest) (getBlob blobHex), m))"

section \<open>Integrity and blob names\<close>

lemma base64_value_char:
  assumes "n < 64"
  shows "base64_value (base64_char n) = Some n" and "base64_char n \<noteq> CHR ''=''" "base64_char n \<noteq> CHR 0x0A" "base64_char n \<noteq> CHR 0x0D"
proof -
  have "list_all (\<lambda>n. base64_value (base64_char n) = Some n \<and> base64_char n \<noteq> CHR ''='' \<and> base64_char n \<noteq> CHR 0x0A \<and> base64_char n \<noteq> CHR 0x0D) [0..<64]"
    by code_simp
  then show "base64_value (base64_char n) = Some n" "base64_char n \<noteq> CHR ''=''" "base64_char n \<noteq> CHR 0x0A" "base64_char n \<noteq> CHR 0x0D"
    using assms by (auto simp: list_all_iff)
qed

lemma of_char_less: "(of_char (x :: char) :: nat) < 256"
  by simp

lemma sextets:
  fixes x y :: nat
  assumes "x < 256" and "y < 256"
  shows "x div 4 < 64" "x mod 4 * 16 < 64" "x mod 4 * 16 + y div 16 < 64" "x mod 16 * 4 < 64" "x mod 16 * 4 + y div 64 < 64" "x mod 64 < 64"
    and "x div 4 * 4 + x mod 4 * 16 div 16 = x" "x div 4 * 4 + (x mod 4 * 16 + y div 16) div 16 = x"
    and "(x mod 4 * 16 + y div 16) mod 16 * 16 + y mod 16 * 4 div 4 = y"
    and "(x mod 16 * 4 + y div 64) mod 4 * 64 + y mod 64 = y"
proof -
  have y: "y div 16 < 16" "y div 64 < 4" using assms(2) by linarith+
  show "x div 4 < 64" "x mod 4 * 16 < 64" "x mod 4 * 16 + y div 16 < 64" "x mod 16 * 4 < 64" "x mod 16 * 4 + y div 64 < 64" "x mod 64 < 64"
    using assms y by linarith+
  show "x div 4 * 4 + x mod 4 * 16 div 16 = x" by simp
  have "(x mod 4 * 16 + y div 16) div 16 = x mod 4" "(x mod 4 * 16 + y div 16) mod 16 = y div 16" "(x mod 16 * 4 + y div 64) mod 4 = y div 64"
    using y by simp_all
  then show "x div 4 * 4 + (x mod 4 * 16 + y div 16) div 16 = x"
    "(x mod 4 * 16 + y div 16) mod 16 * 16 + y mod 16 * 4 div 4 = y" "(x mod 16 * 4 + y div 64) mod 4 * 64 + y mod 64 = y"
    by simp_all
qed

lemma middle_sextet:
  fixes x y z :: nat
  assumes "y < 256" and "z < 256"
  shows "(x mod 4 * 16 + y div 16) mod 16 * 16 + (y mod 16 * 4 + z div 64) div 4 = y"
proof -
  have "y div 16 < 16" "z div 64 < 4" using assms by linarith+
  then have "(x mod 4 * 16 + y div 16) mod 16 = y div 16" "(y mod 16 * 4 + z div 64) div 4 = y mod 16" by simp_all
  then show ?thesis by simp
qed

lemma decode_four:
  assumes "w < 64" and "x < 64" and "y < 64" and "z < 64"
  shows "decode_quads (base64_char w # base64_char x # base64_char y # base64_char z # s) =
    map_option (\<lambda>r. char_of (w * 4 + x div 16) # char_of (x mod 16 * 16 + y div 4) # char_of (y mod 4 * 64 + z) # r) (decode_quads s)"
  using assms by (simp add: base64_value_char)

lemma decode_base64: "decode_quads (base64 bs) = Some bs"
proof (induction bs rule: base64.induct)
  case (2 a)
  show ?case using sextets(1,2,7) [of "of_char a" "of_char a", OF of_char_less of_char_less] by (simp add: Let_def base64_value_char)
next
  case (3 a b)
  have "char_of ((of_char a :: nat) div 4 * 4 + ((of_char a :: nat) mod 4 * 16 + (of_char b :: nat) div 16) div 16) = a"
    "char_of (((of_char a :: nat) mod 4 * 16 + (of_char b :: nat) div 16) mod 16 * 16 + (of_char b :: nat) mod 16 * 4 div 4) = b"
    unfolding sextets(8,9) [of "of_char a" "of_char b", OF of_char_less of_char_less] by simp_all
  then show ?case
    using sextets(1,3) [of "of_char a" "of_char b", OF of_char_less of_char_less] sextets(4) [of "of_char b" "of_char b", OF of_char_less of_char_less]
    by (simp only: base64.simps Let_def decode_quads.simps base64_value_char option.case prod.case if_True if_False simp_thms refl)
next
  case (4 a b c s)
  have e: "char_of ((of_char a :: nat) div 4 * 4 + ((of_char a :: nat) mod 4 * 16 + (of_char b :: nat) div 16) div 16) = a"
    "char_of (((of_char a :: nat) mod 4 * 16 + (of_char b :: nat) div 16) mod 16 * 16 + ((of_char b :: nat) mod 16 * 4 + (of_char c :: nat) div 64) div 4) = b"
    "char_of (((of_char b :: nat) mod 16 * 4 + (of_char c :: nat) div 64) mod 4 * 64 + (of_char c :: nat) mod 64) = c"
    unfolding sextets(8) [of "of_char a" "of_char b", OF of_char_less of_char_less]
      middle_sextet [of "of_char b" "of_char c", OF of_char_less of_char_less]
      sextets(10) [of "of_char b" "of_char c", OF of_char_less of_char_less] by simp_all
  show ?case
    unfolding base64.simps Let_def append.simps
    by (subst decode_four) (simp_all only: sextets(1,3,5,6) [OF of_char_less of_char_less] e 4 option.map)
qed simp

abbreviation unbroken :: "char \<Rightarrow> bool" where
  "unbroken c \<equiv> c \<noteq> CHR 0x0A \<and> c \<noteq> CHR 0x0D"

lemma unbroken_char: "n < 64 \<Longrightarrow> unbroken (base64_char n)"
  by (simp add: base64_value_char)

lemma unbroken_pad: "unbroken (CHR ''='')"
  by simp

lemmas sextets_unbroken = sextets(1-6) [OF of_char_less of_char_less, THEN unbroken_char]

lemma base64_no_break: "list_all unbroken (base64 bs)"
proof (induction bs rule: base64.induct)
  case (4 a b c s)
  then show ?case by (simp only: base64.simps Let_def append.simps list.pred_inject sextets_unbroken simp_thms)
qed (simp_all only: base64.simps Let_def list.pred_inject sextets_unbroken unbroken_pad simp_thms)

lemma integrity_of_digest: "length digest = 32 \<Longrightarrow> integrityToHex (SRI digest) = Some (hex_text digest)"
proof -
  have "filter (\<lambda>c. c \<noteq> CHR 0x0A \<and> c \<noteq> CHR 0x0D) (base64 digest) = base64 digest"
    by (rule filter_True) (use base64_no_break [of digest] in \<open>simp add: list_all_iff\<close>)
  then have "base64_decode (base64 digest) = Some digest" by (simp add: base64_decode_def decode_base64)
  moreover have "splitSRI (SRI digest) = Some (''sha256'', base64 digest)" by (simp add: splitSRI_def SRI_def)
  ultimately show "length digest = 32 \<Longrightarrow> integrityToHex (SRI digest) = Some (hex_text digest)" by (simp add: integrityToHex_def)
qed

text \<open>
  The name the index computes from an integrity string is the name the blob sink gave the
  content: every SHA-256 digest goes through SRI and back to the same hexadecimal name.
\<close>

theorem integrity_names_blob: "length digest = 32 \<Longrightarrow> integrityToHex (SRI digest) = Some (hex_text digest)"
  by (rule integrity_of_digest)

lemma integrity_names_blob_witness: "integrityToHex (SRI tiny_digest) = Some (hex_text tiny_digest)"
  by (rule integrity_names_blob) (simp add: tiny_digest_def)

section \<open>The index reads what the registry client reads\<close>

abbreviation source_names :: "string list" where
  "source_names \<equiv> [''type'', ''url'', ''integrity'', ''strip_prefix'', ''archive_type'', ''patches'', ''patch_strip'']"

abbreviation set_index_field :: "string \<Rightarrow> json \<Rightarrow> string \<times> string \<Rightarrow> (string \<times> string) option" where
  "set_index_field \<equiv> (\<lambda>n j s. if n = ''url'' then map_option (\<lambda>v. (v, snd s)) (decode_string j (fst s))
     else map_option (\<lambda>v. (fst s, v)) (decode_string j (snd s)))"

lemma index_field:
  "field_for [''url'', ''integrity''] k =
     (case field_for source_names k of Some n \<Rightarrow> if n = ''url'' \<or> n = ''integrity'' then Some n else None | None \<Rightarrow> None)"
proof -
  have f: "fold_name ''type'' = ''TYPE''" "fold_name ''url'' = ''URL''" "fold_name ''integrity'' = ''INTEGRITY''"
    "fold_name ''strip_prefix'' = ''STRIP_PREFIX''" "fold_name ''archive_type'' = ''ARCHIVE_TYPE''"
    "fold_name ''patches'' = ''PATCHES''" "fold_name ''patch_strip'' = ''PATCH_STRIP''"
    by code_simp+
  consider "k = ''url'' \<or> k = ''integrity''" | "k \<in> {''type'', ''strip_prefix'', ''archive_type'', ''patches'', ''patch_strip''}"
    | "k \<notin> set source_names" by auto
  then show ?thesis
  proof cases
    case 1
    then show ?thesis by auto
  next
    case 2
    then have "k \<in> set source_names" "field_for [''url'', ''integrity''] k = None" "k \<noteq> ''url''" "k \<noteq> ''integrity''"
      by (elim insertE emptyE; simp add: field_for_def f del: fold_name.simps)+
    then show ?thesis by simp
  next
    case 3
    define F where "F = fold_name k"
    have "field_for names k = find (\<lambda>n. fold_name n = F) names" if "set names \<subseteq> set source_names" for names
      using contra_subsetD [OF that 3] by (simp only: field_for_def F_def if_False)
    from this [of source_names] this [of "[''url'', ''integrity'']"] show ?thesis
      by (cases "F = ''TYPE''"; cases "F = ''URL''"; cases "F = ''INTEGRITY''") (simp_all add: f del: fold_name.simps)
  qed
qed

lemma index_members:
  "decode_members source_names set_source_field ms x = Some y \<Longrightarrow>
   decode_members [''url'', ''integrity''] set_index_field ms (sj_URL x, sj_Integrity x) = Some (sj_URL y, sj_Integrity y)"
proof (induction ms arbitrary: x)
  case (Cons m ms)
  obtain k j where m: "m = (k, j)" by (cases m)
  show ?case
  proof (cases "field_for source_names k")
    case None
    then show ?thesis using Cons by (simp add: m index_field)
  next
    case (Some n)
    then obtain z where z: "set_source_field n j x = Some z" "decode_members source_names set_source_field ms z = Some y"
      using Cons.prems by (auto simp: m split: option.splits)
    note ih = Cons.IH [OF z(2)]
    show ?thesis
    proof (cases "n = ''url'' \<or> n = ''integrity''")
      case True
      then have "set_index_field n j (sj_URL x, sj_Integrity x) = Some (sj_URL z, sj_Integrity z)"
        using z(1) by (auto simp: set_source_field_def)
      then show ?thesis using Some True ih by (simp only: m index_field decode_members.simps fst_conv snd_conv option.case if_True)
    next
      case False
      then have "sj_URL z = sj_URL x" "sj_Integrity z = sj_Integrity x"
        using z(1) by (auto simp: set_source_field_def split: if_splits)
      then show ?thesis using Some False ih by (simp add: m index_field)
    qed
  qed
qed simp

lemma index_source:
  assumes "ParseSourceJSON b = Inr src"
  shows "decode_index_source b = Some (sj_URL src, sj_Integrity src)"
proof -
  obtain j where j: "Unmarshal b = Some j" "decode_source j = Some src"
    using assms by (auto simp: ParseSourceJSON_def split: option.splits bind_splits)
  have e: "sj_URL empty_source = []" "sj_Integrity empty_source = []" by (simp_all add: empty_source_def)
  have "decode_struct [''url'', ''integrity''] set_index_field j ([], []) = Some (sj_URL src, sj_Integrity src)"
  proof (cases j)
    case (JObj ms)
    then show ?thesis using j(2) index_members [of ms empty_source src] e by (simp add: decode_source_def decode_struct_def)
  qed (use j(2) e in \<open>simp_all add: decode_source_def decode_struct_def\<close>)
  then show ?thesis using j(1) by (simp add: decode_index_source_def)
qed

section \<open>From a listed version to its bytes\<close>

lemma index_finds:
  assumes "f \<in> set files" and "index_entry parse f = Some (key, hex)"
    and "\<forall>g \<in> set files. \<forall>h. index_entry parse g = Some (key, h) \<longrightarrow> h = hex"
  shows "map_of (mx_urlToHex (rebuild parse files m)) key = Some hex"
proof -
  let ?step = "\<lambda>f next. case index_entry parse f of None \<Rightarrow> next | Some (key, hex) \<Rightarrow> AList.update key hex next"
  have "map_of (fold ?step fs acc) key = Some hex"
    if "\<forall>g \<in> set fs. \<forall>h. index_entry parse g = Some (key, h) \<longrightarrow> h = hex" "f \<in> set fs \<or> map_of acc key = Some hex" for fs acc
    using that
  proof (induction fs arbitrary: acc)
    case (Cons g fs)
    show ?case
    proof (cases "index_entry parse g")
      case None
      then have "f \<in> set fs \<or> map_of acc key = Some hex" using Cons.prems(2) assms(2) by auto
      then show ?thesis using Cons None by simp
    next
      case (Some e)
      obtain k h where e: "e = (k, h)" by (cases e)
      have "f \<in> set fs \<or> map_of (AList.update k h acc) key = Some hex"
        using Cons.prems Some e assms(2) by (auto simp: update_conv')
      then show ?thesis using Cons Some e by simp
    qed
  qed simp
  then show ?thesis using assms(1,3) by (simp add: rebuild_def)
qed

text \<open>A directory that holds the blobs of a disk.\<close>

definition holds_blobs :: "string \<Rightarrow> file_tree \<Rightarrow> disk \<Rightarrow> bool" where
  "holds_blobs dir fs d \<longleftrightarrow> (\<forall>h b. d (BlobFile h) = Some b \<longrightarrow> fs (path_Join [dir, path_Join [''blobs'', h]]) = Inr (b, None))"

lemma hex_no_separator: "\<not> has_separator (hex_text bs)"
proof -
  have "list_all (\<lambda>n. hex_lower n \<noteq> CHR ''/'' \<and> hex_lower n \<noteq> CHR 0x5C) [0..<16]" by code_simp
  then have h: "hex_lower n \<noteq> CHR ''/'' \<and> hex_lower n \<noteq> CHR 0x5C" if "n < 16" for n using that by (auto simp: list_all_iff)
  have "of_char c div 16 < (16 :: nat)" for c :: char using of_char_less [of c] by linarith
  then have "h \<noteq> CHR ''/'' \<and> h \<noteq> CHR 0x5C" if "h \<in> set (hex_text bs)" for h
    using that h pos_mod_bound by (force simp: hex_text_def)
  then show ?thesis by (auto simp: has_separator_def)
qed


text \<open>The directory that holds the blob of the small registry.\<close>

definition tiny_tree :: file_tree where
  "tiny_tree p = (if p = path_Join [''d'', path_Join [''blobs'', hex_text tiny_digest]] then Inr (''x'', None) else Inl NotExist)"


end
