(* ===== verification/Flags.thy ===== *)
theory Flags
  imports RateLimit Policy
begin

text \<open>
  The configuration flags (src/internal/featureflags/featureflags.go): what each environment
  variable gives, the two checks at the start, and what the UI may see. The environment maps a name
  to its value, the empty string where it is not set.
\<close>

section \<open>Parsing\<close>

record flags =
  ff_IngestWriteEnabled :: bool
  ff_RequireFrontProxy :: bool
  ff_RegistryURL :: string
  ff_IngestAllowCustomUpstream :: bool
  ff_IngestRateLimitPerMin :: int
  ff_IngestRateBypassIPs :: "string list"
  ff_IngestMaxConcurrent :: int
  ff_AttrsInterpret :: bool
  ff_DemoMode :: bool
  ff_DemoBanner :: string
  ff_MCPHTTPEnabled :: bool
  ff_MCPWriteToolsEnabled :: bool

type_synonym environ = "string \<Rightarrow> string"

datatype flag_error =
    NotABool string string
  | NotAnInt string string
  | NegativeInt string int

text \<open>strconv.ParseBool.\<close>

definition ParseBool :: "string \<Rightarrow> bool option" where
  "ParseBool s =
     (if s \<in> set [''1'', ''t'', ''T'', ''true'', ''TRUE'', ''True''] then Some True
      else if s \<in> set [''0'', ''f'', ''F'', ''false'', ''FALSE'', ''False''] then Some False
      else None)"

definition envBool :: "environ \<Rightarrow> string \<Rightarrow> bool \<Rightarrow> flag_error list \<Rightarrow> bool \<times> flag_error list" where
  "envBool env name def_value errs =
     (let raw = trim_space (env name)
      in if raw = [] then (def_value, errs)
         else (case ParseBool raw of None \<Rightarrow> (def_value, errs @ [NotABool name raw]) | Some v \<Rightarrow> (v, errs)))"

definition envInt :: "environ \<Rightarrow> string \<Rightarrow> int \<Rightarrow> flag_error list \<Rightarrow> int \<times> flag_error list" where
  "envInt env name def_value errs =
     (let raw = trim_space (env name)
      in if raw = [] then (def_value, errs)
         else (case Atoi raw of None \<Rightarrow> (def_value, errs @ [NotAnInt name raw]) | Some v \<Rightarrow> (v, errs)))"

definition envCSV :: "environ \<Rightarrow> string \<Rightarrow> string list" where
  "envCSV env name =
     (let raw = trim_space (env name)
      in if raw = [] then [] else filter (\<lambda>p. p \<noteq> []) (map trim_space (split_byte raw (CHR '',''))))"

definition ParseFlags :: "environ \<Rightarrow> flag_error list + flags" where
  "ParseFlags env =
     (let (write, errs) = envBool env ''BZLHUB_INGEST_WRITE_ENABLED'' False [];
          url = trim_space (env ''BZLHUB_REGISTRY_URL'');
          url = (if url = [] then ''https://bcr.bazel.build'' else url);
          (custom, errs) = envBool env ''BZLHUB_INGEST_ALLOW_CUSTOM_UPSTREAM'' False errs;
          (perMin, errs) = envInt env ''BZLHUB_INGEST_RATE_LIMIT_PER_MIN'' 5 errs;
          (concurrent, errs) = envInt env ''BZLHUB_INGEST_MAX_CONCURRENT'' 1 errs;
          bypass = envCSV env ''BZLHUB_INGEST_RATE_BYPASS_IPS'';
          (interp, errs) = envBool env ''BZLHUB_ATTRS_INTERPRET'' False errs;
          (demo, errs) = envBool env ''BZLHUB_DEMO_MODE'' False errs;
          banner = trim_space (env ''BZLHUB_DEMO_BANNER'');
          (mcp, errs) = envBool env ''BZLHUB_MCP_HTTP_ENABLED'' False errs;
          (mcpWrite, errs) = envBool env ''BZLHUB_MCP_WRITE_TOOLS_ENABLED'' False errs;
          (proxy, errs) = envBool env ''BZLHUB_REQUIRE_FRONT_PROXY'' True errs;
          errs = (if perMin < 0 then errs @ [NegativeInt ''BZLHUB_INGEST_RATE_LIMIT_PER_MIN'' perMin] else errs);
          errs = (if concurrent < 0 then errs @ [NegativeInt ''BZLHUB_INGEST_MAX_CONCURRENT'' concurrent] else errs)
      in if errs \<noteq> [] then Inl errs
         else Inr \<lparr>ff_IngestWriteEnabled = write, ff_RequireFrontProxy = proxy, ff_RegistryURL = url,
                   ff_IngestAllowCustomUpstream = custom, ff_IngestRateLimitPerMin = perMin,
                   ff_IngestRateBypassIPs = bypass, ff_IngestMaxConcurrent = concurrent, ff_AttrsInterpret = interp,
                   ff_DemoMode = demo, ff_DemoBanner = banner, ff_MCPHTTPEnabled = mcp, ff_MCPWriteToolsEnabled = mcpWrite\<rparr>)"

section \<open>The checks at the start\<close>

definition CheckSafeStartup :: "bool \<Rightarrow> flags \<Rightarrow> string option" where
  "CheckSafeStartup hasTrustedProxy f =
     (if \<not> ff_RequireFrontProxy f then None
      else if \<not> ff_IngestWriteEnabled f then None
      else if hasTrustedProxy then None
      else Some ''BZLHUB_INGEST_WRITE_ENABLED=true with no BZLHUB_TRUSTED_PROXY_CIDR'')"

definition CheckMCPWriteStartup :: "bool \<Rightarrow> bool \<Rightarrow> flags \<Rightarrow> string option" where
  "CheckMCPWriteStartup hasIdentitySource hasPolicy f =
     (if \<not> ff_MCPWriteToolsEnabled f then None
      else if \<not> ff_MCPHTTPEnabled f then Some ''BZLHUB_MCP_WRITE_TOOLS_ENABLED=true requires BZLHUB_MCP_HTTP_ENABLED=true''
      else if \<not> hasIdentitySource then Some ''HTTP MCP writes require BZLHUB_IDENTITY_FILE or BZLHUB_TRUSTED_PROXY_CIDR''
      else if \<not> hasPolicy then Some ''HTTP MCP writes require BZLHUB_POLICY_FILE with auth.actions.use_mcp_write''
      else None)"

definition IsRateBypassIP :: "string \<Rightarrow> flags \<Rightarrow> bool" where
  "IsRateBypassIP remoteAddr f \<longleftrightarrow> remoteAddr \<in> set (ff_IngestRateBypassIPs f)"

record public_snapshot =
  sn_IngestWriteEnabled :: bool
  sn_DemoMode :: bool
  sn_DemoBanner :: string

definition PublicFlags :: "flags \<Rightarrow> public_snapshot" where
  "PublicFlags f = \<lparr>sn_IngestWriteEnabled = ff_IngestWriteEnabled f, sn_DemoMode = ff_DemoMode f, sn_DemoBanner = ff_DemoBanner f\<rparr>"

text \<open>How the server builds its limiter from the flags.\<close>

definition limiter_of_flags :: "flags \<Rightarrow> ingest_limiter" where
  "limiter_of_flags f = NewIngestLimiter (ff_IngestRateLimitPerMin f) (ff_IngestRateBypassIPs f) (ff_IngestMaxConcurrent f)"

section \<open>What parsed flags satisfy\<close>

lemma envBool_result:
  "envBool env name d errs = (v, errs') \<Longrightarrow>
   (errs' = errs \<and> (if trim_space (env name) = [] then v = d else ParseBool (trim_space (env name)) = Some v)) \<or>
   errs' = errs @ [NotABool name (trim_space (env name))]"
  by (auto simp: envBool_def Let_def split: option.splits if_splits)

lemma envInt_result:
  "envInt env name d errs = (v, errs') \<Longrightarrow>
   (errs' = errs \<and> (if trim_space (env name) = [] then v = d else Atoi (trim_space (env name)) = Some v)) \<or>
   errs' = errs @ [NotAnInt name (trim_space (env name))]"
  by (auto simp: envInt_def Let_def split: option.splits if_splits)

definition reads_bool :: "environ \<Rightarrow> string \<Rightarrow> bool \<Rightarrow> bool \<Rightarrow> bool" where
  "reads_bool env name d v \<longleftrightarrow> (if trim_space (env name) = [] then v = d else ParseBool (trim_space (env name)) = Some v)"

definition reads_int :: "environ \<Rightarrow> string \<Rightarrow> int \<Rightarrow> int \<Rightarrow> bool" where
  "reads_int env name d v \<longleftrightarrow> (if trim_space (env name) = [] then v = d else Atoi (trim_space (env name)) = Some v)"

lemma envBool_Nil: "envBool env name d errs = (v, []) \<Longrightarrow> errs = [] \<and> reads_bool env name d v"
  using envBool_result [of env name d errs v "[]"] by (auto simp: reads_bool_def)

lemma envInt_Nil: "envInt env name d errs = (v, []) \<Longrightarrow> errs = [] \<and> reads_int env name d v"
  using envInt_result [of env name d errs v "[]"] by (auto simp: reads_int_def)

lemma ParseFlags_Inr:
  assumes "ParseFlags env = Inr f"
  shows "reads_bool env ''BZLHUB_INGEST_WRITE_ENABLED'' False (ff_IngestWriteEnabled f)"
    and "reads_bool env ''BZLHUB_INGEST_ALLOW_CUSTOM_UPSTREAM'' False (ff_IngestAllowCustomUpstream f)"
    and "reads_bool env ''BZLHUB_REQUIRE_FRONT_PROXY'' True (ff_RequireFrontProxy f)"
    and "reads_bool env ''BZLHUB_MCP_WRITE_TOOLS_ENABLED'' False (ff_MCPWriteToolsEnabled f)"
    and "reads_int env ''BZLHUB_INGEST_RATE_LIMIT_PER_MIN'' 5 (ff_IngestRateLimitPerMin f)"
    and "reads_int env ''BZLHUB_INGEST_MAX_CONCURRENT'' 1 (ff_IngestMaxConcurrent f)"
    and "0 \<le> ff_IngestRateLimitPerMin f" and "0 \<le> ff_IngestMaxConcurrent f" and "ff_RegistryURL f \<noteq> []"
    and "trim_space (env ''BZLHUB_REGISTRY_URL'') \<noteq> [] \<Longrightarrow> ff_RegistryURL f = trim_space (env ''BZLHUB_REGISTRY_URL'')"
proof -
  obtain wr e1 where e1: "envBool env ''BZLHUB_INGEST_WRITE_ENABLED'' False [] = (wr, e1)" by fastforce
  obtain custom e2 where e2: "envBool env ''BZLHUB_INGEST_ALLOW_CUSTOM_UPSTREAM'' False e1 = (custom, e2)" by fastforce
  obtain perMin e3 where e3: "envInt env ''BZLHUB_INGEST_RATE_LIMIT_PER_MIN'' 5 e2 = (perMin, e3)" by fastforce
  obtain conc e4 where e4: "envInt env ''BZLHUB_INGEST_MAX_CONCURRENT'' 1 e3 = (conc, e4)" by fastforce
  obtain interp e5 where e5: "envBool env ''BZLHUB_ATTRS_INTERPRET'' False e4 = (interp, e5)" by fastforce
  obtain demo e6 where e6: "envBool env ''BZLHUB_DEMO_MODE'' False e5 = (demo, e6)" by fastforce
  obtain mcp e7 where e7: "envBool env ''BZLHUB_MCP_HTTP_ENABLED'' False e6 = (mcp, e7)" by fastforce
  obtain tools e8 where e8: "envBool env ''BZLHUB_MCP_WRITE_TOOLS_ENABLED'' False e7 = (tools, e8)" by fastforce
  obtain proxy e9 where e9: "envBool env ''BZLHUB_REQUIRE_FRONT_PROXY'' True e8 = (proxy, e9)" by fastforce
  note es = e1 e2 e3 e4 e5 e6 e7 e8 e9
  have nonneg: "e9 = []" "0 \<le> perMin" "0 \<le> conc"
    using assms by (auto simp: ParseFlags_def es Let_def split: if_splits)
  note n9 = envBool_Nil [OF e9 [unfolded nonneg(1)]]
  note n8 = envBool_Nil [OF e8 [unfolded n9 [THEN conjunct1]]]
  note n7 = envBool_Nil [OF e7 [unfolded n8 [THEN conjunct1]]]
  note n6 = envBool_Nil [OF e6 [unfolded n7 [THEN conjunct1]]]
  note n5 = envBool_Nil [OF e5 [unfolded n6 [THEN conjunct1]]]
  note n4 = envInt_Nil [OF e4 [unfolded n5 [THEN conjunct1]]]
  note n3 = envInt_Nil [OF e3 [unfolded n4 [THEN conjunct1]]]
  note n2 = envBool_Nil [OF e2 [unfolded n3 [THEN conjunct1]]]
  note n1 = envBool_Nil [OF e1 [unfolded n2 [THEN conjunct1]]]
  have f: "ff_IngestWriteEnabled f = wr" "ff_IngestAllowCustomUpstream f = custom" "ff_RequireFrontProxy f = proxy"
    "ff_MCPWriteToolsEnabled f = tools" "ff_IngestRateLimitPerMin f = perMin" "ff_IngestMaxConcurrent f = conc"
    "ff_RegistryURL f = (if trim_space (env ''BZLHUB_REGISTRY_URL'') = [] then ''https://bcr.bazel.build'' else trim_space (env ''BZLHUB_REGISTRY_URL''))"
    using assms by (auto simp: ParseFlags_def es Let_def split: if_splits)
  show "reads_bool env ''BZLHUB_INGEST_WRITE_ENABLED'' False (ff_IngestWriteEnabled f)"
    "reads_bool env ''BZLHUB_INGEST_ALLOW_CUSTOM_UPSTREAM'' False (ff_IngestAllowCustomUpstream f)"
    "reads_bool env ''BZLHUB_REQUIRE_FRONT_PROXY'' True (ff_RequireFrontProxy f)"
    "reads_bool env ''BZLHUB_MCP_WRITE_TOOLS_ENABLED'' False (ff_MCPWriteToolsEnabled f)"
    "reads_int env ''BZLHUB_INGEST_RATE_LIMIT_PER_MIN'' 5 (ff_IngestRateLimitPerMin f)"
    "reads_int env ''BZLHUB_INGEST_MAX_CONCURRENT'' 1 (ff_IngestMaxConcurrent f)"
    unfolding f using n1 n2 n3 n4 n8 n9 by blast+
  show "0 \<le> ff_IngestRateLimitPerMin f" "0 \<le> ff_IngestMaxConcurrent f" unfolding f using nonneg by simp_all
  show "ff_RegistryURL f \<noteq> []" unfolding f by simp
  show "trim_space (env ''BZLHUB_REGISTRY_URL'') \<noteq> [] \<Longrightarrow> ff_RegistryURL f = trim_space (env ''BZLHUB_REGISTRY_URL'')"
    unfolding f by simp
qed

end
