(* ===== verification/ClosureGraph.thy ===== *)
theory ClosureGraph
  imports Prelude "HOL-Library.Multiset"
begin

text \<open>
  The closure of a version over the index (src/internal/bzlhub/service_closure.go): the breadth-first
  walk over stored reports, the reverse dependencies, and the ingest of what the closure misses. The
  store is what reading the report of a version gives: its bazel_deps, or None when there is none.
\<close>

section \<open>The walk\<close>

type_synonym coordinate = "string \<times> string"

type_synonym report_deps = "coordinate \<Rightarrow> coordinate list option"

definition closureMaxDepth :: nat where
  "closureMaxDepth = 10"

fun nodeKey :: "coordinate \<Rightarrow> string" where
  "nodeKey (name, version) = name @ ''@'' @ version"

record closure_node =
  cn_Coordinate :: coordinate
  cn_External :: bool

record closure_graph =
  cg_Root :: string
  cg_Nodes :: "closure_node list"
  cg_Edges :: "(string \<times> string) list"
  cg_MaxDepthReached :: bool

text \<open>The visited keys are those of the nodes.\<close>

definition visited_keys :: "closure_graph \<Rightarrow> string set" where
  "visited_keys g = (\<lambda>n. nodeKey (cn_Coordinate n)) ` set (cg_Nodes g)"

definition addNode :: "coordinate \<Rightarrow> bool \<Rightarrow> closure_graph \<Rightarrow> closure_graph" where
  "addNode k external g =
     (if nodeKey k \<in> visited_keys g then g
      else g\<lparr>cg_Nodes := cg_Nodes g @ [\<lparr>cn_Coordinate = k, cn_External = external\<rparr>]\<rparr>)"

text \<open>The first node with the key becomes external.\<close>

fun flag_external :: "string \<Rightarrow> closure_node list \<Rightarrow> closure_node list" where
  "flag_external key [] = []"
| "flag_external key (n # ns) = (if nodeKey (cn_Coordinate n) = key then n\<lparr>cn_External := True\<rparr> # ns else n # flag_external key ns)"

definition kept_deps :: "coordinate list \<Rightarrow> coordinate list" where
  "kept_deps deps = filter (\<lambda>d. snd d \<noteq> [] \<and> snd d \<noteq> ''0'') deps"

text \<open>Every step replaces an entry of the queue by entries that are deeper, none below the cap.\<close>

lemma deeper_mult:
  assumes "d < closureMaxDepth"
  shows "(mset (map (\<lambda>q. closureMaxDepth - snd q) (queue @ map (\<lambda>c. (c, d + 1)) ks)),
      mset (map (\<lambda>q. closureMaxDepth - snd q) ((k, d) # queue))) \<in> mult less_than"
proof -
  let ?m = "\<lambda>qs. mset (map (\<lambda>q. closureMaxDepth - snd q) qs)"
  have "(?m queue + ?m (map (\<lambda>c. (c, d + 1)) ks), ?m queue + {#closureMaxDepth - d#}) \<in> mult less_than"
    by (rule one_step_implies_mult) (use assms in auto)
  then show ?thesis by (simp add: add.commute)
qed

lemma shorter_mult: "(mset (map f queue), mset (map f (q # queue))) \<in> mult less_than"
  using one_step_implies_mult [of "{#f q#}" "{#}" less_than "mset (map f queue)"] by simp

function closure_loop :: "report_deps \<Rightarrow> (coordinate \<times> nat) list \<Rightarrow> closure_graph \<Rightarrow> closure_graph" where
  "closure_loop rep [] g = g"
| "closure_loop rep ((k, d) # queue) g =
     (if d \<ge> closureMaxDepth then closure_loop rep queue ((addNode k False g)\<lparr>cg_MaxDepthReached := True\<rparr>)
      else (case rep k of
          None \<Rightarrow> closure_loop rep queue ((addNode k False g)\<lparr>cg_Nodes := flag_external (nodeKey k) (cg_Nodes (addNode k False g))\<rparr>)
        | Some deps \<Rightarrow>
            closure_loop rep
              (queue @ map (\<lambda>c. (c, d + 1)) (filter (\<lambda>c. nodeKey c \<notin> visited_keys (addNode k False g)) (kept_deps deps)))
              ((addNode k False g)\<lparr>cg_Edges := cg_Edges g @ map (\<lambda>c. (nodeKey k, nodeKey c)) (kept_deps deps)\<rparr>)))"
  by pat_completeness auto

termination
proof (relation "inv_image (mult less_than) (\<lambda>(rep, queue, g). mset (map (\<lambda>q. closureMaxDepth - snd q) queue))")
  show "wf (inv_image (mult less_than) (\<lambda>(rep :: report_deps, queue :: (coordinate \<times> nat) list, g :: closure_graph).
      mset (map (\<lambda>q. closureMaxDepth - snd q) queue)))"
    by (simp add: wf_mult)
qed (simp_all only: in_inv_image prod.case not_le shorter_mult deeper_mult)

declare closure_loop.simps(2) [simp del]

definition Closure :: "report_deps \<Rightarrow> coordinate \<Rightarrow> closure_graph" where
  "Closure rep k =
     closure_loop rep [(k, 0)] \<lparr>cg_Root = nodeKey k, cg_Nodes = [], cg_Edges = [], cg_MaxDepthReached = False\<rparr>"

section \<open>Reverse dependencies\<close>

text \<open>The versions of the index in the order of the listing, and the ones seen so far.\<close>

fun reverse_loop :: "report_deps \<Rightarrow> coordinate \<Rightarrow> coordinate list \<Rightarrow> string set \<Rightarrow> coordinate list" where
  "reverse_loop rep k [] seen = []"
| "reverse_loop rep k (mv # rows) seen =
     (case rep mv of
        None \<Rightarrow> reverse_loop rep k rows seen
      | Some deps \<Rightarrow>
        (if k \<in> set deps \<and> nodeKey mv \<notin> seen then mv # reverse_loop rep k rows (insert (nodeKey mv) seen)
         else reverse_loop rep k rows seen))"

definition ReverseDeps :: "report_deps \<Rightarrow> string + coordinate list \<Rightarrow> coordinate \<Rightarrow> string + coordinate list" where
  "ReverseDeps rep listed k = (case listed of Inl err \<Rightarrow> Inl err | Inr rows \<Rightarrow> Inr (reverse_loop rep k rows {}))"

section \<open>Ingesting what is missing\<close>

record closure_result =
  cr_Bumped :: nat
  cr_Failed :: nat
  cr_Errors :: "(coordinate \<times> string) list"

text \<open>
  A bump is a function of the coordinate and of the state it changes; the upstream it uses is the
  default of the service, since none is given.
\<close>

definition ingest_step :: "(string \<Rightarrow> coordinate \<Rightarrow> 's \<Rightarrow> string option \<times> 's) \<Rightarrow> string \<Rightarrow> closure_node \<Rightarrow> closure_result \<times> 's \<Rightarrow> closure_result \<times> 's" where
  "ingest_step bump defaultUpstream n rs =
     (case rs of (out, s) \<Rightarrow>
        if \<not> cn_External n then (out, s)
        else (case bump defaultUpstream (cn_Coordinate n) s of
            (Some err, s) \<Rightarrow> (out\<lparr>cr_Failed := cr_Failed out + 1, cr_Errors := cr_Errors out @ [(cn_Coordinate n, err)]\<rparr>, s)
          | (None, s) \<Rightarrow> (out\<lparr>cr_Bumped := cr_Bumped out + 1\<rparr>, s)))"

definition IngestClosureMissing ::
  "(string \<Rightarrow> coordinate \<Rightarrow> 's \<Rightarrow> string option \<times> 's) \<Rightarrow> string \<Rightarrow> report_deps \<Rightarrow> coordinate \<Rightarrow> 's \<Rightarrow> closure_result \<times> 's" where
  "IngestClosureMissing bump defaultUpstream rep k s =
     fold (ingest_step bump defaultUpstream) (cg_Nodes (Closure rep k)) (\<lparr>cr_Bumped = 0, cr_Failed = 0, cr_Errors = []\<rparr>, s)"

section \<open>The closure, abstractly\<close>

text \<open>The coordinates at the end of a path of a length from the root.\<close>

inductive path_to :: "report_deps \<Rightarrow> coordinate \<Rightarrow> nat \<Rightarrow> coordinate \<Rightarrow> bool" for rep origin where
  start: "path_to rep origin 0 origin"
| dep: "path_to rep origin d k \<Longrightarrow> d < closureMaxDepth \<Longrightarrow> rep k = Some deps \<Longrightarrow> c \<in> set (kept_deps deps) \<Longrightarrow> path_to rep origin (Suc d) c"

text \<open>No name contains the separator of a key, as the index has them.\<close>

definition plain_names :: "report_deps \<Rightarrow> coordinate \<Rightarrow> bool" where
  "plain_names rep origin \<longleftrightarrow> CHR ''@'' \<notin> set (fst origin) \<and> (\<forall>k deps. rep k = Some deps \<longrightarrow> (\<forall>c \<in> set deps. CHR ''@'' \<notin> set (fst c)))"

lemma nodeKey_inject: "CHR ''@'' \<notin> set (fst k) \<Longrightarrow> CHR ''@'' \<notin> set (fst c) \<Longrightarrow> nodeKey k = nodeKey c \<Longrightarrow> k = c"
  by (cases k; cases c) (auto simp: append_eq_append_conv2 append_eq_Cons_conv Cons_eq_append_conv)

lemma path_plain: "path_to rep origin d k \<Longrightarrow> plain_names rep origin \<Longrightarrow> CHR ''@'' \<notin> set (fst k)"
  by (induction rule: path_to.induct) (auto simp: plain_names_def kept_deps_def)

lemma path_le: "path_to rep origin d k \<Longrightarrow> d \<le> closureMaxDepth"
  by (induction rule: path_to.induct) auto

text \<open>
  The invariant of the loop, with the depth at which each node was first taken from the queue: the
  queue is sorted and spans two levels, no node is deeper than what is still to come, and the
  dependencies of a node that was expanded are nodes or in the queue, one level down.
\<close>

definition coordinates :: "closure_graph \<Rightarrow> coordinate list" where
  "coordinates g = map cn_Coordinate (cg_Nodes g)"

lemma coordinates_simps [simp]:
  "coordinates (g\<lparr>cg_Edges := es\<rparr>) = coordinates g" "coordinates (g\<lparr>cg_MaxDepthReached := b\<rparr>) = coordinates g"
  by (simp_all add: coordinates_def)

definition expanded :: "report_deps \<Rightarrow> (coordinate \<Rightarrow> nat) \<Rightarrow> closure_graph \<Rightarrow> coordinate \<Rightarrow> coordinate list \<Rightarrow> bool" where
  "expanded rep \<delta> g k deps \<longleftrightarrow> k \<in> set (coordinates g) \<and> \<delta> k < closureMaxDepth \<and> rep k = Some deps"

definition queue_ok :: "report_deps \<Rightarrow> coordinate \<Rightarrow> (coordinate \<times> nat) list \<Rightarrow> (coordinate \<Rightarrow> nat) \<Rightarrow> closure_graph \<Rightarrow> bool" where
  "queue_ok rep origin queue \<delta> g \<longleftrightarrow>
     sorted (map snd queue) \<and> (\<forall>q \<in> set queue. snd q \<le> Suc (snd (hd queue)) \<and> path_to rep origin (snd q) (fst q)) \<and>
     (\<forall>k \<in> set (coordinates g). path_to rep origin (\<delta> k) k \<and> (\<forall>q \<in> set queue. \<delta> k \<le> snd q)) \<and>
     (\<forall>k deps c. expanded rep \<delta> g k deps \<and> c \<in> set (kept_deps deps) \<longrightarrow>
        (c \<in> set (coordinates g) \<and> \<delta> c \<le> Suc (\<delta> k)) \<or> (\<exists>e \<le> Suc (\<delta> k). (c, e) \<in> set queue)) \<and>
     ((origin \<in> set (coordinates g) \<and> \<delta> origin = 0) \<or> (origin, 0) \<in> set queue)"

definition graph_ok :: "report_deps \<Rightarrow> (coordinate \<Rightarrow> nat) \<Rightarrow> closure_graph \<Rightarrow> bool" where
  "graph_ok rep \<delta> g \<longleftrightarrow> distinct (coordinates g) \<and>
     (\<forall>n \<in> set (cg_Nodes g). cn_External n \<longleftrightarrow> \<delta> (cn_Coordinate n) < closureMaxDepth \<and> rep (cn_Coordinate n) = None) \<and>
     set (cg_Edges g) = {(nodeKey k, nodeKey c) | k c deps. expanded rep \<delta> g k deps \<and> c \<in> set (kept_deps deps)}"

section \<open>The walk visits the closure\<close>

lemma coordinates_flag [simp]: "map cn_Coordinate (flag_external key ns) = map cn_Coordinate ns"
  by (induction ns) auto

lemma flag_external_nodes:
  assumes "distinct (map (\<lambda>n. nodeKey (cn_Coordinate n)) ns)" and "n \<in> set (flag_external key ns)"
  obtains m where "m \<in> set ns" "cn_Coordinate n = cn_Coordinate m"
    "cn_External n \<longleftrightarrow> cn_External m \<or> nodeKey (cn_Coordinate m) = key"
proof -
  have "\<exists>m \<in> set ns. cn_Coordinate n = cn_Coordinate m \<and> (cn_External n \<longleftrightarrow> cn_External m \<or> nodeKey (cn_Coordinate m) = key)"
    using assms
  proof (induction ns)
    case (Cons m ns)
    show ?case
    proof (cases "nodeKey (cn_Coordinate m) = key")
      case True
      then consider "n = m\<lparr>cn_External := True\<rparr>" | "n \<in> set ns" using Cons.prems(2) by auto
      then show ?thesis
      proof cases
        case 2
        have "key \<notin> (\<lambda>n. nodeKey (cn_Coordinate n)) ` set ns" using Cons.prems(1) True by auto
        then have "nodeKey (cn_Coordinate n) \<noteq> key" using 2 by blast
        then show ?thesis using 2 by auto
      qed (use True in simp)
    next
      case False
      then show ?thesis using Cons by auto
    qed
  qed simp
  then show thesis using that by blast
qed

lemma visited_keys_coordinates: "visited_keys g = nodeKey ` set (coordinates g)"
  by (auto simp: visited_keys_def coordinates_def)

lemma queue_paths:
  "queue_ok rep origin queue \<delta> g \<Longrightarrow> k \<in> set (coordinates g) \<Longrightarrow> path_to rep origin (\<delta> k) k"
  "queue_ok rep origin queue \<delta> g \<Longrightarrow> (k, d) \<in> set queue \<Longrightarrow> path_to rep origin d k"
  by (force simp: queue_ok_def)+

lemma visited_iff:
  assumes "plain_names rep origin" and "queue_ok rep origin queue \<delta> g" and "path_to rep origin d k"
  shows "nodeKey k \<in> visited_keys g \<longleftrightarrow> k \<in> set (coordinates g)"
proof
  assume "nodeKey k \<in> visited_keys g"
  then obtain j where "j \<in> set (coordinates g)" "nodeKey k = nodeKey j" by (auto simp: visited_keys_coordinates)
  then show "k \<in> set (coordinates g)"
    using nodeKey_inject [OF path_plain [OF assms(3,1)] path_plain [OF queue_paths(1) [OF assms(2)] assms(1)]] by metis
qed (simp add: visited_keys_coordinates)

definition first_depth :: "closure_graph \<Rightarrow> coordinate \<Rightarrow> nat \<Rightarrow> (coordinate \<Rightarrow> nat) \<Rightarrow> coordinate \<Rightarrow> nat" where
  "first_depth g k d \<delta> = (if k \<in> set (coordinates g) then \<delta> else \<delta>(k := d))"

text \<open>What taking an entry from the queue leaves true, whatever is done with it.\<close>

lemma dequeue:
  assumes "plain_names rep origin" and "queue_ok rep origin ((k, d) # queue) \<delta> g"
  shows "coordinates (addNode k False g) = (if k \<in> set (coordinates g) then coordinates g else coordinates g @ [k])"
    and "first_depth g k d \<delta> k \<le> d" and "path_to rep origin d k"
    and "\<forall>j \<in> set (coordinates (addNode k False g)). path_to rep origin (first_depth g k d \<delta> j) j \<and>
      first_depth g k d \<delta> j \<le> d \<and> (\<forall>q \<in> set queue. first_depth g k d \<delta> j \<le> snd q)"
    and "\<forall>q \<in> set queue. d \<le> snd q \<and> snd q \<le> Suc d \<and> path_to rep origin (snd q) (fst q)"
    and "(origin \<in> set (coordinates (addNode k False g)) \<and> first_depth g k d \<delta> origin = 0) \<or> (origin, 0) \<in> set queue"
    and "\<And>j deps c. expanded rep \<delta> g j deps \<Longrightarrow> c \<in> set (kept_deps deps) \<Longrightarrow>
      (c \<in> set (coordinates (addNode k False g)) \<and> first_depth g k d \<delta> c \<le> Suc (first_depth g k d \<delta> j)) \<or>
      (\<exists>e \<le> Suc (first_depth g k d \<delta> j). (c, e) \<in> set queue)"
proof -
  show path: "path_to rep origin d k" by (rule queue_paths(2) [OF assms(2)]) simp
  show coords: "coordinates (addNode k False g) = (if k \<in> set (coordinates g) then coordinates g else coordinates g @ [k])"
    using visited_iff [OF assms path] by (simp add: addNode_def coordinates_def)
  have le: "\<delta> j \<le> d" if "j \<in> set (coordinates g)" for j using assms(2) that by (auto simp: queue_ok_def)
  then show "first_depth g k d \<delta> k \<le> d" by (simp add: first_depth_def)
  show q: "\<forall>q \<in> set queue. d \<le> snd q \<and> snd q \<le> Suc d \<and> path_to rep origin (snd q) (fst q)"
    using assms(2) by (auto simp: queue_ok_def)
  show "\<forall>j \<in> set (coordinates (addNode k False g)). path_to rep origin (first_depth g k d \<delta> j) j \<and>
      first_depth g k d \<delta> j \<le> d \<and> (\<forall>q \<in> set queue. first_depth g k d \<delta> j \<le> snd q)"
  proof
    fix j assume j: "j \<in> set (coordinates (addNode k False g))"
    show "path_to rep origin (first_depth g k d \<delta> j) j \<and> first_depth g k d \<delta> j \<le> d \<and>
        (\<forall>q \<in> set queue. first_depth g k d \<delta> j \<le> snd q)"
    proof (cases "j \<in> set (coordinates g)")
      case True
      then have "first_depth g k d \<delta> j = \<delta> j" by (auto simp: first_depth_def)
      then show ?thesis using True queue_paths(1) [OF assms(2) True] le [OF True] assms(2) by (auto simp: queue_ok_def)
    next
      case False
      then have "j = k" "first_depth g k d \<delta> j = d" using j coords by (auto simp: first_depth_def split: if_splits)
      then show ?thesis using path q by simp
    qed
  qed
  have old: "first_depth g k d \<delta> j = \<delta> j" if "j \<in> set (coordinates g)" for j using that by (auto simp: first_depth_def)
  have sub: "j \<in> set (coordinates (addNode k False g))" if "j \<in> set (coordinates g)" for j using that coords by auto
  have kin: "k \<in> set (coordinates (addNode k False g))" using coords by auto
  show "(origin \<in> set (coordinates (addNode k False g)) \<and> first_depth g k d \<delta> origin = 0) \<or> (origin, 0) \<in> set queue"
  proof -
    have "(origin \<in> set (coordinates g) \<and> \<delta> origin = 0) \<or> (origin, 0) = (k, d) \<or> (origin, 0) \<in> set queue"
      using assms(2) by (simp add: queue_ok_def)
    then show ?thesis using old [of origin] sub [of origin] kin le [of origin] by (auto simp: first_depth_def)
  qed
  fix j deps c
  assume e: "expanded rep \<delta> g j deps" and c: "c \<in> set (kept_deps deps)"
  then have j: "first_depth g k d \<delta> j = \<delta> j" using old by (simp add: expanded_def)
  have "(c \<in> set (coordinates g) \<and> \<delta> c \<le> Suc (\<delta> j)) \<or> (\<exists>e \<le> Suc (\<delta> j). (c, e) \<in> set ((k, d) # queue))"
    using assms(2) e c unfolding queue_ok_def by blast
  then have "(c \<in> set (coordinates g) \<and> \<delta> c \<le> Suc (\<delta> j)) \<or> (\<exists>e \<le> Suc (\<delta> j). (c, e) = (k, d) \<or> (c, e) \<in> set queue)"
    by simp
  then show "(c \<in> set (coordinates (addNode k False g)) \<and> first_depth g k d \<delta> c \<le> Suc (first_depth g k d \<delta> j)) \<or>
      (\<exists>e \<le> Suc (first_depth g k d \<delta> j). (c, e) \<in> set queue)"
    unfolding j using old [of c] sub [of c] kin le [of c] by (cases "c \<in> set (coordinates g)") (auto simp: first_depth_def)
qed

text \<open>A queue that spans two levels.\<close>

lemma two_levels: "\<forall>q \<in> set Q. d \<le> snd q \<and> snd q \<le> Suc d \<Longrightarrow> \<forall>q \<in> set Q. snd q \<le> Suc (snd (hd Q))"
  by (cases Q) (auto intro: le_trans)

lemma expanded_same:
  assumes "set (coordinates g') = set (coordinates (addNode k False g))" and "coordinates (addNode k False g) = (if k \<in> set (coordinates g) then coordinates g else coordinates g @ [k])"
    and "d \<ge> closureMaxDepth \<or> rep k = None"
  shows "expanded rep (first_depth g k d \<delta>) g' j deps \<longleftrightarrow> expanded rep \<delta> g j deps"
  using assms by (auto simp: expanded_def first_depth_def)

lemma expanded_more:
  assumes "set (coordinates g') = set (coordinates (addNode k False g))" and "coordinates (addNode k False g) = (if k \<in> set (coordinates g) then coordinates g else coordinates g @ [k])"
    and "d < closureMaxDepth" and "rep k = Some ds" and "first_depth g k d \<delta> k \<le> d"
  shows "expanded rep (first_depth g k d \<delta>) g' j deps \<longleftrightarrow> expanded rep \<delta> g j deps \<or> j = k \<and> deps = ds"
  using assms by (auto simp: expanded_def first_depth_def)

lemma queue_ok_next:
  assumes plain: "plain_names rep origin" and q: "queue_ok rep origin ((k, d) # queue) \<delta> g"
    and same: "set (coordinates g') = set (coordinates (addNode k False g))"
    and new: "\<forall>x \<in> set extra. snd x = Suc d \<and> path_to rep origin (Suc d) (fst x)"
    and ex: "\<And>j deps c. expanded rep (first_depth g k d \<delta>) g' j deps \<Longrightarrow> c \<in> set (kept_deps deps) \<Longrightarrow>
      expanded rep \<delta> g j deps \<or> j = k \<and> first_depth g k d \<delta> k = d \<and>
        (c \<in> set (coordinates g') \<or> (c, Suc d) \<in> set extra)"
  shows "queue_ok rep origin (queue @ extra) (first_depth g k d \<delta>) g'"
proof -
  note dq = dequeue [OF plain q]
  have two: "\<forall>x \<in> set (queue @ extra). d \<le> snd x \<and> snd x \<le> Suc d" using dq(5) new by auto
  have "map snd extra = replicate (length extra) (Suc d)" using new by (induction extra) auto
  moreover have "sorted (map snd queue)" using q by (auto simp: queue_ok_def)
  ultimately have a: "sorted (map snd (queue @ extra))" using dq(5) by (auto simp: sorted_append)
  have b: "\<forall>x \<in> set (queue @ extra). snd x \<le> Suc (snd (hd (queue @ extra))) \<and> path_to rep origin (snd x) (fst x)"
    using two_levels [OF two] dq(5) new by auto
  have c: "\<forall>j \<in> set (coordinates g'). path_to rep origin (first_depth g k d \<delta> j) j \<and>
      (\<forall>x \<in> set (queue @ extra). first_depth g k d \<delta> j \<le> snd x)"
    using dq(4) new unfolding same by (fastforce intro: le_trans le_SucI)
  have d: "(c \<in> set (coordinates g') \<and> first_depth g k d \<delta> c \<le> Suc (first_depth g k d \<delta> j)) \<or>
      (\<exists>e \<le> Suc (first_depth g k d \<delta> j). (c, e) \<in> set (queue @ extra))"
    if e: "expanded rep (first_depth g k d \<delta>) g' j deps" and c: "c \<in> set (kept_deps deps)" for j deps c
  proof (cases "expanded rep \<delta> g j deps")
    case True
    then show ?thesis using dq(7) [OF True c] same by auto
  next
    case False
    then have "j = k" "first_depth g k d \<delta> k = d" "c \<in> set (coordinates g') \<or> (c, Suc d) \<in> set extra" using ex [OF e c] by auto
    then show ?thesis using dq(4) same by (auto intro: le_SucI)
  qed
  show ?thesis unfolding queue_ok_def
    using a b c d dq(6) same by (intro conjI allI impI) (blast | auto)+
qed

lemma graph_ok_keys:
  assumes "plain_names rep origin" and "queue_ok rep origin queue \<delta> g" and "distinct (coordinates g)"
  shows "distinct (map (\<lambda>n. nodeKey (cn_Coordinate n)) (cg_Nodes g))"
proof -
  have "inj_on nodeKey (set (coordinates g))"
    using nodeKey_inject path_plain [OF queue_paths(1) [OF assms(2)] assms(1)] by (meson inj_onI)
  then have "distinct (map nodeKey (coordinates g))" using assms(3) by (simp add: distinct_map)
  then show ?thesis by (simp add: coordinates_def comp_def)
qed

lemma addNode_external:
  assumes "n \<in> set (cg_Nodes (addNode k False g))"
  shows "n \<in> set (cg_Nodes g) \<or> n = \<lparr>cn_Coordinate = k, cn_External = False\<rparr> \<and> nodeKey k \<notin> visited_keys g"
  using assms by (auto simp: addNode_def split: if_splits)

lemma closure_loop_ok:
  assumes "plain_names rep origin" and "queue_ok rep origin queue \<delta> g" and "graph_ok rep \<delta> g"
  shows "\<exists>\<delta>'. queue_ok rep origin [] \<delta>' (closure_loop rep queue g) \<and> graph_ok rep \<delta>' (closure_loop rep queue g)"
  using assms
proof (induction rep queue g arbitrary: \<delta> rule: closure_loop.induct)
  case (2 rep k d queue g)
  note plain = 2(4) and q = 2(5) and gr = 2(6)
  note dq = dequeue [OF plain q]
  let ?g = "addNode k False g" and ?\<delta> = "first_depth g k d \<delta>"
  have dist: "distinct (coordinates ?g)" using gr dq(1) by (auto simp: graph_ok_def)
  have edges: "cg_Edges ?g = cg_Edges g" by (simp add: addNode_def)
  have old: "?\<delta> j = \<delta> j" if "j \<in> set (coordinates g)" for j using that by (auto simp: first_depth_def)
  have ext: "cn_External n \<longleftrightarrow> ?\<delta> (cn_Coordinate n) < closureMaxDepth \<and> rep (cn_Coordinate n) = None"
    if n: "n \<in> set (cg_Nodes ?g)" and other: "cn_Coordinate n \<noteq> k \<or> \<not> (d < closureMaxDepth \<and> rep k = None)" for n
  proof -
    consider "n \<in> set (cg_Nodes g)" | "cn_Coordinate n = k" "\<not> cn_External n" "nodeKey k \<notin> visited_keys g" using addNode_external [OF n] by auto
    then show ?thesis
    proof cases
      case 1
      then show ?thesis using gr old [of "cn_Coordinate n"] by (auto simp: graph_ok_def coordinates_def)
    next
      case 2
      then have "?\<delta> k = d" by (auto simp: first_depth_def visited_keys_coordinates)
      then show ?thesis using 2 other by auto
    qed
  qed
  show ?case
  proof (cases "d \<ge> closureMaxDepth")
    case cap: True
    let ?g' = "?g\<lparr>cg_MaxDepthReached := True\<rparr>"
    have same: "expanded rep ?\<delta> ?g' j deps \<longleftrightarrow> expanded rep \<delta> g j deps" for j deps
      by (rule expanded_same [OF _ dq(1)]) (use cap in simp_all)
    have "queue_ok rep origin (queue @ []) ?\<delta> ?g'"
      by (rule queue_ok_next [OF plain q]) (simp_all add: same)
    moreover have "graph_ok rep ?\<delta> ?g'" using gr dist ext cap by (simp add: graph_ok_def same edges)
    ultimately show ?thesis using 2(1) [OF cap plain] cap by (simp add: closure_loop.simps(2))
  next
    case low: False
    show ?thesis
    proof (cases "rep k")
      case None
      let ?g' = "?g\<lparr>cg_Nodes := flag_external (nodeKey k) (cg_Nodes ?g)\<rparr>"
      have co: "coordinates ?g' = coordinates ?g" by (simp add: coordinates_def)
      have same: "expanded rep ?\<delta> ?g' j deps \<longleftrightarrow> expanded rep \<delta> g j deps" for j deps
        by (rule expanded_same [OF _ dq(1)]) (use None co in simp_all)
      have "queue_ok rep origin (queue @ []) ?\<delta> ?g'"
        by (rule queue_ok_next [OF plain q]) (simp_all add: same co)
      moreover have "graph_ok rep ?\<delta> ?g'"
      proof -
        have keys: "distinct (map (\<lambda>n. nodeKey (cn_Coordinate n)) (cg_Nodes ?g))"
          by (rule graph_ok_keys [OF plain _ dist, of "queue @ []" ?\<delta>], rule queue_ok_next [OF plain q])
            (simp_all add: expanded_same [OF _ dq(1), of ?g] None)
        have "cn_External n \<longleftrightarrow> ?\<delta> (cn_Coordinate n) < closureMaxDepth \<and> rep (cn_Coordinate n) = None"
          if "n \<in> set (flag_external (nodeKey k) (cg_Nodes ?g))" for n
        proof (rule flag_external_nodes [OF keys that])
          fix m assume m: "m \<in> set (cg_Nodes ?g)" "cn_Coordinate n = cn_Coordinate m"
            "cn_External n \<longleftrightarrow> cn_External m \<or> nodeKey (cn_Coordinate m) = nodeKey k"
          have "cn_Coordinate m \<in> set (coordinates ?g)" using m(1) by (auto simp: coordinates_def)
          then have "path_to rep origin (?\<delta> (cn_Coordinate m)) (cn_Coordinate m)" using dq(4) by blast
          then have "nodeKey (cn_Coordinate m) = nodeKey k \<longleftrightarrow> cn_Coordinate m = k"
            using nodeKey_inject path_plain plain dq(3) by metis
          then show ?thesis using m ext [OF m(1)] dq(2) low None by (cases "cn_Coordinate m = k") auto
        qed
        then show ?thesis using gr dist by (simp add: graph_ok_def same edges co)
      qed
      ultimately show ?thesis using 2(2) [OF low None plain] low None by (simp add: closure_loop.simps(2))
    next
      case (Some deps)
      let ?new = "filter (\<lambda>c. nodeKey c \<notin> visited_keys ?g) (kept_deps deps)"
      let ?g' = "?g\<lparr>cg_Edges := cg_Edges g @ map (\<lambda>c. (nodeKey k, nodeKey c)) (kept_deps deps)\<rparr>"
      have more: "expanded rep ?\<delta> ?g' j ds \<longleftrightarrow> expanded rep \<delta> g j ds \<or> j = k \<and> ds = deps" for j ds
        using expanded_more [of ?g' k g d rep deps \<delta> j ds, OF _ dq(1) _ Some dq(2)] low by simp
      have child: "path_to rep origin (Suc d) c" if "c \<in> set (kept_deps deps)" for c
        using path_to.dep [OF dq(3) _ Some that] low by simp
      have seen: "nodeKey c \<in> visited_keys ?g \<Longrightarrow> c \<in> set (coordinates ?g)" if c: "c \<in> set (kept_deps deps)" for c
      proof -
        assume "nodeKey c \<in> visited_keys ?g"
        then obtain j where "j \<in> set (coordinates ?g)" "nodeKey c = nodeKey j" by (auto simp: visited_keys_coordinates)
        then show "c \<in> set (coordinates ?g)"
          using nodeKey_inject path_plain plain child [OF c] dq(4) by metis
      qed
      have kids: "c \<in> set (coordinates ?g') \<or> (c, Suc d) \<in> set (map (\<lambda>c. (c, d + 1)) ?new)" if "c \<in> set (kept_deps deps)" for c
        using seen [OF that] that by (cases "nodeKey c \<in> visited_keys ?g") simp_all
      have "queue_ok rep origin (queue @ map (\<lambda>c. (c, d + 1)) ?new) ?\<delta> ?g'"
      proof (rule queue_ok_next [OF plain q])
        fix j ds c
        assume "expanded rep ?\<delta> ?g' j ds" and c: "c \<in> set (kept_deps ds)"
        moreover have "?\<delta> k = d" if "\<not> expanded rep \<delta> g k deps"
        proof -
          have "\<delta> k \<le> d" if "k \<in> set (coordinates g)" using q that by (auto simp: queue_ok_def)
          then have "k \<notin> set (coordinates g)" using that low Some by (auto simp: expanded_def)
          then show ?thesis by (simp add: first_depth_def)
        qed
        ultimately show "expanded rep \<delta> g j ds \<or> j = k \<and> ?\<delta> k = d \<and>
            (c \<in> set (coordinates ?g') \<or> (c, Suc d) \<in> set (map (\<lambda>c. (c, d + 1)) ?new))"
          using more kids by blast
      qed (use child in auto)
      moreover have "graph_ok rep ?\<delta> ?g'"
      proof -
        have "\<forall>n \<in> set (cg_Nodes ?g'). cn_External n \<longleftrightarrow> ?\<delta> (cn_Coordinate n) < closureMaxDepth \<and> rep (cn_Coordinate n) = None"
          using ext Some by auto
        moreover have "set (cg_Edges ?g') = {(nodeKey j, nodeKey c) | j c ds. expanded rep ?\<delta> ?g' j ds \<and> c \<in> set (kept_deps ds)}"
        proof -
          have "set (cg_Edges ?g') = {(nodeKey j, nodeKey c) | j c ds. expanded rep \<delta> g j ds \<and> c \<in> set (kept_deps ds)} \<union>
              (\<lambda>c. (nodeKey k, nodeKey c)) ` set (kept_deps deps)"
            using gr by (simp add: graph_ok_def)
          then show ?thesis unfolding more by blast
        qed
        ultimately show ?thesis using dist by (simp add: graph_ok_def)
      qed
      ultimately show ?thesis using 2(3) [OF low Some plain] low Some by (simp add: closure_loop.simps(2))
    qed
  qed
qed auto

lemma Closure_inv:
  assumes "plain_names rep origin"
  obtains \<delta> where "queue_ok rep origin [] \<delta> (Closure rep origin)" "graph_ok rep \<delta> (Closure rep origin)"
proof -
  let ?g = "\<lparr>cg_Root = nodeKey origin, cg_Nodes = [], cg_Edges = [], cg_MaxDepthReached = False\<rparr>"
  have "queue_ok rep origin [(origin, 0)] (\<lambda>_. 0) ?g"
    by (simp add: queue_ok_def coordinates_def expanded_def path_to.start)
  moreover have "graph_ok rep (\<lambda>_. 0) ?g" by (simp add: graph_ok_def coordinates_def expanded_def)
  ultimately show thesis using closure_loop_ok [OF assms] that unfolding Closure_def by blast
qed

lemma path_visited:
  assumes "path_to rep origin d k" and "queue_ok rep origin [] \<delta> g"
  shows "k \<in> set (coordinates g) \<and> \<delta> k \<le> d"
  using assms
proof (induction rule: path_to.induct)
  case start
  then show ?case by (auto simp: queue_ok_def)
next
  case (dep d k deps c)
  then have k: "expanded rep \<delta> g k deps" "\<delta> k \<le> d" by (auto simp: expanded_def)
  then have "c \<in> set (coordinates g) \<and> \<delta> c \<le> Suc (\<delta> k)" using dep.hyps(4) dep.prems unfolding queue_ok_def by fastforce
  then show ?case using k(2) by auto
qed

lemma Closure_facts:
  assumes "plain_names rep origin"
  shows "distinct (coordinates (Closure rep origin))"
    and "k \<in> set (coordinates (Closure rep origin)) \<longleftrightarrow> (\<exists>d. path_to rep origin d k)"
    and "n \<in> set (cg_Nodes (Closure rep origin)) \<Longrightarrow>
      cn_External n \<longleftrightarrow> rep (cn_Coordinate n) = None \<and> (\<exists>d < closureMaxDepth. path_to rep origin d (cn_Coordinate n))"
    and "set (cg_Edges (Closure rep origin)) = {(nodeKey k, nodeKey c) | k c d deps. path_to rep origin d k \<and> d < closureMaxDepth \<and>
      rep k = Some deps \<and> c \<in> set (kept_deps deps)}"
proof -
  let ?g = "Closure rep origin"
  obtain \<delta> where q: "queue_ok rep origin [] \<delta> ?g" and g: "graph_ok rep \<delta> ?g" by (rule Closure_inv [OF assms])
  show "distinct (coordinates ?g)" using g by (simp add: graph_ok_def)
  show nodes: "k \<in> set (coordinates ?g) \<longleftrightarrow> (\<exists>d. path_to rep origin d k)" for k
    using path_visited [OF _ q] queue_paths(1) [OF q] by blast
  have near: "\<delta> k < closureMaxDepth \<longleftrightarrow> (\<exists>d < closureMaxDepth. path_to rep origin d k)" if "k \<in> set (coordinates ?g)" for k
    using path_visited [OF _ q] queue_paths(1) [OF q that] le_less_trans by blast
  show "cn_External n \<longleftrightarrow> rep (cn_Coordinate n) = None \<and> (\<exists>d < closureMaxDepth. path_to rep origin d (cn_Coordinate n))"
    if "n \<in> set (cg_Nodes ?g)"
    using g that near [of "cn_Coordinate n"] by (auto simp: graph_ok_def coordinates_def)
  have "expanded rep \<delta> ?g k deps \<longleftrightarrow> (\<exists>d < closureMaxDepth. path_to rep origin d k) \<and> rep k = Some deps" for k deps
    using near [of k] nodes [of k] by (auto simp: expanded_def)
  then show "set (cg_Edges ?g) = {(nodeKey k, nodeKey c) | k c d deps. path_to rep origin d k \<and> d < closureMaxDepth \<and>
      rep k = Some deps \<and> c \<in> set (kept_deps deps)}"
    using g unfolding graph_ok_def by blast
qed


section \<open>What is missing is ingested once\<close>

definition missing :: "report_deps \<Rightarrow> coordinate \<Rightarrow> coordinate set" where
  "missing rep origin = {k. rep k = None \<and> (\<exists>d < closureMaxDepth. path_to rep origin d k)}"

lemma ingest_fold:
  fixes outcome :: "string \<Rightarrow> coordinate \<Rightarrow> (string \<times> coordinate) list \<Rightarrow> string option"
  assumes "fold (ingest_step (\<lambda>u k calls. (outcome u k calls, calls @ [(u, k)])) up) ns (out, calls) = (out', calls')"
  shows "calls' = calls @ map (\<lambda>n. (up, cn_Coordinate n)) (filter cn_External ns) \<and>
    cr_Bumped out' + cr_Failed out' = cr_Bumped out + cr_Failed out + length (filter cn_External ns) \<and>
    (cr_Failed out = length (cr_Errors out) \<longrightarrow> cr_Failed out' = length (cr_Errors out')) \<and>
    fst ` set (cr_Errors out') \<subseteq> fst ` set (cr_Errors out) \<union> cn_Coordinate ` set (filter cn_External ns)"
  using assms
proof (induction ns arbitrary: out calls)
  case (Cons n ns)
  show ?case
  proof (cases "cn_External n")
    case True
    obtain out1 where o: "ingest_step (\<lambda>u k calls. (outcome u k calls, calls @ [(u, k)])) up n (out, calls) = (out1, calls @ [(up, cn_Coordinate n)])"
      and b: "cr_Bumped out1 + cr_Failed out1 = Suc (cr_Bumped out + cr_Failed out)"
      and f: "cr_Failed out = length (cr_Errors out) \<longrightarrow> cr_Failed out1 = length (cr_Errors out1)"
      and e: "fst ` set (cr_Errors out1) \<subseteq> insert (cn_Coordinate n) (fst ` set (cr_Errors out))"
      using True by (cases "outcome up (cn_Coordinate n) calls") (auto simp: ingest_step_def)
    have ih: "calls' = calls @ map (\<lambda>n. (up, cn_Coordinate n)) (filter cn_External (n # ns)) \<and>
        cr_Bumped out' + cr_Failed out' = cr_Bumped out1 + cr_Failed out1 + length (filter cn_External ns) \<and>
        (cr_Failed out1 = length (cr_Errors out1) \<longrightarrow> cr_Failed out' = length (cr_Errors out')) \<and>
        fst ` set (cr_Errors out') \<subseteq> fst ` set (cr_Errors out1) \<union> cn_Coordinate ` set (filter cn_External ns)"
      using Cons.IH [of out1 "calls @ [(up, cn_Coordinate n)]"] Cons.prems o True by simp
    have "fst ` set (cr_Errors out') \<subseteq> fst ` set (cr_Errors out) \<union> cn_Coordinate ` set (filter cn_External (n # ns))"
    proof -
      have "fst ` set (cr_Errors out') \<subseteq> fst ` set (cr_Errors out1) \<union> cn_Coordinate ` set (filter cn_External ns)" using ih by blast
      moreover have "cn_Coordinate ` set (filter cn_External (n # ns)) = insert (cn_Coordinate n) (cn_Coordinate ` set (filter cn_External ns))"
        using True by simp
      ultimately show ?thesis using e by blast
    qed
    moreover have "cr_Bumped out' + cr_Failed out' = cr_Bumped out + cr_Failed out + length (filter cn_External (n # ns))"
      using ih b True by simp
    ultimately show ?thesis using ih f by blast
  next
    case False
    then show ?thesis using Cons by (simp add: ingest_step_def)
  qed
qed auto


section \<open>Reverse dependencies, abstractly\<close>

lemma reverse_loop_exact:
  assumes "distinct (map nodeKey rows)" and "seen \<inter> nodeKey ` set rows = {}"
  shows "reverse_loop rep k rows seen = filter (\<lambda>mv. case rep mv of None \<Rightarrow> False | Some deps \<Rightarrow> k \<in> set deps) rows"
  using assms by (induction rep k rows seen rule: reverse_loop.induct) (auto split: option.splits)

text \<open>
  The reverse dependencies are exactly the listed versions whose report names the coordinate, in
  the order of the listing.
\<close>

lemma reverse_deps_exact:
  assumes "distinct (map nodeKey rows)"
  shows "ReverseDeps rep (Inr rows) k = Inr (filter (\<lambda>mv. case rep mv of None \<Rightarrow> False | Some deps \<Rightarrow> k \<in> set deps) rows)"
  using reverse_loop_exact [OF assms, of "{}"] by (simp add: ReverseDeps_def)

section \<open>Repeated work\<close>

text \<open>Two versions per level, each depending on both of the next level, four levels below the root.\<close>

definition ladder :: report_deps where
  "ladder k = (let n = length (fst k) in if n < 5 then Some [(replicate (Suc n) (CHR ''a''), ''1''), (replicate (Suc n) (CHR ''b''), ''1'')] else Some [])"

text \<open>
  A coordinate that two versions of one level depend on is taken from the queue once for each of
  them and expanded each time, so that edges repeat and the work doubles with every level: on a
  ladder with four levels of two, 30 edges are listed where there are 14.
\<close>

theorem shared_deps_repeat:
  "length (cg_Edges (Closure ladder (''a'', ''1''))) = 30 \<and> card (set (cg_Edges (Closure ladder (''a'', ''1'')))) = 14"
  by code_simp

section \<open>A small index\<close>

definition small_index :: report_deps where
  "small_index k = (if k = (''a'', ''1'') then Some [(''b'', ''1''), (''c'', ''2''), (''d'', ''0'')]
     else if k = (''b'', ''1'') then Some [(''c'', ''2'')] else None)"

lemma small_plain: "plain_names small_index (''a'', ''1'')"
  by (auto simp: plain_names_def small_index_def split: if_splits)

lemma small_closure:
  "coordinates (Closure small_index (''a'', ''1'')) = [(''a'', ''1''), (''b'', ''1''), (''c'', ''2'')]"
  by code_simp



lemma small_reverse_deps:
  "ReverseDeps small_index (Inr [(''a'', ''1''), (''b'', ''1''), (''e'', ''1'')]) (''c'', ''2'') = Inr [(''a'', ''1''), (''b'', ''1'')]"
  by (subst reverse_deps_exact) (simp_all add: small_index_def)

end
