(* ===== verification/Actions.thy ===== *)
theory Actions
  imports Handlers Flags ClosureGraph Publication
begin

text \<open>
  The endpoints that change the index (src/internal/server/action_handlers.go) and the conditional
  answers (src/internal/server/response.go). The calls to the service are recorded; what they return
  is a parameter. Other requests use the limiter while a handler holds its slot.
\<close>

section \<open>The gate\<close>

record action_env =
  av_Cut :: bool
  av_Created :: int
  av_Now :: int
  av_Done :: bool
  av_PreferDone :: bool
  av_Header :: string
  av_RemoteAddr :: string
  av_Others :: "ingest_limiter \<Rightarrow> ingest_limiter"

definition error_json :: "string \<Rightarrow> reply_body" where
  "error_json msg = JsonBody (map_json [(''error'', JStr msg)])"

definition apiError :: "string \<Rightarrow> response \<Rightarrow> response" where
  "apiError err w = writeJSON 500 (error_json err) w"

fun acquire_text :: "acquire_error \<Rightarrow> string" where
  "acquire_text ErrRateLimited = ''ratelimit: per-IP request rate exceeded''"
| "acquire_text ErrCapacityExhausted = ''ratelimit: server at capacity, try again shortly''"
| "acquire_text ContextDone = ''context canceled''"

definition ingest_gate :: "action_env \<Rightarrow> flags \<Rightarrow> response \<Rightarrow> ingest_limiter \<Rightarrow> bool \<times> response \<times> ingest_limiter" where
  "ingest_gate env f w l =
     (if \<not> ff_IngestWriteEnabled f
      then (False, writeJSON 503 (error_json ''ingest writes are disabled on this bzlhub (BZLHUB_INGEST_WRITE_ENABLED=false)'') w, l)
      else (case Acquire (av_Created env) (av_Now env) (av_Done env) (av_PreferDone env) (RemoteIP (av_Header env) (av_RemoteAddr env)) l of
          (None, l) \<Rightarrow> (True, w, l)
        | (Some err, l) \<Rightarrow>
            (False,
             (case err of
                ErrRateLimited \<Rightarrow> writeJSON 429 (error_json (acquire_text err)) (setRetryAfter ''60'' w)
              | ErrCapacityExhausted \<Rightarrow> writeJSON 503 (error_json (acquire_text err)) (setRetryAfter ''10'' w)
              | ContextDone \<Rightarrow> apiError (acquire_text err) w), l)))"

text \<open>
  The rest of a handler runs with the slot, which is released at its end: None is a release that
  blocks for ever.
\<close>

definition with_slot ::
  "action_env \<Rightarrow> flags \<Rightarrow> (response \<Rightarrow> response \<times> 'c list) \<Rightarrow> ingest_limiter \<Rightarrow> response \<times> 'c list \<times> ingest_limiter option" where
  "with_slot env f act l =
     (case ingest_gate env f new_response l of
        (False, w, l) \<Rightarrow> (w, [], Some l)
      | (True, w, l) \<Rightarrow> (case act w of (w, calls) \<Rightarrow> (w, calls, release (av_Others env l))))"

section \<open>Bodies\<close>

definition maxActionJSONBody :: nat where "maxActionJSONBody = 64 * 1024"

definition decode_bool :: "json \<Rightarrow> bool \<Rightarrow> bool option" where
  "decode_bool j old = (case j of JBool b \<Rightarrow> Some b | JNull \<Rightarrow> Some old | _ \<Rightarrow> None)"

record action_body =
  ab_Module :: string
  ab_Version :: string
  ab_Upstream :: string
  ab_IncludeBazelTools :: bool
  ab_BazelVersion :: string
  ab_Workers :: int

definition empty_action :: action_body where
  "empty_action = \<lparr>ab_Module = [], ab_Version = [], ab_Upstream = [], ab_IncludeBazelTools = False, ab_BazelVersion = [], ab_Workers = 0\<rparr>"

definition set_action_field :: "string \<Rightarrow> json \<Rightarrow> action_body \<Rightarrow> action_body option" where
  "set_action_field n j b =
     (if n = ''module'' then map_option (\<lambda>s. b\<lparr>ab_Module := s\<rparr>) (decode_string j (ab_Module b))
      else if n = ''version'' then map_option (\<lambda>s. b\<lparr>ab_Version := s\<rparr>) (decode_string j (ab_Version b))
      else if n = ''upstream'' then map_option (\<lambda>s. b\<lparr>ab_Upstream := s\<rparr>) (decode_string j (ab_Upstream b))
      else if n = ''include_bazel_tools'' then map_option (\<lambda>x. b\<lparr>ab_IncludeBazelTools := x\<rparr>) (decode_bool j (ab_IncludeBazelTools b))
      else if n = ''bazel_version'' then map_option (\<lambda>s. b\<lparr>ab_BazelVersion := s\<rparr>) (decode_string j (ab_BazelVersion b))
      else map_option (\<lambda>i. b\<lparr>ab_Workers := i\<rparr>) (decode_int64 j (ab_Workers b)))"

definition bump_names :: "string list" where
  "bump_names = [''module'', ''version'', ''upstream'']"

definition recursive_names :: "string list" where
  "recursive_names = [''module'', ''version'', ''upstream'', ''include_bazel_tools'', ''bazel_version'', ''workers'']"

text \<open>The decoded and checked body of the two endpoints that have one.\<close>

definition read_action :: "action_env \<Rightarrow> string list \<Rightarrow> bytes \<Rightarrow> response \<Rightarrow> action_body option \<times> response" where
  "read_action env names body w =
     (case decodeJSONBody (av_Cut env) maxActionJSONBody names set_action_field empty_action body w of
        (None, w) \<Rightarrow> (None, w)
      | (Some b, w) \<Rightarrow>
        (if ab_Module b = [] \<or> ab_Version b = [] then (None, httpError ''bad request: module and version are required'' 400 w)
         else (Some b, w)))"

text \<open>The guard on the upstream of a caller.\<close>

definition action_upstream :: "flags \<Rightarrow> string \<Rightarrow> string" where
  "action_upstream f upstream = (if \<not> ff_IngestAllowCustomUpstream f \<or> upstream = [] then ff_RegistryURL f else upstream)"

definition sourceTag :: "string \<Rightarrow> string" where
  "sourceTag fallback = fallback"

section \<open>The endpoints\<close>

datatype service_call =
    BumpCall string string string string
  | RecursiveCall string string string bool string int string
  | MissingCall string string

fun call_upstream :: "service_call \<Rightarrow> string option" where
  "call_upstream (BumpCall m v u s) = Some u"
| "call_upstream (RecursiveCall m v u tools bv workers s) = Some u"
| "call_upstream (MissingCall m v) = None"

definition bump_act ::
  "action_env \<Rightarrow> flags \<Rightarrow> (service_call \<Rightarrow> string + json) \<Rightarrow> bytes \<Rightarrow> response \<Rightarrow> response \<times> service_call list" where
  "bump_act env f service body w =
       (case read_action env bump_names body w of
          (None, w) \<Rightarrow> (w, [])
        | (Some b, w) \<Rightarrow>
          (let call = BumpCall (ab_Module b) (ab_Version b) (action_upstream f (ab_Upstream b)) (sourceTag ''rest'')
           in ((case service call of
                  Inr rep \<Rightarrow> writeJSON 200 (JsonBody rep) w
                | Inl err \<Rightarrow>
                  (if contains_sub err ''bump not available'' then httpError err 409 w
                   else if contains_sub err ''resolve:'' \<or> contains_sub err ''source.json'' \<or> contains_sub err ''integrity''
                   then httpError err 502 w
                   else apiError err w)), [call])))"

definition apiBump ::
  "action_env \<Rightarrow> flags \<Rightarrow> (service_call \<Rightarrow> string + json) \<Rightarrow> bytes \<Rightarrow> ingest_limiter \<Rightarrow> response \<times> service_call list \<times> ingest_limiter option" where
  "apiBump env f service body l = with_slot env f (bump_act env f service body) l"

definition recursive_act ::
  "action_env \<Rightarrow> flags \<Rightarrow> (service_call \<Rightarrow> string + json) \<Rightarrow> bytes \<Rightarrow> response \<Rightarrow> response \<times> service_call list" where
  "recursive_act env f service body w =
       (case read_action env recursive_names body w of
          (None, w) \<Rightarrow> (w, [])
        | (Some b, w) \<Rightarrow>
          (let call = RecursiveCall (ab_Module b) (ab_Version b) (action_upstream f (ab_Upstream b)) (ab_IncludeBazelTools b)
                 (ab_BazelVersion b) (ab_Workers b) (sourceTag ''rest'')
           in ((case service call of
                  Inr res \<Rightarrow> writeJSON 200 (JsonBody res) w
                | Inl err \<Rightarrow> if contains_sub err ''not available'' then httpError err 409 w else apiError err w), [call])))"

definition apiIngestRecursive ::
  "action_env \<Rightarrow> flags \<Rightarrow> (service_call \<Rightarrow> string + json) \<Rightarrow> bytes \<Rightarrow> ingest_limiter \<Rightarrow> response \<times> service_call list \<times> ingest_limiter option" where
  "apiIngestRecursive env f service body l = with_slot env f (recursive_act env f service body) l"

definition missing_act :: "(service_call \<Rightarrow> string + json) \<Rightarrow> coordinate \<Rightarrow> response \<Rightarrow> response \<times> service_call list" where
  "missing_act service k w =
     (let call = MissingCall (fst k) (snd k)
      in ((case service call of Inr res \<Rightarrow> writeJSON 200 (JsonBody res) w | Inl err \<Rightarrow> apiError err w), [call]))"

definition apiIngestMissing ::
  "action_env \<Rightarrow> flags \<Rightarrow> (service_call \<Rightarrow> string + json) \<Rightarrow> coordinate \<Rightarrow> ingest_limiter \<Rightarrow> response \<times> service_call list \<times> ingest_limiter option" where
  "apiIngestMissing env f service k l = with_slot env f (missing_act service k) l"

text \<open>The compatibility check: Inl None is the error for an input without dependencies.\<close>

definition maxCompatCheckBody :: nat where "maxCompatCheckBody = 256 * 1024"

definition apiCompatCheck :: "(string \<Rightarrow> bool \<Rightarrow> string option + json) \<Rightarrow> string \<Rightarrow> http_response \<Rightarrow> response" where
  "apiCompatCheck analyze dev_param body =
     (case read_limited (maxCompatCheckBody + 1) body of
        Inl err \<Rightarrow> httpError ''compat-check: body too large or unreadable'' 413 new_response
      | Inr b \<Rightarrow>
        (if length b > maxCompatCheckBody then httpError ''compat-check: body too large or unreadable'' 413 new_response
         else (case analyze b (dev_param = ''true'') of
             Inr res \<Rightarrow> writeJSON 200 (JsonBody res) new_response
           | Inl None \<Rightarrow> writeJSON 400 (error_json ''no bazel_dep declarations found in input'') new_response
           | Inl (Some err) \<Rightarrow> apiError err new_response)))"

section \<open>Conditional answers\<close>

record etag_reply =
  et_Status :: int
  et_ETag :: string
  et_CacheControl :: string
  et_ContentType :: string
  et_Body :: bytes

definition etag_of :: "(bytes \<Rightarrow> bytes) \<Rightarrow> bytes \<Rightarrow> string" where
  "etag_of sha b = CHR 0x22 # hex_text (sha b) @ [CHR 0x22]"

text \<open>The body is the error of its marshalling, or the value.\<close>

definition writeJSONWithETag :: "(bytes \<Rightarrow> bytes) \<Rightarrow> string \<Rightarrow> int \<Rightarrow> string + json \<Rightarrow> etag_reply" where
  "writeJSONWithETag sha ifNoneMatch status body =
     (case body of
        Inl err \<Rightarrow> \<lparr>et_Status = 500, et_ETag = [], et_CacheControl = [], et_ContentType = ''text/plain; charset=utf-8'', et_Body = err @ [CHR 0x0A]\<rparr>
      | Inr v \<Rightarrow>
        (let buf = MarshalIndent v;
             etag = etag_of sha buf
         in if ifNoneMatch = etag
            then \<lparr>et_Status = 304, et_ETag = etag, et_CacheControl = ''no-cache'', et_ContentType = [], et_Body = []\<rparr>
            else \<lparr>et_Status = status, et_ETag = etag, et_CacheControl = ''no-cache'', et_ContentType = ''application/json'', et_Body = buf\<rparr>))"

text \<open>The number so far; the loop stops at a character that is no digit, or above 10000.\<close>

fun atoi_loop :: "int \<Rightarrow> int \<Rightarrow> string \<Rightarrow> int" where
  "atoi_loop def_value n [] = n"
| "atoi_loop def_value n (c # s) =
     (if \<not> is_digit c then def_value
      else (let n = n * 10 + (of_char c - 48) in if n > 10000 then 10000 else atoi_loop def_value n s))"

definition atoiOrDefault :: "string \<Rightarrow> int \<Rightarrow> int" where
  "atoiOrDefault s def_value = (if s = [] then def_value else atoi_loop def_value 0 s)"

section \<open>Every call to the service is gated\<close>

lemma with_slot_calls:
  assumes "with_slot env f act l = (w, calls, l')"
  shows "(calls = [] \<and> l' \<noteq> None) \<or>
    ff_IngestWriteEnabled f \<and>
    (\<exists>l1. Acquire (av_Created env) (av_Now env) (av_Done env) (av_PreferDone env) (RemoteIP (av_Header env) (av_RemoteAddr env)) l = (None, l1) \<and>
      act new_response = (w, calls) \<and> l' = release (av_Others env l1))"
  using assms by (auto simp: with_slot_def ingest_gate_def split: if_splits option.splits prod.splits)

lemma action_upstream_safe:
  "ff_RegistryURL f \<noteq> [] \<Longrightarrow> action_upstream f u \<noteq> [] \<and> (\<not> ff_IngestAllowCustomUpstream f \<longrightarrow> action_upstream f u = ff_RegistryURL f)"
  by (auto simp: action_upstream_def)

definition endpoint_runs ::
  "action_env \<Rightarrow> flags \<Rightarrow> (service_call \<Rightarrow> string + json) \<Rightarrow> bytes \<Rightarrow> coordinate \<Rightarrow> ingest_limiter \<Rightarrow>
   (response \<times> service_call list \<times> ingest_limiter option) list" where
  "endpoint_runs env f service body k l = [apiBump env f service body l, apiIngestRecursive env f service body l, apiIngestMissing env f service k l]"

definition safe_call :: "flags \<Rightarrow> service_call \<Rightarrow> bool" where
  "safe_call f c \<longleftrightarrow> (case call_upstream c of Some u \<Rightarrow> u \<noteq> [] \<and> (\<not> ff_IngestAllowCustomUpstream f \<longrightarrow> u = ff_RegistryURL f) | None \<Rightarrow> True)"

lemma acts_safe:
  assumes "ff_RegistryURL f \<noteq> []"
  shows "length (snd (bump_act env f service body w)) \<le> 1 \<and> list_all (safe_call f) (snd (bump_act env f service body w))"
    and "length (snd (recursive_act env f service body w)) \<le> 1 \<and> list_all (safe_call f) (snd (recursive_act env f service body w))"
    and "length (snd (missing_act service k w)) \<le> 1 \<and> list_all (safe_call f) (snd (missing_act service k w))"
  using action_upstream_safe [OF assms]
  by (auto simp: bump_act_def recursive_act_def missing_act_def safe_call_def Let_def split: option.splits prod.splits)

lemma endpoint_shape:
  assumes "(w, calls, l') \<in> set (endpoint_runs env f service body k l)" and "ff_RegistryURL f \<noteq> []"
  shows "\<exists>act. with_slot env f act l = (w, calls, l') \<and> (\<forall>w0. length (snd (act w0)) \<le> 1 \<and> list_all (safe_call f) (snd (act w0)))"
proof -
  consider "with_slot env f (bump_act env f service body) l = (w, calls, l')"
    | "with_slot env f (recursive_act env f service body) l = (w, calls, l')"
    | "with_slot env f (missing_act service k) l = (w, calls, l')"
    using assms(1) by (auto simp: endpoint_runs_def apiBump_def apiIngestRecursive_def apiIngestMissing_def)
  then show ?thesis using acts_safe [OF assms(2)] by cases blast+
qed

lemma endpoint_cases:
  assumes "(w, calls, l') \<in> set (endpoint_runs env f service body k l)" and "ff_RegistryURL f \<noteq> []"
  shows "(calls = [] \<and> l' \<noteq> None) \<or>
    ff_IngestWriteEnabled f \<and> length calls \<le> 1 \<and> list_all (safe_call f) calls \<and>
    (\<exists>l1. Acquire (av_Created env) (av_Now env) (av_Done env) (av_PreferDone env) (RemoteIP (av_Header env) (av_RemoteAddr env)) l = (None, l1) \<and>
      l' = release (av_Others env l1))"
proof -
  obtain act where a: "with_slot env f act l = (w, calls, l')" "\<forall>w0. length (snd (act w0)) \<le> 1 \<and> list_all (safe_call f) (snd (act w0))"
    using endpoint_shape [OF assms] by blast
  from with_slot_calls [OF a(1)] show ?thesis using a(2) by (metis snd_conv)
qed

lemma write_flag_set:
  assumes "ParseFlags environ = Inr f" and "ff_IngestWriteEnabled f"
  shows "ParseBool (trim_space (environ ''BZLHUB_INGEST_WRITE_ENABLED'')) = Some True"
  using ParseFlags_Inr(1) [OF assms(1)] assms(2) by (auto simp: reads_bool_def split: if_splits)


text \<open>Other requests keep the slot that a handler holds: they release only what they took.\<close>

definition keeps_slot :: "(ingest_limiter \<Rightarrow> ingest_limiter) \<Rightarrow> bool" where
  "keeps_slot others \<longleftrightarrow> (\<forall>l. (il_sem l = None \<longrightarrow> il_sem (others l) = None) \<and>
     (\<forall>cap used. il_sem l = Some (cap, Suc used) \<longrightarrow> (\<exists>used'. il_sem (others l) = Some (cap, Suc used'))))"


section \<open>Conditional answers\<close>

lemma etag_of_inject: "etag_of sha a = etag_of sha b \<longleftrightarrow> sha a = sha b"
  unfolding etag_of_def by (metis append1_eq_conv hex_text_inject list.inject)

lemma etag_sent: "et_ETag (writeJSONWithETag sha tag status (Inr v)) = etag_of sha (MarshalIndent v)"
  by (simp add: writeJSONWithETag_def Let_def)

text \<open>With no collision, a client that sends the tag of an answer gets 304 exactly when the answer is still the same text.\<close>

lemma conditional_get:
  assumes "sha (MarshalIndent v) = sha (MarshalIndent v0) \<Longrightarrow> MarshalIndent v = MarshalIndent v0" and "status \<noteq> 304"
  shows "et_Status (writeJSONWithETag sha (et_ETag (writeJSONWithETag sha tag status (Inr v0))) status (Inr v)) = 304 \<longleftrightarrow> MarshalIndent v = MarshalIndent v0"
proof -
  have "et_Status (writeJSONWithETag sha (etag_of sha (MarshalIndent v0)) status (Inr v)) = 304 \<longleftrightarrow>
      etag_of sha (MarshalIndent v0) = etag_of sha (MarshalIndent v)"
    using assms(2) by (simp add: writeJSONWithETag_def Let_def)
  then show ?thesis unfolding etag_sent etag_of_inject using assms(1) by metis
qed

lemma digit_nonneg:
  assumes "is_digit c"
  shows "0 \<le> (of_char c :: int) - 48"
proof -
  have "(48 :: nat) \<le> of_char c" using assms by (simp add: is_digit_def in_range_def)
  then have "int 48 \<le> int (of_char c)" by (rule of_nat_mono)
  then have "48 \<le> (of_char c :: int)" by (simp only: of_nat_of_char of_nat_numeral)
  then show ?thesis by simp
qed

lemma atoi_loop_bound: "0 \<le> n \<Longrightarrow> n \<le> 10000 \<Longrightarrow> list_all is_digit s \<Longrightarrow> atoi_loop d n s = min 10000 (foldl (\<lambda>a c. 10 * a + (of_char c - 48)) n s)"
proof (induction d n s rule: atoi_loop.induct)
  case (2 d n c s)
  let ?n = "n * 10 + (of_char c - 48)"
  have c: "0 \<le> (of_char c :: int) - 48" using 2(4) digit_nonneg by simp
  have mono: "m \<le> foldl (\<lambda>a c. 10 * a + (of_char c - 48)) m s" if "0 \<le> m" "list_all is_digit s" for m :: int
    using that
  proof (induction s arbitrary: m)
    case (Cons x xs)
    have x: "0 \<le> (of_char x :: int) - 48" using Cons.prems(2) digit_nonneg by simp
    then have "m \<le> 10 * m + (of_char x - 48)" using Cons.prems(1) by linarith
    then show ?case using Cons.IH [of "10 * m + (of_char x - 48)"] Cons.prems x by (auto intro: order_trans)
  qed simp
  show ?case
  proof (cases "?n > 10000")
    case True
    then show ?thesis using mono [of ?n] 2(2,4) c by (simp add: mult.commute)
  next
    case False
    then show ?thesis using 2(1) [OF _ refl] 2(2,4) c by (simp add: mult.commute)
  qed
qed simp

lemma atoiOrDefault_digits: "list_all is_digit s \<Longrightarrow> s \<noteq> [] \<Longrightarrow> atoiOrDefault s d = min 10000 (digits_val s)"
  by (simp add: atoiOrDefault_def digits_val_def atoi_loop_bound)

section \<open>A guarded bump\<close>

definition writes_on :: environ where
  "writes_on name = (if name = ''BZLHUB_INGEST_WRITE_ENABLED'' then ''true'' else [])"

definition write_flags :: flags where
  "write_flags = \<lparr>ff_IngestWriteEnabled = True, ff_RequireFrontProxy = True, ff_RegistryURL = ''https://bcr.bazel.build'',
     ff_IngestAllowCustomUpstream = False, ff_IngestRateLimitPerMin = 5, ff_IngestRateBypassIPs = [], ff_IngestMaxConcurrent = 1,
     ff_AttrsInterpret = False, ff_DemoMode = False, ff_DemoBanner = [], ff_MCPHTTPEnabled = False, ff_MCPWriteToolsEnabled = False\<rparr>"

lemma writes_on_parsed: "ParseFlags writes_on = Inr write_flags"
  by code_simp

definition calm_env :: action_env where
  "calm_env = \<lparr>av_Cut = False, av_Created = 0, av_Now = 0, av_Done = False, av_PreferDone = False, av_Header = [],
     av_RemoteAddr = ''10.0.0.1:80'', av_Others = (\<lambda>l. l)\<rparr>"

definition bump_text :: bytes where
  "bump_text = Marshal (JObj [(''module'', JStr ''a''), (''version'', JStr ''1''), (''upstream'', JStr ''http://x'')])"

abbreviation calm_run :: "response \<times> service_call list \<times> ingest_limiter option" where
  "calm_run \<equiv> apiBump calm_env write_flags (\<lambda>_. Inr JNull) bump_text (limiter_of_flags write_flags)"

lemma bump_read:
  "read_action calm_env bump_names bump_text new_response =
     (Some (empty_action\<lparr>ab_Module := ''a'', ab_Version := ''1'', ab_Upstream := ''http://x''\<rparr>), new_response)"
proof -
  let ?v = "JObj [(''module'', JStr ''a''), (''version'', JStr ''1''), (''upstream'', JStr ''http://x'')]"
  have v: "json_ok ?v" "length bump_text = 50" by code_simp+
  have "parse_value (Suc (length bump_text)) 0 (bump_text @ []) = Some (?v, [])"
    unfolding bump_text_def Marshal_def
    by (rule parse_render(1)) (use v in \<open>simp_all add: layout_ok_compact number_end_simps maxNestingDepth_def\<close>)
  moreover have "decode_strict bump_names set_action_field ?v empty_action =
      Some (empty_action\<lparr>ab_Module := ''a'', ab_Version := ''1'', ab_Upstream := ''http://x''\<rparr>)" "skip_ws [] = []"
    by code_simp+
  ultimately show ?thesis
    using v(2) by (simp add: read_action_def decodeJSONBody_def maxActionJSONBody_def empty_action_def calm_env_def)
qed

lemma calm_gate:
  "ingest_gate calm_env write_flags new_response (limiter_of_flags write_flags) =
     (True, new_response, snd (Acquire 0 0 False False ''10.0.0.1'' (limiter_of_flags write_flags)))"
proof -
  have ip: "RemoteIP [] ''10.0.0.1:80'' = ''10.0.0.1''" by code_simp
  have "fst (Acquire 0 0 False False ''10.0.0.1'' (limiter_of_flags write_flags)) = None"
    by (simp add: Acquire_def NewIngestLimiter_def limiter_of_flags_def write_flags_def bucketFor_def newBucket_def bucket_allow_def Let_def seconds_of_def)
  then show ?thesis by (cases "Acquire 0 0 False False ''10.0.0.1'' (limiter_of_flags write_flags)")
      (simp add: ingest_gate_def calm_env_def ip write_flags_def)
qed

lemma calm_bump: "fst (snd calm_run) = [BumpCall ''a'' ''1'' ''https://bcr.bazel.build'' ''rest'']"
proof -
  have "action_upstream write_flags u = ''https://bcr.bazel.build''" for u by (simp add: action_upstream_def write_flags_def)
  then show ?thesis by (simp add: apiBump_def with_slot_def calm_gate bump_act_def bump_read empty_action_def sourceTag_def Let_def)
qed

lemma calm_run_listed:
  "(fst calm_run, fst (snd calm_run), snd (snd calm_run)) \<in>
     set (endpoint_runs calm_env write_flags (\<lambda>_. Inr JNull) bump_text (''a'', ''1'') (limiter_of_flags write_flags))"
  by (simp add: endpoint_runs_def)



end
