(* ===== verification/EventBus.thy ===== *)
theory EventBus
  imports Prelude "HOL-Library.Word" "HOL-Library.Sublist"
begin

text \<open>
  The event bus (src/internal/eventbus/bus.go): every subscriber has a bounded channel; publishing
  takes a snapshot of the subscribers under the lock and sends to each of them without it. Each
  critical section, each send and each receive is one step; any number of goroutines publish.
\<close>

section \<open>State and operations\<close>

record 'a bus_event =
  bv_Kind :: string
  bv_Data :: 'a

text \<open>A channel keeps what is buffered after it was closed; a send on it then panics.\<close>

record 'a subscriber =
  sr_Buffer :: "'a bus_event list"
  sr_Capacity :: int
  sr_Closed :: bool
  sr_Dropped :: "64 word"

text \<open>The subscribers in the map, None for the nil map, and all channels that exist.\<close>

record 'a event_bus =
  eb_Subs :: "nat list option"
  eb_Closed :: bool
  eb_Channels :: "'a subscriber list"

definition NewBus :: "'a event_bus" where
  "NewBus = \<lparr>eb_Subs = Some [], eb_Closed = False, eb_Channels = []\<rparr>"

text \<open>The first half of Publish: the snapshot, in the order of the map, or nothing to do.\<close>

definition publish_targets :: "nat list \<Rightarrow> 'a event_bus \<Rightarrow> bool" where
  "publish_targets targets b \<longleftrightarrow>
     (if eb_Closed b then targets = [] else (case eb_Subs b of Some subs \<Rightarrow> mset targets = mset subs | None \<Rightarrow> targets = []))"

text \<open>One send of the second half; None is a panic.\<close>

definition send_to :: "'a bus_event \<Rightarrow> 'a subscriber \<Rightarrow> 'a subscriber option" where
  "send_to e s =
     (if sr_Closed s then None
      else if int (length (sr_Buffer s)) < sr_Capacity s then Some (s\<lparr>sr_Buffer := sr_Buffer s @ [e]\<rparr>)
      else Some (s\<lparr>sr_Dropped := sr_Dropped s + 1\<rparr>))"

definition publish_send :: "'a bus_event \<Rightarrow> nat \<Rightarrow> 'a event_bus \<Rightarrow> 'a event_bus option" where
  "publish_send e i b = map_option (\<lambda>s. b\<lparr>eb_Channels := (eb_Channels b)[i := s]\<rparr>) (send_to e (eb_Channels b ! i))"

text \<open>The channel is the index of the new subscriber; an insertion into the nil map panics.\<close>

definition Subscribe :: "int \<Rightarrow> 'a event_bus \<Rightarrow> (nat \<times> 'a event_bus) option" where
  "Subscribe bufferSize b =
     (let bufferSize = (if bufferSize \<le> 0 then 64 else bufferSize);
          s = \<lparr>sr_Buffer = [], sr_Capacity = bufferSize, sr_Closed = False, sr_Dropped = 0\<rparr>;
          i = length (eb_Channels b)
      in case eb_Subs b of
           None \<Rightarrow> None
         | Some subs \<Rightarrow> Some (i, b\<lparr>eb_Subs := Some (subs @ [i]), eb_Channels := eb_Channels b @ [s]\<rparr>))"

definition close_channel :: "nat \<Rightarrow> 'a subscriber list \<Rightarrow> 'a subscriber list" where
  "close_channel i cs = cs[i := (cs ! i)\<lparr>sr_Closed := True\<rparr>]"

definition unsubscribe :: "nat \<Rightarrow> 'a event_bus \<Rightarrow> 'a event_bus" where
  "unsubscribe i b =
     (case eb_Subs b of
        None \<Rightarrow> b
      | Some subs \<Rightarrow>
        (if i \<in> set subs then b\<lparr>eb_Subs := Some (remove1 i subs), eb_Channels := close_channel i (eb_Channels b)\<rparr> else b))"

definition CloseBus :: "'a event_bus \<Rightarrow> 'a event_bus" where
  "CloseBus b =
     (if eb_Closed b then b
      else b\<lparr>eb_Closed := True, eb_Channels := fold close_channel (case eb_Subs b of Some subs \<Rightarrow> subs | None \<Rightarrow> []) (eb_Channels b),
             eb_Subs := None\<rparr>)"

text \<open>A receive that finds an event.\<close>

definition receive_from :: "nat \<Rightarrow> 'a event_bus \<Rightarrow> ('a bus_event \<times> 'a event_bus) option" where
  "receive_from i b =
     (case sr_Buffer (eb_Channels b ! i) of
        [] \<Rightarrow> None
      | e # es \<Rightarrow> Some (e, b\<lparr>eb_Channels := (eb_Channels b)[i := (eb_Channels b ! i)\<lparr>sr_Buffer := es\<rparr>]\<rparr>))"

section \<open>Runs\<close>

text \<open>
  The publishers that are sending, each with its event and the targets left; the sends made so far
  and what was received, oldest first.
\<close>

record 'a bus_run =
  bn_Bus :: "'a event_bus"
  bn_Sending :: "nat \<Rightarrow> ('a bus_event \<times> nat list) option"
  bn_Sends :: "(nat \<times> 'a bus_event) list"
  bn_Received :: "(nat \<times> 'a bus_event) list"
  bn_Panicked :: bool

definition start_run :: "'a bus_run" where
  "start_run = \<lparr>bn_Bus = NewBus, bn_Sending = (\<lambda>_. None), bn_Sends = [], bn_Received = [], bn_Panicked = False\<rparr>"

inductive bus_step :: "'a bus_run \<Rightarrow> 'a bus_run \<Rightarrow> bool" where
  publish: "\<not> bn_Panicked r \<Longrightarrow> bn_Sending r p = None \<Longrightarrow> publish_targets targets (bn_Bus r) \<Longrightarrow>
    bus_step r (r\<lparr>bn_Sending := (bn_Sending r)(p \<mapsto> (e, targets))\<rparr>)"
| send: "\<not> bn_Panicked r \<Longrightarrow> bn_Sending r p = Some (e, i # rest) \<Longrightarrow> publish_send e i (bn_Bus r) = Some b \<Longrightarrow>
    bus_step r (r\<lparr>bn_Bus := b, bn_Sending := (bn_Sending r)(p \<mapsto> (e, rest)), bn_Sends := bn_Sends r @ [(i, e)]\<rparr>)"
| send_panics: "\<not> bn_Panicked r \<Longrightarrow> bn_Sending r p = Some (e, i # rest) \<Longrightarrow> publish_send e i (bn_Bus r) = None \<Longrightarrow>
    bus_step r (r\<lparr>bn_Panicked := True\<rparr>)"
| published: "\<not> bn_Panicked r \<Longrightarrow> bn_Sending r p = Some (e, []) \<Longrightarrow> bus_step r (r\<lparr>bn_Sending := (bn_Sending r)(p := None)\<rparr>)"
| subscribe: "\<not> bn_Panicked r \<Longrightarrow> Subscribe n (bn_Bus r) = Some (i, b) \<Longrightarrow> bus_step r (r\<lparr>bn_Bus := b\<rparr>)"
| subscribe_panics: "\<not> bn_Panicked r \<Longrightarrow> Subscribe n (bn_Bus r) = None \<Longrightarrow> bus_step r (r\<lparr>bn_Panicked := True\<rparr>)"
| unsubscribe: "\<not> bn_Panicked r \<Longrightarrow> bus_step r (r\<lparr>bn_Bus := unsubscribe i (bn_Bus r)\<rparr>)"
| close: "\<not> bn_Panicked r \<Longrightarrow> bus_step r (r\<lparr>bn_Bus := CloseBus (bn_Bus r)\<rparr>)"
| receive: "\<not> bn_Panicked r \<Longrightarrow> i < length (eb_Channels (bn_Bus r)) \<Longrightarrow> receive_from i (bn_Bus r) = Some (e, b) \<Longrightarrow>
    bus_step r (r\<lparr>bn_Bus := b, bn_Received := bn_Received r @ [(i, e)]\<rparr>)"

inductive_cases bus_stepE: "bus_step r r'"

text \<open>What a subscriber was offered, and what it took.\<close>

definition at_channel :: "nat \<Rightarrow> (nat \<times> 'a bus_event) list \<Rightarrow> 'a bus_event list" where
  "at_channel i evs = map snd (filter (\<lambda>x. fst x = i) evs)"

lemma at_channel_simps [simp]:
  "at_channel i [] = []" "at_channel i (evs @ evs') = at_channel i evs @ at_channel i evs'"
  "at_channel i [(j, e)] = (if i = j then [e] else [])"
  by (auto simp: at_channel_def)

section \<open>The invariant\<close>

text \<open>The channels that the map names are the open ones.\<close>

definition subs_ok :: "'a event_bus \<Rightarrow> bool" where
  "subs_ok b \<longleftrightarrow> distinct (case eb_Subs b of Some subs \<Rightarrow> subs | None \<Rightarrow> []) \<and> (eb_Closed b \<longleftrightarrow> eb_Subs b = None) \<and>
     (\<forall>i. i \<in> set (case eb_Subs b of Some subs \<Rightarrow> subs | None \<Rightarrow> []) \<longleftrightarrow> i < length (eb_Channels b) \<and> \<not> sr_Closed (eb_Channels b ! i))"

definition channel_ok :: "(nat \<times> 'a bus_event) list \<Rightarrow> (nat \<times> 'a bus_event) list \<Rightarrow> nat \<Rightarrow> 'a subscriber \<Rightarrow> bool" where
  "channel_ok sends received i s \<longleftrightarrow>
     0 < sr_Capacity s \<and> int (length (sr_Buffer s)) \<le> sr_Capacity s \<and>
     subseq (at_channel i received @ sr_Buffer s) (at_channel i sends) \<and>
     sr_Dropped s = of_nat (length (at_channel i sends) - length (at_channel i received @ sr_Buffer s))"

definition run_ok :: "'a bus_run \<Rightarrow> bool" where
  "run_ok r \<longleftrightarrow> subs_ok (bn_Bus r) \<and>
     (\<forall>i < length (eb_Channels (bn_Bus r)). channel_ok (bn_Sends r) (bn_Received r) i (eb_Channels (bn_Bus r) ! i)) \<and>
     (\<forall>p e targets. bn_Sending r p = Some (e, targets) \<longrightarrow> (\<forall>i \<in> set targets. i < length (eb_Channels (bn_Bus r)))) \<and>
     (\<forall>i e. (i, e) \<in> set (bn_Sends r) \<union> set (bn_Received r) \<longrightarrow> i < length (eb_Channels (bn_Bus r)))"

lemma length_close [simp]: "length (close_channel i cs) = length cs"
  by (simp add: close_channel_def)

lemma length_fold_close [simp]: "length (fold close_channel ks cs) = length cs"
  by (induction ks arbitrary: cs) simp_all

lemma close_nth: "j < length cs \<Longrightarrow> close_channel i cs ! j = (if j = i then (cs ! j)\<lparr>sr_Closed := True\<rparr> else cs ! j)"
  by (simp add: close_channel_def nth_list_update)

lemma fold_close_nth:
  "j < length cs \<Longrightarrow> fold close_channel ks cs ! j = (if j \<in> set ks then (cs ! j)\<lparr>sr_Closed := True\<rparr> else cs ! j)"
  by (induction ks arbitrary: cs) (auto simp: close_nth)

lemma channel_ok_closed [simp]: "channel_ok sends received i (s\<lparr>sr_Closed := c\<rparr>) = channel_ok sends received i s"
  by (simp add: channel_ok_def)

lemma channel_ok_other: "i \<noteq> j \<Longrightarrow> channel_ok (sends @ [(j, e)]) received i s = channel_ok sends received i s"
  "i \<noteq> j \<Longrightarrow> channel_ok sends (received @ [(j, e)]) i s = channel_ok sends received i s"
  by (simp_all add: channel_ok_def)

lemma send_to_ok:
  assumes "channel_ok sends received i s" and "send_to e s = Some s'"
  shows "channel_ok (sends @ [(i, e)]) received i s' \<and> sr_Closed s' = sr_Closed s"
proof -
  let ?took = "at_channel i received @ sr_Buffer s"
  have seq: "subseq ?took (at_channel i sends)" and d: "sr_Dropped s = of_nat (length (at_channel i sends) - length ?took)"
    using assms(1) by (simp_all add: channel_ok_def)
  note le = list_emb_length [OF seq]
  show ?thesis
  proof (cases "int (length (sr_Buffer s)) < sr_Capacity s")
    case True
    have "subseq (?took @ [e]) (at_channel i sends @ [e])" by (rule list_emb_append_mono [OF seq]) simp
    then have "subseq (at_channel i received @ sr_Buffer s @ [e]) (at_channel i sends @ [e])" by simp
    then show ?thesis using assms True le by (auto simp: channel_ok_def send_to_def split: if_splits)
  next
    case False
    have "subseq ?took (at_channel i sends @ [e])" by (rule list_emb_prefix [OF seq])
    moreover have "length (at_channel i sends @ [e]) - length ?took = Suc (length (at_channel i sends) - length ?took)"
      using le by simp
    ultimately show ?thesis using assms False d by (auto simp: channel_ok_def send_to_def split: if_splits)
  qed
qed

lemma closed_update: "sr_Closed s = sr_Closed (cs ! i) \<Longrightarrow> sr_Closed (cs[i := s] ! j) = sr_Closed (cs ! j)"
  by (cases "i = j"; cases "i < length cs") (simp_all add: list_update_beyond)

lemma subs_ok_update:
  "sr_Closed s = sr_Closed (eb_Channels b ! i) \<Longrightarrow> subs_ok (b\<lparr>eb_Channels := (eb_Channels b)[i := s]\<rparr>) = subs_ok b"
  by (simp add: subs_ok_def closed_update)

lemma snapshot_channels:
  assumes "publish_targets targets b" and "subs_ok b" and "i \<in> set targets"
  shows "i < length (eb_Channels b)"
proof (cases "eb_Subs b")
  case (Some subs)
  then have "set targets = set subs" using assms by (auto simp: publish_targets_def subs_ok_def dest: mset_eq_setD)
  then show ?thesis using assms(2,3) Some by (simp add: subs_ok_def)
qed (use assms in \<open>simp add: publish_targets_def split: if_splits\<close>)

lemma bus_step_ok:
  assumes "bus_step r r'" and "run_ok r"
  shows "run_ok r'"
  using assms(1)
proof cases
  case (publish p targets e)
  have "i < length (eb_Channels (bn_Bus r))" if "i \<in> set targets" for i
    using snapshot_channels [OF publish(4) _ that] assms(2) by (simp add: run_ok_def)
  then show ?thesis using assms(2) by (auto simp: publish(1) run_ok_def)
next
  case (send p e i rest b)
  have i: "i < length (eb_Channels (bn_Bus r))" using assms(2) send(3) by (auto simp: run_ok_def)
  obtain s where s: "send_to e (eb_Channels (bn_Bus r) ! i) = Some s" "b = (bn_Bus r)\<lparr>eb_Channels := (eb_Channels (bn_Bus r))[i := s]\<rparr>"
    using send(4) by (auto simp: publish_send_def)
  have c: "channel_ok (bn_Sends r @ [(i, e)]) (bn_Received r) i s" "sr_Closed s = sr_Closed (eb_Channels (bn_Bus r) ! i)"
    using send_to_ok [OF _ s(1)] assms(2) i by (auto simp: run_ok_def)
  then have "subs_ok b" using assms(2) by (simp add: s(2) run_ok_def subs_ok_update)
  then show ?thesis using assms(2) c i send(3) by (auto simp: send(1) s(2) run_ok_def nth_list_update channel_ok_other)
next
  case (subscribe n i b)
  obtain subs where subs: "eb_Subs (bn_Bus r) = Some subs" using subscribe(3) by (auto simp: Subscribe_def Let_def split: option.splits)
  have none: "at_channel (length (eb_Channels (bn_Bus r))) evs = []" if "\<forall>(i, e) \<in> set evs. i < length (eb_Channels (bn_Bus r))" for evs :: "(nat \<times> 'a bus_event) list"
    using that by (fastforce simp: at_channel_def filter_empty_conv)
  have "at_channel (length (eb_Channels (bn_Bus r))) (bn_Sends r) = []" "at_channel (length (eb_Channels (bn_Bus r))) (bn_Received r) = []"
    using assms(2) by (auto intro!: none simp: run_ok_def)
  then show ?thesis
    using assms(2) subscribe(3) by (auto simp: subscribe(1) Subscribe_def Let_def subs run_ok_def subs_ok_def channel_ok_def nth_append less_Suc_eq)
next
  case (unsubscribe i)
  then show ?thesis using assms(2)
    by (auto simp: unsubscribe_def run_ok_def subs_ok_def close_nth split: option.splits if_splits)
next
  case close
  then show ?thesis using assms(2)
    by (auto simp: CloseBus_def run_ok_def subs_ok_def fold_close_nth split: option.splits)
next
  case (receive i e b)
  then obtain es where es: "sr_Buffer (eb_Channels (bn_Bus r) ! i) = e # es"
    "b = (bn_Bus r)\<lparr>eb_Channels := (eb_Channels (bn_Bus r))[i := (eb_Channels (bn_Bus r) ! i)\<lparr>sr_Buffer := es\<rparr>]\<rparr>"
    by (auto simp: receive_from_def split: list.splits)
  have "channel_ok (bn_Sends r) (bn_Received r @ [(i, e)]) i ((eb_Channels (bn_Bus r) ! i)\<lparr>sr_Buffer := es\<rparr>)"
    using assms(2) receive(3) es(1) by (auto simp: run_ok_def channel_ok_def)
  moreover have "subs_ok b" using assms(2) by (simp add: es(2) run_ok_def subs_ok_update)
  ultimately show ?thesis using assms(2) receive(3) by (auto simp: receive(1) es(2) run_ok_def nth_list_update channel_ok_other)
qed (use assms(2) in \<open>auto simp: run_ok_def\<close>)

lemma bus_run_ok: "bus_step\<^sup>*\<^sup>* start_run r \<Longrightarrow> run_ok r"
proof (induction rule: rtranclp_induct)
  case base
  show ?case by (simp add: start_run_def NewBus_def run_ok_def subs_ok_def)
next
  case (step r r')
  then show ?case by (blast intro: bus_step_ok)
qed

section \<open>What a subscriber gets\<close>

text \<open>
  C29: in every run of any number of publishers, subscribers and closings, what a subscriber received
  and has buffered is what it was offered, in the order of the sends and none of it twice, less some
  events; the buffer never exceeds the capacity, and the drop counter is the number of events left
  out (modulo the width of the counter).
\<close>

theorem bus_accounting:
  assumes "bus_step\<^sup>*\<^sup>* start_run r" and "i < length (eb_Channels (bn_Bus r))"
  shows "subseq (at_channel i (bn_Received r) @ sr_Buffer (eb_Channels (bn_Bus r) ! i)) (at_channel i (bn_Sends r)) \<and>
    0 < sr_Capacity (eb_Channels (bn_Bus r) ! i) \<and>
    int (length (sr_Buffer (eb_Channels (bn_Bus r) ! i))) \<le> sr_Capacity (eb_Channels (bn_Bus r) ! i) \<and>
    sr_Dropped (eb_Channels (bn_Bus r) ! i) = of_nat (length (at_channel i (bn_Sends r)) -
      (length (at_channel i (bn_Received r)) + length (sr_Buffer (eb_Channels (bn_Bus r) ! i))))"
  using bus_run_ok [OF assms(1)] assms(2) by (simp add: run_ok_def channel_ok_def)

text \<open>
  C28: when a goroutine can panic: exactly when the bus is closed, since a subscription then writes
  to a nil map, or when a publisher still has to send to a subscriber of its snapshot that has
  unsubscribed since, since the send is then on a closed channel.
\<close>

theorem bus_panics_exactly:
  assumes "bus_step\<^sup>*\<^sup>* start_run r" and "\<not> bn_Panicked r"
  shows "(\<exists>r'. bus_step r r' \<and> bn_Panicked r') \<longleftrightarrow>
    eb_Closed (bn_Bus r) \<or>
    (\<exists>p e i rest subs. bn_Sending r p = Some (e, i # rest) \<and> eb_Subs (bn_Bus r) = Some subs \<and> i \<notin> set subs)"
    (is "?panics \<longleftrightarrow> ?closed \<or> ?gone")
proof
  have ok: "run_ok r" by (rule bus_run_ok [OF assms(1)])
  then have subs: "eb_Closed (bn_Bus r) \<longleftrightarrow> eb_Subs (bn_Bus r) = None" by (simp add: run_ok_def subs_ok_def)
  {
    assume ?panics
    then obtain r' where "bus_step r r'" "bn_Panicked r'" by blast
    then show "?closed \<or> ?gone"
    proof cases
      case (send_panics p e i rest)
      then have "sr_Closed (eb_Channels (bn_Bus r) ! i)" by (simp add: publish_send_def send_to_def split: if_splits)
      then have "i \<notin> set ks" if "eb_Subs (bn_Bus r) = Some ks" for ks using ok that by (auto simp: run_ok_def subs_ok_def)
      then show ?thesis using send_panics(3) subs by (cases "eb_Subs (bn_Bus r)") blast+
    next
      case subscribe_panics
      then show ?thesis using subs by (simp add: Subscribe_def Let_def split: option.splits)
    qed (use assms(2) in simp_all)
  }
  {
    assume "?closed \<or> ?gone"
    then show ?panics
    proof
      assume ?closed
      then have "Subscribe 0 (bn_Bus r) = None" using subs by (simp add: Subscribe_def Let_def)
      from bus_step.subscribe_panics [OF assms(2) this] show ?panics by force
    next
      assume ?gone
      then obtain p e i rest ks where g: "bn_Sending r p = Some (e, i # rest)" "eb_Subs (bn_Bus r) = Some ks" "i \<notin> set ks" by blast
      have "i < length (eb_Channels (bn_Bus r))" using ok g(1) by (auto simp: run_ok_def)
      then have "sr_Closed (eb_Channels (bn_Bus r) ! i)" using ok g(2,3) by (auto simp: run_ok_def subs_ok_def)
      then have "publish_send e i (bn_Bus r) = None" by (simp add: publish_send_def send_to_def)
      from bus_step.send_panics [OF assms(2) g(1) this] show ?panics by force
    qed
  }
qed

section \<open>A subscriber leaves during a publication\<close>

definition one_subscriber :: "nat event_bus" where
  "one_subscriber = snd (the (Subscribe 1 NewBus))"

definition indexed_event :: "nat \<Rightarrow> nat bus_event" where
  "indexed_event n = \<lparr>bv_Kind = ''module_indexed'', bv_Data = n\<rparr>"

definition snapshot_taken :: "nat bus_run" where
  "snapshot_taken = start_run\<lparr>bn_Bus := one_subscriber, bn_Sending := [0 \<mapsto> (indexed_event 7, [0])]\<rparr>"

lemma one_subscriber_bus:
  "one_subscriber = \<lparr>eb_Subs = Some [0], eb_Closed = False,
     eb_Channels = [\<lparr>sr_Buffer = [], sr_Capacity = 1, sr_Closed = False, sr_Dropped = 0\<rparr>]\<rparr>"
  "Subscribe 1 (NewBus :: nat event_bus) = Some (0, one_subscriber)"
  by (simp_all add: one_subscriber_def Subscribe_def NewBus_def)

lemma snapshot_reachable: "bus_step\<^sup>*\<^sup>* start_run snapshot_taken"
proof -
  have "bus_step start_run (start_run\<lparr>bn_Bus := one_subscriber\<rparr>)"
    by (rule bus_step.subscribe [of _ 1 0]) (simp_all add: start_run_def one_subscriber_bus(2))
  moreover have "bus_step (start_run\<lparr>bn_Bus := one_subscriber\<rparr>) snapshot_taken"
    using bus_step.publish [of "start_run\<lparr>bn_Bus := one_subscriber\<rparr>" 0 "[0]" "indexed_event 7"]
    by (simp add: snapshot_taken_def start_run_def publish_targets_def one_subscriber_bus(1))
  ultimately show ?thesis by (meson rtranclp.simps)
qed

lemma bus_accounting_witness:
  "\<exists>r. bus_step\<^sup>*\<^sup>* start_run r \<and> bn_Sends r = [(0, indexed_event 7)] \<and>
     subseq (at_channel 0 (bn_Received r) @ sr_Buffer (eb_Channels (bn_Bus r) ! 0)) [indexed_event 7]"
proof -
  have "\<exists>b. publish_send (indexed_event 7) 0 one_subscriber = Some b \<and> length (eb_Channels b) = 1"
    by (simp add: publish_send_def send_to_def one_subscriber_bus(1))
  then obtain b where b: "publish_send (indexed_event 7) 0 one_subscriber = Some b" "length (eb_Channels b) = 1" by blast
  let ?r = "snapshot_taken\<lparr>bn_Bus := b, bn_Sending := (bn_Sending snapshot_taken)(0 \<mapsto> (indexed_event 7, [])),
    bn_Sends := bn_Sends snapshot_taken @ [(0, indexed_event 7)]\<rparr>"
  have "bus_step snapshot_taken ?r"
    by (rule bus_step.send [where rest = "[]"]) (simp_all add: snapshot_taken_def start_run_def b(1))
  with snapshot_reachable have r: "bus_step\<^sup>*\<^sup>* start_run ?r" by (rule rtranclp.rtrancl_into_rtrancl)
  have s: "bn_Sends ?r = [(0, indexed_event 7)]" by (simp add: snapshot_taken_def start_run_def)
  show ?thesis using bus_accounting [OF r, of 0] r s b(2) by (intro exI [of _ ?r]) simp
qed

text \<open>The subscriber leaves between the snapshot and the send, as a client that disconnects does.\<close>

lemma bus_panics_exactly_witness:
  "\<exists>r r'. bus_step\<^sup>*\<^sup>* start_run r \<and> \<not> eb_Closed (bn_Bus r) \<and> bus_step r r' \<and> bn_Panicked (r' :: nat bus_run)"
proof -
  let ?r = "snapshot_taken\<lparr>bn_Bus := unsubscribe 0 (bn_Bus snapshot_taken)\<rparr>"
  have "bus_step snapshot_taken ?r" by (rule bus_step.unsubscribe) (simp add: snapshot_taken_def start_run_def)
  with snapshot_reachable have r: "bus_step\<^sup>*\<^sup>* start_run ?r" by (rule rtranclp.rtrancl_into_rtrancl)
  have gone: "bn_Sending ?r 0 = Some (indexed_event 7, [0])" "eb_Subs (bn_Bus ?r) = Some []" "\<not> bn_Panicked ?r" "\<not> eb_Closed (bn_Bus ?r)"
    by (simp_all add: snapshot_taken_def start_run_def one_subscriber_bus(1) unsubscribe_def)
  then have "\<exists>r'. bus_step ?r r' \<and> bn_Panicked r'"
    unfolding bus_panics_exactly [OF r gone(3)] using gone(1,2) by force
  then show ?thesis using r gone(4) by blast
qed

end
