(* ===== verification/Extract.thy ===== *)
theory Extract
  imports Paths Http
begin

text \<open>
  Extraction of source archives (src/internal/archive/targz.go, zip.go). The tar, gzip and zip
  readers are parameters: what they hand out is a list of entries and the error after them. The
  file system answers each call by an error or not, and every directory made and file written is
  recorded in order.
\<close>

section \<open>Effects\<close>

datatype extract_effect = MadeDir string | Wrote string bytes int

datatype extract_error =
    MkdirDest string
  | AbsFailed string
  | GzipFailed string
  | TarHeader string
  | ZipBuffer string
  | ZipOpen string
  | AbsoluteEntry string
  | ParentSegment string
  | EscapesDest string
  | MkdirFailed string string
  | EntryOpen string string
  | OpenFileFailed string string
  | WriteFailed string string
  | BudgetExhausted string
  | ExtractTooLarge string

text \<open>The answers may depend on what was done before; \<open>xo_Write\<close> is a write that fails after some bytes.\<close>

record extract_io =
  xo_Abs :: "string \<Rightarrow> string + string"
  xo_MkdirAll :: "extract_effect list \<Rightarrow> string \<Rightarrow> string option"
  xo_Open :: "extract_effect list \<Rightarrow> string \<Rightarrow> string option"
  xo_Write :: "extract_effect list \<Rightarrow> string \<Rightarrow> (nat \<times> string) option"

definition MaxExtractBytes :: int where
  "MaxExtractBytes = 500 * 1024 * 1024"

text \<open>path/filepath.Dir: the cleaned text up to the last separator.\<close>

definition path_Dir :: "string \<Rightarrow> string" where
  "path_Dir p = Clean (rev (dropWhile (\<lambda>c. c \<noteq> slash) (rev p)))"

section \<open>One entry\<close>

text \<open>A body is the bytes that a reader gives and the error after them.\<close>

type_synonym entry_body = "bytes \<times> string option"

definition limit_body :: "nat \<Rightarrow> entry_body \<Rightarrow> entry_body" where
  "limit_body k b = (if length (fst b) < k then b else (take k (fst b), None))"

definition writeFile ::
  "extract_io \<Rightarrow> string \<Rightarrow> entry_body \<Rightarrow> int \<Rightarrow> extract_effect list \<Rightarrow> (nat \<times> extract_error option) \<times> extract_effect list" where
  "writeFile io outPath b mode effs =
     (case xo_Open io effs outPath of
        Some err \<Rightarrow> ((0, Some (OpenFileFailed outPath err)), effs)
      | None \<Rightarrow>
        (case xo_Write io effs outPath of
           Some (n, err) \<Rightarrow>
             (if n < length (fst b) then ((n, Some (WriteFailed outPath err)), effs @ [Wrote outPath (take n (fst b)) mode])
              else ((length (fst b), map_option (WriteFailed outPath) (snd b)), effs @ [Wrote outPath (fst b) mode]))
         | None \<Rightarrow> ((length (fst b), map_option (WriteFailed outPath) (snd b)), effs @ [Wrote outPath (fst b) mode])))"

text \<open>strings.TrimSuffix\<close>

definition trim_suffix :: "string \<Rightarrow> string \<Rightarrow> string" where
  "trim_suffix s p = (if has_suffix s p then take (length s - length p) s else s)"

definition stripped :: "string \<Rightarrow> string \<Rightarrow> string" where
  "stripped name pre =
     (if pre = [] then name
      else (let pre = trim_suffix pre ''/''
        in if name = pre \<or> name = pre @ ''/'' then []
           else if has_prefix name (pre @ ''/'') then trim_prefix name (pre @ ''/'')
           else name))"

definition modeOf :: "int \<Rightarrow> int" where
  "modeOf mode = (let m = mode mod 512 in if m = 0 then 420 else m)"

text \<open>The path of an entry: None where there is nothing to do, an error where it is refused.\<close>

definition entry_path :: "string \<Rightarrow> string \<Rightarrow> string \<Rightarrow> extract_error + string option" where
  "entry_path destAbs stripPrefix entry =
     (let name = stripped entry stripPrefix
      in if name = [] then Inr None
         else if has_prefix name ''/'' then Inl (AbsoluteEntry entry)
         else if ''..'' \<in> set (split_byte name slash) then Inl (ParentSegment entry)
         else (let outPath = path_Join [destAbs, name]
           in if \<not> has_prefix outPath (destAbs @ ''/'') \<and> outPath \<noteq> destAbs then Inl (EscapesDest entry)
              else Inr (Some outPath)))"

text \<open>A regular file; opening the entry can fail for zip only.\<close>

definition extract_file ::
  "extract_io \<Rightarrow> string \<Rightarrow> string \<Rightarrow> string + entry_body \<Rightarrow> int \<Rightarrow> int \<Rightarrow> int \<Rightarrow> extract_effect list \<Rightarrow>
   (int \<times> extract_error option) \<times> extract_effect list" where
  "extract_file io outPath entry opened mode maxBytes done_bytes effs =
     (case xo_MkdirAll io effs (path_Dir outPath) of
        Some err \<Rightarrow> ((done_bytes, Some (MkdirFailed outPath err)), effs)
      | None \<Rightarrow>
        (let effs = effs @ [MadeDir (path_Dir outPath)]
         in case opened of
              Inl err \<Rightarrow> ((done_bytes, Some (EntryOpen entry err)), effs)
            | Inr b \<Rightarrow>
              (let remaining = maxBytes - done_bytes; capped = (maxBytes > 0)
               in if capped \<and> remaining \<le> 0 then ((done_bytes, Some (BudgetExhausted entry)), effs)
                  else (case writeFile io outPath (if capped then limit_body (nat (remaining + 1)) b else b) (modeOf mode) effs of
                      ((n, err), effs) \<Rightarrow>
                        (let done_bytes = done_bytes + int n
                         in case err of
                              Some e \<Rightarrow> ((done_bytes, Some e), effs)
                            | None \<Rightarrow> if capped \<and> done_bytes > maxBytes then ((done_bytes, Some (ExtractTooLarge entry)), effs)
                                else ((done_bytes, None), effs))))))"

section \<open>tar\<close>

datatype tar_kind = TypeDir | TypeReg | TypeSymlink | TypeLink | TypeOther

record tar_entry =
  te_Name :: string
  te_Kind :: tar_kind
  te_Mode :: int
  te_Body :: entry_body

text \<open>The entries that Next gives, and its error after them, None for io.EOF.\<close>

fun tar_loop ::
  "extract_io \<Rightarrow> string \<Rightarrow> string \<Rightarrow> int \<Rightarrow> string option \<Rightarrow> tar_entry list \<Rightarrow> int \<Rightarrow> extract_effect list \<Rightarrow>
   (int \<times> extract_error option) \<times> extract_effect list" where
  "tar_loop io destAbs stripPrefix maxBytes nextErr [] done_bytes effs = ((done_bytes, map_option TarHeader nextErr), effs)"
| "tar_loop io destAbs stripPrefix maxBytes nextErr (e # es) done_bytes effs =
     (case entry_path destAbs stripPrefix (te_Name e) of
        Inl err \<Rightarrow> ((done_bytes, Some err), effs)
      | Inr None \<Rightarrow> tar_loop io destAbs stripPrefix maxBytes nextErr es done_bytes effs
      | Inr (Some outPath) \<Rightarrow>
        (case te_Kind e of
           TypeDir \<Rightarrow>
             (case xo_MkdirAll io effs outPath of
                Some err \<Rightarrow> ((done_bytes, Some (MkdirFailed outPath err)), effs)
              | None \<Rightarrow> tar_loop io destAbs stripPrefix maxBytes nextErr es done_bytes (effs @ [MadeDir outPath]))
         | TypeReg \<Rightarrow>
             (case extract_file io outPath (te_Name e) (Inr (te_Body e)) (te_Mode e) maxBytes done_bytes effs of
                ((done_bytes, Some err), effs) \<Rightarrow> ((done_bytes, Some err), effs)
              | ((done_bytes, None), effs) \<Rightarrow> tar_loop io destAbs stripPrefix maxBytes nextErr es done_bytes effs)
         | _ \<Rightarrow> tar_loop io destAbs stripPrefix maxBytes nextErr es done_bytes effs))"

definition extractTar ::
  "extract_io \<Rightarrow> string \<Rightarrow> string \<Rightarrow> int \<Rightarrow> tar_entry list \<times> string option \<Rightarrow> (int \<times> extract_error option) \<times> extract_effect list" where
  "extractTar io destDir stripPrefix maxBytes stream =
     (case xo_MkdirAll io [] destDir of
        Some err \<Rightarrow> ((0, Some (MkdirDest err)), [])
      | None \<Rightarrow>
        (case xo_Abs io destDir of
           Inl err \<Rightarrow> ((0, Some (AbsFailed err)), [MadeDir destDir])
         | Inr destAbs \<Rightarrow> tar_loop io destAbs stripPrefix maxBytes (snd stream) (fst stream) 0 [MadeDir destDir]))"

definition ExtractTarGz ::
  "extract_io \<Rightarrow> string + (tar_entry list \<times> string option) \<Rightarrow> string \<Rightarrow> string \<Rightarrow> int \<Rightarrow>
   (int \<times> extract_error option) \<times> extract_effect list" where
  "ExtractTarGz io gz destDir stripPrefix maxBytes =
     (case gz of
        Inl err \<Rightarrow> ((0, Some (GzipFailed err)), [])
      | Inr stream \<Rightarrow> extractTar io destDir stripPrefix maxBytes stream)"

section \<open>zip\<close>

record zip_entry =
  ze_Name :: string
  ze_IsDir :: bool
  ze_IsSymlink :: bool
  ze_Mode :: int
  ze_Open :: "string + entry_body"

fun zip_loop ::
  "extract_io \<Rightarrow> string \<Rightarrow> string \<Rightarrow> int \<Rightarrow> zip_entry list \<Rightarrow> int \<Rightarrow> extract_effect list \<Rightarrow>
   (int \<times> extract_error option) \<times> extract_effect list" where
  "zip_loop io destAbs stripPrefix maxBytes [] done_bytes effs = ((done_bytes, None), effs)"
| "zip_loop io destAbs stripPrefix maxBytes (e # es) done_bytes effs =
     (case entry_path destAbs stripPrefix (ze_Name e) of
        Inl err \<Rightarrow> ((done_bytes, Some err), effs)
      | Inr None \<Rightarrow> zip_loop io destAbs stripPrefix maxBytes es done_bytes effs
      | Inr (Some outPath) \<Rightarrow>
        (if ze_IsDir e \<or> has_suffix (ze_Name e) ''/''
         then (case xo_MkdirAll io effs outPath of
             Some err \<Rightarrow> ((done_bytes, Some (MkdirFailed outPath err)), effs)
           | None \<Rightarrow> zip_loop io destAbs stripPrefix maxBytes es done_bytes (effs @ [MadeDir outPath]))
         else if ze_IsSymlink e then zip_loop io destAbs stripPrefix maxBytes es done_bytes effs
         else (case extract_file io outPath (ze_Name e) (ze_Open e) (ze_Mode e) maxBytes done_bytes effs of
             ((done_bytes, Some err), effs) \<Rightarrow> ((done_bytes, Some err), effs)
           | ((done_bytes, None), effs) \<Rightarrow> zip_loop io destAbs stripPrefix maxBytes es done_bytes effs)))"

definition ExtractZip ::
  "extract_io \<Rightarrow> (bytes \<Rightarrow> string + zip_entry list) \<Rightarrow> entry_body \<Rightarrow> string \<Rightarrow> string \<Rightarrow> int \<Rightarrow>
   (int \<times> extract_error option) \<times> extract_effect list" where
  "ExtractZip io open_zip r destDir stripPrefix maxBytes =
     (let r = (if maxBytes > 0 then limit_body (nat (maxBytes + 1)) r else r)
      in case snd r of
           Some err \<Rightarrow> ((0, Some (ZipBuffer err)), [])
         | None \<Rightarrow>
           (if maxBytes > 0 \<and> int (length (fst r)) > maxBytes then ((0, Some (ExtractTooLarge ''compressed zip'')), [])
            else (case open_zip (fst r) of
                Inl err \<Rightarrow> ((0, Some (ZipOpen err)), [])
              | Inr es \<Rightarrow>
                (case xo_MkdirAll io [] destDir of
                   Some err \<Rightarrow> ((0, Some (MkdirDest err)), [])
                 | None \<Rightarrow>
                   (case xo_Abs io destDir of
                      Inl err \<Rightarrow> ((0, Some (AbsFailed err)), [MadeDir destDir])
                    | Inr destAbs \<Rightarrow> zip_loop io destAbs stripPrefix maxBytes es 0 [MadeDir destDir])))))"

section \<open>Where an entry goes\<close>

lemma fold_clean_descends:
  assumes "\<forall>e \<in> set es. segment e \<and> e \<noteq> ''..''"
  shows "\<exists>ps. (\<forall>p \<in> set ps. plain_elem p) \<and> fold (clean_step True) es out = rev ps @ out"
  using assms
proof (induction es arbitrary: out)
  case (Cons e es)
  show ?case
  proof (cases "e = [] \<or> e = ''.''")
    case True
    then show ?thesis using Cons by (simp add: clean_step_def)
  next
    case False
    then have e: "plain_elem e" using Cons.prems by (simp add: plain_elem_def segment_def)
    obtain ps where "\<forall>p \<in> set ps. plain_elem p" "fold (clean_step True) es (e # out) = rev ps @ e # out"
      using Cons.IH [of "e # out"] Cons.prems by (metis list.set_intros(2))
    then show ?thesis using e clean_step_plain [OF e] by (intro exI [of _ "e # ps"]) simp
  qed
qed simp

lemma entry_path_inside:
  assumes "entry_path dest stripPrefix entry = Inr (Some p)" and "clean_root dest"
  shows "inside dest p"
proof -
  let ?name = "stripped entry stripPrefix"
  have n: "?name \<noteq> []" "''..'' \<notin> set (split_byte ?name slash)" "p = path_Join [dest, ?name]"
    using assms(1) by (auto simp: entry_path_def Let_def split: if_splits)
  obtain es where es: "es \<noteq> []" "\<forall>e \<in> set es. plain_elem e" "dest = slash # join_with slash es" using assms(2) by (auto simp: clean_root_def)
  obtain ps where ps: "\<forall>q \<in> set ps. plain_elem q" "fold (clean_step True) (split_byte ?name slash) (rev es) = rev ps @ rev es"
    using fold_clean_descends [of "split_byte ?name slash" "rev es"] n(2) split_segment by metis
  have p: "p = slash # join_with slash (es @ ps)" using Join_root [OF es(2,1) n(1)] n(3) es(3) ps(2) by simp
  show ?thesis
  proof (cases "ps = []")
    case False
    then show ?thesis using p es ps(1) by (auto simp: inside_def join_with_append)
  qed (use p es(3) in \<open>simp add: inside_def\<close>)
qed

lemma plain_last_sep:
  assumes "plain_elem e"
  shows "rev (dropWhile (\<lambda>c. c \<noteq> slash) (rev (s @ slash # e))) = s @ [slash]"
proof -
  have "\<forall>c \<in> set (rev e). c \<noteq> slash" using assms by (auto simp: plain_elem_def)
  then have "dropWhile (\<lambda>c. c \<noteq> slash) (rev e @ slash # rev s) = dropWhile (\<lambda>c. c \<noteq> slash) (slash # rev s)"
    by (intro dropWhile_append2) blast
  then show ?thesis by simp
qed

lemma Clean_rooted:
  assumes "\<forall>e \<in> set es. plain_elem e" and "es \<noteq> []"
  shows "Clean (slash # join_with slash es @ [slash]) = slash # join_with slash es"
proof -
  have "split_byte (slash # join_with slash es @ [slash]) slash = [] # es @ [[]]"
    using split_append_sep [of "[]" slash] split_append_sep [of "join_with slash es" slash "[]"] split_segments [of es] assms plain_segment
    by simp
  then show ?thesis using fold_clean_plain [OF assms(1), of True "[]"] by (simp add: Clean_def Let_def clean_step_def [of _ "[]"])
qed

lemma Dir_inside:
  assumes "clean_root dest" and "inside dest p"
  shows "inside dest (path_Dir p) \<or> path_Dir p = path_Dir dest"
proof (cases "p = dest")
  case False
  obtain es where es: "es \<noteq> []" "\<forall>e \<in> set es. plain_elem e" "dest = slash # join_with slash es" using assms(1) by (auto simp: clean_root_def)
  obtain fs where fs: "fs \<noteq> []" "\<forall>e \<in> set fs. plain_elem e" "p = dest @ slash # join_with slash fs"
    using assms(2) False by (auto simp: inside_def)
  obtain gs f where g: "fs = gs @ [f]" using fs(1) by (cases fs rule: rev_cases) auto
  have "p = slash # join_with slash (es @ gs) @ slash # f"
    using es fs(3) g by (cases "gs = []") (simp_all add: join_with_append)
  then have "path_Dir p = Clean (slash # join_with slash (es @ gs) @ [slash])"
    using plain_last_sep [of f "slash # join_with slash (es @ gs)"] fs(2) g by (simp add: path_Dir_def)
  also have "\<dots> = slash # join_with slash (es @ gs)" by (rule Clean_rooted) (use es fs(2) g in auto)
  finally have "path_Dir p = slash # join_with slash (es @ gs)" .
  then show ?thesis using es fs(2) g by (cases "gs = []") (auto simp: inside_def join_with_append)
qed simp

section \<open>Confinement and the budget\<close>

definition confined :: "string \<Rightarrow> string \<Rightarrow> extract_effect \<Rightarrow> bool" where
  "confined destDir dest x = (case x of MadeDir p \<Rightarrow> inside dest p \<or> p \<in> {destDir, path_Dir dest} | Wrote p b m \<Rightarrow> inside dest p)"

definition written :: "extract_effect list \<Rightarrow> int" where
  "written effs = sum_list (map (\<lambda>x. case x of MadeDir p \<Rightarrow> 0 | Wrote p b m \<Rightarrow> int (length b)) effs)"

lemma written_simps [simp]: "written [] = 0" "written (xs @ ys) = written xs + written ys"
  "written (MadeDir p # xs) = written xs" "written (Wrote p b m # xs) = int (length b) + written xs"
  by (simp_all add: written_def)

text \<open>What an extraction promises of the effects so far and the bytes counted.\<close>

definition extract_ok :: "string \<Rightarrow> string \<Rightarrow> int \<Rightarrow> (int \<times> extract_error option) \<times> extract_effect list \<Rightarrow> bool" where
  "extract_ok destDir dest maxBytes r \<longleftrightarrow>
     (case r of ((done_bytes, err), effs) \<Rightarrow>
        list_all (confined destDir dest) effs \<and> done_bytes = written effs \<and> 0 \<le> done_bytes \<and>
        (maxBytes > 0 \<longrightarrow> done_bytes \<le> maxBytes + 1 \<and> (err = None \<longrightarrow> done_bytes \<le> maxBytes)))"

lemma writeFile_result:
  assumes "writeFile io p b mode effs = ((n, err), effs')"
  shows "\<exists>c. n \<le> length (fst b) \<and> (effs' = effs @ [Wrote p c mode] \<and> length c = n \<or> effs' = effs \<and> n = 0 \<and> err \<noteq> None)"
  using assms by (auto simp: writeFile_def split: option.splits if_splits)

lemma limit_body_length: "length (fst (limit_body k b)) \<le> k"
  by (simp add: limit_body_def)

lemma extract_file_ok:
  assumes "extract_ok destDir dest maxBytes ((done_bytes, None), effs)" and "clean_root dest" and "inside dest p"
  shows "extract_ok destDir dest maxBytes (extract_file io p entry opened mode maxBytes done_bytes effs)"
proof (cases "xo_MkdirAll io effs (path_Dir p)")
  case None
  let ?effs = "effs @ [MadeDir (path_Dir p)]"
  have dir: "list_all (confined destDir dest) ?effs" using assms Dir_inside [OF assms(2,3)] by (auto simp: extract_ok_def confined_def)
  show ?thesis
  proof (cases opened)
    case (Inr b)
    let ?b = "if maxBytes > 0 then limit_body (nat (maxBytes - done_bytes + 1)) b else b"
    show ?thesis
    proof (cases "maxBytes > 0 \<and> maxBytes - done_bytes \<le> 0")
      case True
      then show ?thesis using None Inr dir assms(1) by (simp add: extract_file_def extract_ok_def)
    next
      case False
      obtain n err effs' where w: "writeFile io p ?b (modeOf mode) ?effs = ((n, err), effs')" by (metis prod.exhaust)
      obtain c where c: "n \<le> length (fst ?b)" "effs' = ?effs @ [Wrote p c (modeOf mode)] \<and> length c = n \<or> effs' = ?effs \<and> n = 0 \<and> err \<noteq> None"
        using writeFile_result [OF w] by blast
      have small: "maxBytes > 0 \<longrightarrow> done_bytes + int n \<le> maxBytes + 1"
      proof
        assume m: "maxBytes > 0"
        then have "n \<le> nat (maxBytes - done_bytes + 1)" using c(1) limit_body_length [of "nat (maxBytes - done_bytes + 1)" b] by auto
        then show "done_bytes + int n \<le> maxBytes + 1" using False m by linarith
      qed
      have eff: "list_all (confined destDir dest) effs' \<and> written effs' = done_bytes + int n"
        using c(2) dir assms(1,3) by (auto simp: extract_ok_def confined_def)
      have "extract_file io p entry opened mode maxBytes done_bytes effs =
          (if err \<noteq> None then ((done_bytes + int n, err), effs')
           else if maxBytes > 0 \<and> done_bytes + int n > maxBytes then ((done_bytes + int n, Some (ExtractTooLarge entry)), effs')
           else ((done_bytes + int n, None), effs'))"
        using None Inr False w by (auto simp: extract_file_def Let_def split: option.splits)
      then show ?thesis using eff small assms(1) by (auto simp: extract_ok_def)
    qed
  qed (use None dir assms(1) in \<open>auto simp: extract_file_def extract_ok_def\<close>)
qed (use assms(1) in \<open>auto simp: extract_file_def extract_ok_def\<close>)

lemma extract_ok_error: "extract_ok destDir dest maxBytes ((done_bytes, None), effs) \<Longrightarrow> extract_ok destDir dest maxBytes ((done_bytes, err), effs)"
  by (auto simp: extract_ok_def)

lemma extract_ok_dir:
  "extract_ok destDir dest maxBytes ((done_bytes, None), effs) \<Longrightarrow> inside dest p \<Longrightarrow> extract_ok destDir dest maxBytes ((done_bytes, None), effs @ [MadeDir p])"
  by (auto simp: extract_ok_def confined_def)

lemma tar_loop_ok:
  assumes "extract_ok destDir dest maxBytes ((done_bytes, None), effs)" and "clean_root dest"
  shows "extract_ok destDir dest maxBytes (tar_loop io dest stripPrefix maxBytes nextErr es done_bytes effs)"
  using assms(1)
proof (induction es arbitrary: done_bytes effs)
  case (Cons e es)
  show ?case
  proof (cases "\<exists>p. entry_path dest stripPrefix (te_Name e) = Inr (Some p)")
    case True
    then obtain p where p: "entry_path dest stripPrefix (te_Name e) = Inr (Some p)" by blast
    note i = entry_path_inside [OF p assms(2)]
    obtain n err effs' where x: "extract_file io p (te_Name e) (Inr (te_Body e)) (te_Mode e) maxBytes done_bytes effs = ((n, err), effs')"
      by (metis prod.exhaust)
    have ok: "extract_ok destDir dest maxBytes ((n, err), effs')" using extract_file_ok [OF Cons.prems assms(2) i] x by metis
    show ?thesis
    proof (cases "te_Kind e")
      case TypeDir
      then show ?thesis
        using p Cons.prems Cons.IH [OF extract_ok_dir [OF Cons.prems i]] extract_ok_error by (auto split: option.splits)
    next
      case TypeReg
      then show ?thesis using p x ok Cons.IH by (cases err) auto
    qed (use p Cons in simp_all)
  qed (use Cons extract_ok_error in \<open>auto split: sum.splits option.splits\<close>)
qed (use extract_ok_error in auto)

lemma zip_loop_ok:
  assumes "extract_ok destDir dest maxBytes ((done_bytes, None), effs)" and "clean_root dest"
  shows "extract_ok destDir dest maxBytes (zip_loop io dest stripPrefix maxBytes es done_bytes effs)"
  using assms(1)
proof (induction es arbitrary: done_bytes effs)
  case (Cons e es)
  show ?case
  proof (cases "\<exists>p. entry_path dest stripPrefix (ze_Name e) = Inr (Some p)")
    case True
    then obtain p where p: "entry_path dest stripPrefix (ze_Name e) = Inr (Some p)" by blast
    note i = entry_path_inside [OF p assms(2)]
    obtain n err effs' where x: "extract_file io p (ze_Name e) (ze_Open e) (ze_Mode e) maxBytes done_bytes effs = ((n, err), effs')"
      by (metis prod.exhaust)
    have ok: "extract_ok destDir dest maxBytes ((n, err), effs')" using extract_file_ok [OF Cons.prems assms(2) i] x by metis
    show ?thesis
      using p x ok Cons.prems Cons.IH Cons.IH [OF extract_ok_dir [OF Cons.prems i]] extract_ok_error by (cases err) (auto split: option.splits)
  qed (use Cons extract_ok_error in \<open>auto split: sum.splits option.splits\<close>)
qed simp

lemma extract_start:
  "extract_ok destDir dest maxBytes ((0, None), [])" "extract_ok destDir dest maxBytes ((0, None), [MadeDir destDir])"
  by (simp_all add: extract_ok_def confined_def)

lemma extract_none: "extract_ok destDir dest maxBytes ((0, err), [])" "extract_ok destDir dest maxBytes ((0, err), [MadeDir destDir])"
  by (rule extract_ok_error [OF extract_start(1)], rule extract_ok_error [OF extract_start(2)])

lemma extract_tar_ok:
  assumes "xo_Abs io destDir = Inr dest" and "clean_root dest"
  shows "extract_ok destDir dest maxBytes (ExtractTarGz io gz destDir stripPrefix maxBytes)"
  using tar_loop_ok [OF extract_start(2) assms(2)] extract_none assms(1)
  by (auto simp: ExtractTarGz_def extractTar_def split: sum.splits option.splits)

lemma extract_zip_ok:
  assumes "xo_Abs io destDir = Inr dest" and "clean_root dest"
  shows "extract_ok destDir dest maxBytes (ExtractZip io open_zip raw destDir stripPrefix maxBytes)"
  using zip_loop_ok [OF extract_start(2) assms(2)] extract_none assms(1)
  by (auto simp: ExtractZip_def Let_def split: sum.splits option.splits)

text \<open>
  C34: whatever an archive contains and however the file system fails, an extraction writes files
  only below the destination, never a link, and makes no directory elsewhere but the destination
  and its parent; it writes at most one byte above its budget, none above it when it succeeds, and
  it reports exactly the bytes it wrote.
\<close>

theorem extraction_confined:
  assumes "xo_Abs io destDir = Inr dest" and "clean_root dest"
    and "r \<in> {ExtractTarGz io gz destDir stripPrefix maxBytes, ExtractZip io open_zip raw destDir stripPrefix maxBytes}"
  shows "case r of ((n, err), effs) \<Rightarrow>
    (\<forall>x \<in> set effs. case x of MadeDir p \<Rightarrow> inside dest p \<or> p \<in> {destDir, path_Dir dest} | Wrote p b mode \<Rightarrow> inside dest p) \<and>
    n = written effs \<and> (maxBytes > 0 \<longrightarrow> n \<le> maxBytes + 1 \<and> (err = None \<longrightarrow> n \<le> maxBytes))"
proof -
  have "extract_ok destDir dest maxBytes r" using extract_tar_ok [OF assms(1,2)] extract_zip_ok [OF assms(1,2)] assms(3) by blast
  then show ?thesis by (auto simp: extract_ok_def confined_def list_all_iff split: prod.splits)
qed

definition calm_disk :: extract_io where
  "calm_disk = \<lparr>xo_Abs = Inr, xo_MkdirAll = (\<lambda>effs p. None), xo_Open = (\<lambda>effs p. None), xo_Write = (\<lambda>effs p. None)\<rparr>"

definition tiny_entry :: "string \<Rightarrow> tar_kind \<Rightarrow> tar_entry" where
  "tiny_entry name kind = \<lparr>te_Name = name, te_Kind = kind, te_Mode = 0, te_Body = (''abc'', None)\<rparr>"

lemma extraction_confined_witness:
  "ExtractTarGz calm_disk (Inr ([tiny_entry ''m/l'' TypeSymlink, tiny_entry ''m/a'' TypeReg, tiny_entry ''m/../a'' TypeReg], None)) ''/d'' ''m'' 10 =
     ((3, Some (ParentSegment ''m/../a'')), [MadeDir ''/d'', MadeDir ''/d'', Wrote ''/d/a'' ''abc'' 420]) \<and>
   (case ExtractTarGz calm_disk (Inr ([tiny_entry ''m/a'' TypeReg], None)) ''/d'' ''m'' 10 of ((n, err), effs) \<Rightarrow> n \<le> 11)"
  (is "?run \<and> ?bound")
proof
  show ?run by code_simp
  have r: "clean_root ''/d''" unfolding clean_root_def
    by (rule exI [of _ "[''d'']"]) (simp add: plain_elem_def)
  show ?bound
    using extraction_confined [of calm_disk "''/d''" "''/d''" "ExtractTarGz calm_disk (Inr ([tiny_entry ''m/a'' TypeReg], None)) ''/d'' ''m'' 10"
        "Inr ([tiny_entry ''m/a'' TypeReg], None)" "''m''" 10 undefined undefined] r
    by (auto simp: calm_disk_def split: prod.splits)
qed

end
