(* ===== verification/Resolve.thy ===== *)
theory Resolve
  imports Extract Registry
begin

text \<open>
  A module version fetched, checked and unpacked (src/internal/resolve/resolve.go). The archive
  passes through the integrity check and, where the caller asks for it, a second writer, as the
  extractor reads it; how much of it an extractor reads is a parameter, the zip extractor apart,
  which reads it all.
\<close>

section \<open>State\<close>

text \<open>
  \<open>rs_Gunzip\<close> is what the gzip and tar readers make of a stream, and \<open>rs_Pulled\<close> how many of its
  bytes they have read when the extraction ends with the given error. \<open>rs_Missing\<close> is os.Stat with
  the error fs.ErrNotExist.
\<close>

record resolve_io =
  rs_Client :: registry_client
  rs_MkdirTemp :: "string + string"
  rs_Disk :: extract_io
  rs_Gunzip :: "entry_body \<Rightarrow> string + (tar_entry list \<times> string option)"
  rs_Pulled :: "entry_body \<Rightarrow> extract_error option \<Rightarrow> nat"
  rs_OpenZip :: "bytes \<Rightarrow> string + zip_entry list"
  rs_Missing :: "extract_effect list \<Rightarrow> string \<Rightarrow> bool"
  rs_WriteFile :: "extract_effect list \<Rightarrow> string \<Rightarrow> string option"
  rs_SHA256 :: "bytes \<Rightarrow> bytes"

text \<open>The Tee writer, None for nil; it accepts all bytes or fails after some.\<close>

record resolve_options =
  ro_Tee :: "(nat \<times> string) option option"
  ro_CaptureBytes :: bool

record materialized =
  mt_Dir :: string
  mt_Source :: source_json
  mt_SourceBytes :: "bytes option"
  mt_ModuleBytes :: "bytes option"
  mt_Bytes :: int

datatype resolve_error =
    RegistryError fetch_error
  | ParseError fetch_error
  | NoSource
  | UnsupportedType string
  | MissingURL
  | UnsupportedArchive string
  | TempFailed string
  | FetchFailed fetch_error
  | ExtractFailed extract_error
  | IntegrityFailed verify_error
  | FallbackFetch fetch_error
  | FallbackWrite string

text \<open>
  What a run leaves: its result, the bytes the Tee writer was given, the effects on the disk in
  order, and the temporary directories made and removed again.
\<close>

record resolve_run =
  rr_Result :: "resolve_error + materialized"
  rr_Teed :: bytes
  rr_Effects :: "extract_effect list"
  rr_Made :: "string list"
  rr_Removed :: "string list"

definition nothing_done :: "resolve_error \<Rightarrow> resolve_run" where
  "nothing_done err = \<lparr>rr_Result = Inl err, rr_Teed = [], rr_Effects = [], rr_Made = [], rr_Removed = []\<rparr>"

section \<open>The kind of archive\<close>

datatype archiveKind = archiveKindTarGz | archiveKindZip

definition before_any :: "string \<Rightarrow> char set \<Rightarrow> string" where
  "before_any s cs = takeWhile (\<lambda>c. c \<notin> cs) s"

definition detectArchiveKind :: "string \<Rightarrow> string \<Rightarrow> resolve_error + archiveKind" where
  "detectArchiveKind declared url =
     (if to_lower declared \<in> {''tar.gz'', ''tgz''} then Inr archiveKindTarGz
      else if to_lower declared = ''zip'' then Inr archiveKindZip
      else if to_lower declared \<noteq> [] then Inl (UnsupportedArchive declared)
      else (let lower = before_any (to_lower url) {CHR ''?'', CHR ''#''}
        in if has_suffix lower ''.zip'' then Inr archiveKindZip
           else if has_suffix lower ''.tar.gz'' \<or> has_suffix lower ''.tgz'' then Inr archiveKindTarGz
           else Inr archiveKindTarGz))"

section \<open>From a source to a directory\<close>

text \<open>io.TeeReader: a write that fails ends the stream for the reader.\<close>

definition tee_body :: "(nat \<times> string) option option \<Rightarrow> entry_body \<Rightarrow> entry_body" where
  "tee_body tee b =
     (case tee of
        Some (Some (k, err)) \<Rightarrow> if k < length (fst b) then (take k (fst b), Some err) else b
      | _ \<Rightarrow> b)"

text \<open>The MODULE.bazel that the archive lacks: what there is of it then, and the file written.\<close>

definition module_file ::
  "resolve_io \<Rightarrow> string \<Rightarrow> extract_effect list \<Rightarrow> bytes option \<Rightarrow> (fetch_error + bytes) option \<Rightarrow>
   resolve_error + (bytes option \<times> extract_effect list)" where
  "module_file io dir effs modBytes modBytesFallback =
     (let modPath = path_Join [dir, ''MODULE.bazel'']
      in if \<not> rs_Missing io effs modPath then Inr (modBytes, effs)
         else (case (case (modBytes, modBytesFallback) of
                  (None, Some (Inl err)) \<Rightarrow> Inl (FallbackFetch err)
                | (None, Some (Inr b)) \<Rightarrow> Inr (Some b)
                | _ \<Rightarrow> Inr modBytes) of
             Inl err \<Rightarrow> Inl err
           | Inr None \<Rightarrow> Inr (None, effs)
           | Inr (Some b) \<Rightarrow>
             (case rs_WriteFile io effs modPath of
                Some err \<Rightarrow> Inl (FallbackWrite err)
              | None \<Rightarrow> Inr (Some b, effs @ [Wrote modPath b 420]))))"

text \<open>The archive read once, by the integrity check, the Tee writer and the extractor.\<close>

definition unpack ::
  "resolve_io \<Rightarrow> archiveKind \<Rightarrow> string \<Rightarrow> string \<Rightarrow> (nat \<times> string) option option \<Rightarrow> entry_body \<Rightarrow>
   ((int \<times> extract_error option) \<times> extract_effect list) \<times> bytes \<times> bytes" where
  "unpack io kind dir stripPrefix tee body =
     (let src2 = tee_body tee body;
          x = (case kind of
                 archiveKindZip \<Rightarrow> ExtractZip (rs_Disk io) (rs_OpenZip io) src2 dir stripPrefix MaxExtractBytes
               | archiveKindTarGz \<Rightarrow> ExtractTarGz (rs_Disk io) (rs_Gunzip io src2) dir stripPrefix MaxExtractBytes);
          pulled = (case kind of
                 archiveKindZip \<Rightarrow> nat (MaxExtractBytes + 1)
               | archiveKindTarGz \<Rightarrow> rs_Pulled io src2 (snd (fst x)))
      in (x, take pulled (fst body), if tee = None then [] else take pulled (fst src2)))"

definition FromSource ::
  "resolve_io \<Rightarrow> source_json option \<Rightarrow> bytes option \<Rightarrow> bytes option \<Rightarrow> (fetch_error + bytes) option \<Rightarrow> resolve_options \<Rightarrow> resolve_run" where
  "FromSource io src srcBytes modBytes modBytesFallback opts =
     (case src of
        None \<Rightarrow> nothing_done NoSource
      | Some src \<Rightarrow>
        (if sj_Type src \<noteq> [] \<and> sj_Type src \<noteq> ''archive'' then nothing_done (UnsupportedType (sj_Type src))
         else if sj_URL src = [] then nothing_done MissingURL
         else (case detectArchiveKind (sj_ArchiveType src) (sj_URL src) of
             Inl err \<Rightarrow> nothing_done err
           | Inr kind \<Rightarrow>
             (case rs_MkdirTemp io of
                Inl err \<Rightarrow> nothing_done (TempFailed err)
              | Inr dir \<Rightarrow>
                (case FetchArchive (rs_Client io) src of
                   Inl err \<Rightarrow> (nothing_done (FetchFailed err))\<lparr>rr_Made := [dir], rr_Removed := [dir]\<rparr>
                 | Inr (resp, vr) \<Rightarrow>
                   (case unpack io kind dir (sj_StripPrefix src) (ro_Tee opts) (hr_Body resp, hr_ReadError resp) of
                      (((n, err), effs), pulled, teed) \<Rightarrow>
                      (let failed = (\<lambda>err. \<lparr>rr_Result = Inl err, rr_Teed = teed, rr_Effects = effs, rr_Made = [dir], rr_Removed = [dir]\<rparr>)
                       in case err of
                            Some err \<Rightarrow> failed (ExtractFailed err)
                          | None \<Rightarrow>
                            (case Verify (rs_SHA256 io) (vr_Read pulled vr) of
                               Some err \<Rightarrow> failed (IntegrityFailed err)
                             | None \<Rightarrow>
                               (case module_file io dir effs modBytes modBytesFallback of
                                  Inl err \<Rightarrow> failed err
                                | Inr (modBytes, effs) \<Rightarrow>
                                  \<lparr>rr_Result = Inr \<lparr>mt_Dir = dir, mt_Source = src,
                                     mt_SourceBytes = (if ro_CaptureBytes opts then srcBytes else None),
                                     mt_ModuleBytes = (if ro_CaptureBytes opts then modBytes else None), mt_Bytes = n\<rparr>,
                                   rr_Teed = teed, rr_Effects = effs, rr_Made = [dir], rr_Removed = []\<rparr>)))))))))"

text \<open>The fallback runs only where it is needed; it is the same request whenever it runs.\<close>

definition FromRegistryWithClient ::
  "resolve_io \<Rightarrow> string \<Rightarrow> string \<Rightarrow> string \<Rightarrow> resolve_options \<Rightarrow> resolve_run" where
  "FromRegistryWithClient io registryURL m v opts =
     (case GetSourceJSONBytes (rs_Client io) registryURL m v of
        Inl err \<Rightarrow> nothing_done (RegistryError err)
      | Inr srcBytes \<Rightarrow>
        (case ParseSourceJSON srcBytes of
           Inl err \<Rightarrow> nothing_done (ParseError err)
         | Inr src \<Rightarrow>
           (case (if ro_CaptureBytes opts then map_sum id Some (GetModuleBazel (rs_Client io) registryURL m v) else Inr None) of
              Inl err \<Rightarrow> nothing_done (RegistryError err)
            | Inr modBytes \<Rightarrow>
              FromSource io (Some src) (Some srcBytes) modBytes (Some (GetModuleBazel (rs_Client io) registryURL m v)) opts)))"

text \<open>Cleanup removes the directory the first time it is called.\<close>

definition Cleanup :: "(materialized \<times> bool) option \<Rightarrow> string list \<Rightarrow> (materialized \<times> bool) option \<times> string list" where
  "Cleanup m removed =
     (case m of
        None \<Rightarrow> (None, removed)
      | Some (mt, armed) \<Rightarrow> if \<not> armed then (m, removed) else (Some (mt, False), removed @ [mt_Dir mt]))"

section \<open>What a run leaves\<close>

text \<open>A run that fetched the archive, and the accepted ones among them.\<close>

definition accepted ::
  "resolve_io \<Rightarrow> source_json \<Rightarrow> resolve_options \<Rightarrow> archiveKind \<Rightarrow> string \<Rightarrow> transport_response \<Rightarrow> int \<Rightarrow> extract_effect list \<Rightarrow> bytes \<Rightarrow> bytes \<Rightarrow> bool" where
  "accepted io src opts kind dir resp n effs pulled teed \<longleftrightarrow>
     detectArchiveKind (sj_ArchiveType src) (sj_URL src) = Inr kind \<and> rs_MkdirTemp io = Inr dir \<and>
     client_get (rs_Client io) (sj_URL src) = Inr resp \<and>
     unpack io kind dir (sj_StripPrefix src) (ro_Tee opts) (hr_Body resp, hr_ReadError resp) = (((n, None), effs), pulled, teed) \<and>
     (sj_Integrity src = [] \<or> sj_Integrity src = SRI (rs_SHA256 io pulled))"

lemma FetchArchive_Inr:
  "FetchArchive c src = Inr (resp, vr) \<longleftrightarrow> sj_URL src \<noteq> [] \<and> client_get c (sj_URL src) = Inr resp \<and> vr = NewVerifyingReader (sj_Integrity src)"
  by (auto simp: FetchArchive_def split: sum.splits)

lemma Verify_read: "Verify sha256 (vr_Read p (NewVerifyingReader e)) = None \<longleftrightarrow> e = [] \<or> e = SRI (sha256 p)"
  by (auto simp: Verify_None vr_Read_def NewVerifyingReader_def)

lemma FromSource_Inr:
  assumes "rr_Result (FromSource io (Some src) srcBytes modBytes fb opts) = Inr mt"
  obtains kind dir resp n effs pulled teed modBytes' effs' where "accepted io src opts kind dir resp n effs pulled teed"
    and "module_file io dir effs modBytes fb = Inr (modBytes', effs')" and "mt_Dir mt = dir" and "mt_Bytes mt = n" and "mt_Source mt = src"
    and "mt_ModuleBytes mt = (if ro_CaptureBytes opts then modBytes' else None)"
    and "FromSource io (Some src) srcBytes modBytes fb opts = \<lparr>rr_Result = Inr mt, rr_Teed = teed, rr_Effects = effs', rr_Made = [dir], rr_Removed = []\<rparr>"
  using assms
  by (auto simp: FromSource_def nothing_done_def Let_def accepted_def FetchArchive_Inr Verify_read split: if_splits sum.splits option.splits prod.splits)

lemma FromSource_Inl:
  "rr_Result (FromSource io src srcBytes modBytes fb opts) = Inl err \<Longrightarrow>
    rr_Removed (FromSource io src srcBytes modBytes fb opts) = rr_Made (FromSource io src srcBytes modBytes fb opts)"
  by (auto simp: FromSource_def nothing_done_def Let_def split: if_splits sum.splits option.splits prod.splits)

lemma module_file_Inr:
  assumes "module_file io dir effs modBytes (Some fb) = Inr (modBytes', effs')" and "\<And>b. modBytes = Some b \<Longrightarrow> fb = Inr b"
  shows "effs' = effs \<and> \<not> rs_Missing io effs (path_Join [dir, ''MODULE.bazel'']) \<or>
    (\<exists>b. fb = Inr b \<and> effs' = effs @ [Wrote (path_Join [dir, ''MODULE.bazel'']) b 420])"
  using assms by (auto simp: module_file_def Let_def split: if_splits option.splits sum.splits)

lemma FromRegistry_result:
  assumes "rr_Result (FromRegistryWithClient io reg m v opts) = Inr mt"
  shows "\<exists>src srcBytes modBytes. (\<forall>b. modBytes = Some b \<longrightarrow> GetModuleBazel (rs_Client io) reg m v = Inr b) \<and>
      FromRegistryWithClient io reg m v opts =
        FromSource io (Some src) (Some srcBytes) modBytes (Some (GetModuleBazel (rs_Client io) reg m v)) opts"
proof -
  obtain srcBytes where s: "GetSourceJSONBytes (rs_Client io) reg m v = Inr srcBytes"
    using assms by (cases "GetSourceJSONBytes (rs_Client io) reg m v") (auto simp: FromRegistryWithClient_def nothing_done_def)
  obtain src where p: "ParseSourceJSON srcBytes = Inr src"
    using assms s by (cases "ParseSourceJSON srcBytes") (auto simp: FromRegistryWithClient_def nothing_done_def)
  show ?thesis
  proof (cases "ro_CaptureBytes opts")
    case True
    then obtain b where "GetModuleBazel (rs_Client io) reg m v = Inr b"
      using assms s p by (cases "GetModuleBazel (rs_Client io) reg m v") (auto simp: FromRegistryWithClient_def nothing_done_def)
    then show ?thesis using s p True
      by (intro exI [of _ src] exI [of _ srcBytes] exI [of _ "Some b"]) (simp add: FromRegistryWithClient_def)
  next
    case False
    then show ?thesis using s p
      by (intro exI [of _ src] exI [of _ srcBytes] exI [of _ None]) (simp add: FromRegistryWithClient_def)
  qed
qed

lemma FromRegistry_failed:
  "rr_Result (FromRegistryWithClient io reg m v opts) = Inl err \<Longrightarrow>
    rr_Removed (FromRegistryWithClient io reg m v opts) = rr_Made (FromRegistryWithClient io reg m v opts)"
  using FromSource_Inl by (auto simp: FromRegistryWithClient_def nothing_done_def split: if_splits sum.splits)

lemma unpack_reads:
  assumes "unpack io kind dir stripPrefix tee body = (x, pulled, teed)"
  shows "(\<exists>k. pulled = take k (fst body)) \<and> (tee = Some None \<longrightarrow> teed = pulled) \<and>
    x \<in> {ExtractTarGz (rs_Disk io) (rs_Gunzip io (tee_body tee body)) dir stripPrefix MaxExtractBytes,
         ExtractZip (rs_Disk io) (rs_OpenZip io) (tee_body tee body) dir stripPrefix MaxExtractBytes}"
  using assms by (auto simp: unpack_def Let_def tee_body_def split: archiveKind.splits)

definition module_path :: "string \<Rightarrow> string" where
  "module_path dir = path_Join [dir, ''MODULE.bazel'']"

lemma module_path_inside: "clean_root dir \<Longrightarrow> inside dir (module_path dir)"
  using Join_root_plain [of dir "[''MODULE.bazel'']"] unfolding module_path_def inside_def
  by (intro disjI2 exI [of _ "[''MODULE.bazel'']"]) (simp add: plain_elem_def)

text \<open>
  C35: a version resolved from a registry leaves exactly one directory, and none when it failed;
  what it accepts has the integrity that its source.json declares, and a Tee writer that takes all
  bytes holds exactly the bytes that were checked; files are written below the directory only,
  within the budget, and its MODULE.bazel is there: in the archive, or written from the registry's.
\<close>

theorem resolved_module_checked:
  assumes "rr_Result (FromRegistryWithClient io reg m v opts) = Inr mt"
  shows "rr_Made (FromRegistryWithClient io reg m v opts) = [mt_Dir mt] \<and> rr_Removed (FromRegistryWithClient io reg m v opts) = [] \<and>
    (\<exists>resp k. client_get (rs_Client io) (sj_URL (mt_Source mt)) = Inr resp \<and>
       (sj_Integrity (mt_Source mt) = [] \<or> sj_Integrity (mt_Source mt) = SRI (rs_SHA256 io (take k (hr_Body resp)))) \<and>
       (ro_Tee opts = Some None \<longrightarrow> rr_Teed (FromRegistryWithClient io reg m v opts) = take k (hr_Body resp))) \<and>
    (xo_Abs (rs_Disk io) (mt_Dir mt) = Inr (mt_Dir mt) \<and> clean_root (mt_Dir mt) \<longrightarrow>
       mt_Bytes mt \<le> MaxExtractBytes \<and>
       (\<forall>p b mode. Wrote p b mode \<in> set (rr_Effects (FromRegistryWithClient io reg m v opts)) \<longrightarrow> inside (mt_Dir mt) p)) \<and>
    (\<not> rs_Missing io (rr_Effects (FromRegistryWithClient io reg m v opts)) (module_path (mt_Dir mt)) \<or>
     (\<exists>b effs. GetModuleBazel (rs_Client io) reg m v = Inr b \<and>
        rr_Effects (FromRegistryWithClient io reg m v opts) = effs @ [Wrote (module_path (mt_Dir mt)) b 420]))"
proof -
  let ?run = "FromRegistryWithClient io reg m v opts"
  obtain src srcBytes modBytes where f: "\<forall>b. modBytes = Some b \<longrightarrow> GetModuleBazel (rs_Client io) reg m v = Inr b"
    "?run = FromSource io (Some src) (Some srcBytes) modBytes (Some (GetModuleBazel (rs_Client io) reg m v)) opts"
    using FromRegistry_result [OF assms] by blast
  obtain kind dir resp n effs pulled teed modBytes' effs' where a: "accepted io src opts kind dir resp n effs pulled teed"
    and b: "module_file io dir effs modBytes (Some (GetModuleBazel (rs_Client io) reg m v)) = Inr (modBytes', effs')"
    and mt: "mt_Dir mt = dir" "mt_Bytes mt = n" "mt_Source mt = src"
    and run: "?run = \<lparr>rr_Result = Inr mt, rr_Teed = teed, rr_Effects = effs', rr_Made = [dir], rr_Removed = []\<rparr>"
    using FromSource_Inr [OF assms [unfolded f(2)]] f(2) by metis
  have u: "unpack io kind dir (sj_StripPrefix src) (ro_Tee opts) (hr_Body resp, hr_ReadError resp) = (((n, None), effs), pulled, teed)"
    using a by (simp add: accepted_def)
  note r = unpack_reads [OF u]
  have c: "xo_Abs (rs_Disk io) dir = Inr dir \<and> clean_root dir \<longrightarrow> extract_ok dir dir MaxExtractBytes ((n, None), effs)"
    using r extract_tar_ok [of "rs_Disk io" dir dir] extract_zip_ok [of "rs_Disk io" dir dir] by (metis insertE singletonD)
  have e: "effs' = effs \<and> \<not> rs_Missing io effs (module_path dir) \<or>
      (\<exists>b. GetModuleBazel (rs_Client io) reg m v = Inr b \<and> effs' = effs @ [Wrote (module_path dir) b 420])"
    unfolding module_path_def by (rule module_file_Inr [OF b]) (use f(1) in blast)
  have "xo_Abs (rs_Disk io) dir = Inr dir \<and> clean_root dir \<longrightarrow> n \<le> MaxExtractBytes \<and> (\<forall>p b mode. Wrote p b mode \<in> set effs' \<longrightarrow> inside dir p)"
  proof
    assume d: "xo_Abs (rs_Disk io) dir = Inr dir \<and> clean_root dir"
    then have x: "list_all (confined dir dir) effs" "n \<le> MaxExtractBytes" using c by (simp_all add: extract_ok_def MaxExtractBytes_def)
    have "inside dir p" if "Wrote p b mode \<in> set effs" for p b mode
      using x(1) that by (auto simp: list_all_iff confined_def dest!: bspec)
    then show "n \<le> MaxExtractBytes \<and> (\<forall>p b mode. Wrote p b mode \<in> set effs' \<longrightarrow> inside dir p)"
      using x(2) e module_path_inside d by auto
  qed
  moreover have "\<exists>resp k. client_get (rs_Client io) (sj_URL src) = Inr resp \<and>
      (sj_Integrity src = [] \<or> sj_Integrity src = SRI (rs_SHA256 io (take k (hr_Body resp)))) \<and> (ro_Tee opts = Some None \<longrightarrow> teed = take k (hr_Body resp))"
    using r a by (auto simp: accepted_def)
  ultimately show ?thesis using e by (auto simp: run mt)
qed

text \<open>
  C36: of a tar.gz archive whose declared integrity is the one of its bytes, a run that unpacks it
  succeeds or fails the check as the extractor has read all of it or not (as long as no two of its
  prefixes share a hash): the bytes behind the end marker that the extractor leaves unread make
  the check fail although nothing was altered.
\<close>

theorem unread_tail_rejected:
  assumes "sj_Type src \<in> {[], ''archive''}" and "sj_URL src \<noteq> []" and "detectArchiveKind (sj_ArchiveType src) (sj_URL src) = Inr archiveKindTarGz"
    and "rs_MkdirTemp io = Inr dir" and "client_get (rs_Client io) (sj_URL src) = Inr resp" and "ro_Tee opts \<in> {None, Some None}"
    and "ExtractTarGz (rs_Disk io) (rs_Gunzip io (hr_Body resp, hr_ReadError resp)) dir (sj_StripPrefix src) MaxExtractBytes = ((n, None), effs)"
    and "sj_Integrity src = SRI (rs_SHA256 io (hr_Body resp))"
    and "\<forall>k. SRI (rs_SHA256 io (take k (hr_Body resp))) = SRI (rs_SHA256 io (hr_Body resp)) \<longrightarrow> k \<ge> length (hr_Body resp)"
    and "\<not> rs_Missing io effs (module_path dir)"
  shows "(rs_Pulled io (hr_Body resp, hr_ReadError resp) None \<ge> length (hr_Body resp) \<longrightarrow>
       (\<exists>mt. rr_Result (FromSource io (Some src) srcBytes modBytes fb opts) = Inr mt)) \<and>
    (rs_Pulled io (hr_Body resp, hr_ReadError resp) None < length (hr_Body resp) \<longrightarrow>
       (\<exists>err. rr_Result (FromSource io (Some src) srcBytes modBytes fb opts) = Inl (IntegrityFailed err)))"
proof -
  let ?body = "(hr_Body resp, hr_ReadError resp)" and ?p = "take (rs_Pulled io (hr_Body resp, hr_ReadError resp) None) (hr_Body resp)"
  have t: "tee_body (ro_Tee opts) ?body = ?body" using assms(6) by (auto simp: tee_body_def)
  have u: "\<exists>teed. unpack io archiveKindTarGz dir (sj_StripPrefix src) (ro_Tee opts) ?body = (((n, None), effs), ?p, teed)"
    using assms(7) by (simp add: unpack_def Let_def t)
  have f: "FetchArchive (rs_Client io) src = Inr (resp, NewVerifyingReader (sj_Integrity src))" using assms by (simp add: FetchArchive_Inr)
  have m: "module_file io dir effs modBytes fb = Inr (modBytes, effs)" using assms(10) by (simp add: module_file_def module_path_def Let_def)
  have v: "Verify (rs_SHA256 io) (vr_Read ?p (NewVerifyingReader (sj_Integrity src))) = None \<longleftrightarrow> SRI (rs_SHA256 io ?p) = SRI (rs_SHA256 io (hr_Body resp))"
    using assms(8) by (auto simp: Verify_read SRI_def)
  obtain teed where u: "unpack io archiveKindTarGz dir (sj_StripPrefix src) (ro_Tee opts) ?body = (((n, None), effs), ?p, teed)" using u by blast
  let ?run = "rr_Result (FromSource io (Some src) srcBytes modBytes fb opts)"
  have "?run = (case Verify (rs_SHA256 io) (vr_Read ?p (NewVerifyingReader (sj_Integrity src))) of
      Some err \<Rightarrow> Inl (IntegrityFailed err)
    | None \<Rightarrow> Inr \<lparr>mt_Dir = dir, mt_Source = src, mt_SourceBytes = (if ro_CaptureBytes opts then srcBytes else None),
        mt_ModuleBytes = (if ro_CaptureBytes opts then modBytes else None), mt_Bytes = n\<rparr>)"
    using assms(1-4) by (auto simp: FromSource_def f u m Let_def split: option.splits)
  moreover have "Verify (rs_SHA256 io) (vr_Read ?p (NewVerifyingReader (sj_Integrity src))) = None \<longleftrightarrow>
      rs_Pulled io (hr_Body resp, hr_ReadError resp) None \<ge> length (hr_Body resp)"
    unfolding v using assms(9) by auto
  ultimately show ?thesis by (auto split: option.splits)
qed

section \<open>A run of each kind\<close>

definition two_byte_document :: bytes where
  "two_byte_document = ''{'' @ [CHR 0x22] @ ''url'' @ [CHR 0x22] @ '':'' @ [CHR 0x22] @ ''t'' @ [CHR 0x22] @ ''}''"

definition two_byte_client :: registry_client where
  "two_byte_client = \<lparr>rg_Lib = \<lparr>fl_Hostname = (\<lambda>_. Some ''h''), fl_Resolve = (\<lambda>r l. None),
       fl_Net = (\<lambda>k r. Inr \<lparr>hr_Status = 200,
         hr_Body = (if oq_URL r = ''source.json'' then two_byte_document else ''ab''),
         hr_ReadError = None, tr_Location = [], tr_ContentLength = 0, tr_ContentType = []\<rparr>),
       fl_Env = (\<lambda>k. \<lparr>ev_TS = ''t'', ev_Duration = 5, ev_Frames = []\<rparr>)\<rparr>,
     rg_Transport = audit_transport, rg_AllowedHosts = [''h''],
     rg_NewRequest = (\<lambda>u. Inr \<lparr>oq_Method = ''GET'', oq_URL = u, oq_Hostname = ''h''\<rparr>),
     rg_JoinPath = (\<lambda>u segs. Inr (last segs))\<rparr>"

definition empty_archive_io :: "nat \<Rightarrow> bool \<Rightarrow> resolve_io" where
  "empty_archive_io pulled missing = \<lparr>rs_Client = two_byte_client, rs_MkdirTemp = Inr ''/t'', rs_Disk = calm_disk,
     rs_Gunzip = (\<lambda>b. Inr ([], None)), rs_Pulled = (\<lambda>b err. pulled), rs_OpenZip = (\<lambda>b. Inr []), rs_Missing = (\<lambda>effs p. missing),
     rs_WriteFile = (\<lambda>effs p. None), rs_SHA256 = (\<lambda>b. b)\<rparr>"

lemma two_byte_get:
  "client_get two_byte_client ''t'' = Inr \<lparr>hr_Status = 200, hr_Body = ''ab'', hr_ReadError = None, tr_Location = [], tr_ContentLength = 0, tr_ContentType = []\<rparr>"
  "client_get two_byte_client ''MODULE.bazel'' = Inr \<lparr>hr_Status = 200, hr_Body = ''ab'', hr_ReadError = None, tr_Location = [], tr_ContentLength = 0, tr_ContentType = []\<rparr>"
  "client_get two_byte_client ''source.json'' = Inr \<lparr>hr_Status = 200,
     hr_Body = two_byte_document,
     hr_ReadError = None, tr_Location = [], tr_ContentLength = 0, tr_ContentType = []\<rparr>"
  by code_simp+

lemma two_byte_source:
  "ParseSourceJSON two_byte_document = Inr (empty_source\<lparr>sj_URL := ''t''\<rparr>)"
  by code_simp

lemma empty_archive_unpacked:
  "ExtractTarGz calm_disk (Inr ([], None)) ''/t'' stripPrefix MaxExtractBytes = ((0, None), [MadeDir ''/t''])"
  by (simp add: ExtractTarGz_def extractTar_def calm_disk_def)

lemma empty_archive_missing: "rs_Missing (empty_archive_io k b) effs p = b"
  by (simp add: empty_archive_io_def)

lemma empty_archive_source:
  "detectArchiveKind [] ''t'' = Inr archiveKindTarGz" "module_path ''/t'' = ''/t/MODULE.bazel''"
  by code_simp+

lemma empty_archive_resolved:
  "FromRegistryWithClient (empty_archive_io (Suc 0) True) ''u'' ''m'' ''1.0'' \<lparr>ro_Tee = Some None, ro_CaptureBytes = False\<rparr> =
     \<lparr>rr_Result = Inr \<lparr>mt_Dir = ''/t'', mt_Source = empty_source\<lparr>sj_URL := ''t''\<rparr>, mt_SourceBytes = None, mt_ModuleBytes = None, mt_Bytes = 0\<rparr>,
      rr_Teed = ''a'', rr_Effects = [MadeDir ''/t'', Wrote ''/t/MODULE.bazel'' ''ab'' 420], rr_Made = [''/t''], rr_Removed = []\<rparr>"
proof -
  have j: "joinURL two_byte_client ''u'' segs = Inr (last segs)" for segs by (simp add: joinURL_def two_byte_client_def)
  have r: "getRaw two_byte_client ''source.json'' = Inr two_byte_document"
    "getRaw two_byte_client ''MODULE.bazel'' = Inr ''ab''"
    using readAllCapped_Inr by (auto simp: getRaw_def two_byte_get MaxJSONResponseBytes_def two_byte_document_def)
  show ?thesis
    using empty_archive_source(2) empty_archive_source(1)
    by (simp add: FromRegistryWithClient_def empty_archive_io_def GetSourceJSONBytes_def GetModuleBazel_def j r relabel_def two_byte_source
        FromSource_def empty_source_def FetchArchive_def two_byte_get unpack_def tee_body_def Let_def empty_archive_unpacked module_file_def module_path_def
        NewVerifyingReader_def vr_Read_def Verify_def)
qed

lemma resolved_module_checked_witness:
  "\<exists>b effs. GetModuleBazel (rs_Client (empty_archive_io (Suc 0) True)) ''u'' ''m'' ''1.0'' = Inr b \<and>
    rr_Effects (FromRegistryWithClient (empty_archive_io (Suc 0) True) ''u'' ''m'' ''1.0'' \<lparr>ro_Tee = Some None, ro_CaptureBytes = False\<rparr>) =
      effs @ [Wrote (module_path ''/t'') b 420]"
  using resolved_module_checked [of "empty_archive_io (Suc 0) True" "''u''" "''m''" "''1.0''" "\<lparr>ro_Tee = Some None, ro_CaptureBytes = False\<rparr>"]
  by (simp add: empty_archive_resolved empty_archive_missing)

lemma unread_tail_rejected_witness:
  "\<exists>err. rr_Result (FromSource (empty_archive_io (Suc 0) False) (Some (empty_source\<lparr>sj_URL := ''t'', sj_Integrity := SRI ''ab''\<rparr>)) None None None
      \<lparr>ro_Tee = None, ro_CaptureBytes = False\<rparr>) = Inl (IntegrityFailed err)"
proof -
  have pre: "\<forall>k. SRI (take k ''ab'') = SRI ''ab'' \<longrightarrow> Suc (Suc 0) \<le> k"
  proof (intro allI impI, rule ccontr)
    fix k assume k: "SRI (take k ''ab'') = SRI ''ab''" "\<not> Suc (Suc 0) \<le> k"
    then have "k = 0 \<or> k = 1" by linarith
    moreover have "SRI [] \<noteq> SRI ''ab''" "SRI ''a'' \<noteq> SRI ''ab''" by code_simp+
    ultimately show False using k(1) by auto
  qed
  define resp :: transport_response where
    "resp = \<lparr>hr_Status = 200, hr_Body = ''ab'', hr_ReadError = None, tr_Location = [], tr_ContentLength = 0, tr_ContentType = []\<rparr>"
  have "client_get two_byte_client ''t'' = Inr resp" "hr_Body resp = ''ab''" by (simp_all add: two_byte_get resp_def)
  then show ?thesis
    using unread_tail_rejected [of "empty_source\<lparr>sj_URL := ''t'', sj_Integrity := SRI ''ab''\<rparr>" "empty_archive_io (Suc 0) False" "''/t''" resp
        "\<lparr>ro_Tee = None, ro_CaptureBytes = False\<rparr>" 0 "[MadeDir ''/t'']" None None None] pre
    by (simp add: empty_archive_io_def empty_source_def empty_archive_source empty_archive_unpacked)
qed

end
