(* ===== verification/Drift.thy ===== *)
theory Drift
  imports Paths Registry "HOL-Library.Word"
begin

text \<open>
  How far a mirror is behind its upstream (src/internal/drift/drift.go, per_version.go): the
  comparison of versions, the verdict on a module and on a version, and the report over all
  modules. The directory reads are parameters, as is the order in which the workers finish.
\<close>

section \<open>Versions\<close>

text \<open>\<open>vs_n\<close> is an int of Go, which wraps around on a segment of many digits.\<close>

record version_seg =
  vs_n :: "64 word"
  vs_s :: string
  vs_num :: bool

definition no_seg :: version_seg where
  "no_seg = \<lparr>vs_n = 0, vs_s = [], vs_num = False\<rparr>"

definition ascii_digit :: "char \<Rightarrow> bool" where
  "ascii_digit c \<longleftrightarrow> CHR ''0'' \<le> c \<and> c \<le> CHR ''9''"

definition allDigits :: "string \<Rightarrow> bool" where
  "allDigits s \<longleftrightarrow> list_all ascii_digit s \<and> s \<noteq> []"

definition leading_number :: "string \<Rightarrow> 64 word" where
  "leading_number p = fold (\<lambda>c n. n * 10 + (of_nat (of_char c) - 48)) (takeWhile ascii_digit p) 0"

definition version_seg_of :: "string \<Rightarrow> version_seg" where
  "version_seg_of p =
     (if takeWhile ascii_digit p \<noteq> [] \<and> allDigits p
      then \<lparr>vs_n = leading_number p, vs_s = p, vs_num = True\<rparr>
      else \<lparr>vs_n = 0, vs_s = p, vs_num = False\<rparr>)"

definition versionSegs :: "string \<Rightarrow> version_seg list" where
  "versionSegs v = (if v = [] then [] else map version_seg_of (split_byte v (CHR ''.'')))"

text \<open>strings.Compare\<close>

definition strings_Compare :: "string \<Rightarrow> string \<Rightarrow> int" where
  "strings_Compare a b = (if a = b then 0 else if a < b then -1 else 1)"

definition seg_cmp :: "version_seg \<Rightarrow> version_seg \<Rightarrow> int" where
  "seg_cmp a b =
     (if vs_num a \<and> vs_num b
      then (if vs_n a <s vs_n b then -1 else if vs_n b <s vs_n a then 1 else 0)
      else strings_Compare (vs_s a) (vs_s b))"

text \<open>The loop over the longer of both; a segment that is not there is the zero one.\<close>

fun compare_segs :: "version_seg list \<Rightarrow> version_seg list \<Rightarrow> int" where
  "compare_segs [] [] = 0"
| "compare_segs (a # as) [] = (let c = seg_cmp a no_seg in if c \<noteq> 0 then c else compare_segs as [])"
| "compare_segs [] (b # bs) = (let c = seg_cmp no_seg b in if c \<noteq> 0 then c else compare_segs [] bs)"
| "compare_segs (a # as) (b # bs) = (let c = seg_cmp a b in if c \<noteq> 0 then c else compare_segs as bs)"

definition compareVersions :: "string \<Rightarrow> string \<Rightarrow> int" where
  "compareVersions a b = compare_segs (versionSegs a) (versionSegs b)"

definition pickLatest :: "string list \<Rightarrow> string" where
  "pickLatest versions =
     (case versions of
        [] \<Rightarrow> []
      | v # vs \<Rightarrow> fold (\<lambda>v best. if compareVersions v best > 0 then v else best) vs v)"

section \<open>The verdict on a module\<close>

datatype drift_status = InSync | Behind | YankedUpstream | LocalOnly | UpstreamError

record local_module =
  lm_Name :: string
  lm_Versions :: "string list"

record module_drift =
  dm_Name :: string
  dm_Status :: drift_status
  dm_LocalVersions :: "string list"
  dm_UpstreamVersions :: "string list"
  dm_LocalLatest :: string
  dm_UpstreamLatest :: string
  dm_NewerUpstream :: "string list"
  dm_MissingLocally :: "string list"
  dm_YankedAtUpstream :: "string list"
  dm_LocalOnlyVersions :: "string list"
  dm_Error :: string

text \<open>\<open>up\<close> is what GetMetadata answers for the module.\<close>

definition compareOne :: "fetch_error + metadata_json \<Rightarrow> local_module \<Rightarrow> module_drift" where
  "compareOne up lm =
     (let d = \<lparr>dm_Name = lm_Name lm, dm_Status = InSync, dm_LocalVersions = lm_Versions lm, dm_UpstreamVersions = [],
                dm_LocalLatest = pickLatest (lm_Versions lm), dm_UpstreamLatest = [], dm_NewerUpstream = [], dm_MissingLocally = [],
                dm_YankedAtUpstream = [], dm_LocalOnlyVersions = [], dm_Error = []\<rparr>
      in case up of
           Inl err \<Rightarrow>
             (if fe_Is err = FetchNotFound then d\<lparr>dm_Status := LocalOnly, dm_LocalOnlyVersions := lm_Versions lm\<rparr>
              else d\<lparr>dm_Status := UpstreamError, dm_Error := fe_Text err\<rparr>)
         | Inr md \<Rightarrow>
             (let missing = filter (\<lambda>v. v \<notin> set (lm_Versions lm)) (mj_Versions md);
                  own = filter (\<lambda>v. v \<notin> set (mj_Versions md)) (lm_Versions lm);
                  yanked = filter (\<lambda>v. map_of (mj_YankedVersions md) v \<noteq> None) (lm_Versions lm);
                  newer = filter (\<lambda>v. compareVersions v (dm_LocalLatest d) > 0) missing
              in d\<lparr>dm_UpstreamVersions := mj_Versions md, dm_UpstreamLatest := pickLatest (mj_Versions md),
                   dm_MissingLocally := missing, dm_LocalOnlyVersions := own, dm_YankedAtUpstream := yanked, dm_NewerUpstream := newer,
                   dm_Status := (if length yanked > 0 then YankedUpstream else if length newer > 0 then Behind else InSync)\<rparr>))"

section \<open>The modules of the mirror\<close>

text \<open>
  A directory read gives its entries, with a flag for directories, and an error after them; a
  file read gives the content or None for an error.
\<close>

record drift_io =
  di_ReadDir :: "string \<Rightarrow> (string \<times> bool) list \<times> string option"
  di_ReadFile :: "string \<Rightarrow> bytes option"

definition decode_versions :: "json \<Rightarrow> string list option" where
  "decode_versions j = decode_struct [''versions''] (\<lambda>n j _. decode_strings j) j []"

definition read_module :: "drift_io \<Rightarrow> string \<Rightarrow> string \<Rightarrow> local_module" where
  "read_module io modulesDir name =
     (let recorded = (case di_ReadFile io (path_Join [modulesDir, name, ''metadata.json'']) of
                        None \<Rightarrow> []
                      | Some b \<Rightarrow> (case Option.bind (Unmarshal b) decode_versions of None \<Rightarrow> [] | Some vs \<Rightarrow> vs));
          versions = (if length recorded = 0
                        then map fst (filter snd (fst (di_ReadDir io (path_Join [modulesDir, name]))))
                        else recorded)
      in \<lparr>lm_Name = name, lm_Versions = sort versions\<rparr>)"

definition readMirrorModules :: "drift_io \<Rightarrow> string \<Rightarrow> string + local_module list" where
  "readMirrorModules io mirrorRoot =
     (let modulesDir = path_Join [mirrorRoot, ''modules'']
      in case di_ReadDir io modulesDir of
           (entries, Some err) \<Rightarrow> Inl err
         | (entries, None) \<Rightarrow> Inr (sort_key lm_Name (map (\<lambda>e. read_module io modulesDir (fst e)) (filter snd entries))))"

definition filterModules :: "local_module list \<Rightarrow> string \<Rightarrow> local_module list" where
  "filterModules ms name = (case find (\<lambda>m. lm_Name m = name) ms of Some m \<Rightarrow> [m] | None \<Rightarrow> [])"

section \<open>The report\<close>

record drift_summary =
  ds_Total :: int
  ds_InSync :: int
  ds_Behind :: int
  ds_YankedUpstream :: int
  ds_LocalOnly :: int
  ds_UpstreamError :: int

definition count_status :: "module_drift \<Rightarrow> drift_summary \<Rightarrow> drift_summary" where
  "count_status m s =
     (case dm_Status m of
        InSync \<Rightarrow> s\<lparr>ds_InSync := ds_InSync s + 1\<rparr>
      | Behind \<Rightarrow> s\<lparr>ds_Behind := ds_Behind s + 1\<rparr>
      | YankedUpstream \<Rightarrow> s\<lparr>ds_YankedUpstream := ds_YankedUpstream s + 1\<rparr>
      | LocalOnly \<Rightarrow> s\<lparr>ds_LocalOnly := ds_LocalOnly s + 1\<rparr>
      | UpstreamError \<Rightarrow> s\<lparr>ds_UpstreamError := ds_UpstreamError s + 1\<rparr>)"

definition summarize :: "module_drift list \<Rightarrow> drift_summary" where
  "summarize ms = fold count_status ms
     \<lparr>ds_Total = int (length ms), ds_InSync = 0, ds_Behind = 0, ds_YankedUpstream = 0, ds_LocalOnly = 0, ds_UpstreamError = 0\<rparr>"

definition statusRank :: "drift_status \<Rightarrow> nat" where
  "statusRank s = (case s of YankedUpstream \<Rightarrow> 4 | Behind \<Rightarrow> 3 | LocalOnly \<Rightarrow> 2 | UpstreamError \<Rightarrow> 1 | InSync \<Rightarrow> 0)"

definition drift_less_key :: "module_drift \<Rightarrow> int \<times> string" where
  "drift_less_key d = (- int (statusRank (dm_Status d)), dm_Name d)"

record drift_report =
  dp_UpstreamURL :: string
  dp_MirrorRoot :: string
  dp_Modules :: "module_drift list"
  dp_Summary :: drift_summary

text \<open>Each worker fills the slot of its module; \<open>finished\<close> is the order in which they do.\<close>

definition drift_results :: "(string \<Rightarrow> fetch_error + metadata_json) \<Rightarrow> local_module list \<Rightarrow> nat list \<Rightarrow> module_drift option list" where
  "drift_results metadata ms finished =
     fold (\<lambda>i results. results[i := Some (compareOne (metadata (lm_Name (ms ! i))) (ms ! i))]) finished (replicate (length ms) None)"

definition drift_Compute :: "drift_io \<Rightarrow> registry_client \<Rightarrow> string \<Rightarrow> string \<Rightarrow> string \<Rightarrow> (nat \<Rightarrow> nat list) \<Rightarrow> string + drift_report" where
  "drift_Compute io c mirrorRoot upstreamURL only finished =
     (case readMirrorModules io mirrorRoot of
        Inl err \<Rightarrow> Inl err
      | Inr ms \<Rightarrow>
        (let ms = (if only \<noteq> [] then filterModules ms only else ms);
             results = map the (drift_results (GetMetadata c upstreamURL) ms (finished (length ms)))
         in Inr \<lparr>dp_UpstreamURL = upstreamURL, dp_MirrorRoot = mirrorRoot, dp_Modules = sort_key drift_less_key results,
                 dp_Summary = summarize results\<rparr>))"

section \<open>The verdict on a version\<close>

record version_drift =
  vd_Status :: drift_status
  vd_Behind :: nat
  vd_LatestUpstream :: string

definition ComputeForVersion :: "string \<Rightarrow> metadata_json option \<Rightarrow> version_drift" where
  "ComputeForVersion localVersion upstream =
     (case upstream of
        None \<Rightarrow> \<lparr>vd_Status = LocalOnly, vd_Behind = 0, vd_LatestUpstream = []\<rparr>
      | Some up \<Rightarrow>
        (if map_of (mj_YankedVersions up) localVersion \<noteq> None
         then \<lparr>vd_Status = YankedUpstream, vd_Behind = 0, vd_LatestUpstream = pickLatest (mj_Versions up)\<rparr>
         else (let newer = length (filter (\<lambda>v. compareVersions v localVersion > 0) (mj_Versions up))
           in if newer > 0 then \<lparr>vd_Status = Behind, vd_Behind = newer, vd_LatestUpstream = pickLatest (mj_Versions up)\<rparr>
              else \<lparr>vd_Status = InSync, vd_Behind = 0, vd_LatestUpstream = []\<rparr>)))"

section \<open>The comparison\<close>

lemma seg_cmp_flip: "seg_cmp a b = - seg_cmp b a"
  by (auto simp: seg_cmp_def strings_Compare_def word_sless_alt)

lemma compare_segs_flip: "compare_segs as bs = - compare_segs bs as"
proof (induction as bs rule: compare_segs.induct)
  case (2 a as)
  then show ?case using seg_cmp_flip [of a no_seg] by (simp add: Let_def)
next
  case (3 b bs)
  then show ?case using seg_cmp_flip [of no_seg b] by (simp add: Let_def)
next
  case (4 a as b bs)
  then show ?case using seg_cmp_flip [of a b] by (simp add: Let_def)
qed simp

lemma compareVersions_flip: "compareVersions a b = - compareVersions b a"
  unfolding compareVersions_def by (rule compare_segs_flip)

lemma seg_cmp_self [simp]: "seg_cmp a a = 0"
  by (simp add: seg_cmp_def strings_Compare_def word_sless_alt)

lemma compare_segs_common: "compare_segs (xs @ as) (xs @ bs) = compare_segs as bs"
  by (induction xs) simp_all

lemma compareVersions_self [simp]: "compareVersions a a = 0"
  using compareVersions_flip [of a a] by simp

text \<open>A release: its segments are numbers that fit.\<close>

definition seg_number :: "string \<Rightarrow> int" where
  "seg_number p = fold (\<lambda>c n. n * 10 + (of_char c - 48)) p 0"

definition release_seg :: "string \<Rightarrow> bool" where
  "release_seg p \<longleftrightarrow> allDigits p \<and> seg_number p < 2 ^ 63"

definition release :: "string \<Rightarrow> bool" where
  "release v \<longleftrightarrow> list_all release_seg (split_byte v (CHR ''.''))"

definition numbers :: "string \<Rightarrow> int list" where
  "numbers v = map seg_number (split_byte v (CHR ''.''))"

lemma digit_bounds:
  assumes "ascii_digit c"
  shows "(0::int) \<le> of_char c - 48 \<and> of_char c - 48 \<le> (9::int)"
proof -
  have "(48::nat) \<le> of_char c \<and> of_char c \<le> (57::nat)" using assms by (simp add: ascii_digit_def less_eq_char_def)
  then have "int 48 \<le> int (of_char c) \<and> int (of_char c) \<le> int 57" by linarith
  then show ?thesis by (simp add: of_nat_of_char)
qed

lemma fold_number_nonneg:
  "list_all ascii_digit p \<Longrightarrow> 0 \<le> k \<Longrightarrow> 0 \<le> fold (\<lambda>c n. n * 10 + (of_char c - 48)) p (k :: int)"
proof (induction p arbitrary: k)
  case (Cons c p)
  then have "0 \<le> k * 10 + (of_char c - 48 :: int)" using digit_bounds [of c] by auto
  then show ?case using Cons by simp
qed simp

lemma fold_number_word:
  "fold (\<lambda>c n. n * 10 + (of_nat (of_char c) - 48)) p (word_of_int k :: 64 word) =
   word_of_int (fold (\<lambda>c n. n * 10 + (of_char c - 48)) p k)"
proof (induction p arbitrary: k)
  case (Cons c p)
  have e: "(word_of_int k :: 64 word) * 10 + (of_nat (of_char c) - 48) = word_of_int (k * 10 + (of_char c - 48))"
    by (simp add: of_nat_of_char of_int_of_char)
  show ?case by (simp only: fold_simps e Cons.IH)
qed simp

lemma version_seg_release:
  assumes "release_seg p"
  shows "vs_num (version_seg_of p) \<and> vs_s (version_seg_of p) = p \<and> p \<noteq> [] \<and> sint (vs_n (version_seg_of p)) = seg_number p \<and> 0 \<le> seg_number p"
proof -
  have d: "list_all ascii_digit p" "p \<noteq> []" "seg_number p < 2 ^ 63" using assms by (auto simp: release_seg_def allDigits_def)
  have t: "takeWhile ascii_digit p = p" using d(1) by (simp add: takeWhile_eq_all_conv list_all_iff)
  have nn: "0 \<le> seg_number p" unfolding seg_number_def by (rule fold_number_nonneg [OF d(1)]) simp
  have "leading_number p = word_of_int (seg_number p)"
    using fold_number_word [of p 0] by (simp add: leading_number_def t seg_number_def)
  then have "sint (leading_number p) = signed_take_bit 63 (seg_number p)" by (simp add: sint_sbintrunc')
  then have "sint (leading_number p) = seg_number p" using nn d(3) by (simp add: signed_take_bit_int_eq_self)
  then show ?thesis using d(1,2) nn unfolding version_seg_of_def allDigits_def t by simp
qed

lemma seg_cmp_release:
  "release_seg p \<Longrightarrow> release_seg q \<Longrightarrow>
    seg_cmp (version_seg_of p) (version_seg_of q) = (if seg_number p < seg_number q then -1 else if seg_number q < seg_number p then 1 else 0)"
  using version_seg_release [of p] version_seg_release [of q] by (simp add: seg_cmp_def word_sless_alt)

lemma seg_cmp_absent:
  "release_seg p \<Longrightarrow> seg_cmp (version_seg_of p) no_seg = 1" "release_seg p \<Longrightarrow> seg_cmp no_seg (version_seg_of p) = -1"
  using version_seg_release [of p] by (cases p; simp add: seg_cmp_def no_seg_def strings_Compare_def)+

lemma compare_segs_release:
  "list_all release_seg ps \<Longrightarrow> list_all release_seg qs \<Longrightarrow>
    compare_segs (map version_seg_of ps) (map version_seg_of qs) =
      (if map seg_number ps < map seg_number qs then -1 else if map seg_number qs < map seg_number ps then 1 else 0)"
proof (induction ps arbitrary: qs)
  case Nil
  then show ?case by (cases qs) (simp_all add: seg_cmp_absent Let_def)
next
  case (Cons p ps)
  show ?case
  proof (cases qs)
    case (Cons q qs')
    then show ?thesis using Cons.prems Cons.IH [of qs'] by (auto simp: seg_cmp_release Let_def)
  qed (use Cons.prems in \<open>simp add: seg_cmp_absent Let_def\<close>)
qed

lemma compareVersions_release:
  assumes "release a" and "release b"
  shows "compareVersions a b = (if numbers a < numbers b then -1 else if numbers b < numbers a then 1 else 0)"
proof -
  have "versionSegs v = map version_seg_of (split_byte v (CHR ''.''))" if "release v" for v
    using that by (auto simp: versionSegs_def release_def release_seg_def allDigits_def)
  then show ?thesis using assms compare_segs_release by (simp add: compareVersions_def numbers_def release_def)
qed

lemma pick_fold:
  assumes "\<forall>v \<in> set (b # vs). release v"
  shows "fold (\<lambda>v best. if compareVersions v best > 0 then v else best) vs b \<in> set (b # vs) \<and>
    (\<forall>v \<in> set (b # vs). numbers v \<le> numbers (fold (\<lambda>v best. if compareVersions v best > 0 then v else best) vs b))"
  using assms
proof (induction vs arbitrary: b)
  case (Cons v vs)
  let ?b = "if compareVersions v b > 0 then v else b"
  have c: "compareVersions v b > 0 \<longleftrightarrow> numbers b < numbers v" using compareVersions_release [of v b] Cons.prems by auto
  have "\<forall>w \<in> set (?b # vs). release w" using Cons.prems by auto
  note ih = Cons.IH [OF this]
  moreover have "numbers v \<le> numbers ?b" "numbers b \<le> numbers ?b" using c by auto
  ultimately show ?case by (auto intro: order_trans)
qed simp

section \<open>What the comparison decides\<close>

text \<open>
  C37: on releases, versions whose segments are all numbers below 2^63, the comparison is the
  lexicographic order of the numbers, and the latest of a list is one of its members that no other
  exceeds, in whatever order the list is.
\<close>

theorem release_order_exact:
  assumes "\<forall>v \<in> set vs. release v" and "vs \<noteq> []"
  shows "(\<forall>a \<in> set vs. \<forall>b \<in> set vs.
      (compareVersions a b < 0 \<longleftrightarrow> numbers a < numbers b) \<and> (compareVersions a b = 0 \<longleftrightarrow> numbers a = numbers b)) \<and>
    pickLatest vs \<in> set vs \<and> (\<forall>v \<in> set vs. numbers v \<le> numbers (pickLatest vs)) \<and>
    (\<forall>ws. set ws = set vs \<longrightarrow> numbers (pickLatest ws) = numbers (pickLatest vs))"
proof -
  have latest: "pickLatest ws \<in> set ws \<and> (\<forall>v \<in> set ws. numbers v \<le> numbers (pickLatest ws))" if "set ws = set vs" for ws
    using that assms pick_fold [of "hd ws" "tl ws"] by (cases ws) (auto simp: pickLatest_def)
  have "numbers (pickLatest ws) = numbers (pickLatest vs)" if "set ws = set vs" for ws
    using latest [OF that] latest [OF refl] that by (metis order_antisym)
  moreover have "\<forall>a \<in> set vs. \<forall>b \<in> set vs.
      (compareVersions a b < 0 \<longleftrightarrow> numbers a < numbers b) \<and> (compareVersions a b = 0 \<longleftrightarrow> numbers a = numbers b)"
    using assms(1) by (auto simp: compareVersions_release)
  ultimately show ?thesis using latest [OF refl] by blast
qed

lemma release_order_exact_witness:
  "pickLatest [''1.9'', ''1.10'', ''1.2.3''] = ''1.10'' \<and> pickLatest [''1.2.3'', ''1.10'', ''1.9''] = ''1.10''"
proof -
  have r: "\<forall>v \<in> set [''1.9'', ''1.10'', ''1.2.3'']. release v"
    by (simp add: release_def release_seg_def allDigits_def ascii_digit_def seg_number_def less_eq_char_def)
  have n: "numbers ''1.9'' < numbers ''1.10''" "numbers ''1.2.3'' < numbers ''1.10''"
    by (simp_all add: numbers_def seg_number_def)
  have u: "v = ''1.10''" if "v \<in> set [''1.9'', ''1.10'', ''1.2.3'']" "numbers ''1.10'' \<le> numbers v" for v using that n by auto
  have same: "set [''1.2.3'', ''1.10'', ''1.9''] = set [''1.9'', ''1.10'', ''1.2.3'']" by auto
  have p: "pickLatest ws = ''1.10''" if w: "set ws = set [''1.9'', ''1.10'', ''1.2.3'']" "ws \<noteq> []" for ws
  proof (rule u)
    have rw: "\<forall>v \<in> set ws. release v" using r w(1) by metis
    show "pickLatest ws \<in> set [''1.9'', ''1.10'', ''1.2.3'']" using release_order_exact [OF rw w(2)] w(1) by metis
    have "''1.10'' \<in> set ws" using w(1) by simp
    then show "numbers ''1.10'' \<le> numbers (pickLatest ws)" using release_order_exact [OF rw w(2)] by metis
  qed
  show ?thesis using p [OF refl] p [OF same] by blast
qed

text \<open>A dash and what follows it turn the last segment into text, which a longer text exceeds.\<close>

lemma split_dash:
  "\<exists>init p rest x. split_byte v (CHR ''.'') = init @ [p] \<and> split_byte (v @ CHR ''-'' # s) (CHR ''.'') = init @ (p @ CHR ''-'' # x) # rest"
proof (induction v)
  case Nil
  obtain x rest where "split_byte s (CHR ''.'') = x # rest" using split_byte_not_Nil by (metis neq_Nil_conv)
  then show ?case by (intro exI [of _ "[]"] exI [of _ rest] exI [of _ x]) simp
next
  case (Cons c v)
  then obtain init p rest x where i: "split_byte v (CHR ''.'') = init @ [p]"
    "split_byte (v @ CHR ''-'' # s) (CHR ''.'') = init @ (p @ CHR ''-'' # x) # rest" by blast
  show ?case
  proof (cases "c = CHR ''.''")
    case True
    then show ?thesis using i by (intro exI [of _ "[] # init"] exI [of _ p] exI [of _ rest] exI [of _ x]) simp
  next
    case False
    show ?thesis
    proof (cases init)
      case Nil
      then show ?thesis using False i by (intro exI [of _ "[]"] exI [of _ "c # p"] exI [of _ rest] exI [of _ x]) simp
    next
      case (Cons q qs)
      then show ?thesis using False i by (intro exI [of _ "(c # q) # qs"] exI [of _ p] exI [of _ rest] exI [of _ x]) simp
    qed
  qed
qed

lemma longer_is_greater: "p < p @ (c :: char) # x"
  by (induction p) simp_all

lemma vs_s_of [simp]: "vs_s (version_seg_of p) = p"
  by (simp add: version_seg_of_def)

lemma dash_is_newer: "compareVersions (v @ CHR ''-'' # s) v = 1"
proof -
  obtain init p rest x where i: "split_byte v (CHR ''.'') = init @ [p]"
    "split_byte (v @ CHR ''-'' # s) (CHR ''.'') = init @ (p @ CHR ''-'' # x) # rest" using split_dash by blast
  have t: "\<not> vs_num (version_seg_of (p @ CHR ''-'' # x))" by (simp add: version_seg_of_def allDigits_def ascii_digit_def)
  have c: "seg_cmp (version_seg_of (p @ CHR ''-'' # x)) (version_seg_of p) = 1"
    using t longer_is_greater [of p "CHR ''-''" x] less_le_not_le [of p "p @ CHR ''-'' # x"] by (auto simp: seg_cmp_def strings_Compare_def)
  show ?thesis
  proof (cases "v = []")
    case True
    then have "version_seg_of p = no_seg" "init = []" using i(1) by (simp_all add: version_seg_of_def no_seg_def)
    then show ?thesis using i(2) c True by (simp add: compareVersions_def versionSegs_def Let_def del: split_byte.simps)
  next
    case False
    then show ?thesis using i c by (simp add: compareVersions_def versionSegs_def compare_segs_common Let_def)
  qed
qed

text \<open>
  C38: the comparison takes a pre-release for newer than its release, whatever the version and the
  suffix: a mirror that holds the release is reported behind an upstream that also lists its
  pre-release, and one that holds only the pre-release is reported in sync when the release is out.
\<close>

theorem prerelease_reported_newer:
  assumes "mj_Versions md = [v @ CHR ''-'' # s, v]" and "mj_YankedVersions md = []"
  shows "dm_Status (compareOne (Inr md) \<lparr>lm_Name = m, lm_Versions = [v]\<rparr>) = Behind \<and>
    dm_NewerUpstream (compareOne (Inr md) \<lparr>lm_Name = m, lm_Versions = [v]\<rparr>) = [v @ CHR ''-'' # s] \<and>
    dm_Status (compareOne (Inr md) \<lparr>lm_Name = m, lm_Versions = [v @ CHR ''-'' # s]\<rparr>) = InSync \<and>
    vd_Status (ComputeForVersion v (Some md)) = Behind \<and> vd_Status (ComputeForVersion (v @ CHR ''-'' # s) (Some md)) = InSync"
proof -
  have "compareVersions v (v @ CHR ''-'' # s) = -1"
    using compareVersions_flip [of v "v @ CHR ''-'' # s"] dash_is_newer by simp
  then show ?thesis using assms dash_is_newer [of v s]
    by (simp add: compareOne_def ComputeForVersion_def Let_def pickLatest_def)
qed

lemma prerelease_reported_newer_witness:
  "dm_Status (compareOne (Inr \<lparr>mj_Versions = [''8.0.0-rc1'', ''8.0.0''], mj_YankedVersions = [], mj_Homepage = []\<rparr>)
     \<lparr>lm_Name = ''bazel'', lm_Versions = [''8.0.0'']\<rparr>) = Behind"
  using prerelease_reported_newer [of "\<lparr>mj_Versions = [''8.0.0-rc1'', ''8.0.0''], mj_YankedVersions = [], mj_Homepage = []\<rparr>" "''8.0.0''" "''rc1''" "''bazel''"]
  by simp

text \<open>
  Between a number of two digits, one of one digit and a text that starts with a digit the
  comparison runs in a circle, so that the latest of a list depends on the order of the list.
\<close>

theorem latest_depends_on_order:
  "compareVersions ''9'' ''10'' < 0 \<and> compareVersions ''10'' ''1a'' < 0 \<and> compareVersions ''1a'' ''9'' < 0 \<and>
   pickLatest [''9'', ''10'', ''1a''] = ''1a'' \<and> pickLatest [''10'', ''1a'', ''9''] = ''9''"
proof -
  have d: "ascii_digit (CHR ''0'')" "ascii_digit (CHR ''1'')" "ascii_digit (CHR ''9'')" "\<not> ascii_digit (CHR ''a'')"
    by (simp_all add: ascii_digit_def less_eq_char_def)
  have digits: "allDigits ''9''" "allDigits ''10''" "\<not> allDigits ''1a''" "takeWhile ascii_digit ''9'' = ''9''" "takeWhile ascii_digit ''10'' = ''10''"
    by (simp_all add: allDigits_def d)
  have n: "leading_number ''9'' = 9" "leading_number ''10'' = 10" by (simp_all add: leading_number_def d)
  have segs: "versionSegs ''9'' = [\<lparr>vs_n = 9, vs_s = ''9'', vs_num = True\<rparr>]" "versionSegs ''10'' = [\<lparr>vs_n = 10, vs_s = ''10'', vs_num = True\<rparr>]"
    "versionSegs ''1a'' = [\<lparr>vs_n = 0, vs_s = ''1a'', vs_num = False\<rparr>]"
    by (simp_all add: versionSegs_def version_seg_of_def digits n d)
  have l: "(9 :: 64 word) <s 10" by simp
  have o: "''10'' < ''1a''" "''1a'' < ''9''" by (simp_all add: less_char_def)
  have c: "compareVersions ''9'' ''10'' = -1" "compareVersions ''10'' ''1a'' = -1" "compareVersions ''1a'' ''9'' = -1"
    using l o by (simp_all add: compareVersions_def segs seg_cmp_def strings_Compare_def)
  then show ?thesis using compareVersions_flip [of "''10''" "''9''"] compareVersions_flip [of "''1a''" "''10''"] compareVersions_flip [of "''9''" "''1a''"]
    by (simp add: pickLatest_def)
qed

section \<open>The report\<close>

lemma drift_results_fold:
  "length rs = length ms \<Longrightarrow> set finished \<subseteq> {..<length ms} \<Longrightarrow>
    fold (\<lambda>i results. results[i := Some (g i)]) finished rs =
    map (\<lambda>i. if i \<in> set finished then Some (g i) else rs ! i) [0..<length ms]"
proof (induction finished arbitrary: rs)
  case Nil
  then show ?case by (simp add: map_nth flip: Nil.prems(1))
next
  case (Cons i finished)
  have "fold (\<lambda>i results. results[i := Some (g i)]) (i # finished) rs =
      map (\<lambda>j. if j \<in> set finished then Some (g j) else rs[i := Some (g i)] ! j) [0..<length ms]"
    using Cons.IH [of "rs[i := Some (g i)]"] Cons.prems by simp
  also have "\<dots> = map (\<lambda>j. if j \<in> set (i # finished) then Some (g j) else rs ! j) [0..<length ms]"
    using Cons.prems by (intro map_cong) (auto simp: nth_list_update)
  finally show ?case .
qed

lemma drift_results_done:
  assumes "set finished = {..<length ms}"
  shows "map the (drift_results metadata ms finished) = map (\<lambda>m. compareOne (metadata (lm_Name m)) m) ms"
proof -
  have "drift_results metadata ms finished = map (\<lambda>i. Some (compareOne (metadata (lm_Name (ms ! i))) (ms ! i))) [0..<length ms]"
    unfolding drift_results_def using drift_results_fold [of "replicate (length ms) None" ms finished "\<lambda>i. compareOne (metadata (lm_Name (ms ! i))) (ms ! i)"] assms
    by simp
  then show ?thesis by (intro nth_equalityI) simp_all
qed

text \<open>The number of modules with each status.\<close>

definition with_status :: "drift_status \<Rightarrow> module_drift list \<Rightarrow> int" where
  "with_status st ds = int (length (filter (\<lambda>d. dm_Status d = st) ds))"

lemma count_fold:
  "fold count_status ds s =
    s\<lparr>ds_InSync := ds_InSync s + with_status InSync ds, ds_Behind := ds_Behind s + with_status Behind ds,
      ds_YankedUpstream := ds_YankedUpstream s + with_status YankedUpstream ds, ds_LocalOnly := ds_LocalOnly s + with_status LocalOnly ds,
      ds_UpstreamError := ds_UpstreamError s + with_status UpstreamError ds\<rparr>"
proof (induction ds arbitrary: s)
  case Nil
  then show ?case by (simp add: with_status_def)
next
  case (Cons d ds)
  then show ?case by (cases "dm_Status d") (simp_all add: count_status_def with_status_def)
qed

lemma with_status_total:
  "with_status InSync ds + with_status Behind ds + with_status YankedUpstream ds + with_status LocalOnly ds + with_status UpstreamError ds = int (length ds)"
proof (induction ds)
  case (Cons d ds)
  then show ?case by (cases "dm_Status d") (simp_all add: with_status_def)
qed (simp add: with_status_def)

lemma compareOne_name [simp]: "dm_Name (compareOne up m) = lm_Name m"
  by (simp add: compareOne_def Let_def split: sum.splits)

lemma read_module_name [simp]: "lm_Name (read_module io dir name) = name"
  by (simp add: read_module_def Let_def)

lemma distinct_map_sort_key: "distinct (map f xs) \<Longrightarrow> distinct (map f (sort_key g xs))"
  by (simp add: distinct_map)

lemma distinct_mirror_modules:
  assumes "readMirrorModules io mirrorRoot = Inr ms" and "distinct (map fst (fst (di_ReadDir io (path_Join [mirrorRoot, ''modules'']))))"
  shows "distinct (map lm_Name ms)"
proof -
  obtain entries where e: "di_ReadDir io (path_Join [mirrorRoot, ''modules'']) = (entries, None)"
    "ms = sort_key lm_Name (map (\<lambda>e. read_module io (path_Join [mirrorRoot, ''modules'']) (fst e)) (filter snd entries))"
    using assms(1) by (auto simp: readMirrorModules_def Let_def split: prod.splits option.splits)
  have "distinct (map lm_Name (map (\<lambda>e. read_module io (path_Join [mirrorRoot, ''modules'']) (fst e)) (filter snd entries)))"
    using assms(2) e(1) distinct_map_filterI [of fst entries snd] by (simp add: comp_def)
  then show ?thesis unfolding e(2) by (metis distinct_map_sort_key)
qed

text \<open>
  C39: whatever the order in which the workers finish, the report has for every module of the mirror
  exactly the verdict on it alone, sorted by the urgency of the status and then by name, and its
  summary counts the modules of each status, which add up to the total.
\<close>

theorem drift_report_exact:
  assumes "readMirrorModules io mirrorRoot = Inr ms" and "distinct (map fst (fst (di_ReadDir io (path_Join [mirrorRoot, ''modules'']))))"
    and "\<And>n. set (finished n) = {..<n}"
  shows "\<exists>r. drift_Compute io c mirrorRoot url [] finished = Inr r \<and>
    mset (dp_Modules r) = mset (map (\<lambda>m. compareOne (GetMetadata c url (lm_Name m)) m) ms) \<and>
    sorted_wrt (\<lambda>a b. drift_less_key a < drift_less_key b) (dp_Modules r) \<and>
    dp_Summary r = \<lparr>ds_Total = int (length ms), ds_InSync = with_status InSync (dp_Modules r), ds_Behind = with_status Behind (dp_Modules r),
      ds_YankedUpstream = with_status YankedUpstream (dp_Modules r), ds_LocalOnly = with_status LocalOnly (dp_Modules r),
      ds_UpstreamError = with_status UpstreamError (dp_Modules r)\<rparr> \<and>
    ds_InSync (dp_Summary r) + ds_Behind (dp_Summary r) + ds_YankedUpstream (dp_Summary r) + ds_LocalOnly (dp_Summary r) +
      ds_UpstreamError (dp_Summary r) = ds_Total (dp_Summary r)"
proof -
  let ?ds = "map (\<lambda>m. compareOne (GetMetadata c url (lm_Name m)) m) ms"
  let ?r = "\<lparr>dp_UpstreamURL = url, dp_MirrorRoot = mirrorRoot, dp_Modules = sort_key drift_less_key ?ds, dp_Summary = summarize ?ds\<rparr>"
  have r: "drift_Compute io c mirrorRoot url [] finished = Inr ?r"
    using assms(1) drift_results_done [of "finished (length ms)" ms "GetMetadata c url"] assms(3) by (simp add: drift_Compute_def Let_def)
  have ws: "with_status st (sort_key drift_less_key ?ds) = with_status st ?ds" for st
    by (simp add: with_status_def filter_sort)
  have "map snd (map drift_less_key ?ds) = map lm_Name ms" by (simp add: drift_less_key_def)
  then have d: "distinct (map drift_less_key ?ds)" using distinct_mirror_modules [OF assms(1,2)] by (metis distinct_map)
  have "sorted_wrt (\<lambda>a b. a < b) (map drift_less_key (sort_key drift_less_key ?ds))"
    using distinct_map_sort_key [OF d, of drift_less_key] by (simp only: strict_sorted_iff sorted_sort_key simp_thms)
  then have s: "sorted_wrt (\<lambda>a b. drift_less_key a < drift_less_key b) (sort_key drift_less_key ?ds)" by (simp add: sorted_wrt_map)
  have "summarize ?ds = \<lparr>ds_Total = int (length ms), ds_InSync = with_status InSync ?ds, ds_Behind = with_status Behind ?ds,
      ds_YankedUpstream = with_status YankedUpstream ?ds, ds_LocalOnly = with_status LocalOnly ?ds, ds_UpstreamError = with_status UpstreamError ?ds\<rparr>"
    by (simp add: summarize_def count_fold)
  then show ?thesis using r s with_status_total [of ?ds] by (intro exI [of _ ?r]) (simp add: ws)
qed

definition one_module_io :: drift_io where
  "one_module_io = \<lparr>di_ReadDir = (\<lambda>p. if p = ''m/modules'' then ([(''a'', True), (''.DS_Store'', False)], None) else ([(''1.0'', True)], None)),
     di_ReadFile = (\<lambda>p. None)\<rparr>"

lemma one_module_read: "readMirrorModules one_module_io ''m'' = Inr [\<lparr>lm_Name = ''a'', lm_Versions = [''1.0'']\<rparr>]"
  by code_simp

lemma drift_report_exact_witness:
  "\<forall>c. \<exists>r. drift_Compute one_module_io c ''m'' ''u'' [] (\<lambda>n. rev [0..<n]) = Inr r \<and> ds_Total (dp_Summary r) = 1 \<and> size (mset (dp_Modules r)) = 1"
proof
  fix c
  have p: "path_Join [''m'', ''modules''] = ''m/modules''" by code_simp
  have d: "distinct (map fst (fst (di_ReadDir one_module_io (path_Join [''m'', ''modules'']))))" unfolding p by (simp add: one_module_io_def)
  have f: "set (rev [0..<n]) = {..<n}" for n by auto
  show "\<exists>r. drift_Compute one_module_io c ''m'' ''u'' [] (\<lambda>n. rev [0..<n]) = Inr r \<and> ds_Total (dp_Summary r) = 1 \<and> size (mset (dp_Modules r)) = 1"
    using drift_report_exact [OF one_module_read d f, of c "''u''"] by (elim exE) (simp only: list.map list.size mset.simps, fastforce)
qed

end
