(* ===== verification/MirrorVerify.thy ===== *)
theory MirrorVerify
  imports RegistryServer Extract Breaking
begin

text \<open>
  The checks over a mirror and its index (src/internal/verify). The disk is a parameter that does
  not change during a run; so are the store, the MODULE.bazel parser and the analysis of a module.
  A path is the text the code joins.
\<close>

section \<open>Findings\<close>

datatype severity = SevError | SevWarning | SevInfo

definition KindBlobIntegrity :: string where "KindBlobIntegrity = ''blob_integrity''"
definition KindBlobMissing :: string where "KindBlobMissing = ''blob_missing''"
definition KindSourceJSONSchema :: string where "KindSourceJSONSchema = ''source_json_schema''"
definition KindModuleBazelPresent :: string where "KindModuleBazelPresent = ''module_bazel_present''"
definition KindIndexMirrorAgreement :: string where "KindIndexMirrorAgreement = ''index_mirror_agreement''"
definition KindOrphanBlobs :: string where "KindOrphanBlobs = ''orphan_blobs''"
definition KindDeepReportMismatch :: string where "KindDeepReportMismatch = ''deep_report_mismatch''"
definition KindScipMissing :: string where "KindScipMissing = ''scip_missing''"

lemmas kind_defs = KindBlobIntegrity_def KindBlobMissing_def KindSourceJSONSchema_def KindModuleBazelPresent_def
  KindIndexMirrorAgreement_def KindOrphanBlobs_def KindDeepReportMismatch_def KindScipMissing_def

record verify_finding =
  vf_Kind :: string
  vf_Severity :: severity
  vf_Module :: string
  vf_Version :: string
  vf_Path :: string
  vf_Message :: string
  vf_Fix :: string
  vf_Details :: "(string \<times> json) list"

type_synonym module_id = "string \<times> string"

definition module_finding ::
  "string \<Rightarrow> severity \<Rightarrow> module_id \<Rightarrow> string \<Rightarrow> string \<Rightarrow> string \<Rightarrow> (string \<times> json) list \<Rightarrow> verify_finding" where
  "module_finding kind sev k path msg fix_it details =
     \<lparr>vf_Kind = kind, vf_Severity = sev, vf_Module = fst k, vf_Version = snd k, vf_Path = path, vf_Message = msg, vf_Fix = fix_it, vf_Details = details\<rparr>"

section \<open>The state that all checks read\<close>

record module_state =
  ms_Dir :: string
  ms_SourceErr :: string
  ms_Source :: "source_json option"
  ms_ModuleRaw :: bytes
  ms_ModuleErr :: string
  ms_ExpectedHex :: string

record blob_state =
  bl_Path :: string
  bl_Size :: int

datatype dir_error = NotExist | DirError string

record dir_entry =
  de_Name :: string
  de_IsDir :: bool
  de_Size :: int

text \<open>A failing read gives the text of its error, which is not empty in Go.\<close>

record verify_io =
  vi_ReadDir :: "string \<Rightarrow> dir_entry list \<times> dir_error option"
  vi_ReadFile :: "string \<Rightarrow> string + bytes"
  vi_SHA256 :: "bytes \<Rightarrow> bytes"
  vi_ParseModule :: "bytes \<Rightarrow> string option"

record verify_store =
  st_Versions :: "string + module_id list"
  st_ScipVersions :: "string + module_id list"
  st_GetReport :: "module_id \<Rightarrow> module_report option"

record verify_state =
  vs_Root :: string
  vs_Store :: "verify_store option"
  vs_Modules :: "(module_id \<times> module_state) list"
  vs_Blobs :: "(string \<times> blob_state) list"
  vs_Indexed :: "module_id list"
  vs_ScipIndexed :: "module_id list"
  vs_Referenced :: "string list"

definition sriToHex :: "string \<Rightarrow> string option" where
  "sriToHex sri =
     (if length sri \<le> 7 \<or> take 7 sri \<noteq> ''sha256-'' then None
      else (case base64_decode (drop 7 sri) of
          None \<Rightarrow> None
        | Some b \<Rightarrow> if length b \<noteq> 32 then None else Some (hex_text b)))"

text \<open>The file names of hexBlobRE.\<close>

definition hexBlob :: "string \<Rightarrow> bool" where
  "hexBlob name \<longleftrightarrow> length name = 64 \<and> list_all (\<lambda>c. in_range 48 57 c \<or> in_range 97 102 c) name"

definition loadModuleState :: "verify_io \<Rightarrow> string \<Rightarrow> module_state" where
  "loadModuleState io dir =
     (let src = (case vi_ReadFile io (path_Join [dir, ''source.json'']) of
                   Inl err \<Rightarrow> Inl err
                 | Inr raw \<Rightarrow> (case ParseSourceJSON raw of Inl err \<Rightarrow> Inl (fe_Text err) | Inr src \<Rightarrow> Inr src));
          mb = vi_ReadFile io (path_Join [dir, ''MODULE.bazel''])
      in \<lparr>ms_Dir = dir,
          ms_SourceErr = (case src of Inl err \<Rightarrow> err | Inr _ \<Rightarrow> []),
          ms_Source = (case src of Inl _ \<Rightarrow> None | Inr s \<Rightarrow> Some s),
          ms_ModuleRaw = (case mb of Inl _ \<Rightarrow> [] | Inr raw \<Rightarrow> raw),
          ms_ModuleErr = (case mb of Inl err \<Rightarrow> err | Inr _ \<Rightarrow> []),
          ms_ExpectedHex = (case src of Inl _ \<Rightarrow> [] | Inr s \<Rightarrow> (case sriToHex (sj_Integrity s) of Some h \<Rightarrow> h | None \<Rightarrow> []))\<rparr>)"

definition walk_version :: "verify_io \<Rightarrow> string \<Rightarrow> string \<Rightarrow> string \<Rightarrow> verify_state \<Rightarrow> verify_state" where
  "walk_version io moduleDir name version s =
     (let ms = loadModuleState io (path_Join [moduleDir, version])
      in s\<lparr>vs_Modules := AList.update (name, version) ms (vs_Modules s),
           vs_Referenced := (if ms_ExpectedHex ms \<noteq> [] then ms_ExpectedHex ms # vs_Referenced s else vs_Referenced s)\<rparr>)"

definition walk_module :: "verify_io \<Rightarrow> string \<Rightarrow> string \<Rightarrow> verify_state \<Rightarrow> verify_state" where
  "walk_module io modulesDir name s =
     (let moduleDir = path_Join [modulesDir, name]
      in case vi_ReadDir io moduleDir of
           (_, Some err) \<Rightarrow> s
         | (versions, None) \<Rightarrow> fold (\<lambda>e s. if de_IsDir e then walk_version io moduleDir name (de_Name e) s else s) versions s)"

definition walkModules :: "verify_io \<Rightarrow> string \<Rightarrow> verify_state \<Rightarrow> dir_error option \<times> verify_state" where
  "walkModules io modulesDir s =
     (case vi_ReadDir io modulesDir of
        (_, Some err) \<Rightarrow> (Some err, s)
      | (names, None) \<Rightarrow> (None, fold (\<lambda>e s. if de_IsDir e then walk_module io modulesDir (de_Name e) s else s) names s))"

definition list_blob :: "string \<Rightarrow> dir_entry \<Rightarrow> verify_state \<Rightarrow> verify_state" where
  "list_blob blobsDir e s =
     (if de_IsDir e \<or> \<not> hexBlob (de_Name e) then s
      else s\<lparr>vs_Blobs := AList.update (de_Name e) \<lparr>bl_Path = path_Join [blobsDir, de_Name e], bl_Size = de_Size e\<rparr> (vs_Blobs s)\<rparr>)"

definition listBlobs :: "verify_io \<Rightarrow> string \<Rightarrow> verify_state \<Rightarrow> dir_error option \<times> verify_state" where
  "listBlobs io blobsDir s =
     (case vi_ReadDir io blobsDir of
        (_, Some err) \<Rightarrow> (Some err, s)
      | (ents, None) \<Rightarrow> (None, fold (list_blob blobsDir) ents s))"

definition loadIndex :: "verify_store \<Rightarrow> verify_state \<Rightarrow> string option \<times> verify_state" where
  "loadIndex st s =
     (case st_Versions st of
        Inl err \<Rightarrow> (Some err, s)
      | Inr rows \<Rightarrow>
        (let s = s\<lparr>vs_Indexed := rows @ vs_Indexed s\<rparr>
         in case st_ScipVersions st of
              Inl err \<Rightarrow> (Some (''list scip versions: '' @ err), s)
            | Inr rows \<Rightarrow> (None, s\<lparr>vs_ScipIndexed := rows @ vs_ScipIndexed s\<rparr>)))"

datatype verify_run_error = RootRequired | OpenDB string | WalkModulesFailed string | ListBlobsFailed string | LoadIndexFailed string

definition buildState :: "verify_io \<Rightarrow> string \<Rightarrow> verify_store option \<Rightarrow> verify_run_error + verify_state" where
  "buildState io mirrorRoot st =
     (let s = \<lparr>vs_Root = mirrorRoot, vs_Store = st, vs_Modules = [], vs_Blobs = [], vs_Indexed = [], vs_ScipIndexed = [], vs_Referenced = []\<rparr>
      in case walkModules io (path_Join [mirrorRoot, ''modules'']) s of
           (Some (DirError err), _) \<Rightarrow> Inl (WalkModulesFailed err)
         | (_, s) \<Rightarrow>
           (case listBlobs io (path_Join [mirrorRoot, ''blobs'']) s of
              (Some (DirError err), _) \<Rightarrow> Inl (ListBlobsFailed err)
            | (_, s) \<Rightarrow>
              (case st of
                 None \<Rightarrow> Inr s
               | Some db \<Rightarrow> (case loadIndex db s of (Some err, _) \<Rightarrow> Inl (LoadIndexFailed err) | (None, s) \<Rightarrow> Inr s))))"

definition sortedModuleKeys :: "(module_id \<times> module_state) list \<Rightarrow> module_id list" where
  "sortedModuleKeys m = sort (map fst m)"

definition sortedBlobHexes :: "(string \<times> blob_state) list \<Rightarrow> string list" where
  "sortedBlobHexes m = sort (map fst m)"

section \<open>The checks\<close>

text \<open>The loop over sortedModuleKeys.\<close>

definition per_module :: "(module_id \<Rightarrow> module_state \<Rightarrow> verify_finding list) \<Rightarrow> verify_state \<Rightarrow> verify_finding list" where
  "per_module f s =
     concat (map (\<lambda>k. case map_of (vs_Modules s) k of None \<Rightarrow> [] | Some m \<Rightarrow> f k m) (sortedModuleKeys (vs_Modules s)))"

definition blob_findings :: "verify_io \<Rightarrow> verify_state \<Rightarrow> module_id \<Rightarrow> module_state \<Rightarrow> verify_finding list" where
  "blob_findings io s k m =
     (case ms_Source m of
        None \<Rightarrow> []
      | Some src \<Rightarrow>
        (let h = ms_ExpectedHex m; blobPath = ''blobs/'' @ h
         in if h = [] then []
            else (case map_of (vs_Blobs s) h of
                None \<Rightarrow> [module_finding KindBlobMissing SevError k blobPath (''blob '' @ h @ '' referenced by source.json is not on disk'')
                  ''re-ingest the module (bzlhub ingest ...) or restore the blob from backup''
                  [(''expected_sha256_hex'', JStr h), (''source_url'', JStr (sj_URL src))]]
              | Some blob \<Rightarrow>
                (case vi_ReadFile io (bl_Path blob) of
                   Inl err \<Rightarrow> [module_finding KindBlobIntegrity SevError k blobPath (''could not read blob '' @ h @ '': '' @ err)
                     ''check filesystem health; re-ingest if the file is unrecoverable''
                     [(''expected_sha256_hex'', JStr h), (''read_error'', JStr err)]]
                 | Inr b \<Rightarrow>
                   (if hex_text (vi_SHA256 io b) \<noteq> h
                    then [module_finding KindBlobIntegrity SevError k blobPath ''blob hash mismatch (computed != source.json integrity)''
                      ''re-ingest with `bzlhub ingest --from <upstream> <m>@<v> --mirror-to <root>`, or restore from backup''
                      [(''expected_sha256_hex'', JStr h), (''actual_sha256_hex'', JStr (hex_text (vi_SHA256 io b)))]]
                    else [])))))"

definition checkBlobIntegrity :: "verify_io \<Rightarrow> verify_state \<Rightarrow> verify_finding list" where
  "checkBlobIntegrity io s = per_module (blob_findings io s) s"

definition module_file_path :: "module_id \<Rightarrow> string \<Rightarrow> string" where
  "module_file_path k f = ''modules/'' @ fst k @ ''/'' @ snd k @ f"

definition schema_findings :: "module_id \<Rightarrow> module_state \<Rightarrow> source_json \<Rightarrow> verify_finding list" where
  "schema_findings k m src =
     (let path = module_file_path k ''/source.json''
      in (if sj_Type src \<noteq> [] \<and> sj_Type src \<noteq> ''archive''
          then [module_finding KindSourceJSONSchema SevError k path
            (''unsupported source.json type '' @ quoted (sj_Type src) @ '' (bzlhub only handles archive)'')
            ''this module uses a non-archive source.json (git_repository, etc.); bzlhub can't mirror it currently'' [(''type'', JStr (sj_Type src))]]
          else []) @
         (if trim_space (sj_URL src) = []
          then [module_finding KindSourceJSONSchema SevError k path ''source.json has no url''
            ''re-ingest from upstream; url is required for archive-type sources'' []]
          else []) @
         (if trim_space (sj_Integrity src) = []
          then [module_finding KindSourceJSONSchema SevError k path ''source.json has no integrity''
            ''re-ingest from upstream; SRI integrity is required to verify blob contents'' []]
          else if \<not> has_prefix (sj_Integrity src) ''sha256-''
          then [module_finding KindSourceJSONSchema SevError k path (''integrity '' @ quoted (sj_Integrity src) @ '' is not in sha256-<base64> form'')
            ''bzlhub currently supports only sha256 SRI'' [(''integrity'', JStr (sj_Integrity src))]]
          else if ms_ExpectedHex m = []
          then [module_finding KindSourceJSONSchema SevError k path
            (''integrity '' @ quoted (sj_Integrity src) @ '' malformed (base64 invalid or not 32 bytes)'')
            ''re-ingest from upstream to repair the integrity field'' [(''integrity'', JStr (sj_Integrity src))]]
          else []))"

definition source_findings :: "module_id \<Rightarrow> module_state \<Rightarrow> verify_finding list" where
  "source_findings k m =
     (if ms_SourceErr m \<noteq> []
      then [module_finding KindSourceJSONSchema SevError k (module_file_path k ''/source.json'')
        (''source.json unreadable or unparseable: '' @ ms_SourceErr m) ''re-ingest the module, or fix the file on disk'' []]
      else (case ms_Source m of None \<Rightarrow> [] | Some src \<Rightarrow> schema_findings k m src))"

definition checkSourceJSONSchema :: "verify_state \<Rightarrow> verify_finding list" where
  "checkSourceJSONSchema s = per_module source_findings s"

definition module_bazel_findings :: "verify_io \<Rightarrow> module_id \<Rightarrow> module_state \<Rightarrow> verify_finding list" where
  "module_bazel_findings io k m =
     (let path = module_file_path k ''/MODULE.bazel''
      in if ms_ModuleErr m \<noteq> []
         then [module_finding KindModuleBazelPresent SevError k path (''MODULE.bazel missing or unreadable: '' @ ms_ModuleErr m)
           ''re-ingest the module from upstream; MODULE.bazel is required for Bazel resolution'' []]
         else (case vi_ParseModule io (ms_ModuleRaw m) of
             Some err \<Rightarrow> [module_finding KindModuleBazelPresent SevError k path (''MODULE.bazel does not parse: '' @ err)
               ''re-ingest the module from upstream; the on-disk file is corrupt'' [(''parse_error'', JStr err)]]
           | None \<Rightarrow> []))"

definition checkModuleBazelPresent :: "verify_io \<Rightarrow> verify_state \<Rightarrow> verify_finding list" where
  "checkModuleBazelPresent io s = per_module (module_bazel_findings io) s"

text \<open>The index is a set of keys; the loop over it is followed by a sort.\<close>

definition checkIndexMirrorAgreement :: "verify_state \<Rightarrow> verify_finding list" where
  "checkIndexMirrorAgreement s =
     (case vs_Store s of
        None \<Rightarrow> []
      | Some _ \<Rightarrow>
        map (\<lambda>k. module_finding KindIndexMirrorAgreement SevWarning k [] ''present in index but missing from mirror tree''
            ''re-ingest the module, or delete the orphaned index row'' [(''side'', JStr ''index-only'')])
          (sort (filter (\<lambda>k. map_of (vs_Modules s) k = None) (remdups (vs_Indexed s)))) @
        map (\<lambda>k. module_finding KindIndexMirrorAgreement SevWarning k (module_file_path k []) ''present in mirror tree but missing from index''
            ''run `bzlhub ingest <module-dir>` to register the on-disk version into the index'' [(''side'', JStr ''mirror-only'')])
          (sort (filter (\<lambda>k. k \<notin> set (vs_Indexed s)) (map fst (vs_Modules s)))))"

definition blob_finding :: "string \<Rightarrow> string \<Rightarrow> string \<Rightarrow> (string \<times> json) list \<Rightarrow> verify_finding" where
  "blob_finding name msg fix_it details =
     \<lparr>vf_Kind = KindOrphanBlobs, vf_Severity = SevInfo, vf_Module = [], vf_Version = [], vf_Path = ''blobs/'' @ name,
      vf_Message = msg, vf_Fix = fix_it, vf_Details = details\<rparr>"

definition checkOrphanBlobs :: "verify_io \<Rightarrow> verify_state \<Rightarrow> verify_finding list" where
  "checkOrphanBlobs io s =
     map (\<lambda>h. blob_finding h ''blob not referenced by any source.json''
         ''safe to delete; consider `bzlhub mirror prune` once that exists, or `rm` directly''
         [(''size_bytes'', JNum (int_text (case map_of (vs_Blobs s) h of Some b \<Rightarrow> bl_Size b | None \<Rightarrow> 0))), (''sha256_hex'', JStr h)])
       (filter (\<lambda>h. h \<notin> set (vs_Referenced s)) (sortedBlobHexes (vs_Blobs s))) @
     (case vi_ReadDir io (path_Join [vs_Root s, ''blobs'']) of
        (_, Some err) \<Rightarrow> []
      | (ents, None) \<Rightarrow>
        map (\<lambda>e. blob_finding (de_Name e) ''non-canonical file in blobs/ (not a content-addressed sha256-hex name)''
            ''rename or delete; bzlhub's mirror writer only produces lowercase-hex sha256 filenames''
            [(''size_bytes'', JNum (int_text (de_Size e))), (''filename'', JStr (de_Name e))])
          (filter (\<lambda>e. \<not> de_IsDir e \<and> \<not> hexBlob (de_Name e) \<and> \<not> (length (de_Name e) > 0 \<and> hd (de_Name e) = CHR ''.'')) ents))"

definition checkScipPresent :: "verify_state \<Rightarrow> verify_finding list" where
  "checkScipPresent s =
     (case vs_Store s of
        None \<Rightarrow> []
      | Some _ \<Rightarrow>
        map (\<lambda>k. module_finding KindScipMissing SevWarning k [] ''module is indexed but has no SCIP blob''
            ''re-ingest the module to backfill its SCIP index (scip-bazel runs as part of ingest)'' [])
          (sort (filter (\<lambda>k. k \<notin> set (vs_ScipIndexed s)) (remdups (vs_Indexed s)))))"

section \<open>The deep check\<close>

text \<open>What it takes besides: a temporary directory, the archive readers and the analysis.\<close>

record deep_io =
  dv_MkdirTemp :: "module_id \<Rightarrow> string + string"
  dv_Seek :: "string \<Rightarrow> string option"
  dv_Disk :: extract_io
  dv_Gunzip :: "bytes \<Rightarrow> string + (tar_entry list \<times> string option)"
  dv_OpenZip :: "bytes \<Rightarrow> string + zip_entry list"
  dv_Analyze :: "string \<Rightarrow> extract_effect list \<Rightarrow> string + module_report"
  dv_Order :: range_order

definition extract_text :: "extract_error \<Rightarrow> string" where
  "extract_text e =
     (case e of
        MkdirDest err \<Rightarrow> ''mkdir dest: '' @ err
      | AbsFailed err \<Rightarrow> err
      | GzipFailed err \<Rightarrow> ''gzip: '' @ err
      | TarHeader err \<Rightarrow> ''tar header: '' @ err
      | ZipBuffer err \<Rightarrow> ''buffer zip: '' @ err
      | ZipOpen err \<Rightarrow> ''open zip: '' @ err
      | AbsoluteEntry n \<Rightarrow> ''entry '' @ quoted n @ '' is absolute''
      | ParentSegment n \<Rightarrow> ''entry '' @ quoted n @ '' has parent-dir segment''
      | EscapesDest n \<Rightarrow> ''entry '' @ quoted n @ '' escapes dest dir''
      | MkdirFailed p err \<Rightarrow> ''mkdir '' @ p @ '': '' @ err
      | EntryOpen n err \<Rightarrow> ''open zip entry '' @ n @ '': '' @ err
      | OpenFileFailed p err \<Rightarrow> ''open '' @ p @ '': '' @ err
      | WriteFailed p err \<Rightarrow> ''write '' @ p @ '': '' @ err
      | BudgetExhausted n \<Rightarrow> ''archive: extraction exceeded max bytes: budget exhausted at entry '' @ quoted n
      | ExtractTooLarge n \<Rightarrow> ''archive: extraction exceeded max bytes: '' @ n)"

definition analyzeBlob :: "verify_io \<Rightarrow> deep_io \<Rightarrow> string \<Rightarrow> string \<Rightarrow> string \<Rightarrow> string + module_report" where
  "analyzeBlob io dio blobPath stripPrefix stagingDir =
     (case vi_ReadFile io blobPath of
        Inl err \<Rightarrow> Inl (''open '' @ blobPath @ '': '' @ err)
      | Inr b \<Rightarrow>
        (case dv_Seek dio blobPath of
           Some err \<Rightarrow> Inl err
         | None \<Rightarrow>
           (case (if take 2 b = [CHR 0x1F, CHR 0x8B]
                  then (case ExtractTarGz (dv_Disk dio) (dv_Gunzip dio b) stagingDir stripPrefix MaxExtractBytes of
                      ((_, Some e), effs) \<Rightarrow> Inl (''extract tar.gz: '' @ extract_text e) | ((_, None), effs) \<Rightarrow> Inr effs)
                  else if take 2 b = [CHR 0x50, CHR 0x4B]
                  then (case ExtractZip (dv_Disk dio) (dv_OpenZip dio) (b, None) stagingDir stripPrefix MaxExtractBytes of
                      ((_, Some e), effs) \<Rightarrow> Inl (''extract zip: '' @ extract_text e) | ((_, None), effs) \<Rightarrow> Inr effs)
                  else Inl (''unknown archive format (magic '' @ hex_text (take 4 b) @ '')'')) of
              Inl err \<Rightarrow> Inl err
            | Inr effs \<Rightarrow>
              (case dv_Analyze dio stagingDir effs of
                 Inr r \<Rightarrow> Inr r
               | Inl err \<Rightarrow>
                 (if contains_sub err ''MODULE.bazel''
                  then Inl (''assay analyze (no MODULE.bazel found '' @ [CHR 0xE2, CHR 0x80, CHR 0x94] @ '' strip_prefix mismatch?): '' @ err)
                  else Inl (''assay analyze: '' @ err))))))"

definition isEmptyDiff :: "diff_report \<Rightarrow> bool" where
  "isEmptyDiff d \<longleftrightarrow>
     length (rd_Added (dr_Rules d)) + length (rd_Removed (dr_Rules d)) + length (rd_Changed (dr_Rules d)) +
     (length (pd_Added (dr_Providers d)) + length (pd_Removed (dr_Providers d)) + length (pd_Changed (dr_Providers d))) +
     (length (nd_Added (dr_Macros d)) + length (nd_Removed (dr_Macros d))) +
     (length (nd_Added (dr_Aspects d)) + length (nd_Removed (dr_Aspects d))) +
     (length (nd_Added (dr_Toolchains d)) + length (nd_Removed (dr_Toolchains d))) +
     (length (rd_Added (dr_RepositoryRules d)) + length (rd_Removed (dr_RepositoryRules d)) + length (rd_Changed (dr_RepositoryRules d))) +
     (length (md_Added (dr_ModuleExtensions d)) + length (md_Removed (dr_ModuleExtensions d)) + length (md_Changed (dr_ModuleExtensions d))) +
     (length (dd_Added (dr_BazelDeps d)) + length (dd_Removed (dr_BazelDeps d)) + length (dd_Changed (dr_BazelDeps d))) +
     (if dr_CompatibilityLevel d \<noteq> None \<or> dr_Hermeticity d \<noteq> None then 1 else 0) = (0 :: nat)"

definition deep_findings :: "verify_io \<Rightarrow> deep_io \<Rightarrow> verify_store \<Rightarrow> verify_state \<Rightarrow> module_id \<Rightarrow> module_state \<Rightarrow> verify_finding list" where
  "deep_findings io dio st s k m =
        (if k \<notin> set (vs_Indexed s) \<or> ms_ExpectedHex m = [] then []
         else (case (map_of (vs_Blobs s) (ms_ExpectedHex m), st_GetReport st k, ms_Source m) of
             (Some blob, Some stored, Some src) \<Rightarrow>
               (case dv_MkdirTemp dio k of
                  Inl err \<Rightarrow> [module_finding KindDeepReportMismatch SevError k [] (''could not create extraction tempdir: '' @ err) [] []]
                | Inr tmp \<Rightarrow>
                  (case analyzeBlob io dio (bl_Path blob) (sj_StripPrefix src) tmp of
                     Inl err \<Rightarrow> [module_finding KindDeepReportMismatch SevError k (''blobs/'' @ ms_ExpectedHex m) (''could not re-analyze blob: '' @ err)
                       ''verify the blob is a valid archive; re-ingest if not'' []]
                   | Inr analyzed \<Rightarrow>
                     (let analyzed = analyzed\<lparr>mr_Name := mr_Name stored\<rparr>;
                          analyzed = (if mr_Version analyzed = [] then analyzed\<lparr>mr_Version := mr_Version stored\<rparr> else analyzed);
                          d = Compute (dv_Order dio) stored analyzed
                      in if isEmptyDiff d then []
                         else [module_finding KindDeepReportMismatch SevError k (path_Join [''modules'', fst k, snd k])
                           ''stored ModuleReport does not match freshly-assayed report''
                           ''re-ingest with `bzlhub ingest --from <upstream> <m>@<v>` to refresh the stored report''
                           [(''rules_added'', JNum (nat_text (length (rd_Added (dr_Rules d))))),
                            (''rules_removed'', JNum (nat_text (length (rd_Removed (dr_Rules d))))),
                            (''rules_changed'', JNum (nat_text (length (rd_Changed (dr_Rules d))))),
                            (''providers_added'', JNum (nat_text (length (pd_Added (dr_Providers d))))),
                            (''providers_removed'', JNum (nat_text (length (pd_Removed (dr_Providers d))))),
                            (''providers_changed'', JNum (nat_text (length (pd_Changed (dr_Providers d))))),
                            (''macros_added'', JNum (nat_text (length (nd_Added (dr_Macros d))))),
                            (''macros_removed'', JNum (nat_text (length (nd_Removed (dr_Macros d))))),
                            (''breaking'', JNum (nat_text (length (dr_Breaking d))))]])))
           | _ \<Rightarrow> []))"

definition checkDeep :: "verify_io \<Rightarrow> deep_io \<Rightarrow> verify_state \<Rightarrow> verify_finding list" where
  "checkDeep io dio s =
     (case vs_Store s of
        None \<Rightarrow> []
      | Some st \<Rightarrow> per_module (deep_findings io dio st s) s)"

section \<open>A run\<close>

record verify_options =
  vo_MirrorRoot :: string
  vo_DBPath :: string
  vo_Deep :: bool
  vo_Checks :: "string list"

record verify_report =
  vr_MirrorRoot :: string
  vr_DBPath :: string
  vr_ModulesExamined :: nat
  vr_BlobsExamined :: nat
  vr_Findings :: "verify_finding list"
  vr_Errors :: nat
  vr_Warnings :: nat
  vr_Info :: nat

definition allChecks :: "string list" where
  "allChecks = [KindBlobIntegrity, KindSourceJSONSchema, KindModuleBazelPresent, KindIndexMirrorAgreement, KindOrphanBlobs, KindScipMissing]"

definition enabledChecks :: "string list \<Rightarrow> string \<Rightarrow> bool" where
  "enabledChecks req k \<longleftrightarrow> (if req = [] then k \<in> set allChecks else k \<in> set req)"

definition runCheck :: "verify_io \<Rightarrow> string \<Rightarrow> verify_state \<Rightarrow> verify_finding list" where
  "runCheck io k s =
     (if k = KindBlobIntegrity then checkBlobIntegrity io s
      else if k = KindSourceJSONSchema then checkSourceJSONSchema s
      else if k = KindModuleBazelPresent then checkModuleBazelPresent io s
      else if k = KindIndexMirrorAgreement then checkIndexMirrorAgreement s
      else if k = KindOrphanBlobs then checkOrphanBlobs io s
      else if k = KindScipMissing then checkScipPresent s
      else [])"

definition sevRank :: "severity \<Rightarrow> nat" where
  "sevRank sev = (case sev of SevError \<Rightarrow> 0 | SevWarning \<Rightarrow> 1 | SevInfo \<Rightarrow> 2)"

definition finding_key :: "verify_finding \<Rightarrow> nat \<times> string \<times> string \<times> string \<times> string" where
  "finding_key f = (sevRank (vf_Severity f), vf_Kind f, vf_Module f, vf_Version f, vf_Path f)"

definition sortFindings :: "verify_finding list \<Rightarrow> verify_finding list" where
  "sortFindings fs = sort_key finding_key fs"

definition count_finding :: "verify_finding \<Rightarrow> verify_report \<Rightarrow> verify_report" where
  "count_finding f r =
     (case vf_Severity f of
        SevError \<Rightarrow> r\<lparr>vr_Errors := vr_Errors r + 1\<rparr>
      | SevWarning \<Rightarrow> r\<lparr>vr_Warnings := vr_Warnings r + 1\<rparr>
      | SevInfo \<Rightarrow> r\<lparr>vr_Info := vr_Info r + 1\<rparr>)"

definition run_Verify ::
  "verify_io \<Rightarrow> deep_io \<Rightarrow> (string \<Rightarrow> string + verify_store) \<Rightarrow> verify_options \<Rightarrow> verify_run_error + verify_report" where
  "run_Verify io dio open_db opts =
     (if vo_MirrorRoot opts = [] then Inl RootRequired
      else (case (if vo_DBPath opts \<noteq> [] then map_sum id Some (open_db (vo_DBPath opts)) else Inr None) of
          Inl err \<Rightarrow> Inl (OpenDB err)
        | Inr st \<Rightarrow>
          (case buildState io (vo_MirrorRoot opts) st of
             Inl err \<Rightarrow> Inl err
           | Inr s \<Rightarrow>
             (let findings = concat (map (\<lambda>k. if enabledChecks (vo_Checks opts) k then runCheck io k s else []) allChecks) @
                             (if vo_Deep opts then checkDeep io dio s else []);
                  sorted = sortFindings findings
              in Inr (fold count_finding sorted
                   \<lparr>vr_MirrorRoot = vo_MirrorRoot opts, vr_DBPath = vo_DBPath opts, vr_ModulesExamined = length (vs_Modules s),
                    vr_BlobsExamined = length (vs_Blobs s), vr_Findings = sorted, vr_Errors = 0, vr_Warnings = 0, vr_Info = 0\<rparr>)))))"

section \<open>What is on the disk\<close>

definition version_dir_path :: "string \<Rightarrow> module_id \<Rightarrow> string" where
  "version_dir_path mirrorRoot k = path_Join [path_Join [path_Join [mirrorRoot, ''modules''], fst k], snd k]"

definition version_listed :: "verify_io \<Rightarrow> string \<Rightarrow> string \<Rightarrow> string \<Rightarrow> bool" where
  "version_listed io mds n v \<longleftrightarrow> snd (vi_ReadDir io (path_Join [mds, n])) = None \<and>
     (\<exists>e \<in> set (fst (vi_ReadDir io (path_Join [mds, n]))). de_IsDir e \<and> de_Name e = v)"

text \<open>The module versions that the walk finds.\<close>

definition stored_versions :: "verify_io \<Rightarrow> string \<Rightarrow> module_id set" where
  "stored_versions io mirrorRoot =
     {(n, v). snd (vi_ReadDir io (path_Join [mirrorRoot, ''modules''])) = None \<and>
        (\<exists>e \<in> set (fst (vi_ReadDir io (path_Join [mirrorRoot, ''modules'']))). de_IsDir e \<and> de_Name e = n) \<and>
        version_listed io (path_Join [mirrorRoot, ''modules'']) n v}"

definition stored_blob :: "verify_io \<Rightarrow> string \<Rightarrow> string \<Rightarrow> bool" where
  "stored_blob io mirrorRoot h \<longleftrightarrow> hexBlob h \<and> snd (vi_ReadDir io (path_Join [mirrorRoot, ''blobs''])) = None \<and>
     (\<exists>e \<in> set (fst (vi_ReadDir io (path_Join [mirrorRoot, ''blobs'']))). \<not> de_IsDir e \<and> de_Name e = h)"

text \<open>A version that a client of the mirror can use: what its files must be.\<close>

definition usable_version :: "verify_io \<Rightarrow> string \<Rightarrow> module_id \<Rightarrow> bool" where
  "usable_version io mirrorRoot k \<longleftrightarrow>
     (\<exists>raw src mb h b. vi_ReadFile io (path_Join [version_dir_path mirrorRoot k, ''source.json'']) = Inr raw \<and> ParseSourceJSON raw = Inr src \<and>
        sj_Type src \<in> {[], ''archive''} \<and> trim_space (sj_URL src) \<noteq> [] \<and> sriToHex (sj_Integrity src) = Some h \<and>
        stored_blob io mirrorRoot h \<and> vi_ReadFile io (path_Join [path_Join [mirrorRoot, ''blobs''], h]) = Inr b \<and> hex_text (vi_SHA256 io b) = h \<and>
        vi_ReadFile io (path_Join [version_dir_path mirrorRoot k, ''MODULE.bazel'']) = Inr mb \<and> vi_ParseModule io mb = None)"

lemma walk_versions:
  "map_of (vs_Modules (fold (\<lambda>e s. if de_IsDir e then walk_version io md name (de_Name e) s else s) es s)) (n, v) =
    (if n = name \<and> (\<exists>e \<in> set es. de_IsDir e \<and> de_Name e = v) then Some (loadModuleState io (path_Join [md, v]))
     else map_of (vs_Modules s) (n, v))"
  by (induction es arbitrary: s) (auto simp: walk_version_def Let_def update_conv')

lemma walk_versions_blobs [simp]:
  "vs_Blobs (fold (\<lambda>e s. if de_IsDir e then walk_version io md name (de_Name e) s else s) es s) = vs_Blobs s"
  by (induction es arbitrary: s) (auto simp: walk_version_def Let_def)

lemma walk_module_entry:
  "map_of (vs_Modules (walk_module io mds name s)) (n, v) =
    (if n = name \<and> version_listed io mds n v then Some (loadModuleState io (path_Join [path_Join [mds, n], v])) else map_of (vs_Modules s) (n, v))"
  by (auto simp: walk_module_def version_listed_def Let_def walk_versions split: prod.splits option.splits)

lemma walk_module_blobs [simp]: "vs_Blobs (walk_module io mds name s) = vs_Blobs s"
  by (auto simp: walk_module_def Let_def split: prod.splits option.splits)

lemma walk_names:
  "map_of (vs_Modules (fold (\<lambda>e s. if de_IsDir e then walk_module io mds (de_Name e) s else s) es s)) (n, v) =
    (if (\<exists>e \<in> set es. de_IsDir e \<and> de_Name e = n) \<and> version_listed io mds n v
     then Some (loadModuleState io (path_Join [path_Join [mds, n], v])) else map_of (vs_Modules s) (n, v))"
proof (induction es arbitrary: s)
  case (Cons e es)
  show ?case unfolding fold_simps Cons.IH
    by (cases "de_IsDir e"; cases "version_listed io mds n v"; cases "\<exists>e \<in> set es. de_IsDir e \<and> de_Name e = n") (auto simp: walk_module_entry)
qed simp

lemma walk_names_blobs [simp]:
  "vs_Blobs (fold (\<lambda>e s. if de_IsDir e then walk_module io mds (de_Name e) s else s) es s) = vs_Blobs s"
  by (induction es arbitrary: s) auto

lemma list_blob_entry:
  "map_of (vs_Blobs (list_blob bd e s)) h =
    (if hexBlob h \<and> \<not> de_IsDir e \<and> de_Name e = h then Some \<lparr>bl_Path = path_Join [bd, h], bl_Size = de_Size e\<rparr> else map_of (vs_Blobs s) h)"
  by (auto simp: list_blob_def update_conv')

lemma list_blobs_modules [simp]: "vs_Modules (fold (list_blob bd) es s) = vs_Modules s"
  by (induction es arbitrary: s) (simp_all add: list_blob_def)

lemma list_blobs_fold:
  "map_of (vs_Blobs (fold (list_blob bd) es s)) h \<noteq> None \<longleftrightarrow>
    map_of (vs_Blobs s) h \<noteq> None \<or> hexBlob h \<and> (\<exists>e \<in> set es. \<not> de_IsDir e \<and> de_Name e = h)"
proof (induction es arbitrary: s)
  case (Cons e es)
  show ?case unfolding fold_simps Cons.IH list_blob_entry by auto
qed simp

lemma list_blobs_path:
  "(\<And>b. map_of (vs_Blobs s) h = Some b \<Longrightarrow> bl_Path b = path_Join [bd, h]) \<Longrightarrow>
   map_of (vs_Blobs (fold (list_blob bd) es s)) h = Some b \<Longrightarrow> bl_Path b = path_Join [bd, h]"
proof (induction es arbitrary: s)
  case (Cons e es)
  show ?case
    by (rule Cons.IH [OF _ Cons.prems(2) [unfolded fold_simps]])
      (use Cons.prems(1) in \<open>auto simp: list_blob_entry split: if_splits\<close>)
qed simp

lemma loadIndex_keeps:
  "loadIndex db s = (err, s') \<Longrightarrow> vs_Modules s' = vs_Modules s \<and> vs_Blobs s' = vs_Blobs s"
  by (auto simp: loadIndex_def Let_def split: sum.splits)

lemma buildState_Inr:
  assumes "buildState io mirrorRoot st = Inr s"
  shows "map_of (vs_Modules s) k = (if k \<in> stored_versions io mirrorRoot then Some (loadModuleState io (version_dir_path mirrorRoot k)) else None)"
    and "map_of (vs_Blobs s) h \<noteq> None \<longleftrightarrow> stored_blob io mirrorRoot h"
    and "map_of (vs_Blobs s) h = Some b \<Longrightarrow> bl_Path b = path_Join [path_Join [mirrorRoot, ''blobs''], h]"
proof -
  let ?md = "path_Join [mirrorRoot, ''modules'']" and ?bd = "path_Join [mirrorRoot, ''blobs'']"
  let ?s0 = "\<lparr>vs_Root = mirrorRoot, vs_Store = st, vs_Modules = [], vs_Blobs = [], vs_Indexed = [], vs_ScipIndexed = [], vs_Referenced = []\<rparr> :: verify_state"
  obtain e1 s1 e2 s2 where w: "walkModules io ?md ?s0 = (e1, s1)" "listBlobs io ?bd s1 = (e2, s2)" by (metis prod.exhaust)
  have s: "vs_Modules s = vs_Modules s2 \<and> vs_Blobs s = vs_Blobs s2"
    using assms loadIndex_keeps by (auto simp: buildState_def Let_def w split: option.splits dir_error.splits prod.splits)
  have m: "vs_Blobs s1 = [] \<and> map_of (vs_Modules s1) (n, v) =
      (if (n, v) \<in> stored_versions io mirrorRoot then Some (loadModuleState io (version_dir_path mirrorRoot (n, v))) else None)" for n v
    using w(1) by (auto simp: walkModules_def walk_names stored_versions_def version_dir_path_def split: prod.splits option.splits)
  have none: "vs_Blobs s1 = []" using m [of "[]" "[]"] by simp
  consider (failed) err ents where "vi_ReadDir io ?bd = (ents, Some err)" "s2 = s1"
    | (read) ents where "vi_ReadDir io ?bd = (ents, None)" "s2 = fold (list_blob ?bd) ents s1"
    using w(2) by (auto simp: listBlobs_def split: prod.splits option.splits)
  then have b: "vs_Modules s2 = vs_Modules s1 \<and> (map_of (vs_Blobs s2) h \<noteq> None \<longleftrightarrow> stored_blob io mirrorRoot h) \<and>
      (\<forall>b. map_of (vs_Blobs s2) h = Some b \<longrightarrow> bl_Path b = path_Join [?bd, h])" for h
  proof cases
    case failed
    then show ?thesis using none by (simp add: stored_blob_def)
  next
    case read
    then show ?thesis using none list_blobs_fold [of ?bd ents s1 h] list_blobs_path [of s1 h ?bd ents] by (auto simp: stored_blob_def)
  qed
  show "map_of (vs_Modules s) k = (if k \<in> stored_versions io mirrorRoot then Some (loadModuleState io (version_dir_path mirrorRoot k)) else None)"
    using m [of "fst k" "snd k"] b s by simp
  show "map_of (vs_Blobs s) h \<noteq> None \<longleftrightarrow> stored_blob io mirrorRoot h" using b s by simp
  show "bl_Path b = path_Join [?bd, h]" if "map_of (vs_Blobs s) h = Some b"
    using that s b by simp
qed

section \<open>What a clean report says\<close>

lemma count_findings:
  "vr_Errors (fold count_finding fs r) = vr_Errors r + length (filter (\<lambda>f. vf_Severity f = SevError) fs)"
  "vr_Warnings (fold count_finding fs r) = vr_Warnings r + length (filter (\<lambda>f. vf_Severity f = SevWarning) fs)"
  "vr_Info (fold count_finding fs r) = vr_Info r + length (filter (\<lambda>f. vf_Severity f = SevInfo) fs)"
  "vr_Findings (fold count_finding fs r) = vr_Findings r"
  "vr_ModulesExamined (fold count_finding fs r) = vr_ModulesExamined r"
  by (induction fs arbitrary: r) (auto simp: count_finding_def split: severity.splits)

lemma runs_all: "concat (map (\<lambda>k. if enabledChecks [] k then runCheck io k s else []) allChecks) =
    checkBlobIntegrity io s @ checkSourceJSONSchema s @ checkModuleBazelPresent io s @
    checkIndexMirrorAgreement s @ checkOrphanBlobs io s @ checkScipPresent s"
  by (simp add: allChecks_def enabledChecks_def runCheck_def kind_defs)

lemma only_warnings:
  "f \<in> set (checkIndexMirrorAgreement s) \<or> f \<in> set (checkOrphanBlobs io s) \<or> f \<in> set (checkScipPresent s) \<Longrightarrow> vf_Severity f \<noteq> SevError"
  by (auto simp: checkIndexMirrorAgreement_def checkOrphanBlobs_def checkScipPresent_def module_finding_def blob_finding_def
      split: option.splits prod.splits)

lemma in_per_module: "f \<in> set (per_module g s) \<longleftrightarrow> (\<exists>k m. map_of (vs_Modules s) k = Some m \<and> f \<in> set (g k m))"
proof -
  have "set (sortedModuleKeys (vs_Modules s)) = {k. map_of (vs_Modules s) k \<noteq> None}"
    by (auto simp: sortedModuleKeys_def map_of_eq_None_iff)
  then show ?thesis by (fastforce simp: per_module_def split: option.splits)
qed

lemma per_module_Nil: "per_module g s = [] \<longleftrightarrow> (\<forall>k m. map_of (vs_Modules s) k = Some m \<longrightarrow> g k m = [])"
  using in_per_module [of _ g s] by (metis list.set_cases list.set_intros(1) neq_Nil_conv)

lemma blob_findings_Nil:
  "blob_findings io s k m = [] \<longleftrightarrow> ms_Source m = None \<or> ms_ExpectedHex m = [] \<or>
    (\<exists>blob b. map_of (vs_Blobs s) (ms_ExpectedHex m) = Some blob \<and> vi_ReadFile io (bl_Path blob) = Inr b \<and> hex_text (vi_SHA256 io b) = ms_ExpectedHex m)"
  by (auto simp: blob_findings_def Let_def split: option.splits sum.splits if_splits)

lemma schema_findings_Nil:
  "schema_findings k m src = [] \<longleftrightarrow> sj_Type src \<in> {[], ''archive''} \<and> trim_space (sj_URL src) \<noteq> [] \<and> trim_space (sj_Integrity src) \<noteq> [] \<and>
    has_prefix (sj_Integrity src) ''sha256-'' \<and> ms_ExpectedHex m \<noteq> []"
  by (auto simp: schema_findings_def Let_def split: if_splits)

lemma source_findings_Nil:
  "source_findings k m = [] \<longleftrightarrow> ms_SourceErr m = [] \<and> (\<forall>src. ms_Source m = Some src \<longrightarrow> schema_findings k m src = [])"
  by (auto simp: source_findings_def split: option.splits if_splits)

lemma module_bazel_findings_Nil: "module_bazel_findings io k m = [] \<longleftrightarrow> ms_ModuleErr m = [] \<and> vi_ParseModule io (ms_ModuleRaw m) = None"
  by (auto simp: module_bazel_findings_def Let_def split: option.splits if_splits)

lemma only_errors:
  "f \<in> set (checkBlobIntegrity io s) \<or> f \<in> set (checkSourceJSONSchema s) \<or> f \<in> set (checkModuleBazelPresent io s) \<Longrightarrow> vf_Severity f = SevError"
  by (auto simp: checkBlobIntegrity_def checkSourceJSONSchema_def checkModuleBazelPresent_def in_per_module blob_findings_def
      source_findings_def module_bazel_findings_def schema_findings_def module_finding_def Let_def split: option.splits sum.splits if_splits)

lemma hex_text_Nil: "hex_text b = [] \<longleftrightarrow> b = []"
  by (cases b) (simp_all add: hex_text_def)

lemma trim_seqs_keeps: "c \<in> set t \<Longrightarrow> \<forall>q \<in> set seqs. c \<notin> set q \<Longrightarrow> c \<in> set (trim_seqs seqs t)"
proof (induction seqs t rule: trim_seqs.induct)
  case (1 seqs t)
  show ?case
  proof (cases "find (\<lambda>q. q \<noteq> [] \<and> has_prefix t q) seqs")
    case None
    then show ?thesis using 1 by (subst trim_seqs.simps) simp
  next
    case (Some q)
    then have q: "q \<in> set seqs" "take (length q) t = q" by (auto simp: find_Some_iff has_prefix_def)
    then have "c \<in> set (drop (length q) t)" using 1(2,3) by (metis Un_iff append_take_drop_id set_append)
    then show ?thesis using 1 Some by (subst trim_seqs.simps) simp
  qed
qed

lemma sriToHex_Some:
  assumes "sriToHex sri = Some h"
  shows "h \<noteq> [] \<and> has_prefix sri ''sha256-'' \<and> trim_space sri \<noteq> []"
proof -
  obtain b where b: "length b = 32" "h = hex_text b" and p: "take 7 sri = ''sha256-''"
    using assms by (auto simp: sriToHex_def split: if_splits option.splits)
  have "CHR ''h'' \<in> set (take 7 sri)" unfolding p by simp
  then have h: "CHR ''h'' \<in> set sri" by (rule in_set_takeD)
  have "\<forall>q \<in> set space_seqs. CHR ''h'' \<notin> set q" by code_simp
  then have "CHR ''h'' \<in> set (trim_space sri)" using h trim_seqs_keeps unfolding trim_space_def by simp
  then have t: "trim_space sri \<noteq> []" by force
  have l: "length ''sha256-'' = 7" by simp
  have "has_prefix sri ''sha256-''" unfolding has_prefix_def l by (rule p)
  moreover have "h \<noteq> []" using b hex_text_Nil [of b] by auto
  ultimately show ?thesis using t by blast
qed

text \<open>The checks of one version that report errors, against the files of the version.\<close>

lemma version_checks:
  assumes "buildState io mirrorRoot st = Inr s" and "\<And>p err. vi_ReadFile io p = Inl err \<Longrightarrow> err \<noteq> []"
    and "m = loadModuleState io (version_dir_path mirrorRoot k)"
  shows "blob_findings io s k m = [] \<and> source_findings k m = [] \<and> module_bazel_findings io k m = [] \<longleftrightarrow> usable_version io mirrorRoot k"
proof -
  let ?source = "vi_ReadFile io (path_Join [version_dir_path mirrorRoot k, ''source.json''])"
    and ?module = "vi_ReadFile io (path_Join [version_dir_path mirrorRoot k, ''MODULE.bazel''])"
  have parse: "fe_Text err \<noteq> []" if "ParseSourceJSON raw = Inl err" for raw err
    using that by (auto simp: ParseSourceJSON_def plain_error_def split: option.splits)
  have mod: "module_bazel_findings io k m = [] \<longleftrightarrow> (\<exists>mb. ?module = Inr mb \<and> vi_ParseModule io mb = None)"
    using assms(2) by (auto simp: module_bazel_findings_Nil assms(3) loadModuleState_def Let_def split: sum.splits)
  have src: "source_findings k m = [] \<longleftrightarrow> (\<exists>raw src h. ?source = Inr raw \<and> ParseSourceJSON raw = Inr src \<and>
      sj_Type src \<in> {[], ''archive''} \<and> trim_space (sj_URL src) \<noteq> [] \<and> sriToHex (sj_Integrity src) = Some h)"
    using assms(2) parse sriToHex_Some
    by (auto simp: source_findings_Nil schema_findings_Nil assms(3) loadModuleState_def Let_def split: sum.splits option.splits)
  have blob: "blob_findings io s k m = [] \<longleftrightarrow> stored_blob io mirrorRoot h \<and>
      (\<exists>b. vi_ReadFile io (path_Join [path_Join [mirrorRoot, ''blobs''], h]) = Inr b \<and> hex_text (vi_SHA256 io b) = h)"
    if f: "?source = Inr raw" "ParseSourceJSON raw = Inr src" "sriToHex (sj_Integrity src) = Some h" for raw src h
  proof -
    have h: "ms_Source m = Some src" "ms_ExpectedHex m = h" "h \<noteq> []"
      using f sriToHex_Some by (simp_all add: assms(3) loadModuleState_def Let_def)
    show ?thesis unfolding blob_findings_Nil
      using h buildState_Inr(2,3) [OF assms(1), of h] by (auto simp del: split_paired_Ex)
  qed
  show ?thesis unfolding usable_version_def using mod src blob by (auto 0 4)
qed

lemma errors_only: "(\<And>f. f \<in> A \<Longrightarrow> P f) \<Longrightarrow> (\<And>f. f \<in> B \<Longrightarrow> \<not> P f) \<Longrightarrow> (\<forall>f \<in> A \<union> B. \<not> P f) \<longleftrightarrow> A = {}"
  by auto

text \<open>
  C40: a full run without the deep check reports no error exactly when every version in the tree is
  usable: its source.json reads and parses to an archive with a url and a sha256 integrity, the
  blob of that integrity is there and has it, and its MODULE.bazel reads and parses; the counters
  add up to the findings, which are sorted with the errors first.
\<close>

theorem verify_clean_exact:
  assumes "run_Verify io dio open_db opts = Inr r" and "vo_Checks opts = []" and "\<not> vo_Deep opts"
    and "\<And>p err. vi_ReadFile io p = Inl err \<Longrightarrow> err \<noteq> []"
  shows "(vr_Errors r = 0 \<longleftrightarrow> (\<forall>k \<in> stored_versions io (vo_MirrorRoot opts). usable_version io (vo_MirrorRoot opts) k)) \<and>
    vr_Errors r + vr_Warnings r + vr_Info r = length (vr_Findings r) \<and>
    sorted (map finding_key (vr_Findings r))"
proof -
  obtain st s where s: "buildState io (vo_MirrorRoot opts) st = Inr s" and
    r: "vr_Findings r = sortFindings (concat (map (\<lambda>k. if enabledChecks [] k then runCheck io k s else []) allChecks))"
      "vr_Errors r = length (filter (\<lambda>f. vf_Severity f = SevError) (vr_Findings r))"
      "vr_Warnings r = length (filter (\<lambda>f. vf_Severity f = SevWarning) (vr_Findings r))"
      "vr_Info r = length (filter (\<lambda>f. vf_Severity f = SevInfo) (vr_Findings r))"
    using assms(1-3) by (auto simp: run_Verify_def Let_def count_findings split: if_splits sum.splits)
  have set: "set (vr_Findings r) = set (checkBlobIntegrity io s) \<union> set (checkSourceJSONSchema s) \<union> set (checkModuleBazelPresent io s) \<union>
      (set (checkIndexMirrorAgreement s) \<union> set (checkOrphanBlobs io s) \<union> set (checkScipPresent s))"
    unfolding r(1) runs_all sortFindings_def by auto
  have "vr_Errors r = 0 \<longleftrightarrow> checkBlobIntegrity io s = [] \<and> checkSourceJSONSchema s = [] \<and> checkModuleBazelPresent io s = []"
  proof -
    have "vr_Errors r = 0 \<longleftrightarrow> (\<forall>f \<in> set (vr_Findings r). vf_Severity f \<noteq> SevError)" unfolding r(2) by (simp add: filter_empty_conv)
    also have "\<dots> \<longleftrightarrow> set (checkBlobIntegrity io s) \<union> set (checkSourceJSONSchema s) \<union> set (checkModuleBazelPresent io s) = {}"
      unfolding set by (rule errors_only) (use only_errors [of _ io s] only_warnings [of _ s io] in blast)+
    finally show ?thesis by simp
  qed
  also have "\<dots> \<longleftrightarrow> (\<forall>k m. map_of (vs_Modules s) k = Some m \<longrightarrow>
      blob_findings io s k m = [] \<and> source_findings k m = [] \<and> module_bazel_findings io k m = [])"
    unfolding checkBlobIntegrity_def checkSourceJSONSchema_def checkModuleBazelPresent_def per_module_Nil by blast
  also have "\<dots> \<longleftrightarrow> (\<forall>k \<in> stored_versions io (vo_MirrorRoot opts). usable_version io (vo_MirrorRoot opts) k)"
    unfolding buildState_Inr(1) [OF s] using version_checks [OF s assms(4) refl] by (auto simp del: split_paired_All)
  finally have clean: "vr_Errors r = 0 \<longleftrightarrow> (\<forall>k \<in> stored_versions io (vo_MirrorRoot opts). usable_version io (vo_MirrorRoot opts) k)" .
  have total: "length (filter (\<lambda>f. vf_Severity f = SevError) fs) + length (filter (\<lambda>f. vf_Severity f = SevWarning) fs) +
      length (filter (\<lambda>f. vf_Severity f = SevInfo) fs) = length fs" for fs
  proof (induction fs)
    case (Cons f fs)
    then show ?case by (cases "vf_Severity f") auto
  qed simp
  have "sorted (map finding_key (vr_Findings r))" unfolding r(1) sortFindings_def by (rule sorted_sort_key)
  then show ?thesis using clean total [of "vr_Findings r"] by (simp add: r(2-4))
qed

text \<open>
  A run restricted to names that are none of the six standard checks reads the whole tree, runs
  nothing and reports a clean mirror: so does a misspelt name, and so do the kinds blob_missing and
  deep_report_mismatch, which findings carry.
\<close>

theorem unknown_checks_pass:
  assumes "run_Verify io dio open_db opts = Inr r" and "vo_Checks opts \<noteq> []" and "set (vo_Checks opts) \<inter> set allChecks = {}"
    and "\<not> vo_Deep opts"
  shows "vr_Findings r = [] \<and> vr_Errors r = 0 \<and> vr_Warnings r = 0 \<and> vr_Info r = 0"
proof -
  have none: "concat (map (\<lambda>k. if enabledChecks (vo_Checks opts) k then runCheck io k s else []) allChecks) = []" for s
    using assms(2,3) by (auto simp: enabledChecks_def)
  show ?thesis using assms(1,4) by (auto simp: run_Verify_def Let_def none sortFindings_def split: if_splits sum.splits)
qed

section \<open>A mirror of one version\<close>

definition one_tree :: "bytes \<Rightarrow> verify_io" where
  "one_tree content =
     \<lparr>vi_ReadDir = (\<lambda>p. if p = ''m/modules'' then ([\<lparr>de_Name = ''a'', de_IsDir = True, de_Size = 0\<rparr>], None)
        else if p = ''m/modules/a'' then ([\<lparr>de_Name = ''1.0'', de_IsDir = True, de_Size = 0\<rparr>], None)
        else if p = ''m/blobs'' then ([\<lparr>de_Name = hex_text tiny_digest, de_IsDir = False, de_Size = 1\<rparr>], None) else ([], Some NotExist)),
      vi_ReadFile = (\<lambda>p. if p = ''m/modules/a/1.0/source.json'' then Inr (tiny_document ''source.json'')
        else if p = ''m/modules/a/1.0/MODULE.bazel'' then Inr []
        else if p = path_Join [''m/blobs'', hex_text tiny_digest] then Inr content else Inl ''no such file''),
      vi_SHA256 = (\<lambda>b. if b = ''x'' then tiny_digest else replicate 32 (CHR 0x01)), vi_ParseModule = (\<lambda>b. None)\<rparr>"

definition full_run :: verify_options where
  "full_run = \<lparr>vo_MirrorRoot = ''m'', vo_DBPath = [], vo_Deep = False, vo_Checks = []\<rparr>"

lemma one_tree_paths:
  "path_Join [''m'', ''modules''] = ''m/modules''" "path_Join [''m'', ''blobs''] = ''m/blobs''" "path_Join [''m/modules'', ''a''] = ''m/modules/a''"
  "path_Join [''m/modules/a'', ''1.0''] = ''m/modules/a/1.0''" "path_Join [''m/modules/a/1.0'', ''source.json''] = ''m/modules/a/1.0/source.json''"
  "path_Join [''m/modules/a/1.0'', ''MODULE.bazel''] = ''m/modules/a/1.0/MODULE.bazel''"
  by code_simp+

lemma one_tree_stored: "stored_versions (one_tree content) ''m'' = {(''a'', ''1.0'')}"
  by (auto simp: stored_versions_def version_listed_def one_tree_paths) (auto simp: one_tree_def one_tree_paths)

lemma one_tree_ran: "\<exists>r. run_Verify (one_tree content) dio open_db full_run = Inr r"
proof -
  have "buildState (one_tree content) ''m'' None \<noteq> Inl err" for err
    by (auto simp: buildState_def Let_def walkModules_def listBlobs_def one_tree_paths split: prod.splits option.splits dir_error.splits)
      (auto simp: one_tree_def split: if_splits)
  then obtain s where "buildState (one_tree content) ''m'' None = Inr s" by (metis sum.exhaust)
  then show ?thesis by (auto simp: run_Verify_def full_run_def Let_def)
qed

lemma tiny_digest_hex:
  "sriToHex (SRI tiny_digest) = Some (hex_text tiny_digest)" "hexBlob (hex_text tiny_digest)"
  "hex_text (replicate 32 (CHR 0x01)) \<noteq> hex_text tiny_digest" "trim_space ''t'' \<noteq> []"
proof -
  have t: "drop 7 (SRI tiny_digest) = base64 tiny_digest" "take 7 (SRI tiny_digest) = ''sha256-''" by (simp_all add: SRI_def)
  have l: "length tiny_digest = 32" by (simp add: tiny_digest_def)
  have "filter (\<lambda>c. c \<noteq> CHR 0x0A \<and> c \<noteq> CHR 0x0D) (base64 tiny_digest) = base64 tiny_digest"
    by (rule filter_True) (use base64_no_break [of tiny_digest] in \<open>simp add: list_all_iff\<close>)
  then have b: "base64_decode (base64 tiny_digest) = Some tiny_digest" by (simp add: base64_decode_def decode_base64)
  show "sriToHex (SRI tiny_digest) = Some (hex_text tiny_digest)"
    unfolding sriToHex_def t b using l by (simp add: SRI_def length_tiny)
  have e: "hex_lower 6 = CHR ''6''" "hex_lower 11 = CHR ''b''" "hex_lower 0 = CHR ''0''" "hex_lower 1 = CHR ''1''" "hex_lower (Suc 0) = CHR ''1''" by code_simp+
  have h: "hex_text tiny_digest = concat (replicate 32 ''6b'')" "hex_text (replicate 32 (CHR 0x01)) = concat (replicate 32 ''01'')"
    unfolding hex_text_def tiny_digest_def map_replicate by (simp_all add: e)
  show "hexBlob (hex_text tiny_digest)" unfolding h(1) hexBlob_def by (simp add: in_range_def numeral_eq_Suc)
  show "hex_text (replicate 32 (CHR 0x01)) \<noteq> hex_text tiny_digest" unfolding h by (simp add: numeral_eq_Suc)
  show "trim_space ''t'' \<noteq> []" by code_simp
qed

lemma one_tree_usable: "usable_version (one_tree content) ''m'' (''a'', ''1.0'') \<longleftrightarrow> content = ''x''"
proof -
  have n: "hex_text tiny_digest \<noteq> []" using tiny_digest_hex(1) sriToHex_Some by blast
  have b: "path_Join [''m/blobs'', hex_text tiny_digest] \<noteq> ''m/modules/a/1.0/source.json''" "path_Join [''m/blobs'', hex_text tiny_digest] \<noteq> ''m/modules/a/1.0/MODULE.bazel''"
    by code_simp+
  have f: "vi_ReadFile (one_tree content) ''m/modules/a/1.0/source.json'' = Inr (tiny_document ''source.json'')" "vi_ReadFile (one_tree content) ''m/modules/a/1.0/MODULE.bazel'' = Inr []"
    "vi_ReadFile (one_tree content) (path_Join [''m/blobs'', hex_text tiny_digest]) = Inr content" "vi_ParseModule (one_tree content) mb = None" for mb
    using b by (simp_all add: one_tree_def)
  have h: "hex_text (vi_SHA256 (one_tree content) content) = hex_text tiny_digest \<longleftrightarrow> content = ''x''" using tiny_digest_hex(3) by (simp add: one_tree_def)
  have s: "stored_blob (one_tree content) ''m'' (hex_text tiny_digest)"
    using tiny_digest_hex(2) unfolding stored_blob_def one_tree_paths by (simp add: one_tree_def)
  show ?thesis
    unfolding usable_version_def version_dir_path_def fst_conv snd_conv one_tree_paths
    using tiny_digest_hex(1,4) tiny_parse s h by (auto simp: f tiny_source_def empty_source_def)
qed

lemma one_tree_reads: "vi_ReadFile (one_tree content) p = Inl err \<Longrightarrow> err \<noteq> []"
  by (auto simp: one_tree_def split: if_splits)

lemma verify_clean_exact_witness:
  "\<forall>dio open_db. (\<exists>r. run_Verify (one_tree ''x'') dio open_db full_run = Inr r \<and> vr_Errors r = 0) \<and>
    (\<exists>r. run_Verify (one_tree ''y'') dio open_db full_run = Inr r \<and> vr_Errors r \<noteq> 0)"
proof (intro allI)
  fix dio open_db
  have o: "vo_MirrorRoot full_run = ''m''" "vo_Checks full_run = []" "\<not> vo_Deep full_run" by (simp_all add: full_run_def)
  have e: "vr_Errors r = 0 \<longleftrightarrow> content = ''x''" if "run_Verify (one_tree content) dio open_db full_run = Inr r" for r content
    using verify_clean_exact [OF that o(2,3) one_tree_reads] by (simp add: o(1) one_tree_stored one_tree_usable)
  show "(\<exists>r. run_Verify (one_tree ''x'') dio open_db full_run = Inr r \<and> vr_Errors r = 0) \<and>
    (\<exists>r. run_Verify (one_tree ''y'') dio open_db full_run = Inr r \<and> vr_Errors r \<noteq> 0)"
    using one_tree_ran [of "''x''" dio open_db] one_tree_ran [of "''y''" dio open_db] e by fastforce
qed

lemma one_check_ran: "\<exists>r. run_Verify (one_tree content) dio open_db (full_run\<lparr>vo_Checks := cs\<rparr>) = Inr r"
  using one_tree_ran [of content dio open_db] by (auto simp: run_Verify_def full_run_def Let_def split: sum.splits)

lemma unknown_checks_pass_witness:
  "\<forall>dio open_db. \<exists>r. run_Verify (one_tree ''y'') dio open_db (full_run\<lparr>vo_Checks := [KindBlobMissing]\<rparr>) = Inr r \<and> vr_Errors r = 0"
proof (intro allI)
  fix dio open_db
  obtain r where r: "run_Verify (one_tree ''y'') dio open_db (full_run\<lparr>vo_Checks := [KindBlobMissing]\<rparr>) = Inr r" using one_check_ran by blast
  have "set (vo_Checks (full_run\<lparr>vo_Checks := [KindBlobMissing]\<rparr>)) \<inter> set allChecks = {}" "vo_Checks (full_run\<lparr>vo_Checks := [KindBlobMissing]\<rparr>) \<noteq> []"
    "\<not> vo_Deep (full_run\<lparr>vo_Checks := [KindBlobMissing]\<rparr>)" by (simp_all add: full_run_def allChecks_def kind_defs)
  then show "\<exists>r. run_Verify (one_tree ''y'') dio open_db (full_run\<lparr>vo_Checks := [KindBlobMissing]\<rparr>) = Inr r \<and> vr_Errors r = 0"
    using unknown_checks_pass [OF r] r by blast
qed

end
