(* ===== verification/Spec2Isabelle.thy ===== *)
theory Spec2Isabelle
  imports ClosureDiff Pool RegistryServer Actions EventBus Resolve Drift MirrorVerify
begin

text \<open>
  A verification development for bzlhub, a registry hub for Bazel modules (Go, src/internal).

  The hub takes requests to admit a version of a module, checks them against a policy, fetches
  and publishes what passes, keeps an audit log, mirrors dependency closures from an upstream
  registry, and answers questions about how two versions of a module, or two closures of
  dependencies, differ. Each theory names the files it models and keeps their names and order.

  Foundations:
  \<^item> Prelude: lists and maps as Go has them (a map is an association list with distinct keys, a
    range over it any permutation), byte strings, sorting, the strings package. Json: encoding/json
    on byte strings with a parser that is proved to read back what the encoder writes. Http: a
    response with its status, body and read error; the client is a parameter. WorkQueue: the
    contract of a queue of jobs that workers claim, as a locale; the two runners interpret it.

  Comparing modules:
  \<^item> ModuleDiff, Breaking (src/internal/modulediff): the report of the public surface of two
    versions, the structural diff of every section, and the eleven kinds of breaking changes.
  \<^item> ClosureDiff (src/internal/closurediff): the walk over two closures with a resolver that is a
    parameter, the worker pool as an arbitrary completion order, and the accounting.

  Procurement, from the request to the index:
  \<^item> Requests (src/internal/store/requests.go): the request table, the state graph, every operation
    on it, and the step relation of all runs of the table.
  \<^item> Policy (src/internal/policy, src/internal/auth): gates, the cached maintainer check, profiles
    and their overlay, the identity file and the token registry. Caches
    (src/internal/policy/evaluator.go, src/internal/backend/cache.go): the two least-recently-used
    caches.
  \<^item> AuditLog (src/internal/store/audit.go, src/internal/audit): the audit table, the webhook
    daemon and the retention sweep.
  \<^item> RateLimit (src/internal/ratelimit), Middleware (src/internal/server, the identity
    middleware), Handlers, Procurement (src/internal/server, the request and maintainer endpoints):
    who the caller is, how often they may call, and what every endpoint does and answers, with
    other clients acting between its statements.
  \<^item> Preflight, PreflightRunner (src/internal/preflight): the checker and one tick of a worker.
  \<^item> Publish, Admit, AdmitRunner (src/internal/publish/publish.go, src/internal/fetch/sri.go,
    src/internal/admit, src/internal/purge): the integrity check, the source.json of a new entry,
    the download and the pipeline, one tick of a worker with its retries, the purge and the boot
    sweep.
  \<^item> Pool: the endpoints, any number of workers of both kinds and the boot sweep over one request
    table, in every interleaving: exclusive ownership, and who can index a request.

  Mirroring:
  \<^item> Egress (src/internal/egress, src/internal/fetch/allowlist.go): the policy and the allowlist
    that every outbound request passes, redirects included, and the audit trail of them.
  \<^item> Registry (src/internal/fetch/registry.go): the documents and archives of a registry.
  \<^item> Mirror (src/internal/mirror): atomic file writes, the content-addressed blob store and the
    merge of metadata.json, over a disk that maps paths to contents.
  \<^item> ClosureWalk (src/internal/ingest/recursive.go): what a worker does for one version, and the
    coordinator with its workers and two bounded channels as a step relation.
  \<^item> Publication: the abstract protocol of a mirror tree (the stages of an entry, failures and
    crashes), that a listed version is complete in every run of it, and that the code of a worker
    refines it.

  Serving the registry:
  \<^item> Paths: path.Clean and path.Join. Backends (src/internal/backend/backend.go, file.go,
    bcrmirror.go, bundle.go, httpstore.go, from_root.go): the storage interface, the paths that the
    directory backend opens and that they stay inside its root, and the adapters over the mirror,
    bundle and HTTP-store libraries, which are parameters.
  \<^item> Cascade (src/internal/backend/cascade.go, probe.go, probe_boot.go): the federation of a primary
    with upstream registries; the results of the concurrent probes come in any order, each of two
    atomic operations on the shared response cache; the promote and collision hooks; the health
    probes.
  \<^item> RegistryServer (src/internal/server/bcr_handlers.go, mirrorindex.go): what each endpoint that
    Bazel reads answers, and the index from the URL of an archive to its blob. Its last theorem
    composes the mirror tree with the index, the directory backend and the endpoint.

  Ingesting on demand:
  \<^item> Flags (src/internal/featureflags): the flags that the environment gives and the start-up checks.
  \<^item> ClosureGraph (src/internal/bzlhub/service_closure.go): the breadth-first walk over the stored
    reports, against the coordinates within ten dependencies of the root; what is missing of it.
  \<^item> Actions (src/internal/server/action_handlers.go, response.go): the endpoints that ingest, with
    the kill switch, the limiter and the guard on the upstream, and conditional answers.
  \<^item> EventBus (src/internal/eventbus): the subscribers and their channels, every interleaving of
    publishers, subscriptions and closings as a step relation.

  Archives, drift and verification:
  \<^item> Extract (src/internal/archive): the tar.gz and zip extractors over a file system that may fail,
    where they write and how much. Resolve (src/internal/resolve): a version fetched, checked and
    unpacked in one pass, with what the integrity check and the tee writer see of the stream.
  \<^item> Drift (src/internal/drift): the comparison of versions on 64-bit segments, the verdicts on a
    module and on a version, and the report of concurrent workers.
  \<^item> MirrorVerify (src/internal/verify): the snapshot of a mirror and its index, the checks, and the
    sorted report; a clean report against the files of every version.

  Groups of lemmas: the \<open>_exact\<close> theorems give the result of an operation on every branch; the step
  relations (request table, pool, closure walk, publication) carry an invariant by rule induction;
  \<open>_drains\<close>, \<open>walk_terminates\<close> and \<open>transition_graph_terminates\<close> bound the steps; the Json lemmas
  give the round trips.

  Bounds and fuel: a closure walk takes at most five steps per key (send, take, find, report,
  absorb); a redirect chain at most ten requests, the limit of Go's client; the JSON parser at most
  10000 levels, the decoder's own limit, with fuel one more than the length of the text; the retry
  loop of an admission at most its configured attempts; all other recursion is structural.

  Not modelled: the clocks and goroutine schedulers (a time is an argument, a schedule an order
  of steps), SQL itself (a table is a list of rows, a statement may fail), TLS and the network
  (parameters), the tar, gzip and zip formats (a stream is its list of entries), and the parts the
  manifest lists as such: the hub service's queries for display, HTML rendering and templates, the
  documentation views, the SCIP index, forge clients, publishers and start-up wiring, which are
  glue over third-party libraries.
\<close>

end
